(* ===== verification/Go_Prelude.thy ===== *)
theory Go_Prelude
  imports Main "HOL-Library.Word"
begin

text \<open>
  Shared vocabulary of the development: machine integers, Go error values with
  \<^verbatim>\<open>errors.Is\<close>, \<^verbatim>\<open>errors.As\<close> and \<^verbatim>\<open>errors.Join\<close>, fallible results, and the generic
  list facts that the component theories use. Go strings are byte sequences, and a HOL
  \<^typ>\<open>char\<close> is a byte, so a Go string is a HOL \<^typ>\<open>string\<close>; binary data is a list of
  8-bit words.
\<close>

unbundle bit_operations_syntax

section \<open>Collections of facts\<close>

named_theorems err_simps \<open>computation rules for error values\<close>
named_theorems inv_intros \<open>operations that keep the invariant of their component\<close>

section \<open>Machine integers\<close>

type_synonym u8 = "8 word"
type_synonym u16 = "16 word"
type_synonym u64 = "64 word"

section \<open>Error values\<close>

text \<open>
  Sentinel errors that the code compares with \<^verbatim>\<open>errors.Is\<close>: the package's own
  (api.go) and those of \<^verbatim>\<open>net\<close>, \<^verbatim>\<open>io\<close>, \<^verbatim>\<open>context\<close> and \<^verbatim>\<open>io/fs\<close>.
\<close>

datatype sentinel =
    ErrClosed | ErrUnsupported | ErrOutboundUnavailable | ErrUnsupportedTransport
  | NetErrClosed | IoEOF | IoUnexpectedEOF | ContextCanceled | ContextDeadlineExceeded
  | FsErrNotExist

text \<open>
  An error is a sentinel, a message made with \<^verbatim>\<open>errors.New\<close> or \<^verbatim>\<open>fmt.Errorf\<close>, a
  message that wraps another error (\<^verbatim>\<open>%w\<close>), a \<^verbatim>\<open>errors.Join\<close>, a
  \<^verbatim>\<open>*control.Error\<close> with its status code, or a \<^verbatim>\<open>*StartupError\<close> with its stage.
\<close>

datatype goerr =
    Sentinel sentinel
  | Msg string
  | Wrap string goerr
  | Joined "goerr list"
  | ControlError int
  | StartupError u8 goerr

type_synonym 'a res = "goerr + 'a"

fun errors_is :: "goerr \<Rightarrow> sentinel \<Rightarrow> bool" where
  "errors_is (Sentinel s) t = (s = t)"
| "errors_is (Msg m) t = False"
| "errors_is (Wrap m e) t = errors_is e t"
| "errors_is (Joined es) t = list_ex (\<lambda>e. errors_is e t) es"
| "errors_is (ControlError c) t = False"
| "errors_is (StartupError st e) t = errors_is e t"

text \<open>\<^verbatim>\<open>errors.As\<close> searches in pre-order and returns the first match.\<close>

fun errors_as_control :: "goerr \<Rightarrow> int option" where
  "errors_as_control (Sentinel s) = None"
| "errors_as_control (Msg m) = None"
| "errors_as_control (Wrap m e) = errors_as_control e"
| "errors_as_control (Joined es) =
     foldr (\<lambda>e acc. case errors_as_control e of None \<Rightarrow> acc | Some c \<Rightarrow> Some c) es None"
| "errors_as_control (ControlError c) = Some c"
| "errors_as_control (StartupError st e) = errors_as_control e"

fun errors_as_startup :: "goerr \<Rightarrow> u8 option" where
  "errors_as_startup (Sentinel s) = None"
| "errors_as_startup (Msg m) = None"
| "errors_as_startup (Wrap m e) = errors_as_startup e"
| "errors_as_startup (Joined es) =
     foldr (\<lambda>e acc. case errors_as_startup e of None \<Rightarrow> acc | Some c \<Rightarrow> Some c) es None"
| "errors_as_startup (ControlError c) = None"
| "errors_as_startup (StartupError st e) = Some st"

fun cat_options :: "'a option list \<Rightarrow> 'a list" where
  "cat_options [] = []"
| "cat_options (None # xs) = cat_options xs"
| "cat_options (Some x # xs) = x # cat_options xs"

text \<open>\<^verbatim>\<open>errors.Join\<close> drops nil errors and is nil when nothing is left.\<close>

definition errors_join :: "goerr option list \<Rightarrow> goerr option" where
  "errors_join xs = (case cat_options xs of [] \<Rightarrow> None | es \<Rightarrow> Some (Joined es))"

lemma cat_options_append [simp]: "cat_options (xs @ ys) = cat_options xs @ cat_options ys"
  by (induction xs rule: cat_options.induct) auto

lemma set_cat_options [simp]: "x \<in> set (cat_options xs) \<longleftrightarrow> Some x \<in> set xs"
  by (induction xs rule: cat_options.induct) auto

lemma cat_options_Nil_iff: "cat_options xs = [] \<longleftrightarrow> (\<forall>x\<in>set xs. x = None)"
  by (induction xs rule: cat_options.induct) auto

lemma errors_join_None_iff [err_simps]: "errors_join xs = None \<longleftrightarrow> (\<forall>x\<in>set xs. x = None)"
  by (simp add: errors_join_def cat_options_Nil_iff [symmetric] split: list.splits)

lemma errors_join_Nil [simp]: "errors_join [] = None"
  by (simp add: errors_join_def)

lemma errors_join_Some_Cons [simp]: "errors_join (Some e # xs) = Some (Joined (e # cat_options xs))"
  by (simp add: errors_join_def)

lemma errors_join_None_Cons [simp]: "errors_join (None # xs) = errors_join xs"
  by (simp add: errors_join_def)

lemma errors_is_join [err_simps]:
  "errors_join xs = Some e \<Longrightarrow> errors_is e t \<longleftrightarrow> (\<exists>d. Some d \<in> set xs \<and> errors_is d t)"
  by (auto simp: errors_join_def list_ex_iff split: list.splits)
     (metis list.set_intros set_cat_options set_ConsD)+

section \<open>Lists\<close>

definition butlast_n :: "nat \<Rightarrow> 'a list \<Rightarrow> 'a list" where
  "butlast_n n xs = take (length xs - n) xs"

definition last_n :: "nat \<Rightarrow> 'a list \<Rightarrow> 'a list" where
  "last_n n xs = drop (length xs - n) xs"

lemma length_last_n [simp]: "length (last_n n xs) = min n (length xs)"
  by (simp add: last_n_def)

lemma last_n_all [simp]: "length xs \<le> n \<Longrightarrow> last_n n xs = xs"
  by (simp add: last_n_def)

lemma set_last_n: "set (last_n n xs) \<subseteq> set xs"
  by (simp add: last_n_def set_drop_subset)

lemma last_n_last_n_append: "last_n n (last_n n xs @ ys) = last_n n (xs @ ys)"
proof (cases "length xs \<le> n")
  case False
  then have "length xs + length ys - n = length xs - n + length ys" by simp
  with False show ?thesis by (simp add: last_n_def add.commute)
qed simp

lemma last_n_snoc_full:
  "length xs = n \<Longrightarrow> 0 < n \<Longrightarrow> tl xs @ [x] = last_n n (xs @ [x])"
  by (cases xs) (auto simp: last_n_def)

end
