(* ===== verification/Go_Strings.thy ===== *)
theory Go_Strings
  imports Go_Prelude
begin

text \<open>
  The parts of Go's \<^verbatim>\<open>unicode/utf8\<close>, \<^verbatim>\<open>strings\<close> and \<^verbatim>\<open>strconv\<close> packages that the
  program calls, on byte strings. A \<^verbatim>\<open>for _, r := range s\<close> loop visits the runes of
  \<open>s\<close>; \<open>runes\<close> models it, and \<open>runes_all\<close> reduces the program's rune tests to tests of
  the bytes. The Unicode case table above ASCII is a parameter (\<open>U\<close>) of \<open>ToUpper\<close> and
  \<open>ToLower\<close>.
\<close>

section \<open>Bytes and runes\<close>

abbreviation byte :: "char \<Rightarrow> nat" where
  "byte c \<equiv> of_char c"

abbreviation chr :: "nat \<Rightarrow> char" where
  "chr n \<equiv> char_of n"

lemma byte_less [simp]: "byte c < 256"
  by (metis mod_less_divisor of_char_mod_256 zero_less_numeral)

definition cont :: "nat \<Rightarrow> bool" where
  "cont b \<longleftrightarrow> 128 \<le> b \<and> b \<le> 191"

text \<open>
  \<^verbatim>\<open>utf8.DecodeRuneInString\<close>: the rune at the head of the string and its width; an
  invalid sequence is \<^verbatim>\<open>utf8.RuneError\<close> (65533) of width 1.
\<close>

definition decode_rune :: "string \<Rightarrow> nat \<times> nat" where
  "decode_rune s = (case map byte (take 4 s) of
     [] \<Rightarrow> (65533, 0)
   | b0 # bs \<Rightarrow>
       if b0 < 128 then (b0, 1)
       else if 194 \<le> b0 \<and> b0 \<le> 223 then
         (case bs of b1 # _ \<Rightarrow>
            if cont b1 then ((b0 - 192) * 64 + (b1 - 128), 2) else (65533, 1)
          | _ \<Rightarrow> (65533, 1))
       else if 224 \<le> b0 \<and> b0 \<le> 239 then
         (case bs of b1 # b2 # _ \<Rightarrow>
            if (if b0 = 224 then 160 else 128) \<le> b1 \<and> b1 \<le> (if b0 = 237 then 159 else 191) \<and> cont b2
            then ((b0 - 224) * 4096 + (b1 - 128) * 64 + (b2 - 128), 3) else (65533, 1)
          | _ \<Rightarrow> (65533, 1))
       else if 240 \<le> b0 \<and> b0 \<le> 244 then
         (case bs of b1 # b2 # b3 # _ \<Rightarrow>
            if (if b0 = 240 then 144 else 128) \<le> b1 \<and> b1 \<le> (if b0 = 244 then 143 else 191) \<and> cont b2 \<and> cont b3
            then ((b0 - 240) * 262144 + (b1 - 128) * 4096 + (b2 - 128) * 64 + (b3 - 128), 4) else (65533, 1)
          | _ \<Rightarrow> (65533, 1))
       else (65533, 1))"

text \<open>What every decoded head rune satisfies: an ASCII byte stands for itself, and a
  non-ASCII rune is made of non-ASCII bytes only.\<close>

lemma decode_rune_shape:
  assumes "decode_rune (c # s) = (r, n)"
  shows "(byte c < 128 \<and> r = byte c \<and> n = 1) \<or>
     (128 \<le> r \<and> 1 \<le> n \<and> n \<le> length (c # s) \<and> (\<forall>d\<in>set (take n (c # s)). 128 \<le> byte d))"
proof -
  consider "s = []" | a where "s = [a]" | a b where "s = [a, b]" | a b d t where "s = a # b # d # t"
    by (cases s rule: remdups_adj.cases; metis list.exhaust)
  then show ?thesis
    using assms
    by cases (auto simp: decode_rune_def cont_def split: if_splits)
qed

function runes :: "string \<Rightarrow> nat list" where
  "runes [] = []"
| "runes (c # s) = (case decode_rune (c # s) of (r, n) \<Rightarrow> r # runes (drop (n - 1) s))"
  by pat_completeness auto
termination
  by (relation "measure length") auto

declare runes.simps(2) [simp del]

lemma runes_all:
  assumes "\<And>r. 128 \<le> r \<Longrightarrow> P r = b"
  shows "list_all P (runes s) = list_all (\<lambda>c. P (byte c)) s"
proof (induction s rule: runes.induct)
  case (2 c s)
  obtain r n where d: "decode_rune (c # s) = (r, n)" by fastforce
  have IH: "list_all P (runes (drop (n - 1) s)) = list_all (\<lambda>c. P (byte c)) (drop (n - 1) s)"
    using 2 [OF d [symmetric]] by simp
  from decode_rune_shape [OF d] show ?case
  proof
    assume "byte c < 128 \<and> r = byte c \<and> n = 1"
    with IH d show ?thesis by (simp add: runes.simps)
  next
    assume *: "128 \<le> r \<and> 1 \<le> n \<and> n \<le> length (c # s) \<and> (\<forall>d\<in>set (take n (c # s)). 128 \<le> byte d)"
    then have c: "128 \<le> byte c" and hd: "\<forall>d\<in>set (take (n - 1) s). 128 \<le> byte d"
      by (cases n; auto)+
    have hd': "list_all (\<lambda>c. P (byte c)) (take (n - 1) s) = (b \<or> take (n - 1) s = [])"
      using hd assms by (cases "take (n - 1) s") (auto simp: list_all_iff)
    have split: "list_all (\<lambda>c. P (byte c)) s =
        (list_all (\<lambda>c. P (byte c)) (take (n - 1) s) \<and> list_all (\<lambda>c. P (byte c)) (drop (n - 1) s))"
      by (metis append_take_drop_id list_all_append)
    show ?thesis
      using * c IH d hd' split assms by (auto simp: runes.simps)
  qed
qed simp

lemma runes_ascii: "list_all (\<lambda>c. byte c < 128) s \<Longrightarrow> runes s = map byte s"
  by (induction s) (auto simp: runes.simps decode_rune_def)

text \<open>\<^verbatim>\<open>utf8.AppendRune\<close>: the encoding of a rune, of RuneError for an invalid one.\<close>

definition encode_rune :: "nat \<Rightarrow> string" where
  "encode_rune r =
    (if r < 128 then [chr r]
     else if r < 2048 then [chr (192 + r div 64), chr (128 + r mod 64)]
     else if 1114111 < r \<or> (55296 \<le> r \<and> r \<le> 57343) then [chr 239, chr 191, chr 189]
     else if r < 65536 then
       [chr (224 + r div 4096), chr (128 + (r div 64) mod 64), chr (128 + r mod 64)]
     else [chr (240 + r div 262144), chr (128 + (r div 4096) mod 64),
           chr (128 + (r div 64) mod 64), chr (128 + r mod 64)])"

section \<open>Package strings\<close>

type_synonym casemap = "nat \<Rightarrow> nat"

definition upper_byte :: "nat \<Rightarrow> nat" where
  "upper_byte b = (if 97 \<le> b \<and> b \<le> 122 then b - 32 else b)"

definition lower_byte :: "nat \<Rightarrow> nat" where
  "lower_byte b = (if 65 \<le> b \<and> b \<le> 90 then b + 32 else b)"

definition ToUpper :: "casemap \<Rightarrow> string \<Rightarrow> string" where
  "ToUpper U s =
    (if list_all (\<lambda>c. byte c < 128) s then map (\<lambda>c. chr (upper_byte (byte c))) s
     else concat (map (\<lambda>r. encode_rune (if r < 128 then upper_byte r else U r)) (runes s)))"

definition ToLower :: "casemap \<Rightarrow> string \<Rightarrow> string" where
  "ToLower U s =
    (if list_all (\<lambda>c. byte c < 128) s then map (\<lambda>c. chr (lower_byte (byte c))) s
     else concat (map (\<lambda>r. encode_rune (if r < 128 then lower_byte r else U r)) (runes s)))"

definition HasPrefix :: "string \<Rightarrow> string \<Rightarrow> bool" where
  "HasPrefix s p \<longleftrightarrow> take (length p) s = p"

definition HasSuffix :: "string \<Rightarrow> string \<Rightarrow> bool" where
  "HasSuffix s p \<longleftrightarrow> length p \<le> length s \<and> drop (length s - length p) s = p"

definition CutPrefix :: "string \<Rightarrow> string \<Rightarrow> string option" where
  "CutPrefix s p = (if HasPrefix s p then Some (drop (length p) s) else None)"

definition TrimPrefix :: "string \<Rightarrow> string \<Rightarrow> string" where
  "TrimPrefix s p = (if HasPrefix s p then drop (length p) s else s)"

definition TrimSuffix :: "string \<Rightarrow> string \<Rightarrow> string" where
  "TrimSuffix s p = (if HasSuffix s p then take (length s - length p) s else s)"

text \<open>\<^verbatim>\<open>strings.Cut\<close> at a one-byte separator.\<close>

fun Cut :: "char \<Rightarrow> string \<Rightarrow> (string \<times> string) option" where
  "Cut c [] = None"
| "Cut c (x # xs) =
    (if x = c then Some ([], xs)
     else case Cut c xs of None \<Rightarrow> None | Some (k, v) \<Rightarrow> Some (x # k, v))"

fun Split :: "char \<Rightarrow> string \<Rightarrow> string list" where
  "Split c [] = [[]]"
| "Split c (x # xs) =
    (if x = c then [] # Split c xs
     else case Split c xs of [] \<Rightarrow> [[x]] | y # ys \<Rightarrow> (x # y) # ys)"

fun Join :: "string \<Rightarrow> string list \<Rightarrow> string" where
  "Join sep [] = []"
| "Join sep [x] = x"
| "Join sep (x # y # ys) = x @ sep @ Join sep (y # ys)"

definition ContainsAny :: "string \<Rightarrow> string \<Rightarrow> bool" where
  "ContainsAny s cs \<longleftrightarrow> list_ex (\<lambda>c. c \<in> set cs) s"

fun Contains :: "string \<Rightarrow> string \<Rightarrow> bool" where
  "Contains [] p = (p = [])"
| "Contains (c # s) p = (HasPrefix (c # s) p \<or> Contains s p)"

text \<open>\<^verbatim>\<open>strings.Index\<close>: the offset of the first occurrence.\<close>

fun Index :: "string \<Rightarrow> string \<Rightarrow> nat option" where
  "Index [] p = (if p = [] then Some 0 else None)"
| "Index (c # s) p = (if HasPrefix (c # s) p then Some 0 else map_option Suc (Index s p))"

text \<open>\<^verbatim>\<open>strings.ReplaceAll\<close> for a nonempty pattern: left to right, not overlapping.\<close>

function ReplaceAll :: "string \<Rightarrow> string \<Rightarrow> string \<Rightarrow> string" where
  "ReplaceAll [] old new = []"
| "ReplaceAll (c # s) old new =
    (if old \<noteq> [] \<and> HasPrefix (c # s) old then new @ ReplaceAll (drop (length old - 1) s) old new
     else c # ReplaceAll s old new)"
  by pat_completeness auto
termination
  by (relation "measure (\<lambda>(s, _, _). length s)") auto

declare ReplaceAll.simps(2) [simp del]

definition TrimRight :: "string \<Rightarrow> string \<Rightarrow> string" where
  "TrimRight s cs = rev (dropWhile (\<lambda>c. c \<in> set cs) (rev s))"

definition Trim :: "string \<Rightarrow> string \<Rightarrow> string" where
  "Trim s cs = TrimRight (dropWhile (\<lambda>c. c \<in> set cs) s) cs"

text \<open>
  The width of the \<^verbatim>\<open>unicode.IsSpace\<close> rune that starts a string, 0 if there is none.
  No byte that starts such a rune occurs inside another valid sequence, so a scan at
  every byte position sees the same spaces as Go's scan over runes.
\<close>

definition space_len :: "string \<Rightarrow> nat" where
  "space_len s = (case map byte (take 3 s) of
     [] \<Rightarrow> 0
   | b0 # bs \<Rightarrow>
       if (9 \<le> b0 \<and> b0 \<le> 13) \<or> b0 = 32 then 1
       else (case bs of
           [] \<Rightarrow> 0
         | b1 # cs \<Rightarrow>
             if b0 = 194 \<and> (b1 = 133 \<or> b1 = 160) then 2
             else (case cs of
                 [] \<Rightarrow> 0
               | b2 # _ \<Rightarrow>
                   if (b0 = 225 \<and> b1 = 154 \<and> b2 = 128) \<or>
                      (b0 = 226 \<and> b1 = 128 \<and> ((128 \<le> b2 \<and> b2 \<le> 138) \<or> b2 = 168 \<or> b2 = 169 \<or> b2 = 175)) \<or>
                      (b0 = 226 \<and> b1 = 129 \<and> b2 = 159) \<or>
                      (b0 = 227 \<and> b1 = 128 \<and> b2 = 128)
                   then 3 else 0)))"

lemma space_len_Nil [simp]: "space_len [] = 0"
  by (simp add: space_len_def)

lemma space_len_pos: "0 < space_len s \<Longrightarrow> s \<noteq> []"
  by auto

function TrimLeftSpace :: "string \<Rightarrow> string" where
  "TrimLeftSpace s =
    (if 0 < space_len s then TrimLeftSpace (drop (space_len s) s) else s)"
  by pat_completeness auto
termination
  by (relation "measure length") (auto intro!: diff_less dest: space_len_pos)

declare TrimLeftSpace.simps [simp del]

function TrimRightSpace :: "string \<Rightarrow> string" where
  "TrimRightSpace s =
    (if s \<noteq> [] \<and> space_len (last_n 1 s) = 1 then TrimRightSpace (butlast_n 1 s)
     else if 2 \<le> length s \<and> space_len (last_n 2 s) = 2 then TrimRightSpace (butlast_n 2 s)
     else if 3 \<le> length s \<and> space_len (last_n 3 s) = 3 then TrimRightSpace (butlast_n 3 s)
     else s)"
  by pat_completeness auto
termination
  by (relation "measure length") (auto simp: butlast_n_def)

declare TrimRightSpace.simps [simp del]

definition TrimSpace :: "string \<Rightarrow> string" where
  "TrimSpace s = TrimRightSpace (TrimLeftSpace s)"

text \<open>\<^verbatim>\<open>strings.Fields\<close>: the maximal runs without white space.\<close>

function Fields_from :: "string \<Rightarrow> string \<Rightarrow> string list" where
  "Fields_from cur [] = (if cur = [] then [] else [cur])"
| "Fields_from cur (c # s) =
    (if space_len (c # s) = 0 then Fields_from (cur @ [c]) s
     else (if cur = [] then [] else [cur]) @ Fields_from [] (drop (space_len (c # s) - 1) s))"
  by pat_completeness auto
termination
  by (relation "measure (\<lambda>(_, s). length s)") auto

declare Fields_from.simps(2) [simp del]

definition Fields :: "string \<Rightarrow> string list" where
  "Fields s = Fields_from [] s"

section \<open>Facts about the string routines\<close>

lemma HasPrefix_append [simp]: "HasPrefix (p @ s) p"
  by (simp add: HasPrefix_def)

lemma HasPrefix_iff: "HasPrefix s p \<longleftrightarrow> (\<exists>t. s = p @ t)"
  by (metis HasPrefix_append HasPrefix_def append_take_drop_id)

lemma HasSuffix_iff: "HasSuffix s p \<longleftrightarrow> (\<exists>t. s = t @ p)"
proof
  assume "HasSuffix s p"
  then have "s = take (length s - length p) s @ p"
    unfolding HasSuffix_def by (metis append_take_drop_id)
  then show "\<exists>t. s = t @ p" by blast
qed (auto simp: HasSuffix_def)

lemma CutPrefix_append [simp]: "CutPrefix (p @ s) p = Some s"
  by (simp add: CutPrefix_def)

lemma CutPrefix_Some_iff: "CutPrefix s p = Some t \<longleftrightarrow> s = p @ t"
  by (auto simp: CutPrefix_def HasPrefix_iff)

lemma TrimPrefix_append [simp]: "TrimPrefix (p @ s) p = s"
  by (simp add: TrimPrefix_def)

lemma TrimSuffix_append [simp]: "TrimSuffix (s @ p) p = s"
  by (simp add: TrimSuffix_def HasSuffix_def)

lemma Cut_append: "c \<notin> set k \<Longrightarrow> Cut c (k @ c # v) = Some (k, v)"
  by (induction k) auto

lemma Cut_SomeD: "Cut c s = Some kv \<Longrightarrow> s = fst kv @ c # snd kv \<and> c \<notin> set (fst kv)"
  by (induction s arbitrary: kv) (fastforce split: option.splits if_splits)+

lemma Cut_Some_iff: "Cut c s = Some (k, v) \<longleftrightarrow> s = k @ c # v \<and> c \<notin> set k"
  using Cut_SomeD [of c s "(k, v)"] Cut_append by auto

lemma Cut_None_iff: "Cut c s = None \<longleftrightarrow> c \<notin> set s"
  by (induction s) (auto split: option.splits)

lemma Split_not_Nil [simp]: "Split c s \<noteq> []"
  by (induction s) (auto split: list.splits)

lemma Split_no_sep: "c \<notin> set s \<Longrightarrow> Split c s = [s]"
  by (induction s) auto

lemma Split_append: "c \<notin> set s \<Longrightarrow> Split c (s @ c # t) = s # Split c t"
  by (induction s) auto

text \<open>Splitting at a separator undoes joining with it, for pieces free of it.\<close>

lemma Split_Join:
  "xs \<noteq> [] \<Longrightarrow> (\<And>x. x \<in> set xs \<Longrightarrow> c \<notin> set x) \<Longrightarrow> Split c (Join [c] xs) = xs"
  by (induction "[c]" xs rule: Join.induct) (auto simp: Split_no_sep Split_append)

lemma set_Join: "set (Join sep xs) \<subseteq> set sep \<union> \<Union> (set ` set xs)"
  by (induction sep xs rule: Join.induct) auto

lemma Contains_iff: "Contains s p \<longleftrightarrow> (\<exists>a b. s = a @ p @ b)"
proof (induction s)
  case (Cons c s)
  have "(\<exists>a b. c # s = a @ p @ b) \<longleftrightarrow> (\<exists>b. c # s = p @ b) \<or> (\<exists>a b. s = a @ p @ b)"
    (is "?L \<longleftrightarrow> ?R")
  proof
    assume ?L
    then obtain a b where "c # s = a @ p @ b" by blast
    then show ?R by (cases a) auto
  next
    assume ?R
    then show ?L
    proof
      assume "\<exists>b. c # s = p @ b"
      then obtain b where "c # s = [] @ p @ b" by auto
      then show ?L by blast
    next
      assume "\<exists>a b. s = a @ p @ b"
      then obtain a b where "c # s = (c # a) @ p @ b" by auto
      then show ?L by blast
    qed
  qed
  with Cons show ?case by (simp add: HasPrefix_iff)
qed auto

lemma Trim_Nil_iff: "Trim s cs = [] \<longleftrightarrow> set s \<subseteq> set cs"
proof
  assume "Trim s cs = []"
  then have all: "\<forall>c\<in>set (dropWhile (\<lambda>c. c \<in> set cs) s). c \<in> set cs"
    by (simp only: Trim_def TrimRight_def rev_is_Nil_conv dropWhile_eq_Nil_conv set_rev)
  have "dropWhile (\<lambda>c. c \<in> set cs) s = []"
  proof (rule ccontr)
    assume "dropWhile (\<lambda>c. c \<in> set cs) s \<noteq> []"
    from hd_dropWhile [OF this] hd_in_set [OF this] all show False by blast
  qed
  then show "set s \<subseteq> set cs" by auto
next
  assume "set s \<subseteq> set cs"
  then have "dropWhile (\<lambda>c. c \<in> set cs) s = []"
    by (simp add: dropWhile_eq_Nil_conv subset_iff del: dropWhile_eq_self_iff)
  then show "Trim s cs = []" by (simp only: Trim_def TrimRight_def rev.simps dropWhile.simps)
qed

lemma set_TrimRight: "set (TrimRight s cs) \<subseteq> set s"
  by (auto simp: TrimRight_def dest: set_dropWhileD)

lemma TrimRight_id: "s = [] \<or> last s \<notin> set cs \<Longrightarrow> TrimRight s cs = s"
  by (cases s rule: rev_cases) (auto simp: TrimRight_def)

lemma ToUpper_ascii:
  "list_all (\<lambda>c. byte c < 128) s \<Longrightarrow> ToUpper U s = map (\<lambda>c. chr (upper_byte (byte c))) s"
  by (simp add: ToUpper_def)

lemma ToLower_ascii:
  "list_all (\<lambda>c. byte c < 128) s \<Longrightarrow> ToLower U s = map (\<lambda>c. chr (lower_byte (byte c))) s"
  by (simp add: ToLower_def)

text \<open>Trimming keeps a contiguous part of the string.\<close>

lemma TrimLeftSpace_drop: "\<exists>n. TrimLeftSpace s = drop n s"
proof (induction s rule: TrimLeftSpace.induct)
  case (1 s)
  show ?case
  proof (cases "0 < space_len s")
    case True
    with 1 obtain n where "TrimLeftSpace (drop (space_len s) s) = drop n (drop (space_len s) s)"
      by blast
    with True show ?thesis by (subst TrimLeftSpace.simps) (auto simp: drop_drop)
  next
    case False
    then have "TrimLeftSpace s = drop 0 s" by (subst TrimLeftSpace.simps) simp
    then show ?thesis by blast
  qed
qed

lemma TrimRightSpace_take: "\<exists>n. TrimRightSpace s = take n s"
proof (induction s rule: TrimRightSpace.induct)
  case (1 s)
  have sub: "\<exists>m. take n (butlast_n k s) = take m s" for n k
    by (auto simp: butlast_n_def)
  consider "s \<noteq> [] \<and> space_len (last_n 1 s) = 1"
    | "\<not> (s \<noteq> [] \<and> space_len (last_n 1 s) = 1)" "2 \<le> length s \<and> space_len (last_n 2 s) = 2"
    | "\<not> (s \<noteq> [] \<and> space_len (last_n 1 s) = 1)" "\<not> (2 \<le> length s \<and> space_len (last_n 2 s) = 2)"
      "3 \<le> length s \<and> space_len (last_n 3 s) = 3"
    | "TrimRightSpace s = s"
    using TrimRightSpace.simps [of s] by presburger
  then show ?case
  proof cases
    case a: 1
    then have "TrimRightSpace s = TrimRightSpace (butlast_n 1 s)"
      by (simp only: TrimRightSpace.simps [of s] if_True if_False simp_thms)
    with 1(1) [OF a] sub show ?thesis by metis
  next
    case a: 2
    then have "TrimRightSpace s = TrimRightSpace (butlast_n 2 s)"
      by (simp only: TrimRightSpace.simps [of s] if_True if_False simp_thms)
    with 1(2) [OF a] sub show ?thesis by metis
  next
    case a: 3
    then have "TrimRightSpace s = TrimRightSpace (butlast_n 3 s)"
      by (simp only: TrimRightSpace.simps [of s] if_True if_False simp_thms)
    with 1(3) [OF a] sub show ?thesis by metis
  next
    case 4
    then show ?thesis by (metis take_all_iff order_refl)
  qed
qed

lemma TrimSpace_part: "\<exists>m n. TrimSpace s = take n (drop m s)"
  unfolding TrimSpace_def using TrimLeftSpace_drop TrimRightSpace_take by metis

lemma set_TrimSpace: "set (TrimSpace s) \<subseteq> set s"
  by (metis TrimSpace_part in_set_dropD in_set_takeD subsetI)

lemma length_TrimSpace: "length (TrimSpace s) \<le> length s"
  using TrimSpace_part [of s] by auto

text \<open>A string whose first and last bytes are printable ASCII is already trimmed.\<close>

lemma space_len_printable: "33 \<le> byte c \<Longrightarrow> byte c < 128 \<Longrightarrow> space_len (c # s) = 0"
  by (auto simp: space_len_def split: list.splits)

lemma space_len_last_printable:
  assumes "33 \<le> byte c" and "byte c < 128"
  shows "space_len [c] \<noteq> 1" "space_len [a, c] \<noteq> 2" "space_len [a, b, c] \<noteq> 3"
  using assms by (auto simp: space_len_def)

lemma TrimRightSpace_printable:
  assumes "33 \<le> byte c" and "byte c < 128"
  shows "TrimRightSpace (s @ [c]) = s @ [c]"
proof -
  note no = space_len_last_printable [OF assms]
  have "space_len (last_n 1 (s @ [c])) \<noteq> 1"
    using no(1) by (simp add: last_n_def)
  moreover have "\<not> (2 \<le> length (s @ [c]) \<and> space_len (last_n 2 (s @ [c])) = 2)"
    using no(2) by (cases s rule: rev_cases) (auto simp: last_n_def)
  moreover have "\<not> (3 \<le> length (s @ [c]) \<and> space_len (last_n 3 (s @ [c])) = 3)"
  proof (cases s rule: rev_cases)
    case (snoc t a)
    then show ?thesis using no(3) by (cases t rule: rev_cases) (auto simp: last_n_def)
  qed simp
  ultimately show ?thesis by (simp only: TrimRightSpace.simps [of "s @ [c]"] if_False simp_thms)
qed

lemma TrimSpace_printable:
  assumes "s \<noteq> []" "33 \<le> byte (hd s)" "byte (hd s) < 128"
    "33 \<le> byte (last s)" "byte (last s) < 128"
  shows "TrimSpace s = s"
proof -
  from assms(1-3) have "TrimLeftSpace s = s"
    by (cases s) (simp_all add: TrimLeftSpace.simps space_len_printable)
  moreover from assms(1,4,5) have "TrimRightSpace s = s"
    by (metis TrimRightSpace_printable append_butlast_last_id)
  ultimately show ?thesis by (simp add: TrimSpace_def)
qed

text \<open>Words of printable ASCII separated by single spaces.\<close>

definition word :: "string \<Rightarrow> bool" where
  "word w \<longleftrightarrow> w \<noteq> [] \<and> list_all (\<lambda>c. 33 \<le> byte c \<and> byte c < 128) w"

lemma Fields_from_word:
  "list_all (\<lambda>c. 33 \<le> byte c \<and> byte c < 128) w \<Longrightarrow> Fields_from cur (w @ s) = Fields_from (cur @ w) s"
  by (induction w arbitrary: cur) (simp_all add: Fields_from.simps(2) space_len_printable)

lemma Fields_word [simp]: "word w \<Longrightarrow> Fields w = [w]"
  using Fields_from_word [of w "[]" "[]"] by (simp add: word_def Fields_def)

lemma Fields_Cons_word [simp]: "word w \<Longrightarrow> Fields (w @ CHR '' '' # s) = w # Fields s"
  using Fields_from_word [of w "[]" "CHR '' '' # s"]
  by (simp add: word_def Fields_def Fields_from.simps(2) space_len_def)

end
