(* ===== verification/Go_Strconv.thy ===== *)
theory Go_Strconv
  imports Go_Strings
begin

text \<open>
  Go's \<^verbatim>\<open>strconv\<close>: decimal printing and parsing, and \<^verbatim>\<open>strconv.Unquote\<close> of a
  double-quoted literal.
\<close>

section \<open>Decimal numbers\<close>

definition is_digit :: "char \<Rightarrow> bool" where
  "is_digit c \<longleftrightarrow> 48 \<le> byte c \<and> byte c \<le> 57"

fun dec :: "nat \<Rightarrow> string" where
  "dec n = (if n < 10 then [chr (48 + n)] else dec (n div 10) @ [chr (48 + n mod 10)])"

declare dec.simps [simp del]

definition Itoa :: "int \<Rightarrow> string" where
  "Itoa i = (if i < 0 then CHR ''-'' # dec (nat (- i)) else dec (nat i))"

definition dec_val :: "string \<Rightarrow> nat" where
  "dec_val s = foldl (\<lambda>a c. a * 10 + (byte c - 48)) 0 s"

text \<open>\<^verbatim>\<open>strconv.ParseUint(s, 10, bits)\<close>: no sign, no underscores, bounded by the width.\<close>

definition ParseUint :: "nat \<Rightarrow> string \<Rightarrow> nat option" where
  "ParseUint bits s =
    (if s = [] \<or> \<not> list_all is_digit s then None
     else if dec_val s < 2 ^ bits then Some (dec_val s) else None)"

text \<open>\<^verbatim>\<open>strconv.Atoi\<close> on a 64-bit platform: an optional sign and digits.\<close>

definition Atoi :: "string \<Rightarrow> int option" where
  "Atoi s =
    (let neg = (HasPrefix s ''-''); body = (if neg \<or> HasPrefix s ''+'' then tl s else s)
     in if body = [] \<or> \<not> list_all is_digit body then None
        else let v = (if neg then - int (dec_val body) else int (dec_val body))
             in if - (2 ^ 63) \<le> v \<and> v < 2 ^ 63 then Some v else None)"

lemma dec_val_snoc: "dec_val (s @ [c]) = dec_val s * 10 + (byte c - 48)"
  by (simp add: dec_val_def)

lemma dec_not_Nil [simp]: "dec n \<noteq> []"
  by (subst dec.simps) simp

lemma is_digit_chr: "n < 10 \<Longrightarrow> is_digit (chr (48 + n))"
  by (simp add: is_digit_def)

lemma dec_digits [simp]: "list_all is_digit (dec n)"
proof (induction n rule: dec.induct)
  case (1 n)
  then show ?case
    by (subst dec.simps) (auto simp: is_digit_chr)
qed

lemma dec_val_dec [simp]: "dec_val (dec n) = n"
proof (induction n rule: dec.induct)
  case (1 n)
  show ?case
  proof (cases "n < 10")
    case True
    then show ?thesis by (subst dec.simps) (simp add: dec_val_def)
  next
    case False
    with 1 have "dec_val (dec (n div 10)) = n div 10" by blast
    with False show ?thesis by (subst dec.simps) (simp add: dec_val_snoc)
  qed
qed

lemma ParseUint_dec: "n < 2 ^ bits \<Longrightarrow> ParseUint bits (dec n) = Some n"
  by (simp add: ParseUint_def)

lemma ParseUint_less: "ParseUint bits s = Some n \<Longrightarrow> n < 2 ^ bits"
  by (auto simp: ParseUint_def split: if_splits)

lemma dec_inject: "dec m = dec n \<Longrightarrow> m = n"
  by (metis dec_val_dec)

lemma Itoa_nat: "Itoa (int n) = dec n"
  by (simp add: Itoa_def)

lemma Itoa_no_byte: "c \<in> set (Itoa i) \<Longrightarrow> is_digit c \<or> c = CHR ''-''"
  using dec_digits [of "nat i"] dec_digits [of "nat (- i)"]
  by (auto simp: Itoa_def list_all_iff split: if_splits)

section \<open>Unquoting\<close>

definition unhex :: "char \<Rightarrow> nat option" where
  "unhex c =
    (if 48 \<le> byte c \<and> byte c \<le> 57 then Some (byte c - 48)
     else if 97 \<le> byte c \<and> byte c \<le> 102 then Some (byte c - 87)
     else if 65 \<le> byte c \<and> byte c \<le> 70 then Some (byte c - 55)
     else None)"

fun hex_val :: "nat \<Rightarrow> string \<Rightarrow> nat option" where
  "hex_val acc [] = Some acc"
| "hex_val acc (c # s) = (case unhex c of None \<Rightarrow> None | Some d \<Rightarrow> hex_val (acc * 16 + d) s)"

fun oct_val :: "nat \<Rightarrow> string \<Rightarrow> nat option" where
  "oct_val acc [] = Some acc"
| "oct_val acc (c # s) = (if 48 \<le> byte c \<and> byte c \<le> 55 then oct_val (acc * 8 + (byte c - 48)) s else None)"

definition ValidRune :: "nat \<Rightarrow> bool" where
  "ValidRune r \<longleftrightarrow> r < 55296 \<or> (57343 < r \<and> r \<le> 1114111)"

definition simple_escape :: "char \<Rightarrow> nat option" where
  "simple_escape c =
    (if c = CHR ''a'' then Some 7 else if c = CHR ''b'' then Some 8
     else if c = CHR ''f'' then Some 12 else if c = CHR ''n'' then Some 10
     else if c = CHR ''r'' then Some 13 else if c = CHR ''t'' then Some 9
     else if c = CHR ''v'' then Some 11 else if byte c = 92 then Some 92
     else if byte c = 34 then Some 34 else None)"

text \<open>
  \<^verbatim>\<open>strconv.UnquoteChar\<close> after a backslash, with the double quote as delimiter: the
  bytes it stands for and how many bytes of the tail were read.
\<close>

definition unquote_escape :: "string \<Rightarrow> (string \<times> nat) option" where
  "unquote_escape t = (case t of
     [] \<Rightarrow> None
   | c # s \<Rightarrow>
       (case simple_escape c of
          Some b \<Rightarrow> Some ([chr b], 1)
        | None \<Rightarrow>
            if c = CHR ''x'' then
              (if length s < 2 then None
               else map_option (\<lambda>v. ([chr v], 3)) (hex_val 0 (take 2 s)))
            else if c = CHR ''u'' \<or> c = CHR ''U'' then
              (let n = (if c = CHR ''u'' then 4 else 8)
               in if length s < n then None
                  else case hex_val 0 (take n s) of
                      None \<Rightarrow> None
                    | Some v \<Rightarrow> if ValidRune v then Some (encode_rune v, n + 1) else None)
            else if 48 \<le> byte c \<and> byte c \<le> 55 then
              (if length s < 2 then None
               else case oct_val (byte c - 48) (take 2 s) of
                   None \<Rightarrow> None
                 | Some v \<Rightarrow> if v \<le> 255 then Some ([chr v], 3) else None)
            else None))"

text \<open>The body of a double-quoted literal, up to its closing quote, which must end the
  string.\<close>

function unquote_body :: "string \<Rightarrow> string option" where
  "unquote_body [] = None"
| "unquote_body (c # s) =
    (if byte c = 34 then (if s = [] then Some [] else None)
     else if byte c = 10 then None
     else if byte c = 92 then
       (case unquote_escape s of
          None \<Rightarrow> None
        | Some (out, n) \<Rightarrow> map_option (\<lambda>r. out @ r) (unquote_body (drop n s)))
     else if byte c < 128 then map_option (\<lambda>r. c # r) (unquote_body s)
     else (case decode_rune (c # s) of
         (r, n) \<Rightarrow> map_option (\<lambda>t. encode_rune r @ t) (unquote_body (drop (n - 1) s))))"
  by pat_completeness auto
termination
  by (relation "measure length") auto

declare unquote_body.simps(2) [simp del]

text \<open>\<^verbatim>\<open>strconv.Unquote\<close> of a string that starts with a double quote.\<close>

definition Unquote :: "string \<Rightarrow> string option" where
  "Unquote s = (case s of [] \<Rightarrow> None | c # t \<Rightarrow> if byte c = 34 then unquote_body t else None)"

end
