(* ===== verification/Go_Encoding.thy ===== *)
theory Go_Encoding
  imports Go_Strconv
begin

text \<open>
  Go's \<^verbatim>\<open>encoding/hex\<close> and \<^verbatim>\<open>encoding/base64\<close> (\<^verbatim>\<open>RawStdEncoding\<close>), with their round
  trips. The locale \<open>text_codec\<close> states what the program relies on in both: decoding
  undoes encoding and the encoded text stays inside a known alphabet.
\<close>

section \<open>The interface of a text encoding\<close>

locale text_codec =
  fixes enc :: "u8 list \<Rightarrow> string"
    and dcd :: "string \<Rightarrow> u8 list option"
    and alphabet :: "char set"
  assumes dcd_enc: "dcd (enc bs) = Some bs"
    and enc_alphabet: "set (enc bs) \<subseteq> alphabet"
begin

lemma enc_inject: "enc bs = enc cs \<longleftrightarrow> bs = cs"
  using dcd_enc by (metis option.inject)

text \<open>Re-encoding what was decoded gives a canonical text: decoding it again changes
  nothing.\<close>

lemma canonical: "dcd s = Some bs \<Longrightarrow> dcd (enc bs) = Some bs \<and> enc (the (dcd (enc bs))) = enc bs"
  by (simp add: dcd_enc)

lemma enc_excludes: "c \<notin> alphabet \<Longrightarrow> c \<notin> set (enc bs)"
  using enc_alphabet by blast

end

section \<open>Hexadecimal\<close>

definition hex_digit :: "nat \<Rightarrow> char" where
  "hex_digit n = (if n < 10 then chr (48 + n) else chr (87 + n))"

fun hex_encode :: "u8 list \<Rightarrow> string" where
  "hex_encode [] = []"
| "hex_encode (b # bs) = hex_digit (unat b div 16) # hex_digit (unat b mod 16) # hex_encode bs"

text \<open>\<^verbatim>\<open>hex.DecodeString\<close>: an odd length or a byte outside the digits is an error.\<close>

fun hex_decode :: "string \<Rightarrow> u8 list option" where
  "hex_decode [] = Some []"
| "hex_decode [c] = None"
| "hex_decode (c # d # s) =
    (case (unhex c, unhex d) of
       (Some h, Some l) \<Rightarrow> map_option (\<lambda>bs. of_nat (h * 16 + l) # bs) (hex_decode s)
     | _ \<Rightarrow> None)"

definition hex_char :: "char \<Rightarrow> bool" where
  "hex_char c \<longleftrightarrow> unhex c \<noteq> None"

lemma unhex_hex_digit [simp]: "n < 16 \<Longrightarrow> unhex (hex_digit n) = Some n"
  by (auto simp: unhex_def hex_digit_def)

lemma unat_u8_less [simp]: "unat (b :: u8) < 256"
  using unsigned_less [of b, where 'a = nat] by simp

lemma hex_decode_encode: "hex_decode (hex_encode bs) = Some bs"
proof (induction bs)
  case (Cons b bs)
  have "unat b div 16 < 16" using unat_u8_less [of b] by linarith
  moreover have "of_nat (unat b div 16 * 16 + unat b mod 16) = b"
    by (simp only: div_mult_mod_eq) simp
  ultimately show ?case using Cons by simp
qed simp

lemma length_hex_encode [simp]: "length (hex_encode bs) = 2 * length bs"
  by (induction bs) auto

lemma hex_decode_length: "hex_decode s = Some bs \<Longrightarrow> length s = 2 * length bs"
  by (induction s arbitrary: bs rule: hex_decode.induct) (auto split: option.splits)

lemma hex_decode_chars: "hex_decode s = Some bs \<Longrightarrow> list_all hex_char s"
  by (induction s arbitrary: bs rule: hex_decode.induct)
     (auto simp: hex_char_def split: option.splits)

lemma hex_char_digit [simp]: "n < 16 \<Longrightarrow> hex_char (hex_digit n)"
  by (simp add: hex_char_def)

lemma hex_encode_chars: "set (hex_encode bs) \<subseteq> {c. hex_char c}"
proof (induction bs)
  case (Cons b bs)
  have "unat b div 16 < 16" using unat_u8_less [of b] by linarith
  with Cons show ?case by simp
qed simp

interpretation hex_codec: text_codec hex_encode hex_decode "{c. hex_char c}"
  by unfold_locales (simp_all add: hex_decode_encode hex_encode_chars)

section \<open>Base64 without padding\<close>

definition b64_char :: "nat \<Rightarrow> char" where
  "b64_char n =
    (if n < 26 then chr (65 + n) else if n < 52 then chr (71 + n)
     else if n < 62 then chr (n - 4) else if n = 62 then CHR ''+'' else CHR ''/'')"

definition b64_val :: "char \<Rightarrow> nat option" where
  "b64_val c =
    (if 65 \<le> byte c \<and> byte c \<le> 90 then Some (byte c - 65)
     else if 97 \<le> byte c \<and> byte c \<le> 122 then Some (byte c - 71)
     else if 48 \<le> byte c \<and> byte c \<le> 57 then Some (byte c + 4)
     else if byte c = 43 then Some 62
     else if byte c = 47 then Some 63
     else None)"

fun b64_encode :: "u8 list \<Rightarrow> string" where
  "b64_encode [] = []"
| "b64_encode [a] = [b64_char (unat a div 4), b64_char (unat a mod 4 * 16)]"
| "b64_encode [a, b] =
    [b64_char (unat a div 4), b64_char (unat a mod 4 * 16 + unat b div 16),
     b64_char (unat b mod 16 * 4)]"
| "b64_encode (a # b # c # rest) =
    b64_char (unat a div 4) # b64_char (unat a mod 4 * 16 + unat b div 16) #
    b64_char (unat b mod 16 * 4 + unat c div 64) # b64_char (unat c mod 64) # b64_encode rest"

text \<open>
  The decoder skips carriage returns and line feeds, accepts two or three characters at
  the end (their spare low bits are not checked) and refuses every other character, the
  padding sign included.
\<close>

fun b64_quanta :: "nat list \<Rightarrow> u8 list option" where
  "b64_quanta [] = Some []"
| "b64_quanta [x] = None"
| "b64_quanta [x, y] = Some [of_nat (x * 4 + y div 16)]"
| "b64_quanta [x, y, z] = Some [of_nat (x * 4 + y div 16), of_nat (y mod 16 * 16 + z div 4)]"
| "b64_quanta (x # y # z # w # rest) =
    map_option (\<lambda>bs. of_nat (x * 4 + y div 16) # of_nat (y mod 16 * 16 + z div 4) #
      of_nat (z mod 4 * 64 + w) # bs) (b64_quanta rest)"

fun b64_vals :: "string \<Rightarrow> nat list option" where
  "b64_vals [] = Some []"
| "b64_vals (c # s) =
    (case (b64_val c, b64_vals s) of (Some v, Some vs) \<Rightarrow> Some (v # vs) | _ \<Rightarrow> None)"

definition b64_decode :: "string \<Rightarrow> u8 list option" where
  "b64_decode s = Option.bind (b64_vals (filter (\<lambda>c. byte c \<noteq> 10 \<and> byte c \<noteq> 13) s)) b64_quanta"

definition b64_alphabet :: "char \<Rightarrow> bool" where
  "b64_alphabet c \<longleftrightarrow> b64_val c \<noteq> None"

lemma b64_val_char [simp]: "n < 64 \<Longrightarrow> b64_val (b64_char n) = Some n"
  by (auto simp: b64_val_def b64_char_def)

lemma b64_alphabet_char [simp]: "n < 64 \<Longrightarrow> b64_alphabet (b64_char n)"
  by (simp add: b64_alphabet_def)

text \<open>The sextets of the encoding, before they become characters.\<close>

fun b64_sextets :: "u8 list \<Rightarrow> nat list" where
  "b64_sextets [] = []"
| "b64_sextets [a] = [unat a div 4, unat a mod 4 * 16]"
| "b64_sextets [a, b] = [unat a div 4, unat a mod 4 * 16 + unat b div 16, unat b mod 16 * 4]"
| "b64_sextets (a # b # c # rest) =
    unat a div 4 # (unat a mod 4 * 16 + unat b div 16) # (unat b mod 16 * 4 + unat c div 64) #
    unat c mod 64 # b64_sextets rest"

lemma u8_parts:
  fixes b :: u8
  shows "unat b div 4 < 64" "unat b div 16 < 16" "unat b div 64 < 4"
    "unat b mod 4 \<le> 3" "unat b mod 16 \<le> 15"
  using unat_u8_less [of b] by linarith+

lemma b64_encode_sextets: "b64_encode bs = map b64_char (b64_sextets bs)"
  by (induction bs rule: b64_sextets.induct) auto

lemma b64_middle:
  fixes a b :: u8
  shows "unat a mod 4 * 16 + unat b div 16 < 64" "unat a mod 16 * 4 + unat b div 64 < 64"
    "unat a mod 4 * 16 < 64" "unat a mod 16 * 4 < 64"
  using u8_parts [of a] u8_parts [of b] by linarith+

lemma b64_middle_parts:
  fixes a b :: u8
  shows "(unat a mod 4 * 16 + unat b div 16) div 16 = unat a mod 4"
    "(unat a mod 4 * 16 + unat b div 16) mod 16 = unat b div 16"
    "(unat a mod 16 * 4 + unat b div 64) div 4 = unat a mod 16"
    "(unat a mod 16 * 4 + unat b div 64) mod 4 = unat b div 64"
  using u8_parts [of b] by simp_all

lemma b64_sextets_all: "list_all (\<lambda>x. x < 64) (b64_sextets bs)"
  by (induction bs rule: b64_sextets.induct)
     (simp_all only: b64_sextets.simps list.pred_inject u8_parts b64_middle simp_thms
       mod_less_divisor zero_less_numeral)

lemma b64_sextets_less: "x \<in> set (b64_sextets bs) \<Longrightarrow> x < 64"
  using b64_sextets_all by (auto simp: list_all_iff)

lemma of_nat_unat_parts:
  fixes b :: u8
  shows "of_nat (unat b div 4 * 4 + unat b mod 4) = b" "of_nat (unat b div 16 * 16 + unat b mod 16) = b"
    "of_nat (unat b div 64 * 64 + unat b mod 64) = b"
  by (simp_all only: div_mult_mod_eq) simp_all

lemma b64_quanta_sextets: "b64_quanta (b64_sextets bs) = Some bs"
proof (induction bs rule: b64_sextets.induct)
  case (2 a)
  have "unat a mod 4 * 16 div 16 = unat a mod 4" by simp
  then show ?case by (simp only: b64_sextets.simps b64_quanta.simps of_nat_unat_parts)
next
  case (3 a b)
  have "unat b mod 16 * 4 div 4 = unat b mod 16" by simp
  then show ?case by (simp only: b64_sextets.simps b64_quanta.simps b64_middle_parts of_nat_unat_parts)
next
  case (4 a b c rest)
  then show ?case
    by (simp only: b64_sextets.simps b64_quanta.simps b64_middle_parts of_nat_unat_parts option.map)
qed simp

lemma b64_vals_map: "(\<And>x. x \<in> set xs \<Longrightarrow> x < 64) \<Longrightarrow> b64_vals (map b64_char xs) = Some xs"
  by (induction xs) auto

lemma b64_char_not_newline: "x < 64 \<Longrightarrow> byte (b64_char x) \<noteq> 10 \<and> byte (b64_char x) \<noteq> 13"
  by (auto simp: b64_char_def)

lemma b64_decode_encode: "b64_decode (b64_encode bs) = Some bs"
proof -
  have "filter (\<lambda>c. byte c \<noteq> 10 \<and> byte c \<noteq> 13) (b64_encode bs) = b64_encode bs"
    using b64_sextets_less b64_char_not_newline by (auto simp: b64_encode_sextets filter_id_conv)
  then show ?thesis
    using b64_sextets_less
    by (simp add: b64_decode_def b64_encode_sextets b64_vals_map b64_quanta_sextets)
qed

lemma b64_encode_chars: "set (b64_encode bs) \<subseteq> {c. b64_alphabet c}"
  using b64_sextets_less by (auto simp: b64_encode_sextets)

interpretation b64_codec: text_codec b64_encode b64_decode "{c. b64_alphabet c}"
  by unfold_locales (simp_all add: b64_decode_encode b64_encode_chars)

text \<open>\<^verbatim>\<open>base64.StdEncoding\<close> adds padding to a multiple of four characters.\<close>

definition b64_std_encode :: "u8 list \<Rightarrow> string" where
  "b64_std_encode bs = b64_encode bs @ replicate ((3 - length bs mod 3) mod 3) (CHR ''='')"

end
