(* ===== verification/Go_Netip.thy ===== *)
theory Go_Netip
  imports Go_Encoding
begin

text \<open>
  Go's \<^verbatim>\<open>net/netip\<close> as the program uses it: parsing and printing of addresses and of
  address-port pairs, and the address predicates. An address keeps its bytes in network
  order; an IPv6 address also keeps its zone, the empty string standing for no zone.
\<close>

datatype ipaddr = IPv4 "u8 list" | IPv6 "u8 list" string

record addrport =
  ap_addr :: ipaddr
  ap_port :: u16

section \<open>Parsing\<close>

text \<open>
  \<^verbatim>\<open>parseIPv4Fields\<close>: \<open>val\<close> is the octet read so far, \<open>dl\<close> its number of digits and
  \<open>fs\<close> the finished octets.
\<close>

fun ipv4_fields :: "nat \<Rightarrow> nat \<Rightarrow> u8 list \<Rightarrow> string \<Rightarrow> u8 list option" where
  "ipv4_fields val dl fs [] = (if length fs < 3 then None else Some (fs @ [of_nat val]))"
| "ipv4_fields val dl fs (c # s) =
    (if is_digit c then
       (if dl = 1 \<and> val = 0 then None
        else if 255 < val * 10 + (byte c - 48) then None
        else ipv4_fields (val * 10 + (byte c - 48)) (dl + 1) fs s)
     else if c = CHR ''.'' then
       (if dl = 0 \<or> s = [] then None
        else if length fs = 3 then None
        else ipv4_fields 0 0 (fs @ [of_nat val]) s)
     else None)"

definition parse_ipv4 :: "string \<Rightarrow> ipaddr option" where
  "parse_ipv4 s = map_option IPv4 (ipv4_fields 0 0 [] s)"

text \<open>The end of \<^verbatim>\<open>parseIPv6\<close>: nothing may be left over, and an ellipsis stands for at
  least one group of zeros.\<close>

definition ipv6_finish :: "u8 list \<Rightarrow> nat option \<Rightarrow> string \<Rightarrow> u8 list option" where
  "ipv6_finish ip ell s =
    (if s \<noteq> [] then None
     else if length ip < 16 then
       (case ell of None \<Rightarrow> None
        | Some e \<Rightarrow> Some (take e ip @ replicate (16 - length ip) 0 @ drop e ip))
     else if ell \<noteq> None then None else Some ip)"

text \<open>The loop of \<^verbatim>\<open>parseIPv6\<close>: \<open>ip\<close> holds the bytes read so far and \<open>ell\<close> the
  position of the ellipsis.\<close>

function ipv6_loop :: "u8 list \<Rightarrow> nat option \<Rightarrow> string \<Rightarrow> u8 list option" where
  "ipv6_loop ip ell s =
    (if 16 \<le> length ip then ipv6_finish ip ell s
     else
       (let digs = takeWhile hex_char s; rest = dropWhile hex_char s
        in if digs = [] \<or> 4 < length digs then None
           else if rest \<noteq> [] \<and> hd rest = CHR ''.'' then
             (if ell = None \<and> length ip \<noteq> 12 then None
              else if 16 < length ip + 4 then None
              else case ipv4_fields 0 0 [] s of
                  None \<Rightarrow> None
                | Some fs \<Rightarrow> ipv6_finish (ip @ fs) ell [])
           else
             (let acc = the (hex_val 0 digs);
                  ip' = ip @ [of_nat (acc div 256), of_nat (acc mod 256)]
              in case rest of
                  [] \<Rightarrow> ipv6_finish ip' ell []
                | c # s1 \<Rightarrow>
                    if c \<noteq> CHR '':'' then None
                    else (case s1 of
                        [] \<Rightarrow> None
                      | d # s2 \<Rightarrow>
                          if d = CHR '':'' then
                            (if ell \<noteq> None then None
                             else if s2 = [] then ipv6_finish ip' (Some (length ip')) []
                             else ipv6_loop ip' (Some (length ip')) s2)
                          else ipv6_loop ip' ell s1))))"
  by pat_completeness auto
termination
  by (relation "measure (\<lambda>(ip, _, _). 16 - length ip)") auto

declare ipv6_loop.simps [simp del]

definition parse_ipv6 :: "string \<Rightarrow> ipaddr option" where
  "parse_ipv6 s0 =
    (case (case Cut (CHR ''%'') s0 of
             None \<Rightarrow> Some (s0, [])
           | Some (a, zone) \<Rightarrow> if zone = [] then None else Some (a, zone)) of
       None \<Rightarrow> None
     | Some (s, zone) \<Rightarrow>
         if HasPrefix s ''::'' then
           (if s = ''::'' then Some (IPv6 (replicate 16 0) zone)
            else map_option (\<lambda>ip. IPv6 ip zone) (ipv6_loop [] (Some 0) (drop 2 s)))
         else map_option (\<lambda>ip. IPv6 ip zone) (ipv6_loop [] None s))"

text \<open>\<^verbatim>\<open>netip.ParseAddr\<close>: the first dot, colon or percent sign decides.\<close>

definition ParseAddr :: "string \<Rightarrow> ipaddr option" where
  "ParseAddr s =
    (case dropWhile (\<lambda>c. c \<noteq> CHR ''.'' \<and> c \<noteq> CHR '':'' \<and> c \<noteq> CHR ''%'') s of
       [] \<Rightarrow> None
     | c # _ \<Rightarrow> if c = CHR ''.'' then parse_ipv4 s
                else if c = CHR '':'' then parse_ipv6 s else None)"

text \<open>The string split at its last colon.\<close>

definition cut_last_colon :: "string \<Rightarrow> (string \<times> string) option" where
  "cut_last_colon s =
    (case Cut (CHR '':'') (rev s) of None \<Rightarrow> None | Some (p, a) \<Rightarrow> Some (rev a, rev p))"

definition is_v4 :: "ipaddr \<Rightarrow> bool" where
  "is_v4 a = (case a of IPv4 _ \<Rightarrow> True | IPv6 _ _ \<Rightarrow> False)"

definition ParseAddrPort :: "string \<Rightarrow> addrport option" where
  "ParseAddrPort s =
    (case cut_last_colon s of
       None \<Rightarrow> None
     | Some (ip, port) \<Rightarrow>
         if ip = [] \<or> port = [] then None
         else
           (let br = (hd ip = CHR ''['')
            in if br \<and> (length ip < 2 \<or> last ip \<noteq> CHR '']'') then None
               else
                 (let ip' = (if br then butlast (tl ip) else ip)
                  in case (ParseUint 16 port, ParseAddr ip') of
                      (Some p, Some a) \<Rightarrow>
                        if br = is_v4 a then None
                        else Some \<lparr>ap_addr = a, ap_port = of_nat p\<rparr>
                    | _ \<Rightarrow> None)))"

section \<open>Predicates\<close>

definition zone_of :: "ipaddr \<Rightarrow> string" where
  "zone_of a = (case a of IPv4 _ \<Rightarrow> [] | IPv6 _ z \<Rightarrow> z)"

definition is_v4_in_v6 :: "ipaddr \<Rightarrow> bool" where
  "is_v4_in_v6 a = (case a of
     IPv4 _ \<Rightarrow> False
   | IPv6 bs _ \<Rightarrow> take 12 bs = replicate 10 0 @ [255, 255])"

definition Unmap :: "ipaddr \<Rightarrow> ipaddr" where
  "Unmap a = (case a of IPv4 bs \<Rightarrow> a | IPv6 bs _ \<Rightarrow> if is_v4_in_v6 a then IPv4 (drop 12 bs) else a)"

definition IsUnspecified :: "ipaddr \<Rightarrow> bool" where
  "IsUnspecified a \<longleftrightarrow> a = IPv4 (replicate 4 0) \<or> a = IPv6 (replicate 16 0) []"

definition IsLoopback :: "ipaddr \<Rightarrow> bool" where
  "IsLoopback a = (case Unmap a of
     IPv4 bs \<Rightarrow> bs \<noteq> [] \<and> hd bs = 127
   | IPv6 bs _ \<Rightarrow> bs = replicate 15 0 @ [1])"

lemma replicate_literals [simp]:
  "replicate 4 x = [x, x, x, x]"
  "replicate 16 x = [x, x, x, x, x, x, x, x, x, x, x, x, x, x, x, x]"
  by (simp_all add: numeral_eq_Suc)

section \<open>Printing\<close>

definition print_ipv4 :: "u8 list \<Rightarrow> string" where
  "print_ipv4 bs = Join ''.'' (map (\<lambda>b. dec (unat b)) bs)"

fun hex_nat :: "nat \<Rightarrow> string" where
  "hex_nat n = (if n < 16 then [hex_digit n] else hex_nat (n div 16) @ [hex_digit (n mod 16)])"

declare hex_nat.simps [simp del]

fun groups16 :: "u8 list \<Rightarrow> nat list" where
  "groups16 (a # b # bs) = (unat a * 256 + unat b) # groups16 bs"
| "groups16 _ = []"

definition zero_run :: "nat list \<Rightarrow> nat \<Rightarrow> nat" where
  "zero_run gs i = length (takeWhile (\<lambda>g. g = 0) (drop i gs))"

text \<open>The first longest run of at least two zero groups, as its start and end.\<close>

definition best_zero_run :: "nat list \<Rightarrow> (nat \<times> nat) option" where
  "best_zero_run gs =
    foldl (\<lambda>best i.
        let l = zero_run gs i
        in if 2 \<le> l \<and> (case best of None \<Rightarrow> True | Some (st, en) \<Rightarrow> en - st < l)
           then Some (i, i + l) else best)
      None [0..<8]"

definition print_ipv6_groups :: "nat list \<Rightarrow> string" where
  "print_ipv6_groups gs = (case best_zero_run gs of
     None \<Rightarrow> Join '':'' (map hex_nat gs)
   | Some (st, en) \<Rightarrow>
       Join '':'' (map hex_nat (take st gs)) @ ''::'' @ Join '':'' (map hex_nat (drop en gs)))"

definition print_addr :: "ipaddr \<Rightarrow> string" where
  "print_addr a = (case a of
     IPv4 bs \<Rightarrow> print_ipv4 bs
   | IPv6 bs zone \<Rightarrow>
       (if is_v4_in_v6 a then ''::ffff:'' @ print_ipv4 (drop 12 bs)
        else print_ipv6_groups (groups16 bs)) @ (if zone = [] then [] else CHR ''%'' # zone))"

definition print_addrport :: "addrport \<Rightarrow> string" where
  "print_addrport p =
    (if is_v4 (ap_addr p) then print_addr (ap_addr p)
     else CHR ''['' # print_addr (ap_addr p) @ '']'') @ CHR '':'' # dec (unat (ap_port p))"

section \<open>Facts\<close>

definition addr_char :: "char \<Rightarrow> bool" where
  "addr_char c \<longleftrightarrow> hex_char c \<or> c = CHR ''.'' \<or> c = CHR '':'' \<or> c = CHR ''['' \<or> c = CHR '']''"

lemma hex_char_addr [simp]: "hex_char c \<Longrightarrow> addr_char c"
  by (simp add: addr_char_def)

lemma colon_addr [simp]: "addr_char (CHR '':'')"
  by (simp add: addr_char_def)

lemma is_digit_hex: "is_digit c \<Longrightarrow> hex_char c"
  by (auto simp: hex_char_def unhex_def is_digit_def)

lemma ipv4_fields_chars: "ipv4_fields val dl fs s = Some r \<Longrightarrow> list_all addr_char s"
  by (induction val dl fs s rule: ipv4_fields.induct)
     (auto simp: is_digit_hex addr_char_def split: if_splits)

lemma ipv4_fields_length: "ipv4_fields val dl fs s = Some r \<Longrightarrow> length fs \<le> 3 \<Longrightarrow> length r = 4"
  by (induction val dl fs s rule: ipv4_fields.induct) (auto split: if_splits)

lemma ipv6_finish_Nil: "ipv6_finish ip ell s = Some r \<Longrightarrow> s = []"
  by (auto simp: ipv6_finish_def split: if_splits)

lemma ipv6_finish_length:
  "ipv6_finish ip ell s = Some r \<Longrightarrow> length ip \<le> 16 \<Longrightarrow> (\<And>e. ell = Some e \<Longrightarrow> e \<le> length ip) \<Longrightarrow> length r = 16"
  by (auto simp: ipv6_finish_def split: if_splits option.splits)

lemma ipv6_loop_chars: "ipv6_loop ip ell s = Some r \<Longrightarrow> list_all addr_char s"
proof (induction ip ell s rule: ipv6_loop.induct)
  case (1 ip ell s)
  let ?digs = "takeWhile hex_char s" and ?rest = "dropWhile hex_char s"
  have digs: "list_all addr_char ?digs"
    by (auto simp: list_all_iff dest: set_takeWhileD)
  have whole: "list_all addr_char s" if "list_all addr_char ?rest"
    by (metis digs list_all_append takeWhile_dropWhile_id that)
  show ?case
  proof (cases "16 \<le> length ip")
    case True
    then have "s = []"
      using 1(3) by (subst (asm) ipv6_loop.simps) (auto dest: ipv6_finish_Nil)
    then show ?thesis by simp
  next
    case False
    have eq: "ipv6_loop ip ell s = Some r" by fact
    show ?thesis
    proof (cases "?rest \<noteq> [] \<and> hd ?rest = CHR ''.''")
      case True
      with False eq obtain fs where "ipv4_fields 0 0 [] s = Some fs"
        by (subst (asm) ipv6_loop.simps) (auto simp: Let_def split: if_splits option.splits)
      then show ?thesis by (rule ipv4_fields_chars)
    next
      case no_dot: False
      have "list_all addr_char ?rest"
      proof (cases ?rest)
        case (Cons c t)
        then show ?thesis
          using False no_dot eq 1(1,2)
          by (subst (asm) ipv6_loop.simps) (auto simp: Let_def split: if_splits list.splits)
      next
        case Nil
        show ?thesis unfolding Nil by simp
      qed
      then show ?thesis by (rule whole)
    qed
  qed
qed

lemma parse_ipv6_chars:
  assumes "parse_ipv6 s = Some a" and "zone_of a = []"
  shows "list_all addr_char s"
proof (cases "Cut (CHR ''%'') s")
  case None
  have pre: "list_all addr_char s" if "HasPrefix s ''::''" "list_all addr_char (drop 2 s)"
    using that by (auto simp: HasPrefix_iff)
  show ?thesis
    using None assms(1)
    by (auto simp: parse_ipv6_def split: if_splits dest: ipv6_loop_chars intro: pre)
next
  case (Some kv)
  with assms show ?thesis
    by (cases kv) (auto simp: parse_ipv6_def zone_of_def split: if_splits)
qed

lemma ParseAddr_chars: "ParseAddr s = Some a \<Longrightarrow> zone_of a = [] \<Longrightarrow> list_all addr_char s"
  by (auto simp: ParseAddr_def parse_ipv4_def split: list.splits if_splits
      dest: ipv4_fields_chars parse_ipv6_chars)

lemma cut_last_colon_Some:
  "cut_last_colon s = Some (a, p) \<longleftrightarrow> s = a @ CHR '':'' # p \<and> CHR '':'' \<notin> set p"
proof -
  have "cut_last_colon s = Some (a, p) \<longleftrightarrow> Cut (CHR '':'') (rev s) = Some (rev p, rev a)"
    by (auto simp: cut_last_colon_def split: option.splits)
  also have "\<dots> \<longleftrightarrow> rev s = rev p @ CHR '':'' # rev a \<and> CHR '':'' \<notin> set p"
    by (simp add: Cut_Some_iff)
  also have "rev s = rev p @ CHR '':'' # rev a \<longleftrightarrow> s = a @ CHR '':'' # p"
    by (metis append.assoc append_Cons append_Nil rev.simps(2) rev_append rev_rev_ident)
  finally show ?thesis .
qed

text \<open>An accepted numeric endpoint without a zone is made of address characters only: no
  space, quote or line break can hide in it.\<close>

lemma ParseAddrPort_chars:
  assumes "ParseAddrPort s = Some p" and "zone_of (ap_addr p) = []"
  shows "list_all addr_char s"
proof -
  obtain ip port where cut: "cut_last_colon s = Some (ip, port)"
    using assms(1) by (auto simp: ParseAddrPort_def split: option.splits)
  let ?br = "hd ip = CHR ''[''"
  from cut assms(1) have ne: "ip \<noteq> []"
    and br: "?br \<Longrightarrow> 2 \<le> length ip \<and> last ip = CHR '']''"
    and parsed: "ParseAddr (if ?br then butlast (tl ip) else ip) = Some (ap_addr p)"
    and port: "ParseUint 16 port \<noteq> None"
    by (auto simp: ParseAddrPort_def Let_def not_less split: option.splits if_splits)
  have inner: "list_all addr_char (if ?br then butlast (tl ip) else ip)"
    using parsed assms(2) by (rule ParseAddr_chars)
  have "list_all addr_char ip"
  proof (cases ?br)
    case True
    then have "ip = CHR ''['' # butlast (tl ip) @ [CHR '']'']"
      using br ne by (cases ip; cases "tl ip" rule: rev_cases) auto
    moreover have "list_all addr_char (CHR ''['' # butlast (tl ip) @ [CHR '']''])"
      using inner True by (simp add: addr_char_def)
    ultimately show ?thesis by metis
  next
    case False
    with inner show ?thesis by simp
  qed
  moreover have "list_all addr_char port"
    using port by (auto simp: ParseUint_def list_all_iff is_digit_hex split: if_splits)
  moreover have "s = ip @ CHR '':'' # port"
    using cut by (simp add: cut_last_colon_Some)
  ultimately show ?thesis by (simp add: addr_char_def)
qed

text \<open>Printing an IPv4 endpoint and parsing it again gives the endpoint back.\<close>

lemma ipv4_fields_dec:
  assumes "n < 256"
  shows "ipv4_fields 0 0 fs (dec n @ rest) = ipv4_fields n (length (dec n)) fs rest"
proof -
  have d: "is_digit (chr (48 + k))" "byte (chr (48 + k)) - 48 = k" if "k < 10" for k
    using that by (auto simp: is_digit_chr)
  consider "n < 10" | "10 \<le> n" "n < 100" | "100 \<le> n" by linarith
  then show ?thesis
  proof cases
    case 1
    then have "dec n = [chr (48 + n)]" by (subst dec.simps) simp
    with 1 d show ?thesis by simp
  next
    case 2
    have "dec n = [chr (48 + n div 10), chr (48 + n mod 10)]"
      using 2 by (subst dec.simps, subst dec.simps) simp
    moreover have "n div 10 < 10" "n div 10 \<noteq> 0" "n div 10 * 10 + n mod 10 = n"
      using 2 by auto
    ultimately show ?thesis using d assms by simp
  next
    case 3
    have "dec n = [chr (48 + n div 10 div 10), chr (48 + n div 10 mod 10), chr (48 + n mod 10)]"
    proof -
      have "\<not> n < 10" "\<not> n div 10 < 10" "n div 10 div 10 < 10"
        using 3 assms by linarith+
      then show ?thesis
        by (simp add: dec.simps [of n] dec.simps [of "n div 10"] dec.simps [of "n div 10 div 10"]
            del: div_div_eq_right)
    qed
    moreover have "n div 10 div 10 < 10" "n div 10 div 10 \<noteq> 0" "\<not> 255 < n div 10"
      "\<not> 255 < n div 10 div 10"
      "n div 10 div 10 * 10 + n div 10 mod 10 = n div 10" "n div 10 * 10 + n mod 10 = n"
      using 3 assms by auto
    ultimately show ?thesis using d assms by (simp, linarith)
  qed
qed

lemma print_ipv4_quad:
  "print_ipv4 [a, b, c, d] =
    dec (unat a) @ CHR ''.'' # dec (unat b) @ CHR ''.'' # dec (unat c) @ CHR ''.'' # dec (unat d)"
  by (simp add: print_ipv4_def)

lemma ipv4_fields_print: "ipv4_fields 0 0 [] (print_ipv4 [a, b, c, d]) = Some [a, b, c, d]"
  using ipv4_fields_dec [of "unat d" "[a, b, c]" "[]"]
  by (simp add: print_ipv4_quad ipv4_fields_dec is_digit_def)

lemma dec_no_char: "\<not> is_digit c \<Longrightarrow> c \<notin> set (dec n)"
  using dec_digits [of n] by (auto simp: list_all_iff)

lemma ParseAddr_print_v4: "ParseAddr (print_ipv4 [a, b, c, d]) = Some (IPv4 [a, b, c, d])"
proof -
  let ?P = "\<lambda>c. c \<noteq> CHR ''.'' \<and> c \<noteq> CHR '':'' \<and> c \<noteq> CHR ''%''"
  have "\<forall>x\<in>set (dec (unat a)). ?P x"
    using dec_no_char by (auto simp: is_digit_def)
  then have "dropWhile ?P (print_ipv4 [a, b, c, d]) =
      CHR ''.'' # dec (unat b) @ CHR ''.'' # dec (unat c) @ CHR ''.'' # dec (unat d)"
    by (simp only: print_ipv4_quad dropWhile_append2 dropWhile.simps) simp
  then show ?thesis
    by (simp add: ParseAddr_def parse_ipv4_def ipv4_fields_print)
qed

lemma ParseAddrPort_print_v4:
  "ParseAddrPort (print_addrport \<lparr>ap_addr = IPv4 [a, b, c, d], ap_port = p\<rparr>) =
    Some \<lparr>ap_addr = IPv4 [a, b, c, d], ap_port = p\<rparr>"
proof -
  have "CHR '':'' \<notin> set (dec (unat p))" by (simp add: dec_no_char is_digit_def)
  then have cut: "cut_last_colon (print_addrport \<lparr>ap_addr = IPv4 [a, b, c, d], ap_port = p\<rparr>) =
      Some (print_ipv4 [a, b, c, d], dec (unat p))"
    by (simp add: cut_last_colon_Some print_addrport_def print_addr_def is_v4_def)
  have ne: "print_ipv4 [a, b, c, d] \<noteq> []" by (simp add: print_ipv4_quad)
  have "hd (print_ipv4 [a, b, c, d]) \<in> set (dec (unat a))" by (simp add: print_ipv4_quad)
  then have br: "hd (print_ipv4 [a, b, c, d]) \<noteq> CHR ''[''"
    using dec_no_char by (auto simp: is_digit_def)
  have "ParseUint 16 (dec (unat p)) = Some (unat p)"
    using unsigned_less [of p, where 'a = nat] by (intro ParseUint_dec) simp
  with cut ne br show ?thesis
    by (simp add: ParseAddrPort_def ParseAddr_print_v4 is_v4_def)
qed

end
