(* ===== verification/Tor_Api.thy ===== *)
theory Tor_Api
  imports Go_Netip
begin

text \<open>
  The public data of the package (api.go, and the constants of config.go): enumerations
  are \<^verbatim>\<open>uint8\<close> in the source and may hold any byte until they are validated, so they are
  8-bit words here; durations are nanoseconds.
\<close>

section \<open>Enumerations\<close>

abbreviation (input) "DynamicServices \<equiv> (0 :: u8)"
abbreviation (input) "LinuxSandbox \<equiv> (1 :: u8)"
abbreviation (input) "LogNotice \<equiv> (0 :: u8)"
abbreviation (input) "LogWarn \<equiv> (1 :: u8)"
abbreviation (input) "LogError \<equiv> (2 :: u8)"
abbreviation (input) "NegotiatedConnectionPadding \<equiv> (0 :: u8)"
abbreviation (input) "ForceConnectionPadding \<equiv> (1 :: u8)"
abbreviation (input) "ReducedConnectionPadding \<equiv> (2 :: u8)"
abbreviation (input) "DisableConnectionPadding \<equiv> (3 :: u8)"
abbreviation (input) "StandardCircuitPadding \<equiv> (0 :: u8)"
abbreviation (input) "ReducedCircuitPadding \<equiv> (1 :: u8)"
abbreviation (input) "DisableCircuitPadding \<equiv> (2 :: u8)"
abbreviation (input) "ClientIPv4Only \<equiv> (0 :: u8)"
abbreviation (input) "ClientDualStack \<equiv> (1 :: u8)"
abbreviation (input) "ClientPreferIPv6 \<equiv> (2 :: u8)"
abbreviation (input) "ClientIPv6Only \<equiv> (3 :: u8)"
abbreviation (input) "AllowOnionAndExitTraffic \<equiv> (0 :: u8)"
abbreviation (input) "OnionTrafficOnly \<equiv> (1 :: u8)"
abbreviation (input) "RejectOnionTraffic \<equiv> (2 :: u8)"
abbreviation (input) "RetrySameNetwork \<equiv> (0 :: u8)"
abbreviation (input) "LatchOutboundErrors \<equiv> (1 :: u8)"
abbreviation (input) "IATDisabled \<equiv> (0 :: u8)"
abbreviation (input) "IATParanoid \<equiv> (2 :: u8)"
abbreviation (input) "SessionCircuits \<equiv> (0 :: u8)"
abbreviation (input) "IsolateEachConnection \<equiv> (1 :: u8)"
abbreviation (input) "IsolateDestinationAddress \<equiv> (1 :: u8)"
abbreviation (input) "IsolateDestinationPort \<equiv> (2 :: u8)"
abbreviation (input) "KeepRendezvousCircuit \<equiv> (0 :: u8)"
abbreviation (input) "CloseRendezvousCircuit \<equiv> (1 :: u8)"

abbreviation (input) "Plain \<equiv> ([] :: string)"
abbreviation (input) "Obfs4 \<equiv> ''obfs4''"

text \<open>\<^verbatim>\<open>time.Duration\<close> constants.\<close>

definition Second :: int where "Second = 1000000000"
definition Minute :: int where "Minute = 60 * Second"
definition Hour :: int where "Hour = 60 * Minute"

section \<open>Records\<close>

text \<open>\<^verbatim>\<open>gobox.Path\<close>: a sandbox root and a relative path.\<close>

datatype groot = Temporary | Persistent | OtherRoot string

record gpath =
  Root :: groot
  Rel :: string

record transport_config =
  Kind :: string
  Program :: string

record bridge =
  Transport :: string
  Address :: string
  Fingerprint :: string
  Obfs4Certificate :: string
  IAT :: u8

record bridge_config =
  bc_UseBridges :: bool
  bc_Bridges :: "bridge list"
  bc_Transports :: "transport_config list"

record config =
  SandboxSlot :: string
  SandboxTemplate :: string
  TorProgram :: string
  StateDirectory :: gpath
  Sandbox :: u8
  LogLevel :: u8
  ForwardTorLogs :: bool
  StartupTimeout :: int
  CommandTimeout :: int
  DialTimeout :: int
  ShutdownTimeout :: int
  MaxProxyConnections :: int
  OutboundFailures :: u8
  MaxCircuitDirtiness :: int
  CircuitBuildTimeout :: int
  BandwidthRate :: u64
  BandwidthBurst :: u64
  ConnectionPadding :: u8
  CircuitPadding :: u8
  ReachableORPorts :: "u16 list"
  MaxPendingCircuits :: u16
  NumCPUs :: u16
  ClientIP :: u8
  ClientIPv6 :: bool
  OnionTraffic :: u8
  EntryNodes :: "string list"
  ExitNodes :: "string list"
  ExcludeNodes :: "string list"
  ExcludeExitNodes :: "string list"
  StrictNodes :: bool
  UseBridges :: bool
  Bridges :: "bridge list"
  Transports :: "transport_config list"

text \<open>Which of the injected dependencies are present (not nil).\<close>

record dependencies =
  has_Sandboxes :: bool
  has_Clock :: bool
  has_Random :: bool
  has_Logger :: bool

record network_config =
  Circuits :: u8
  Isolation :: u8

record outbound_state =
  Available :: bool
  Generation :: u64
  Attempts :: u64

end
