(* ===== verification/Tor_Config.thy ===== *)
theory Tor_Config
  imports Tor_Api
begin

text \<open>
  Configuration (config.go): validation with defaults, bridge validation, and the torrc
  text that \<^verbatim>\<open>renderConfig\<close> writes. \<^verbatim>\<open>gobox.ValidateName\<close> and \<^verbatim>\<open>gobox.ValidatePath\<close>
  are code of another module: they are the parameters \<open>vn\<close> and \<open>vp\<close>, with a nil error
  as \<^const>\<open>None\<close>.
\<close>

section \<open>Helpers\<close>

definition safeText :: "string \<Rightarrow> bool" where
  "safeText s = list_all (\<lambda>r. \<not> (r < 32 \<or> r = 127)) (runes s)"

definition quote_char :: "char \<Rightarrow> string" where
  "quote_char c =
    (if c = CHR 0x5C then [CHR 0x5C, CHR 0x5C]
     else if c = CHR 0x22 then [CHR 0x5C, CHR 0x22] else [c])"

definition quote :: "string \<Rightarrow> string" where
  "quote s = CHR 0x22 # concat (map quote_char s) @ [CHR 0x22]"

definition validFingerprint :: "string \<Rightarrow> bool" where
  "validFingerprint f = (case hex_decode f of None \<Rightarrow> False | Some b \<Rightarrow> length b = 20)"

definition numericEndpoint :: "string \<Rightarrow> bool \<Rightarrow> addrport res" where
  "numericEndpoint s loopback =
    (case ParseAddrPort s of
       None \<Rightarrow> Inl (Msg ''tor-driver: invalid numeric endpoint'')
     | Some a \<Rightarrow>
         if ap_port a = 0 \<or> zone_of (ap_addr a) \<noteq> [] \<or> IsUnspecified (ap_addr a) \<or>
            (loopback \<and> \<not> IsLoopback (ap_addr a))
         then Inl (Msg ''tor-driver: invalid numeric endpoint'')
         else Inr a)"

definition bit :: "bool \<Rightarrow> int" where
  "bit v = (if v then 1 else 0)"

definition fingerprints :: "casemap \<Rightarrow> string list \<Rightarrow> string" where
  "fingerprints U v = Join '','' (map (\<lambda>f. CHR ''$'' # ToUpper U f) v)"

section \<open>Bridge validation\<close>

text \<open>
  One pass of the loop over \<^verbatim>\<open>transports\<close>: the state is whether obfs4 was registered.
\<close>

fun check_transports :: "(string \<Rightarrow> goerr option) \<Rightarrow> bool \<Rightarrow> transport_config list \<Rightarrow> bool res" where
  "check_transports vn registered [] = Inr registered"
| "check_transports vn registered (p # ps) =
    (if Kind p \<noteq> Obfs4 then Inl (Sentinel ErrUnsupportedTransport)
     else if registered then Inl (Msg ''tor-driver: duplicate obfs4 registration'')
     else case vn (Program p) of
         Some e \<Rightarrow> Inl (Wrap ''tor-driver: transport program is invalid: '' e)
       | None \<Rightarrow> check_transports vn True ps)"

text \<open>One bridge: an error, a bridge that is ignored with a warning, or an accepted bridge
  with its certificate in canonical form.\<close>

definition check_bridge :: "bool \<Rightarrow> nat \<Rightarrow> bridge \<Rightarrow> bridge option res" where
  "check_bridge registered i b =
    (if Transport b \<noteq> Plain \<and> Transport b \<noteq> Obfs4 then Inr None
     else case numericEndpoint (Address b) False of
         Inl _ \<Rightarrow> Inl (Msg (''tor-driver: bridge '' @ dec i @ '' needs numeric IP:port''))
       | Inr _ \<Rightarrow>
           if Fingerprint b \<noteq> [] \<and> \<not> validFingerprint (Fingerprint b)
           then Inl (Msg (''tor-driver: bridge '' @ dec i @ '' fingerprint invalid''))
           else if Transport b = Obfs4 then
             (if \<not> registered then Inl (Msg ''tor-driver: obfs4 bridge needs registered obfs4 executable'')
              else case b64_decode (TrimRight (Obfs4Certificate b) ''='') of
                  None \<Rightarrow> Inl (Msg (''tor-driver: invalid obfs4 bridge '' @ dec i))
                | Some cert \<Rightarrow>
                    if length cert \<noteq> 52 \<or> IATParanoid < IAT b \<or> Fingerprint b = []
                    then Inl (Msg (''tor-driver: invalid obfs4 bridge '' @ dec i))
                    else Inr (Some (b\<lparr>Obfs4Certificate := b64_encode cert\<rparr>)))
           else if Obfs4Certificate b \<noteq> [] \<or> IAT b \<noteq> IATDisabled
           then Inl (Msg ''tor-driver: obfs4 options on plain bridge'')
           else Inr (Some b))"

text \<open>The loop over \<^verbatim>\<open>bridges\<close>, returning the accepted bridges and the indices warned
  about.\<close>

fun check_bridges :: "bool \<Rightarrow> nat \<Rightarrow> bridge list \<Rightarrow> (bridge list \<times> nat list) res" where
  "check_bridges registered i [] = Inr ([], [])"
| "check_bridges registered i (b # bs) =
    (case check_bridge registered i b of
       Inl e \<Rightarrow> Inl e
     | Inr r \<Rightarrow>
         (case check_bridges registered (Suc i) bs of
            Inl e \<Rightarrow> Inl e
          | Inr (acc, warn) \<Rightarrow>
              (case r of None \<Rightarrow> Inr (acc, i # warn) | Some b' \<Rightarrow> Inr (b' # acc, warn))))"

text \<open>The result carries the accepted bridges, the transports and the indices of the
  bridges that were ignored with a warning to the logger.\<close>

definition validateBridgeConfig ::
  "(string \<Rightarrow> goerr option) \<Rightarrow> bool \<Rightarrow> bridge list \<Rightarrow> transport_config list \<Rightarrow> u8 \<Rightarrow>
    (bridge list \<times> transport_config list \<times> nat list) res" where
  "validateBridgeConfig vn useBridges bridges transports sandbox =
    (case check_transports vn False transports of
       Inl e \<Rightarrow> Inl e
     | Inr registered \<Rightarrow>
         if sandbox = LinuxSandbox \<and> registered
         then Inl (Msg ''tor-driver: starter sandbox mode does not launch transports'')
         else case check_bridges registered 0 bridges of
             Inl e \<Rightarrow> Inl e
           | Inr (accepted, warn) \<Rightarrow>
               if useBridges \<and> accepted = []
               then Inl (Msg ''tor-driver: bridge mode has no supported bridges'')
               else if \<not> useBridges \<and> accepted \<noteq> []
               then Inl (Msg ''tor-driver: bridges require UseBridges'')
               else Inr (accepted, transports, warn))"

section \<open>Validation of the whole configuration\<close>

definition default_ids :: "config \<Rightarrow> config" where
  "default_ids cfg =
    cfg\<lparr>SandboxSlot := (if SandboxSlot cfg = [] then ''tor'' else SandboxSlot cfg),
        SandboxTemplate := (if SandboxTemplate cfg = [] then ''tor'' else SandboxTemplate cfg),
        TorProgram := (if TorProgram cfg = [] then ''tor'' else TorProgram cfg)\<rparr>"

definition check_ids ::
  "(string \<Rightarrow> goerr option) \<Rightarrow> (gpath \<Rightarrow> goerr option) \<Rightarrow> config \<Rightarrow> goerr option" where
  "check_ids vn vp cfg =
    (case vn (SandboxSlot cfg) of
       Some e \<Rightarrow> Some (Wrap ''tor-driver: invalid sandbox slot: '' e)
     | None \<Rightarrow>
         (case vn (SandboxTemplate cfg) of
            Some e \<Rightarrow> Some (Wrap ''tor-driver: invalid sandbox template: '' e)
          | None \<Rightarrow>
              (case vn (TorProgram cfg) of
                 Some e \<Rightarrow> Some (Wrap ''tor-driver: invalid Tor program: '' e)
               | None \<Rightarrow>
                   if Rel (StateDirectory cfg) = [] then None
                   else (case vp (StateDirectory cfg) of
                       Some e \<Rightarrow> Some (Wrap ''tor-driver: invalid state directory: '' e)
                     | None \<Rightarrow> None))))"

definition bad_enum :: "config \<Rightarrow> bool" where
  "bad_enum cfg \<longleftrightarrow> LinuxSandbox < Sandbox cfg \<or> LogError < LogLevel cfg \<or>
     DisableConnectionPadding < ConnectionPadding cfg \<or> DisableCircuitPadding < CircuitPadding cfg \<or>
     ClientIPv6Only < ClientIP cfg \<or> RejectOnionTraffic < OnionTraffic cfg"

text \<open>One round of the loop over the timeout table.\<close>

definition default_timeout :: "int \<Rightarrow> int \<Rightarrow> int res" where
  "default_timeout v d =
    (let v' = (if v = 0 then d else v)
     in if v' < Second \<or> 24 * Hour < v' then Inl (Msg ''tor-driver: timeout out of range'') else Inr v')"

definition default_timeouts :: "config \<Rightarrow> config res" where
  "default_timeouts cfg =
    (case default_timeout (StartupTimeout cfg) (30 * Second) of
       Inl e \<Rightarrow> Inl e
     | Inr t1 \<Rightarrow>
    (case default_timeout (CommandTimeout cfg) (10 * Second) of
       Inl e \<Rightarrow> Inl e
     | Inr t2 \<Rightarrow>
    (case default_timeout (DialTimeout cfg) (90 * Second) of
       Inl e \<Rightarrow> Inl e
     | Inr t3 \<Rightarrow>
    (case default_timeout (ShutdownTimeout cfg) (10 * Second) of
       Inl e \<Rightarrow> Inl e
     | Inr t4 \<Rightarrow>
    (case default_timeout (MaxCircuitDirtiness cfg) (10 * Minute) of
       Inl e \<Rightarrow> Inl e
     | Inr t5 \<Rightarrow>
         Inr (cfg\<lparr>StartupTimeout := t1, CommandTimeout := t2, DialTimeout := t3,
                  ShutdownTimeout := t4, MaxCircuitDirtiness := t5\<rparr>))))))"

text \<open>The loop over \<^verbatim>\<open>ReachableORPorts\<close> with the set of ports already seen.\<close>

fun check_ports :: "u16 list \<Rightarrow> u16 list \<Rightarrow> goerr option" where
  "check_ports seen [] = None"
| "check_ports seen (p # ps) =
    (if p = 0 then Some (Msg ''tor-driver: reachable relay port must be nonzero'')
     else if p \<in> set seen then Some (Msg ''tor-driver: duplicate reachable relay port'')
     else check_ports (p # seen) ps)"

text \<open>The checks from the circuit build timeout to the relay ports, which change nothing
  but the default of \<^verbatim>\<open>MaxProxyConnections\<close>.\<close>

definition check_limits :: "config \<Rightarrow> config res" where
  "check_limits cfg =
    (if CircuitBuildTimeout cfg < 0 \<or> (0 < CircuitBuildTimeout cfg \<and> CircuitBuildTimeout cfg < Second) \<or>
        24 * Hour < CircuitBuildTimeout cfg
     then Inl (Msg ''tor-driver: invalid circuit build timeout'')
     else
       let cfg1 = (if MaxProxyConnections cfg = 0 then cfg\<lparr>MaxProxyConnections := 256\<rparr> else cfg)
       in if MaxProxyConnections cfg1 < 1 \<or> 65536 < MaxProxyConnections cfg1
          then Inl (Msg ''tor-driver: invalid proxy connection limit'')
          else if 1024 < MaxPendingCircuits cfg1
          then Inl (Msg ''tor-driver: pending circuit limit exceeds Tor maximum'')
          else if ((BandwidthRate cfg1 = 0) \<noteq> (BandwidthBurst cfg1 = 0)) \<or> BandwidthBurst cfg1 < BandwidthRate cfg1
          then Inl (Msg ''tor-driver: bandwidth rate/burst must be supplied together and burst >= rate'')
          else if \<not> list_all (list_all validFingerprint)
                   [EntryNodes cfg1, ExitNodes cfg1, ExcludeNodes cfg1, ExcludeExitNodes cfg1]
          then Inl (Msg ''tor-driver: invalid relay fingerprint'')
          else case check_ports [] (ReachableORPorts cfg1) of
              Some e \<Rightarrow> Inl e
            | None \<Rightarrow> Inr cfg1)"

definition validate ::
  "(string \<Rightarrow> goerr option) \<Rightarrow> (gpath \<Rightarrow> goerr option) \<Rightarrow> config \<Rightarrow> dependencies \<Rightarrow> (config \<times> nat list) res" where
  "validate vn vp cfg deps =
    (if \<not> has_Sandboxes deps \<or> \<not> has_Clock deps \<or> \<not> has_Random deps \<or> \<not> has_Logger deps
     then Inl (Msg ''tor-driver: all dependencies except Outbound are required'')
     else
       let cfg1 = default_ids cfg
       in case check_ids vn vp cfg1 of
           Some e \<Rightarrow> Inl e
         | None \<Rightarrow>
             if bad_enum cfg1 then Inl (Msg ''tor-driver: invalid enum'')
             else if ClientIPv6 cfg1 \<and> ClientIP cfg1 \<noteq> ClientIPv4Only \<and> ClientIP cfg1 \<noteq> ClientDualStack
             then Inl (Msg ''tor-driver: ClientIPv6 conflicts with ClientIP'')
             else
               let cfg2 = (if ClientIPv6 cfg1 then cfg1\<lparr>ClientIP := ClientDualStack\<rparr> else cfg1)
               in if LatchOutboundErrors < OutboundFailures cfg2
                  then Inl (Msg ''tor-driver: invalid outbound failure policy'')
                  else case default_timeouts cfg2 of
                      Inl e \<Rightarrow> Inl e
                    | Inr cfg3 \<Rightarrow>
                        (case check_limits cfg3 of
                           Inl e \<Rightarrow> Inl e
                         | Inr cfg4 \<Rightarrow>
                             (case validateBridgeConfig vn (UseBridges cfg4) (Bridges cfg4)
                                     (Transports cfg4) (Sandbox cfg4) of
                                Inl e \<Rightarrow> Inl e
                              | Inr (bridges, transports, warn) \<Rightarrow>
                                  Inr (cfg4\<lparr>Bridges := bridges, Transports := transports\<rparr>, warn))))"

section \<open>Rendering\<close>

definition bridgeLine :: "bridge \<Rightarrow> string" where
  "bridgeLine br =
    (if Transport br = Obfs4 then ''obfs4 '' else []) @ Address br @
    (if Fingerprint br \<noteq> [] then CHR '' '' # Fingerprint br else []) @
    (if Transport br = Obfs4
     then '' cert='' @ Obfs4Certificate br @ '' iat-mode='' @ Itoa (uint (IAT br)) else [])"

definition bridgeLines :: "bridge list \<Rightarrow> string list" where
  "bridgeLines bridges = map bridgeLine bridges"

definition socksPortOptions :: "config \<Rightarrow> string" where
  "socksPortOptions c =
    Join '' '' ([''127.0.0.1:auto'', ''IsolateSOCKSAuth'', ''KeepAliveIsolateSOCKSAuth'', ''IPv6Traffic''] @
      (if ClientIP c = ClientPreferIPv6 \<or> ClientIP c = ClientIPv6Only then [''PreferIPv6''] else []) @
      (if ClientIP c = ClientIPv6Only then [''NoIPv4Traffic''] else []) @
      (if OnionTraffic c = OnionTrafficOnly then [''OnionTrafficOnly'']
       else if OnionTraffic c = RejectOnionTraffic then [''NoOnionTraffic''] else []))"

text \<open>A slice index out of range panics: \<^const>\<open>None\<close>.\<close>

definition index :: "'a list \<Rightarrow> u8 \<Rightarrow> 'a option" where
  "index xs i = (if unat i < length xs then Some (xs ! unat i) else None)"

text \<open>The options that \<^verbatim>\<open>renderConfig\<close> writes, in order, each a key and a value; \<open>tp\<close> is
  \<^verbatim>\<open>transportPaths\<close>, in which a missing key reads as the empty string.\<close>

definition render_head ::
  "config \<Rightarrow> string \<Rightarrow> string \<Rightarrow> string \<Rightarrow> string \<Rightarrow> string \<Rightarrow> string \<Rightarrow> int \<Rightarrow> (string \<times> string) list" where
  "render_head c state controlPort controlCookie proxy user password pid =
    [(''DataDirectory'', quote state),
     (''RunAsDaemon'', ''0''),
     (''ControlPort'', ''127.0.0.1:auto''),
     (''ControlPortWriteToFile'', quote controlPort),
     (''CookieAuthentication'', ''1''),
     (''CookieAuthFile'', quote controlCookie),
     (''CookieAuthFileGroupReadable'', ''0''),
     (''__OwningControllerProcess'', Itoa pid),
     (''DisableNetwork'', ''1''),
     (''SocksPort'', socksPortOptions c),
     (''SocksPolicy'', ''accept 127.0.0.1''),
     (''SocksPolicy'', ''reject *''),
     (''Socks5Proxy'', proxy),
     (''Socks5ProxyUsername'', user),
     (''Socks5ProxyPassword'', password),
     (''ClientOnly'', ''1''),
     (''ORPort'', ''0''),
     (''DirPort'', ''0''),
     (''ExitRelay'', ''0''),
     (''PublishServerDescriptor'', ''0''),
     (''SafeLogging'', ''1''),
     (''DisableDebuggerAttachment'', ''1''),
     (''AvoidDiskWrites'', ''1''),
     (''NoExec'', Itoa (bit (Transports c = []))),
     (''Sandbox'', Itoa (bit (Sandbox c = LinuxSandbox)))]"

definition render_policy :: "config \<Rightarrow> string \<Rightarrow> string \<Rightarrow> (string \<times> string) list" where
  "render_policy c level padding =
    [(''Log'', level @ '' stdout''),
     (''ConnectionPadding'', padding),
     (''ReducedConnectionPadding'', Itoa (bit (ConnectionPadding c = ReducedConnectionPadding))),
     (''CircuitPadding'', Itoa (bit (CircuitPadding c \<noteq> DisableCircuitPadding))),
     (''ReducedCircuitPadding'', Itoa (bit (CircuitPadding c = ReducedCircuitPadding))),
     (''ClientUseIPv4'', Itoa (bit (ClientIP c \<noteq> ClientIPv6Only))),
     (''ClientUseIPv6'', Itoa (bit (ClientIP c \<noteq> ClientIPv4Only))),
     (''ClientPreferIPv6ORPort'',
       if ClientIP c = ClientPreferIPv6 \<or> ClientIP c = ClientIPv6Only then ''1'' else ''auto'')]"

definition render_optional :: "casemap \<Rightarrow> config \<Rightarrow> (string \<times> string) list" where
  "render_optional U c =
    (if ReachableORPorts c \<noteq> []
     then [(''ReachableORAddresses'',
            Join '','' (map (\<lambda>port. ''*:'' @ Itoa (uint port)) (ReachableORPorts c)))] else []) @
    (if 0 < MaxPendingCircuits c
     then [(''MaxClientCircuitsPending'', Itoa (uint (MaxPendingCircuits c)))] else []) @
    (if 0 < NumCPUs c then [(''NumCPUs'', Itoa (uint (NumCPUs c)))] else []) @
    [(''MaxCircuitDirtiness'', Itoa (MaxCircuitDirtiness c div Second) @ '' seconds'')] @
    (if 0 < CircuitBuildTimeout c
     then [(''CircuitBuildTimeout'', Itoa (CircuitBuildTimeout c div Second) @ '' seconds'')] else []) @
    (if 0 < BandwidthRate c
     then [(''BandwidthRate'', Itoa (uint (BandwidthRate c)) @ '' bytes''),
           (''BandwidthBurst'', Itoa (uint (BandwidthBurst c)) @ '' bytes'')] else []) @
    (if EntryNodes c \<noteq> [] then [(''EntryNodes'', fingerprints U (EntryNodes c))] else []) @
    (if ExitNodes c \<noteq> [] then [(''ExitNodes'', fingerprints U (ExitNodes c))] else []) @
    (if ExcludeNodes c \<noteq> [] then [(''ExcludeNodes'', fingerprints U (ExcludeNodes c))] else []) @
    (if ExcludeExitNodes c \<noteq> []
     then [(''ExcludeExitNodes'', fingerprints U (ExcludeExitNodes c))] else []) @
    [(''StrictNodes'', Itoa (bit (StrictNodes c))),
     (''UseBridges'', Itoa (bit (UseBridges c)))]"

definition render_bridges :: "config \<Rightarrow> (string \<Rightarrow> string option) \<Rightarrow> (string \<times> string) list" where
  "render_bridges c tp =
    map (\<lambda>t. (''ClientTransportPlugin'',
              ''obfs4 exec '' @ quote (case tp (Program t) of None \<Rightarrow> [] | Some p \<Rightarrow> p))) (Transports c) @
    map (\<lambda>b. (''Bridge'', b)) (bridgeLines (Bridges c))"

definition line_text :: "string \<times> string \<Rightarrow> string" where
  "line_text kv = fst kv @ '' '' @ snd kv @ [CHR 0x0A]"

definition render_options ::
  "casemap \<Rightarrow> config \<Rightarrow> string \<Rightarrow> string \<Rightarrow> string \<Rightarrow> string \<Rightarrow> string \<Rightarrow> string \<Rightarrow> int \<Rightarrow>
    (string \<Rightarrow> string option) \<Rightarrow> (string \<times> string) list option" where
  "render_options U c state controlPort controlCookie proxy user password pid tp =
    (case index [''notice'', ''warn'', ''err''] (LogLevel c) of
       None \<Rightarrow> None
     | Some level \<Rightarrow>
         (case index [''auto'', ''1'', ''auto'', ''0''] (ConnectionPadding c) of
            None \<Rightarrow> None
          | Some padding \<Rightarrow>
              Some (render_head c state controlPort controlCookie proxy user password pid @
                    render_policy c level padding @ render_optional U c @ render_bridges c tp)))"

definition renderConfig ::
  "casemap \<Rightarrow> config \<Rightarrow> string \<Rightarrow> string \<Rightarrow> string \<Rightarrow> string \<Rightarrow> string \<Rightarrow> string \<Rightarrow> int \<Rightarrow>
    (string \<Rightarrow> string option) \<Rightarrow> string option" where
  "renderConfig U c state controlPort controlCookie proxy user password pid tp =
    map_option (\<lambda>kvs. concat (map line_text kvs))
      (render_options U c state controlPort controlCookie proxy user password pid tp)"

end
