(* ===== verification/Tor_Config_Proofs.thy ===== *)
theory Tor_Config_Proofs
  imports Tor_Config
begin

text \<open>
  What the configuration code guarantees: \<open>valid_config\<close> states the contract of a
  validated configuration independently of the code; validation returns only such
  configurations and returns each of them unchanged, and the rendered torrc has exactly
  the lines the code means to write.
\<close>

section \<open>Contract of a validated configuration\<close>

definition valid_bridge :: "bool \<Rightarrow> bridge \<Rightarrow> bool" where
  "valid_bridge registered b \<longleftrightarrow>
    (\<exists>a. numericEndpoint (Address b) False = Inr a) \<and>
    (Transport b = Plain \<and> Obfs4Certificate b = [] \<and> IAT b = IATDisabled \<and>
       (Fingerprint b = [] \<or> validFingerprint (Fingerprint b)) \<or>
     Transport b = Obfs4 \<and> registered \<and> Fingerprint b \<noteq> [] \<and> validFingerprint (Fingerprint b) \<and>
       IAT b \<le> IATParanoid \<and> (\<exists>cert. length cert = 52 \<and> Obfs4Certificate b = b64_encode cert))"

definition valid_transports :: "(string \<Rightarrow> goerr option) \<Rightarrow> transport_config list \<Rightarrow> bool" where
  "valid_transports vn ts \<longleftrightarrow> ts = [] \<or> (\<exists>t. ts = [t] \<and> Kind t = Obfs4 \<and> vn (Program t) = None)"

definition timeout_ok :: "int \<Rightarrow> bool" where
  "timeout_ok t \<longleftrightarrow> Second \<le> t \<and> t \<le> 24 * Hour"

definition valid_ids :: "(string \<Rightarrow> goerr option) \<Rightarrow> (gpath \<Rightarrow> goerr option) \<Rightarrow> config \<Rightarrow> bool" where
  "valid_ids vn vp c \<longleftrightarrow> SandboxSlot c \<noteq> [] \<and> SandboxTemplate c \<noteq> [] \<and> TorProgram c \<noteq> [] \<and>
    vn (SandboxSlot c) = None \<and> vn (SandboxTemplate c) = None \<and> vn (TorProgram c) = None \<and>
    (Rel (StateDirectory c) = [] \<or> vp (StateDirectory c) = None)"

definition valid_enums :: "config \<Rightarrow> bool" where
  "valid_enums c \<longleftrightarrow> Sandbox c \<le> LinuxSandbox \<and> LogLevel c \<le> LogError \<and>
    ConnectionPadding c \<le> DisableConnectionPadding \<and> CircuitPadding c \<le> DisableCircuitPadding \<and>
    ClientIP c \<le> ClientIPv6Only \<and> OnionTraffic c \<le> RejectOnionTraffic \<and>
    OutboundFailures c \<le> LatchOutboundErrors \<and> (ClientIPv6 c \<longrightarrow> ClientIP c = ClientDualStack)"

definition valid_timeouts :: "config \<Rightarrow> bool" where
  "valid_timeouts c \<longleftrightarrow> timeout_ok (StartupTimeout c) \<and> timeout_ok (CommandTimeout c) \<and>
    timeout_ok (DialTimeout c) \<and> timeout_ok (ShutdownTimeout c) \<and> timeout_ok (MaxCircuitDirtiness c)"

definition valid_limits :: "config \<Rightarrow> bool" where
  "valid_limits c \<longleftrightarrow> (CircuitBuildTimeout c = 0 \<or> timeout_ok (CircuitBuildTimeout c)) \<and>
    1 \<le> MaxProxyConnections c \<and> MaxProxyConnections c \<le> 65536 \<and> MaxPendingCircuits c \<le> 1024 \<and>
    (BandwidthRate c = 0 \<longleftrightarrow> BandwidthBurst c = 0) \<and> BandwidthRate c \<le> BandwidthBurst c \<and>
    (\<forall>f\<in>set (EntryNodes c) \<union> set (ExitNodes c) \<union> set (ExcludeNodes c) \<union> set (ExcludeExitNodes c).
       validFingerprint f) \<and>
    distinct (ReachableORPorts c) \<and> 0 \<notin> set (ReachableORPorts c)"

definition valid_bridging ::
  "(string \<Rightarrow> goerr option) \<Rightarrow> bool \<Rightarrow> bridge list \<Rightarrow> transport_config list \<Rightarrow> u8 \<Rightarrow> bool" where
  "valid_bridging vn use bs ts sandbox \<longleftrightarrow> valid_transports vn ts \<and>
    (sandbox = LinuxSandbox \<longrightarrow> ts = []) \<and> (use \<longleftrightarrow> bs \<noteq> []) \<and>
    (\<forall>b\<in>set bs. valid_bridge (ts \<noteq> []) b)"

definition valid_config :: "(string \<Rightarrow> goerr option) \<Rightarrow> (gpath \<Rightarrow> goerr option) \<Rightarrow> config \<Rightarrow> bool" where
  "valid_config vn vp c \<longleftrightarrow> valid_ids vn vp c \<and> valid_enums c \<and> valid_timeouts c \<and> valid_limits c \<and>
    valid_bridging vn (UseBridges c) (Bridges c) (Transports c) (Sandbox c)"

definition deps_ok :: "dependencies \<Rightarrow> bool" where
  "deps_ok d \<longleftrightarrow> has_Sandboxes d \<and> has_Clock d \<and> has_Random d \<and> has_Logger d"

section \<open>Bridges\<close>

lemma check_transports_Inr:
  "check_transports vn r ts = Inr r' \<Longrightarrow>
    (r \<longrightarrow> ts = []) \<and> (r' \<longleftrightarrow> r \<or> ts \<noteq> []) \<and> valid_transports vn ts"
proof (induction vn r ts rule: check_transports.induct)
  case (2 vn r t ts)
  then show ?case
    by (auto simp: valid_transports_def split: if_splits option.splits)
qed (simp add: valid_transports_def)

lemma check_transports_valid:
  "valid_transports vn ts \<Longrightarrow> check_transports vn False ts = Inr (ts \<noteq> [])"
  by (auto simp: valid_transports_def)

lemma TrimRight_b64: "TrimRight (b64_encode bs) ''='' = b64_encode bs"
proof (rule TrimRight_id)
  have "\<not> b64_alphabet (CHR ''='')" by (simp add: b64_alphabet_def b64_val_def)
  then have "CHR ''='' \<notin> set (b64_encode bs)" by (simp add: b64_codec.enc_excludes)
  then show "b64_encode bs = [] \<or> last (b64_encode bs) \<notin> set ''=''"
    by (metis empty_iff insertE last_in_set list.set)
qed

lemma check_bridge_valid: "check_bridge r i b = Inr (Some b') \<Longrightarrow> valid_bridge r b'"
  by (auto simp: check_bridge_def valid_bridge_def not_less
      split: if_splits sum.splits option.splits)

lemma valid_bridge_check: "valid_bridge r b \<Longrightarrow> check_bridge r i b = Inr (Some b)"
proof -
  assume v: "valid_bridge r b"
  then obtain a where a: "numericEndpoint (Address b) False = Inr a" by (auto simp: valid_bridge_def)
  show ?thesis
  proof (cases "Transport b = Obfs4")
    case True
    with v obtain cert where "length cert = 52" "Obfs4Certificate b = b64_encode cert"
      "b\<lparr>Obfs4Certificate := b64_encode cert\<rparr> = b"
      by (auto simp: valid_bridge_def)
    with True v a show ?thesis
      by (simp add: check_bridge_def valid_bridge_def not_less TrimRight_b64 b64_codec.dcd_enc)
  next
    case False
    with v a show ?thesis by (auto simp: check_bridge_def valid_bridge_def)
  qed
qed

lemma check_bridges_valid:
  "check_bridges r i bs = Inr (acc, warn) \<Longrightarrow> \<forall>b\<in>set acc. valid_bridge r b"
proof (induction bs arbitrary: i acc warn)
  case (Cons b bs)
  from Cons.prems obtain o' acc' warn' where o: "check_bridge r i b = Inr o'"
    and rest: "check_bridges r (Suc i) bs = Inr (acc', warn')"
    and acc: "acc = (case o' of None \<Rightarrow> acc' | Some b' \<Rightarrow> b' # acc')"
    by (auto split: sum.splits option.splits)
  from Cons.IH [OF rest] o acc check_bridge_valid [of r i b] show ?case
    by (cases o') auto
qed simp

lemma valid_check_bridges:
  "\<forall>b\<in>set bs. valid_bridge r b \<Longrightarrow> check_bridges r i bs = Inr (bs, [])"
  by (induction r i bs rule: check_bridges.induct) (simp_all add: valid_bridge_check)

lemma validateBridgeConfig_valid:
  "validateBridgeConfig vn use bs ts sb = Inr (bs', ts', w) \<Longrightarrow> valid_bridging vn use bs' ts' sb \<and> ts' = ts"
  by (auto simp: validateBridgeConfig_def valid_bridging_def
      split: sum.splits if_splits dest!: check_transports_Inr check_bridges_valid)

lemma valid_validateBridgeConfig:
  "valid_bridging vn use bs ts sb \<Longrightarrow> validateBridgeConfig vn use bs ts sb = Inr (bs, ts, [])"
  by (auto simp: validateBridgeConfig_def valid_bridging_def check_transports_valid valid_check_bridges)

section \<open>Stages of validation\<close>

lemma check_ports_None: "check_ports seen ps = None \<longleftrightarrow> distinct ps \<and> 0 \<notin> set ps \<and> set ps \<inter> set seen = {}"
  by (induction seen ps rule: check_ports.induct) auto

lemma check_ids_default: "check_ids vn vp (default_ids c) = None \<longleftrightarrow> valid_ids vn vp (default_ids c)"
  by (auto simp: check_ids_def valid_ids_def default_ids_def split: option.splits if_splits)

lemma default_ids_valid: "valid_ids vn vp c \<Longrightarrow> default_ids c = c"
  by (simp add: default_ids_def valid_ids_def)

lemma default_timeout_Inr: "default_timeout v d = Inr t \<Longrightarrow> timeout_ok t"
  by (auto simp: default_timeout_def timeout_ok_def Let_def split: if_splits)

lemma timeout_ok_nonzero: "timeout_ok t \<Longrightarrow> t \<noteq> 0"
  by (auto simp: timeout_ok_def Second_def)

lemma default_timeout_ok: "timeout_ok t \<Longrightarrow> default_timeout t d = Inr t"
  using timeout_ok_nonzero by (auto simp: default_timeout_def timeout_ok_def)

lemma default_timeouts_Inr: "default_timeouts c = Inr c' \<Longrightarrow> valid_timeouts c'"
  by (auto simp: default_timeouts_def valid_timeouts_def split: sum.splits dest!: default_timeout_Inr)

lemma default_timeouts_ok: "valid_timeouts c \<Longrightarrow> default_timeouts c = Inr c"
  by (simp add: default_timeouts_def valid_timeouts_def default_timeout_ok)

lemma default_timeouts_frame:
  assumes "default_timeouts c = Inr c'"
  shows "SandboxSlot c' = SandboxSlot c" "SandboxTemplate c' = SandboxTemplate c"
    "TorProgram c' = TorProgram c" "StateDirectory c' = StateDirectory c"
    "Sandbox c' = Sandbox c" "LogLevel c' = LogLevel c" "ConnectionPadding c' = ConnectionPadding c"
    "CircuitPadding c' = CircuitPadding c" "ClientIP c' = ClientIP c" "OnionTraffic c' = OnionTraffic c"
    "OutboundFailures c' = OutboundFailures c" "ClientIPv6 c' = ClientIPv6 c"
  using assms by (simp_all add: default_timeouts_def split: sum.splits) auto

lemma check_limits_Inr: "check_limits c = Inr c' \<Longrightarrow> valid_limits c'"
  by (auto simp: check_limits_def valid_limits_def timeout_ok_def Let_def not_less check_ports_None
      list_all_iff split: if_splits option.splits)

lemma check_limits_ok:
  assumes "valid_limits c"
  shows "check_limits c = Inr c"
proof -
  have t: "\<not> (CircuitBuildTimeout c < 0 \<or> 0 < CircuitBuildTimeout c \<and> CircuitBuildTimeout c < Second \<or>
      24 * Hour < CircuitBuildTimeout c)"
    using assms by (auto simp: valid_limits_def timeout_ok_def Second_def Minute_def Hour_def)
  have f: "list_all (list_all validFingerprint) [EntryNodes c, ExitNodes c, ExcludeNodes c, ExcludeExitNodes c]"
    using assms by (simp add: valid_limits_def list_all_iff)
  have p: "check_ports [] (ReachableORPorts c) = None"
    using assms by (simp add: valid_limits_def check_ports_None)
  from assms have m: "MaxProxyConnections c \<noteq> 0" "\<not> (MaxProxyConnections c < 1 \<or> 65536 < MaxProxyConnections c)"
    "\<not> 1024 < MaxPendingCircuits c"
    "(BandwidthRate c = 0) = (BandwidthBurst c = 0)" "\<not> BandwidthBurst c < BandwidthRate c"
    by (auto simp: valid_limits_def not_less)
  show ?thesis
    unfolding check_limits_def Let_def
    by (simp only: t f p m if_False if_True simp_thms option.case)
qed

lemma check_limits_frame:
  assumes "check_limits c = Inr c'"
  shows "c' = c \<or> c' = c\<lparr>MaxProxyConnections := 256\<rparr>"
  using assms by (simp add: check_limits_def Let_def split: if_splits option.splits)

section \<open>Validation as a whole\<close>

lemma valid_enums_iff:
  "valid_enums c \<longleftrightarrow> \<not> bad_enum c \<and> (ClientIPv6 c \<longrightarrow> ClientIP c = ClientDualStack) \<and>
     \<not> LatchOutboundErrors < OutboundFailures c"
  by (auto simp: valid_enums_def bad_enum_def not_less)

lemma stages_frame:
  assumes "default_timeouts c = Inr c3" and "check_limits c3 = Inr c4"
  shows "valid_enums c \<Longrightarrow> valid_enums c4" and "valid_ids vn vp c \<Longrightarrow> valid_ids vn vp c4"
    and "valid_timeouts c4"
proof -
  note f = default_timeouts_frame [OF assms(1)]
  have t: "valid_timeouts c3" using assms(1) by (rule default_timeouts_Inr)
  from check_limits_frame [OF assms(2)] show "valid_enums c \<Longrightarrow> valid_enums c4"
    by (elim disjE) (simp_all add: valid_enums_def f)
  from check_limits_frame [OF assms(2)] show "valid_ids vn vp c \<Longrightarrow> valid_ids vn vp c4"
    by (elim disjE) (simp_all add: valid_ids_def f)
  from check_limits_frame [OF assms(2)] t show "valid_timeouts c4"
    by (elim disjE) (simp_all add: valid_timeouts_def)
qed

lemma valid_update_bridging:
  "valid_ids vn vp (c\<lparr>Bridges := bs, Transports := ts\<rparr>) = valid_ids vn vp c"
  "valid_enums (c\<lparr>Bridges := bs, Transports := ts\<rparr>) = valid_enums c"
  "valid_timeouts (c\<lparr>Bridges := bs, Transports := ts\<rparr>) = valid_timeouts c"
  "valid_limits (c\<lparr>Bridges := bs, Transports := ts\<rparr>) = valid_limits c"
  by (simp_all add: valid_ids_def valid_enums_def valid_timeouts_def valid_limits_def)

lemma valid_ids_ClientIP [simp]: "valid_ids vn vp (c\<lparr>ClientIP := x\<rparr>) = valid_ids vn vp c"
  by (simp add: valid_ids_def)

text \<open>The successful runs of \<^verbatim>\<open>validate\<close>, stage by stage.\<close>

lemma validate_InrE:
  assumes "validate vn vp c deps = Inr (c', w)"
  obtains c2 c3 c4 where "deps_ok deps"
    and "valid_ids vn vp c2" and "valid_enums c2"
    and "default_timeouts c2 = Inr c3" and "check_limits c3 = Inr c4"
    and "validateBridgeConfig vn (UseBridges c4) (Bridges c4) (Transports c4) (Sandbox c4) =
           Inr (Bridges c', Transports c', w)"
    and "c' = c4\<lparr>Bridges := Bridges c', Transports := Transports c'\<rparr>"
proof -
  let ?c1 = "default_ids c"
  let ?c2 = "if ClientIPv6 ?c1 then ?c1\<lparr>ClientIP := ClientDualStack\<rparr> else ?c1"
  from assms have d: "deps_ok deps" and i: "check_ids vn vp ?c1 = None" and b: "\<not> bad_enum ?c1"
    and l: "\<not> LatchOutboundErrors < OutboundFailures ?c2"
    by (auto simp: validate_def deps_ok_def Let_def split: if_splits option.splits)
  from i have ids: "valid_ids vn vp ?c2" by (simp add: check_ids_default)
  from b l have en: "valid_enums ?c2"
    by (auto simp: valid_enums_iff bad_enum_def)
  from assms i b l obtain c3 c4 bs ts where st: "default_timeouts ?c2 = Inr c3" "check_limits c3 = Inr c4"
    "validateBridgeConfig vn (UseBridges c4) (Bridges c4) (Transports c4) (Sandbox c4) = Inr (bs, ts, w)"
    "c' = c4\<lparr>Bridges := bs, Transports := ts\<rparr>"
    by (auto simp: validate_def Let_def split: if_splits option.splits sum.splits prod.splits)
  show thesis
    using st by (intro that [OF d ids en st(1,2)]) simp_all
qed

lemma validate_Inr_valid:
  assumes "validate vn vp c deps = Inr (c', w)"
  shows "deps_ok deps \<and> valid_config vn vp c'"
  using assms
proof (rule validate_InrE)
  fix c2 c3 c4
  assume d: "deps_ok deps" and i: "valid_ids vn vp c2" and e: "valid_enums c2"
    and t: "default_timeouts c2 = Inr c3" and l: "check_limits c3 = Inr c4"
    and v: "validateBridgeConfig vn (UseBridges c4) (Bridges c4) (Transports c4) (Sandbox c4) =
           Inr (Bridges c', Transports c', w)"
    and c': "c' = c4\<lparr>Bridges := Bridges c', Transports := Transports c'\<rparr>"
  have "valid_bridging vn (UseBridges c4) (Bridges c') (Transports c') (Sandbox c4)"
    using validateBridgeConfig_valid [OF v] by (rule conjunct1)
  moreover have "UseBridges c' = UseBridges c4" "Sandbox c' = Sandbox c4"
    by (subst c', simp)+
  moreover have "valid_ids vn vp c' \<and> valid_enums c' \<and> valid_timeouts c' \<and> valid_limits c'"
    using stages_frame [OF t l] i e check_limits_Inr [OF l]
    by (subst (1 2 3 4) c') (simp add: valid_update_bridging)
  ultimately show ?thesis using d by (simp add: valid_config_def)
qed

lemma valid_validate:
  assumes "deps_ok deps" and "valid_config vn vp c"
  shows "validate vn vp c deps = Inr (c, [])"
proof -
  from assms(2) have i: "valid_ids vn vp c" and e: "valid_enums c" and t: "valid_timeouts c"
    and l: "valid_limits c"
    and b: "valid_bridging vn (UseBridges c) (Bridges c) (Transports c) (Sandbox c)"
    by (auto simp: valid_config_def)
  have ids: "default_ids c = c" using i by (rule default_ids_valid)
  have chk: "check_ids vn vp c = None" using check_ids_default [of vn vp c] i ids by simp
  have v6: "(if ClientIPv6 c then c\<lparr>ClientIP := ClientDualStack\<rparr> else c) = c"
    using e by (auto simp: valid_enums_def)
  have v6ok: "\<not> (ClientIPv6 c \<and> ClientIP c \<noteq> ClientIPv4Only \<and> ClientIP c \<noteq> ClientDualStack)"
    using e by (auto simp: valid_enums_def)
  from e have en: "\<not> bad_enum c" "\<not> LatchOutboundErrors < OutboundFailures c"
    by (auto simp: valid_enums_iff)
  show ?thesis
    using assms(1)
    by (simp add: validate_def Let_def deps_ok_def ids chk en v6ok [simplified] v6
        default_timeouts_ok [OF t] check_limits_ok [OF l] valid_validateBridgeConfig [OF b])
qed

text \<open>
  C26. Every configuration that \<^verbatim>\<open>validate\<close> returns satisfies the documented contract:
  identifiers and the state path passed the sandbox checks, every enumeration is in
  range, timeouts lie between one second and 24 hours, limits and bandwidths are
  consistent, fingerprints and ports are well formed, bridges are present exactly when
  they are requested, and an obfs4 bridge needs a registered transport, a fingerprint, an
  IAT mode in range and a canonical 52-byte certificate.
\<close>

theorem validate_sound:
  assumes "validate vn vp c deps = Inr (c', w)"
  shows "valid_config vn vp c'"
  using validate_Inr_valid [OF assms] by blast

text \<open>
  \<^verbatim>\<open>validate\<close> is idempotent: a configuration it returned is returned unchanged by a
  second validation, without a warning, so re-validating never changes a running
  configuration.
\<close>

theorem validate_idempotent:
  assumes "validate vn vp c deps = Inr (c', w)"
  shows "validate vn vp c' deps = Inr (c', [])"
  using validate_Inr_valid [OF assms] valid_validate by blast

text \<open>A concrete configuration for the witnesses: one plain bridge, all defaults.\<close>

definition sample_config :: config where
  "sample_config = \<lparr>SandboxSlot = [], SandboxTemplate = [], TorProgram = [],
     StateDirectory = \<lparr>Root = Temporary, Rel = []\<rparr>, Sandbox = 0, LogLevel = 0, ForwardTorLogs = False,
     StartupTimeout = 0, CommandTimeout = 0, DialTimeout = 0, ShutdownTimeout = 0,
     MaxProxyConnections = 0, OutboundFailures = 0, MaxCircuitDirtiness = 0, CircuitBuildTimeout = 0,
     BandwidthRate = 0, BandwidthBurst = 0, ConnectionPadding = 0, CircuitPadding = 0,
     ReachableORPorts = [443], MaxPendingCircuits = 0, NumCPUs = 0, ClientIP = 0, ClientIPv6 = True,
     OnionTraffic = 0, EntryNodes = [], ExitNodes = [], ExcludeNodes = [], ExcludeExitNodes = [],
     StrictNodes = False, UseBridges = True,
     Bridges = [\<lparr>Transport = [], Address = ''9.9.9.9:443'', Fingerprint = [], Obfs4Certificate = [], IAT = 0\<rparr>],
     Transports = []\<rparr>"

definition sample_validated :: config where
  "sample_validated = sample_config\<lparr>SandboxSlot := ''tor'', SandboxTemplate := ''tor'',
     TorProgram := ''tor'', StartupTimeout := 30 * Second, CommandTimeout := 10 * Second,
     DialTimeout := 90 * Second, ShutdownTimeout := 10 * Second, MaxProxyConnections := 256,
     MaxCircuitDirtiness := 10 * Minute, ClientIP := ClientDualStack\<rparr>"

definition all_deps :: dependencies where
  "all_deps = \<lparr>has_Sandboxes = True, has_Clock = True, has_Random = True, has_Logger = True\<rparr>"

lemma sample_endpoint: "numericEndpoint ''9.9.9.9:443'' False = Inr \<lparr>ap_addr = IPv4 [9, 9, 9, 9], ap_port = 443\<rparr>"
  by (simp add: numericEndpoint_def ParseAddrPort_def cut_last_colon_def ParseUint_def ParseAddr_def
      parse_ipv4_def is_digit_def dec_val_def is_v4_def zone_of_def IsUnspecified_def)

lemma sample_validates:
  "validate (\<lambda>_. None) (\<lambda>_. None) sample_config all_deps = Inr (sample_validated, [])"
  by (simp add: validate_def Let_def all_deps_def sample_config_def sample_validated_def default_ids_def
      check_ids_def bad_enum_def default_timeouts_def default_timeout_def check_limits_def
      validateBridgeConfig_def check_bridge_def sample_endpoint Second_def Minute_def Hour_def)

theorem validate_sound_witness:
  "valid_config (\<lambda>_. None) (\<lambda>_. None) sample_validated"
  by (rule validate_sound [OF sample_validates])

theorem validate_idempotent_witness:
  "validate (\<lambda>_. None) (\<lambda>_. None) sample_validated all_deps = Inr (sample_validated, [])"
  by (rule validate_idempotent [OF sample_validates])

end
