(* ===== verification/Tor_Render_Proofs.thy ===== *)
theory Tor_Render_Proofs
  imports Tor_Config_Proofs
begin

text \<open>
  The torrc text: quoting, and the absence of injection. A validated configuration
  cannot smuggle an extra line or a second proxy setting into the file that Tor reads.
\<close>

section \<open>Quoting\<close>

text \<open>\<^verbatim>\<open>safeText\<close> looks at runes, but only ASCII control bytes can fail it.\<close>

lemma safeText_bytes: "safeText s \<longleftrightarrow> (\<forall>c\<in>set s. 32 \<le> byte c \<and> byte c \<noteq> 127)"
  using runes_all [of "\<lambda>r. \<not> (r < 32 \<or> r = 127)" True s]
  by (auto simp: safeText_def list_all_iff not_less)

lemma set_quote: "set (quote s) \<subseteq> insert (CHR 0x22) (insert (CHR 0x5C) (set s))"
proof -
  have "set (quote_char c) \<subseteq> {CHR 0x22, CHR 0x5C, c}" for c
    by (simp add: quote_char_def)
  then show ?thesis unfolding quote_def by (simp, blast)
qed

lemma byte_special: "byte c = 92 \<longleftrightarrow> c = CHR 0x5C" "byte c = 34 \<longleftrightarrow> c = CHR 0x22"
  using of_char_eq_iff [of c "CHR 0x5C", where 'a = nat] of_char_eq_iff [of c "CHR 0x22", where 'a = nat]
  by simp_all

lemma unquote_body_quote:
  "\<forall>c\<in>set s. byte c < 128 \<and> byte c \<noteq> 10 \<Longrightarrow>
    unquote_body (concat (map quote_char s) @ [CHR 0x22]) = Some s"
proof (induction s)
  case Nil
  show ?case by (simp add: unquote_body.simps)
next
  case (Cons c s)
  let ?t = "concat (map quote_char s) @ [CHR 0x22]"
  from Cons have IH: "unquote_body ?t = Some s" by simp
  have q: "quote_char (CHR 0x5C) = [CHR 0x5C, CHR 0x5C]" "quote_char (CHR 0x22) = [CHR 0x5C, CHR 0x22]"
    by (simp_all add: quote_char_def)
  have ch: "chr 92 = CHR 0x5C" "chr 34 = CHR 0x22"
    by (metis byte_special char_of_char)+
  consider "c = CHR 0x5C" | "c = CHR 0x22" | "byte c \<noteq> 92" "byte c \<noteq> 34"
    by (auto simp: byte_special)
  then show ?case
  proof cases
    case 1
    with IH show ?thesis
      by (simp add: q ch unquote_body.simps unquote_escape_def simple_escape_def)
  next
    case 2
    with IH show ?thesis
      by (simp add: q ch unquote_body.simps unquote_escape_def simple_escape_def)
  next
    case 3
    then have "quote_char c = [c]" by (auto simp: quote_char_def)
    with IH 3 Cons.prems show ?thesis by (simp add: unquote_body.simps)
  qed
qed

text \<open>
  Quoting is undone by the C-style unquoting of control and torrc values: for text
  of ASCII bytes without a line feed, \<^verbatim>\<open>strconv.Unquote\<close>, which the driver itself uses on
  quoted words, gives the original back.
\<close>

theorem quote_roundtrip:
  assumes "\<forall>c\<in>set s. byte c < 128 \<and> byte c \<noteq> 10"
  shows "Unquote (quote s) = Some s"
  using unquote_body_quote [OF assms] by (simp add: Unquote_def quote_def)

theorem quote_roundtrip_witness:
  "Unquote (quote [CHR ''a'', CHR 0x22, CHR 0x5C]) = Some [CHR ''a'', CHR 0x22, CHR 0x5C]"
  by (rule quote_roundtrip) simp

section \<open>Lines\<close>

abbreviation nl :: char where
  "nl \<equiv> CHR 0x0A"

definition no_nl :: "string \<Rightarrow> bool" where
  "no_nl s \<longleftrightarrow> nl \<notin> set s"

named_theorems no_nl_rules \<open>texts without a line feed\<close>

lemma no_nl_append [no_nl_rules]: "no_nl (a @ b) \<longleftrightarrow> no_nl a \<and> no_nl b"
  by (auto simp: no_nl_def)

lemma no_nl_Nil [no_nl_rules]: "no_nl []"
  by (simp add: no_nl_def)

lemma no_nl_Cons [no_nl_rules]: "no_nl (c # s) \<longleftrightarrow> c \<noteq> nl \<and> no_nl s"
  by (auto simp: no_nl_def)

lemma no_nl_Itoa [no_nl_rules]: "no_nl (Itoa i)"
  using Itoa_no_byte [of nl i] by (auto simp: no_nl_def is_digit_def)

lemma no_nl_quote [no_nl_rules]: "no_nl s \<Longrightarrow> no_nl (quote s)"
  using set_quote [of s] by (auto simp: no_nl_def)

lemma no_nl_Join [no_nl_rules]: "no_nl sep \<Longrightarrow> \<forall>x\<in>set xs. no_nl x \<Longrightarrow> no_nl (Join sep xs)"
  using set_Join [of sep xs] by (auto simp: no_nl_def)

lemma no_nl_chars: "list_all P s \<Longrightarrow> \<not> P nl \<Longrightarrow> no_nl s"
  by (auto simp: no_nl_def list_all_iff)

lemma hex_char_range: "hex_char c \<longleftrightarrow>
    48 \<le> byte c \<and> byte c \<le> 57 \<or> 97 \<le> byte c \<and> byte c \<le> 102 \<or> 65 \<le> byte c \<and> byte c \<le> 70"
  by (auto simp: hex_char_def unhex_def)

lemma validFingerprint_chars: "validFingerprint f \<Longrightarrow> list_all hex_char f"
  by (auto simp: validFingerprint_def split: option.splits dest: hex_decode_chars)

lemma no_nl_fingerprint [no_nl_rules]: "validFingerprint f \<Longrightarrow> no_nl f"
  by (rule no_nl_chars [OF validFingerprint_chars]) (simp_all add: hex_char_range)

lemma no_nl_upper_fingerprint: "validFingerprint f \<Longrightarrow> no_nl (ToUpper U f)"
proof -
  assume "validFingerprint f"
  then have "\<forall>c\<in>set f. hex_char c"
    by (simp add: list_all_iff [symmetric] validFingerprint_chars)
  moreover have "hex_char c \<Longrightarrow> 48 \<le> byte c \<and> byte c < 128" for c
    by (auto simp: hex_char_range)
  ultimately have hex: "\<forall>c\<in>set f. 48 \<le> byte c \<and> byte c < 128"
    by blast
  have up: "nl \<noteq> chr (upper_byte (byte c))" if "48 \<le> byte c" "byte c < 128" for c
  proof
    assume "nl = chr (upper_byte (byte c))"
    then have "byte nl = byte (chr (upper_byte (byte c)))" by (rule arg_cong)
    moreover have "upper_byte (byte c) < 256" "upper_byte (byte c) \<noteq> 10"
      using that by (auto simp: upper_byte_def)
    ultimately show False by simp
  qed
  have "nl \<notin> set (map (\<lambda>c. chr (upper_byte (byte c))) f)"
  proof
    assume "nl \<in> set (map (\<lambda>c. chr (upper_byte (byte c))) f)"
    then obtain c where "c \<in> set f" "nl = chr (upper_byte (byte c))" 
      by (simp only: set_map) (erule imageE)
    with hex up show False by blast
  qed
  then show ?thesis
    using hex by (simp add: no_nl_def ToUpper_ascii list_all_iff)
qed

lemma no_nl_fingerprints [no_nl_rules]: "\<forall>f\<in>set fs. validFingerprint f \<Longrightarrow> no_nl (fingerprints U fs)"
  unfolding fingerprints_def
  by (rule no_nl_Join) (auto simp: no_nl_rules no_nl_upper_fingerprint)

lemma numericEndpoint_chars: "numericEndpoint s lo = Inr a \<Longrightarrow> list_all addr_char s"
  by (auto simp: numericEndpoint_def split: option.splits if_splits dest: ParseAddrPort_chars)

lemma no_nl_bridgeLine [no_nl_rules]:
  assumes "valid_bridge r b"
  shows "no_nl (bridgeLine b)"
proof -
  from assms obtain a where "numericEndpoint (Address b) False = Inr a"
    by (auto simp: valid_bridge_def)
  then have "no_nl (Address b)"
    by (intro no_nl_chars [OF numericEndpoint_chars]) (auto simp: addr_char_def hex_char_range)
  moreover have "no_nl (Fingerprint b)"
    using assms by (auto simp: valid_bridge_def no_nl_rules)
  moreover have "no_nl (b64_encode cert)" for cert
    by (simp add: no_nl_def b64_codec.enc_excludes b64_alphabet_def b64_val_def)
  ultimately show ?thesis
    using assms by (auto simp: bridgeLine_def valid_bridge_def no_nl_rules)
qed

section \<open>The whole file\<close>

lemma Split_lines:
  "\<forall>kv\<in>set kvs. no_nl (fst kv) \<and> no_nl (snd kv) \<Longrightarrow>
    Split nl (concat (map line_text kvs)) = map (\<lambda>kv. fst kv @ '' '' @ snd kv) kvs @ [[]]"
proof (induction kvs)
  case (Cons kv kvs)
  then have "nl \<notin> set (fst kv @ '' '' @ snd kv)"
    by (auto simp: no_nl_def)
  from Split_append [OF this] Cons show ?case
    by (simp add: line_text_def)
qed simp

definition no_nl_option :: "string \<times> string \<Rightarrow> bool" where
  "no_nl_option kv \<longleftrightarrow> no_nl (fst kv) \<and> no_nl (snd kv) \<and> CHR '' '' \<notin> set (fst kv)"

lemma no_nl_socksPortOptions [no_nl_rules]: "no_nl (socksPortOptions c)"
  unfolding socksPortOptions_def by (rule no_nl_Join) (auto simp: no_nl_rules)

lemma no_nl_head:
  assumes "no_nl state" "no_nl cport" "no_nl ccookie" "no_nl proxy" "no_nl user" "no_nl password"
  shows "\<forall>kv\<in>set (render_head c state cport ccookie proxy user password pid). no_nl_option kv"
  using assms unfolding render_head_def
  by (simp add: no_nl_option_def no_nl_rules)

lemma no_nl_policy:
  "no_nl level \<Longrightarrow> no_nl padding \<Longrightarrow> \<forall>kv\<in>set (render_policy c level padding). no_nl_option kv"
  unfolding render_policy_def by (simp add: no_nl_option_def no_nl_rules)

lemma no_nl_optional:
  assumes "valid_limits c"
  shows "\<forall>kv\<in>set (render_optional U c). no_nl_option kv"
proof -
  have "no_nl (Join '','' (map (\<lambda>port. ''*:'' @ Itoa (uint port)) (ReachableORPorts c)))"
    by (rule no_nl_Join) (auto simp: no_nl_rules)
  moreover have "no_nl (fingerprints U (EntryNodes c))" "no_nl (fingerprints U (ExitNodes c))"
    "no_nl (fingerprints U (ExcludeNodes c))" "no_nl (fingerprints U (ExcludeExitNodes c))"
    using assms by (auto simp: valid_limits_def intro!: no_nl_fingerprints)
  ultimately show ?thesis
    unfolding render_optional_def
    by (simp only: set_append ball_Un if_distrib [of set] if_distrib [of "\<lambda>A. Ball A no_nl_option"])
       (simp add: no_nl_option_def no_nl_rules)
qed

lemma no_nl_bridges:
  assumes "\<forall>b\<in>set (Bridges c). valid_bridge r b" and "\<forall>q path. tp q = Some path \<longrightarrow> no_nl path"
  shows "\<forall>kv\<in>set (render_bridges c tp). no_nl_option kv"
  using assms unfolding render_bridges_def bridgeLines_def
  by (auto simp: no_nl_option_def no_nl_rules split: option.splits intro!: no_nl_quote no_nl_bridgeLine)

lemma index_levels:
  assumes "valid_enums c"
  shows "\<exists>level. index [''notice'', ''warn'', ''err''] (LogLevel c) = Some level \<and> no_nl level"
    and "\<exists>padding. index [''auto'', ''1'', ''auto'', ''0''] (ConnectionPadding c) = Some padding \<and> no_nl padding"
proof -
  have pick: "\<exists>x. index xs i = Some x \<and> no_nl x" if "unat i < length xs" "\<forall>x\<in>set xs. no_nl x" for xs i
    using that by (auto simp: index_def)
  from assms have "unat (LogLevel c) \<le> unat (2 :: u8)" "unat (ConnectionPadding c) \<le> unat (3 :: u8)"
    by (auto simp: valid_enums_def word_le_nat_alt)
  then have "unat (LogLevel c) < 3" "unat (ConnectionPadding c) < 4" by simp_all
  then show "\<exists>level. index [''notice'', ''warn'', ''err''] (LogLevel c) = Some level \<and> no_nl level"
    and "\<exists>padding. index [''auto'', ''1'', ''auto'', ''0''] (ConnectionPadding c) = Some padding \<and> no_nl padding"
    by (auto intro!: pick simp: no_nl_rules)
qed

text \<open>Which lines of a torrc set a given option.\<close>

definition option_lines :: "string \<Rightarrow> string \<Rightarrow> string list" where
  "option_lines key torrc = filter (\<lambda>l. HasPrefix l (key @ '' '')) (Split nl torrc)"

definition key_values :: "string \<Rightarrow> (string \<times> string) list \<Rightarrow> string list" where
  "key_values key kvs = map (\<lambda>kv. key @ '' '' @ snd kv) (filter (\<lambda>kv. fst kv = key) kvs)"

lemma key_values_append: "key_values k (xs @ ys) = key_values k xs @ key_values k ys"
  by (simp add: key_values_def)

lemma key_values_simps:
  "key_values k [] = []"
  "key_values k (kv # kvs) = (if fst kv = k then (k @ '' '' @ snd kv) # key_values k kvs else key_values k kvs)"
  "key_values k (if b then xs else ys) = (if b then key_values k xs else key_values k ys)"
  by (simp_all add: key_values_def)

lemma HasPrefix_key:
  assumes "CHR '' '' \<notin> set k" and "CHR '' '' \<notin> set key"
  shows "HasPrefix (k @ '' '' @ v) (key @ '' '') \<longleftrightarrow> k = key"
proof
  assume "HasPrefix (k @ '' '' @ v) (key @ '' '')"
  then obtain t where "k @ CHR '' '' # v = key @ CHR '' '' # t"
    by (auto simp: HasPrefix_iff)
  then have "Cut (CHR '' '') (k @ CHR '' '' # v) = Cut (CHR '' '') (key @ CHR '' '' # t)" by (rule arg_cong)
  with assms show "k = key" by (simp add: Cut_append)
qed (simp add: HasPrefix_iff)

lemma option_lines_key_values:
  assumes "\<forall>kv\<in>set kvs. no_nl_option kv" and "CHR '' '' \<notin> set key"
  shows "option_lines key (concat (map line_text kvs)) = key_values key kvs"
proof -
  have "\<not> HasPrefix [] (key @ '' '')" by (simp add: HasPrefix_def)
  moreover have "filter (\<lambda>kv. HasPrefix (fst kv @ '' '' @ snd kv) (key @ '' '')) kvs =
      filter (\<lambda>kv. fst kv = key) kvs"
    using assms by (intro filter_cong refl) (metis HasPrefix_key no_nl_option_def)
  moreover have "map (\<lambda>kv. fst kv @ '' '' @ snd kv) (filter (\<lambda>kv. fst kv = key) kvs) = key_values key kvs"
    by (auto simp: key_values_def intro: map_cong)
  moreover have "Split nl (concat (map line_text kvs)) = map (\<lambda>kv. fst kv @ '' '' @ snd kv) kvs @ [[]]"
    using assms(1) by (intro Split_lines) (simp add: no_nl_option_def)
  ultimately show ?thesis
    by (simp only: option_lines_def filter_append filter_map o_def filter.simps if_False append_Nil2)
qed

abbreviation fixed_keys :: "string list" where
  "fixed_keys \<equiv> [''Socks5Proxy'', ''DisableNetwork'', ''ClientOnly'', ''ORPort'', ''ExitRelay'',
     ''__OwningControllerProcess'', ''CookieAuthentication'']"

definition fixed_value :: "string \<Rightarrow> int \<Rightarrow> string \<Rightarrow> string" where
  "fixed_value proxy pid key =
    (if key = ''Socks5Proxy'' then proxy
     else if key = ''ORPort'' \<or> key = ''ExitRelay'' then ''0''
     else if key = ''__OwningControllerProcess'' then Itoa pid else ''1'')"

lemma fixed_keys_Ball:
  "(\<forall>key\<in>set fixed_keys. P key) \<longleftrightarrow> P ''Socks5Proxy'' \<and> P ''DisableNetwork'' \<and> P ''ClientOnly'' \<and>
     P ''ORPort'' \<and> P ''ExitRelay'' \<and> P ''__OwningControllerProcess'' \<and> P ''CookieAuthentication''"
  by (simp only: list.set ball_simps simp_thms)

lemma key_values_policy: "\<forall>key\<in>set fixed_keys. key_values key (render_policy c level padding) = []"
  unfolding render_policy_def fixed_keys_Ball by (intro conjI) (simp_all add: key_values_simps)

lemma key_values_optional: "\<forall>key\<in>set fixed_keys. key_values key (render_optional U c) = []"
  unfolding render_optional_def fixed_keys_Ball key_values_append
  by (intro conjI) (simp_all add: key_values_simps)

lemma key_values_bridges: "\<forall>key\<in>set fixed_keys. key_values key (render_bridges c tp) = []"
  unfolding render_bridges_def fixed_keys_Ball key_values_def
  by (intro conjI) (simp_all add: filter_map o_def)

lemma key_values_head:
  "\<forall>key\<in>set fixed_keys. key_values key (render_head c state cport ccookie proxy user password pid) =
    [key @ '' '' @ fixed_value proxy pid key]"
  unfolding render_head_def fixed_keys_Ball
  by (intro conjI) (simp_all add: key_values_simps(1,2) fixed_value_def)

lemma fixed_keys_no_space: "\<forall>key\<in>set fixed_keys. CHR '' '' \<notin> set key"
  unfolding fixed_keys_Ball by simp

text \<open>The options whose value is a path of the host, which the sandbox chooses.\<close>

definition path_keys :: "string set" where
  "path_keys = {''DataDirectory'', ''ControlPortWriteToFile'', ''CookieAuthFile'', ''ClientTransportPlugin''}"

lemma no_nl_head_keys:
  assumes "no_nl proxy" "no_nl user" "no_nl password"
  shows "\<forall>kv\<in>set (render_head c state cport ccookie proxy user password pid). fst kv \<notin> path_keys \<longrightarrow> no_nl_option kv"
  using assms unfolding render_head_def path_keys_def
  by (simp add: no_nl_option_def no_nl_rules)

lemma no_nl_bridges_keys:
  assumes "\<forall>b\<in>set (Bridges c). valid_bridge r b"
  shows "\<forall>kv\<in>set (render_bridges c tp). fst kv \<notin> path_keys \<longrightarrow> no_nl_option kv"
  using assms unfolding render_bridges_def bridgeLines_def path_keys_def
  by (auto simp: no_nl_option_def no_nl_rules intro!: no_nl_bridgeLine)

text \<open>
  Rendering a validated configuration does not panic. Only a path of the host can bring a line
  feed into the file; without one there, the file splits into the rendered options, and every
  fixed setting has its line and no other.
\<close>

lemma rendered_lines:
  assumes "validate vn vp c0 deps = Inr (c, w)" "no_nl proxy" "no_nl user" "no_nl password"
  shows "\<exists>kvs torrc.
    render_options U c state cport ccookie proxy user password pid tp = Some kvs \<and>
    renderConfig U c state cport ccookie proxy user password pid tp = Some torrc \<and>
    torrc = concat (map line_text kvs) \<and> (\<forall>kv\<in>set kvs. fst kv \<notin> path_keys \<longrightarrow> no_nl_option kv) \<and>
    (no_nl state \<and> no_nl cport \<and> no_nl ccookie \<and> (\<forall>q path. tp q = Some path \<longrightarrow> no_nl path) \<longrightarrow>
      Split nl torrc = map (\<lambda>kv. fst kv @ '' '' @ snd kv) kvs @ [[]] \<and>
      (\<forall>key\<in>set fixed_keys. option_lines key torrc = [key @ '' '' @ fixed_value proxy pid key]))"
proof -
  from validate_Inr_valid [OF assms(1)] have vc: "valid_config vn vp c" by blast
  then have lim: "valid_limits c" and en: "valid_enums c"
    and br: "\<forall>b\<in>set (Bridges c). valid_bridge (Transports c \<noteq> []) b"
    by (auto simp: valid_config_def valid_bridging_def)
  from index_levels [OF en] obtain level padding
    where lv: "index [''notice'', ''warn'', ''err''] (LogLevel c) = Some level" "no_nl level"
      and pd: "index [''auto'', ''1'', ''auto'', ''0''] (ConnectionPadding c) = Some padding" "no_nl padding"
    by blast
  define kvs where "kvs = render_head c state cport ccookie proxy user password pid @
    render_policy c level padding @ render_optional U c @ render_bridges c tp"
  have opts: "render_options U c state cport ccookie proxy user password pid tp = Some kvs"
    by (simp add: render_options_def lv pd kvs_def)
  have keys: "\<forall>kv\<in>set kvs. fst kv \<notin> path_keys \<longrightarrow> no_nl_option kv"
    unfolding kvs_def set_append ball_Un
    using no_nl_head_keys [OF assms(2-4)] no_nl_policy [OF lv(2) pd(2)] no_nl_optional [OF lim] no_nl_bridges_keys [OF br]
    by blast
  have fixed: "key_values key kvs = [key @ '' '' @ fixed_value proxy pid key]" if "key \<in> set fixed_keys" for key
    unfolding kvs_def key_values_append
    using that key_values_head key_values_policy key_values_optional key_values_bridges by (simp only: append_Nil2)
  have "Split nl (concat (map line_text kvs)) = map (\<lambda>kv. fst kv @ '' '' @ snd kv) kvs @ [[]] \<and>
      (\<forall>key\<in>set fixed_keys. option_lines key (concat (map line_text kvs)) = [key @ '' '' @ fixed_value proxy pid key])"
    if paths: "no_nl state" "no_nl cport" "no_nl ccookie" "\<forall>q path. tp q = Some path \<longrightarrow> no_nl path"
  proof -
    have ok: "\<forall>kv\<in>set kvs. no_nl_option kv"
      unfolding kvs_def set_append ball_Un
      using no_nl_head [OF paths(1-3) assms(2-4)] no_nl_policy [OF lv(2) pd(2)] no_nl_optional [OF lim]
        no_nl_bridges [OF br paths(4)] by blast
    have "Split nl (concat (map line_text kvs)) = map (\<lambda>kv. fst kv @ '' '' @ snd kv) kvs @ [[]]"
      using ok by (intro Split_lines) (simp add: no_nl_option_def)
    moreover have "option_lines key (concat (map line_text kvs)) = [key @ '' '' @ fixed_value proxy pid key]"
      if "key \<in> set fixed_keys" for key
      using option_lines_key_values [OF ok bspec [OF fixed_keys_no_space that]] fixed [OF that] by (rule trans)
    ultimately show ?thesis by (intro conjI ballI)
  qed
  then have lines: "no_nl state \<and> no_nl cport \<and> no_nl ccookie \<and> (\<forall>q path. tp q = Some path \<longrightarrow> no_nl path) \<longrightarrow>
      Split nl (concat (map line_text kvs)) = map (\<lambda>kv. fst kv @ '' '' @ snd kv) kvs @ [[]] \<and>
      (\<forall>key\<in>set fixed_keys. option_lines key (concat (map line_text kvs)) = [key @ '' '' @ fixed_value proxy pid key])"
    by blast
  have "renderConfig U c state cport ccookie proxy user password pid tp = Some (concat (map line_text kvs))"
    by (simp only: renderConfig_def opts option.map)
  from opts this keys lines show ?thesis by (intro exI conjI) (rule refl | assumption)+
qed

end
