(* ===== verification/Tor_Control.thy ===== *)
theory Tor_Control
  imports Go_Encoding
begin

text \<open>
  The Tor control protocol client (internal/control/client.go): framing of replies and
  asynchronous events, and extraction of values and quoted words. The reader works on the
  bytes the connection delivers, which end with \<^verbatim>\<open>io.EOF\<close>. The request operation is in
  \<open>Tor_Client\<close>, SAFECOOKIE authentication in \<open>Tor_Auth\<close>.
\<close>

section \<open>Framing\<close>

abbreviation CR :: char where "CR \<equiv> CHR 0x0D"
abbreviation LF :: char where "LF \<equiv> CHR 0x0A"

definition maxReply :: nat where
  "maxReply = 1048576"

record reply =
  Code :: int
  Lines :: "string list"

type_synonym event = "string list"

text \<open>\<^verbatim>\<open>ReadSlice\<close> fails when a line with its line feed does not fit the 64 KiB buffer.\<close>

definition line :: "string \<Rightarrow> (string \<times> string) res" where
  "line inp =
    (case Cut LF (take 65536 inp) of
       None \<Rightarrow> Inl (if length inp < 65536 then Sentinel IoEOF else Msg ''bufio: buffer full'')
     | Some (b, _) \<Rightarrow>
         if b = [] \<or> last b \<noteq> CR then Inl (Msg ''tor control: missing CRLF'')
         else Inr (butlast b, drop (length b + 1) inp))"

definition split_go :: "string \<Rightarrow> (int \<times> char \<times> string) res" where
  "split_go l =
    (if length l < 4 then Inl (Msg ''tor control: short line'')
     else case Atoi (take 3 l) of
         None \<Rightarrow> Inl (Msg ''tor control: malformed status'')
       | Some code \<Rightarrow>
           if code < 100 \<or> 699 < code \<or> l ! 3 \<notin> set '' -+''
           then Inl (Msg ''tor control: malformed status'')
           else Inr (code, l ! 3, drop 4 l))"

lemma line_Inr_length: "line inp = Inr (s, rest) \<Longrightarrow> length rest < length inp"
  by (auto simp: line_def split: option.splits if_splits dest!: Cut_SomeD)
     (metis Suc_le_eq diff_less length_0_conv length_greater_0_conv not_less_eq_eq take_eq_Nil zero_less_Suc
        append_is_Nil_conv list.distinct(1))

text \<open>\<^verbatim>\<open>data\<close>: a dot-terminated block with its size; \<open>n\<close> and \<open>ls\<close> are its loop
  variables.\<close>

definition unstuff :: "string \<Rightarrow> string" where
  "unstuff s = (if HasPrefix s ''..'' then drop 1 s else s)"

function data_from :: "nat \<Rightarrow> string list \<Rightarrow> string \<Rightarrow> (string list \<times> nat \<times> string) res" where
  "data_from n ls inp =
    (case line inp of
       Inl e \<Rightarrow> Inl e
     | Inr (s, rest) \<Rightarrow>
         let n' = n + length s + 2
         in if maxReply < n' then Inl (Msg ''tor control: oversized data'')
            else if s = ''.'' then Inr (ls, n', rest)
            else data_from n' (ls @ [unstuff s]) rest)"
  by pat_completeness auto
termination
  by (relation "measure (\<lambda>(_, _, inp). length inp)") (auto dest: line_Inr_length)

declare data_from.simps [simp del]

definition data :: "string \<Rightarrow> (string list \<times> nat \<times> string) res" where
  "data inp = data_from 0 [] inp"

lemma data_from_length: "data_from n ls inp = Inr (ls', n', rest) \<Longrightarrow> length rest < length inp"
proof (induction n ls inp rule: data_from.induct)
  case (1 n ls inp)
  from 1(2) obtain s r where sr: "line inp = Inr (s, r)"
    by (subst (asm) data_from.simps) (auto split: sum.splits prod.splits)
  note shrink = line_Inr_length [OF sr]
  show ?case
  proof (cases "s = ''.'' \<or> maxReply < n + length s + 2")
    case True
    with 1(2) sr shrink show ?thesis
      by (subst (asm) data_from.simps) (auto simp: Let_def split: if_splits)
  next
    case False
    with 1(2) sr have "data_from (n + length s + 2) (ls @ [unstuff s]) r = Inr (ls', n', rest)"
      by (subst (asm) data_from.simps) (simp add: Let_def)
    from 1(1) [OF sr refl refl _ _ this] False shrink show ?thesis by simp
  qed
qed

text \<open>\<^verbatim>\<open>readEvent\<close>: an asynchronous event whose first line was read already; the loop
  variables are the size \<open>n\<close>, the lines \<open>ls\<close> and the separator \<open>sep\<close>.\<close>

function readEvent_from :: "nat \<Rightarrow> string list \<Rightarrow> char \<Rightarrow> string \<Rightarrow> (event \<times> string) res" where
  "readEvent_from n ls sep inp =
    (case (if sep = CHR ''+'' then data inp else Inr ([], 0, inp)) of
       Inl e \<Rightarrow> Inl e
     | Inr (dls, sz, inp1) \<Rightarrow>
         let ls1 = ls @ dls
         in if sep = CHR '' '' then Inr (ls1, inp1)
            else case line inp1 of
                Inl e \<Rightarrow> Inl e
              | Inr (s, inp2) \<Rightarrow>
                  let n' = n + sz + (length s + 2)
                  in if maxReply < n' then Inl (Msg ''tor control: oversized event'')
                     else case split_go s of
                         Inl e \<Rightarrow> Inl e
                       | Inr (code, next, body) \<Rightarrow>
                           if code \<noteq> 650 then Inl (Msg ''tor control: malformed event'')
                           else readEvent_from n' (ls1 @ [body]) next inp2)"
  by pat_completeness auto
termination
  by (relation "measure (\<lambda>(_, _, _, inp). length inp)")
     (auto simp: data_def split: if_splits dest!: line_Inr_length data_from_length)

declare readEvent_from.simps [simp del]

definition readEvent :: "string \<Rightarrow> char \<Rightarrow> string \<Rightarrow> (event \<times> string) res" where
  "readEvent body sep inp = readEvent_from 0 [body] sep inp"

lemma readEvent_from_length:
  "readEvent_from n ls sep inp = Inr (ev, rest) \<Longrightarrow> length rest \<le> length inp"
proof (induction n ls sep inp rule: readEvent_from.induct)
  case (1 n ls sep inp)
  from 1(2) obtain dls sz inp1 where d: "(if sep = CHR ''+'' then data inp else Inr ([], 0, inp)) = Inr (dls, sz, inp1)"
    by (subst (asm) readEvent_from.simps) (auto split: sum.splits prod.splits)
  then have le: "length inp1 \<le> length inp"
    by (auto simp: data_def split: if_splits dest!: data_from_length)
  show ?case
  proof (cases "sep = CHR '' ''")
    case True
    with 1(2) d le show ?thesis by (subst (asm) readEvent_from.simps) (simp add: Let_def)
  next
    case False
    with 1(2) d obtain s inp2 code nxt body where st: "line inp1 = Inr (s, inp2)"
      "\<not> maxReply < n + sz + (length s + 2)" "split_go s = Inr (code, nxt, body)" "code = 650"
      "readEvent_from (n + sz + (length s + 2)) ((ls @ dls) @ [body]) nxt inp2 = Inr (ev, rest)"
      by (subst (asm) readEvent_from.simps)
         (simp add: Let_def split: sum.splits prod.splits if_splits)
    from line_Inr_length [OF st(1)] le have "length inp2 < length inp" by simp
    moreover have "length rest \<le> length inp2"
      using 1(1) d False st by (metis (no_types, lifting))
    ultimately show ?thesis by simp
  qed
qed

text \<open>
  \<^verbatim>\<open>readReply\<close>: reads up to the end of one reply and queues the events it meets. The
  event channel holds 64 events and is never waited for; \<open>q\<close> is its content. \<open>dn\<close> is the
  error of the client when the branch \<^verbatim>\<open><-c.done\<close> is taken, \<^const>\<open>None\<close> while it is open.
\<close>

definition maxEvents :: nat where
  "maxEvents = 64"

function readReply_from ::
  "goerr option \<Rightarrow> nat \<Rightarrow> int \<Rightarrow> string list \<Rightarrow> event list \<Rightarrow> string \<Rightarrow> reply res \<times> event list \<times> string" where
  "readReply_from dn n rcode ls q inp =
    (case line inp of
       Inl e \<Rightarrow> (Inl e, q, inp)
     | Inr (s, inp1) \<Rightarrow>
         let n1 = n + length s + 2
         in if maxReply < n1 then (Inl (Msg ''tor control: oversized reply''), q, inp1)
            else case split_go s of
                Inl e \<Rightarrow> (Inl e, q, inp1)
              | Inr (code, sep, body) \<Rightarrow>
                  if code = 650 then
                    (case readEvent body sep inp1 of
                       Inl e \<Rightarrow> (Inl e, q, inp1)
                     | Inr (ev, inp2) \<Rightarrow>
                         (case dn of
                            Some e \<Rightarrow> (Inl e, q, inp2)
                          | None \<Rightarrow>
                              if length q < maxEvents
                              then readReply_from dn n1 rcode ls (q @ [ev]) inp2
                              else (Inl (Msg ''tor control: event backlog exceeded''), q, inp2)))
                  else if rcode \<noteq> 0 \<and> code \<noteq> rcode
                  then (Inl (Msg ''tor control: mixed response codes''), q, inp1)
                  else
                    (case (if sep = CHR ''+'' then data inp1 else Inr ([], 0, inp1)) of
                       Inl e \<Rightarrow> (Inl e, q, inp1)
                     | Inr (dls, sz, inp2) \<Rightarrow>
                         let n2 = n1 + sz; ls2 = ls @ [body] @ dls
                         in if maxReply < n2 then (Inl (Msg ''tor control: oversized reply''), q, inp2)
                            else if sep = CHR '' '' then (Inr \<lparr>Code = code, Lines = ls2\<rparr>, q, inp2)
                            else readReply_from dn n2 code ls2 q inp2))"
  by pat_completeness auto
termination
  by (relation "measure (\<lambda>(_, _, _, _, _, inp). length inp)")
     (auto simp: data_def readEvent_def split: if_splits
       dest!: line_Inr_length data_from_length readEvent_from_length)

declare readReply_from.simps [simp del]

definition readReply :: "goerr option \<Rightarrow> event list \<Rightarrow> string \<Rightarrow> reply res \<times> event list \<times> string" where
  "readReply dn q inp = readReply_from dn 0 0 [] q inp"

section \<open>Values\<close>

definition Value :: "reply \<Rightarrow> string \<Rightarrow> string option" where
  "Value r key = (case filter (\<lambda>s. HasPrefix s (key @ ''='')) (Lines r) of
     [] \<Rightarrow> None
   | s # _ \<Rightarrow> CutPrefix s (key @ ''=''))"

text \<open>The scan for the closing quote, from offset \<open>i\<close>.\<close>

fun quote_end :: "nat \<Rightarrow> string \<Rightarrow> nat option" where
  "quote_end i [] = None"
| "quote_end i (c # t) =
    (if c = CHR 0x5C then (case t of [] \<Rightarrow> None | _ # u \<Rightarrow> quote_end (i + 2) u)
     else if c = CHR 0x22 then Some i
     else quote_end (i + 1) t)"

function QuotedWords_from :: "string list \<Rightarrow> string \<Rightarrow> string list res" where
  "QuotedWords_from ws s0 =
    (case TrimSpace s0 of
       [] \<Rightarrow> Inr ws
     | c # t \<Rightarrow>
         if c \<noteq> CHR 0x22 then Inl (Msg ''tor control: expected quoted endpoint'')
         else case quote_end 1 t of
             None \<Rightarrow> Inl (Msg ''tor control: unterminated endpoint'')
           | Some k \<Rightarrow>
               (case Unquote (take (k + 1) (c # t)) of
                  None \<Rightarrow> Inl (Msg ''invalid syntax'')
                | Some v \<Rightarrow> QuotedWords_from (ws @ [v]) (drop k t)))"
  by pat_completeness auto
termination
proof (relation "measure (\<lambda>(_, s). length s)")
  fix ws s0 c t k v
  assume "TrimSpace s0 = c # t"
  with length_TrimSpace [of s0] have "length t < length s0" by simp
  then show "((ws @ [v], drop k t), ws, s0) \<in> measure (\<lambda>(_, s). length s)" by simp
qed simp

declare QuotedWords_from.simps [simp del]

definition QuotedWords :: "string \<Rightarrow> string list res" where
  "QuotedWords s = QuotedWords_from [] s"

end
