(* ===== verification/Tor_Client.thy ===== *)
theory Tor_Client
  imports Tor_Control
begin

text \<open>
  The control client as a concurrent object (internal/control/client.go): the read loop,
  the request operation \<^verbatim>\<open>Do\<close> that many goroutines call, and failure. Each rule of the
  step relation is one atomic action of the code: a channel operation, a branch of a
  \<^verbatim>\<open>select\<close>, a write, a call of \<^verbatim>\<open>fail\<close>. Contexts, the write deadline and the
  connection's write results belong to the environment and are chosen freely.
\<close>

section \<open>State\<close>

text \<open>The read loop is inside \<^verbatim>\<open>readReply\<close>, blocked in the select that offers a reply, or
  has returned.\<close>

datatype loop = Reading | Offering reply | Stopped

text \<open>
  \<open>cl_err\<close> is \<^verbatim>\<open>err\<close>, set once together with closing the connection and \<^verbatim>\<open>done\<close>;
  \<open>cl_serial\<close> is the caller whose token is in the channel \<^verbatim>\<open>serial\<close>; \<open>cl_in\<close> are the bytes
  the peer sends that were not read yet and \<open>cl_wire\<close> the bytes written to the peer.
\<close>

record client =
  cl_err :: "goerr option"
  cl_serial :: "nat option"
  cl_replies :: "reply list"
  cl_events :: "event list"
  cl_loop :: loop
  cl_in :: string
  cl_wire :: string

definition New :: "string \<Rightarrow> client" where
  "New inp = \<lparr>cl_err = None, cl_serial = None, cl_replies = [], cl_events = [],
     cl_loop = Reading, cl_in = inp, cl_wire = []\<rparr>"

definition fail :: "goerr \<Rightarrow> client \<Rightarrow> client" where
  "fail e c = (if cl_err c = None then c\<lparr>cl_err := Some e\<rparr> else c)"

definition Close :: "client \<Rightarrow> client" where
  "Close c = fail (Sentinel NetErrClosed) c"

definition injection :: "string \<Rightarrow> bool" where
  "injection command = ContainsAny command [CR, LF, CHR 0x00]"

definition empty_reply :: reply where
  "empty_reply = \<lparr>Code = 0, Lines = []\<rparr>"

text \<open>The closure \<^verbatim>\<open>result\<close> of \<^verbatim>\<open>Do\<close>; \<open>cerr\<close> is \<^verbatim>\<open>ctx.Err()\<close> when it runs.\<close>

definition do_result :: "goerr option \<Rightarrow> reply \<Rightarrow> reply \<times> goerr option" where
  "do_result cerr r =
    (case cerr of
       Some e \<Rightarrow> (empty_reply, Some e)
     | None \<Rightarrow> if Code r \<noteq> 250 then (r, Some (ControlError (Code r))) else (r, None))"

section \<open>One request without other callers\<close>

text \<open>
  What the environment decides during one call: the branch of the first select, the state
  of the context after it, the result of setting the deadline and of the write (with the
  bytes written before an error), and the branch of the second select, where \<open>WaitReply\<close>
  carries \<^verbatim>\<open>ctx.Err()\<close> at the time the reply is handed out.
\<close>

datatype acquire = AcqSerial | AcqCtx goerr | AcqDone
datatype wait = WaitReply "goerr option" | WaitCtx goerr

record do_env =
  de_acquire :: acquire
  de_ctx :: "goerr option"
  de_deadline :: "goerr option"
  de_write :: "(nat \<times> goerr) option"
  de_wait :: wait

text \<open>The branch on \<^verbatim>\<open>done\<close> can be taken only once the client failed, and a write to the
  closed connection fails.\<close>

definition do_env_ok :: "client \<Rightarrow> do_env \<Rightarrow> bool" where
  "do_env_ok c env \<longleftrightarrow>
    (de_acquire env = AcqDone \<longrightarrow> cl_err c \<noteq> None) \<and> (cl_err c \<noteq> None \<longrightarrow> de_write env \<noteq> None)"

text \<open>The bytes that reach the peer when a write fails after \<open>k\<close> bytes: none once the
  connection is closed.\<close>

definition written :: "client \<Rightarrow> nat \<Rightarrow> string \<Rightarrow> string" where
  "written c k s = (if cl_err c = None then take k s else [])"

definition Do :: "do_env \<Rightarrow> client \<Rightarrow> string \<Rightarrow> (reply \<times> goerr option) \<times> client" where
  "Do env c command =
    (if injection command then ((empty_reply, Some (Msg ''tor control: command injection rejected'')), c)
     else case de_acquire env of
         AcqCtx e \<Rightarrow> ((empty_reply, Some e), c)
       | AcqDone \<Rightarrow> ((empty_reply, cl_err c), c)
       | AcqSerial \<Rightarrow>
           (case de_ctx env of Some e \<Rightarrow> ((empty_reply, Some e), c)
            | None \<Rightarrow>
           (case de_deadline env of Some e \<Rightarrow> ((empty_reply, Some e), fail e c)
            | None \<Rightarrow>
           (case de_write env of
              Some (k, e) \<Rightarrow>
                ((empty_reply, Some e), fail e (c\<lparr>cl_wire := cl_wire c @ written c k (command @ [CR, LF])\<rparr>))
            | None \<Rightarrow>
                let c1 = c\<lparr>cl_wire := cl_wire c @ command @ [CR, LF]\<rparr>
                in case de_wait env of
                    WaitCtx e \<Rightarrow> ((empty_reply, Some e), fail e c1)
                  | WaitReply cerr \<Rightarrow>
                      (case readReply None (cl_events c1) (cl_in c1) of
                         (Inr r, q, rest) \<Rightarrow> (do_result cerr r, c1\<lparr>cl_events := q, cl_in := rest\<rparr>)
                       | (Inl e, q, rest) \<Rightarrow>
                           ((empty_reply, cl_err (fail e c1)),
                            fail e (c1\<lparr>cl_events := q, cl_in := rest, cl_loop := Stopped\<rparr>)))))))"

section \<open>Interleaved requests\<close>

text \<open>
  Where a caller of \<^verbatim>\<open>Do\<close> stands: before the first select, holding the token, holding it
  with the cancellation callback armed, waiting for the reply after the write, or returned
  with its result.
\<close>

datatype phase =
    Idle | Entered string | Holding string | Armed string | Waiting string
  | Returned string "reply \<times> goerr option"

text \<open>
  \<open>ctx_err i\<close> is the error of the context of caller \<open>i\<close>; \<open>after\<close> holds the callers whose
  \<^verbatim>\<open>context.AfterFunc\<close> is registered or running. The last three fields record the history:
  the commands written in full with their callers, the replies callers took from the
  channel, and the replies the read loop parsed.
\<close>

record csys =
  cs_cl :: client
  cs_call :: "nat \<Rightarrow> phase"
  cs_ctx :: "nat \<Rightarrow> goerr option"
  cs_after :: "nat set"
  cs_sent :: "(nat \<times> string) list"
  cs_got :: "(nat \<times> reply) list"
  cs_read :: "reply list"

definition cs_init :: "string \<Rightarrow> csys" where
  "cs_init inp = \<lparr>cs_cl = New inp, cs_call = (\<lambda>_. Idle), cs_ctx = (\<lambda>_. None), cs_after = {},
     cs_sent = [], cs_got = [], cs_read = []\<rparr>"

definition put :: "nat \<Rightarrow> phase \<Rightarrow> csys \<Rightarrow> csys" where
  "put i p s = s\<lparr>cs_call := (cs_call s)(i := p)\<rparr>"

definition upd :: "(client \<Rightarrow> client) \<Rightarrow> csys \<Rightarrow> csys" where
  "upd f s = s\<lparr>cs_cl := f (cs_cl s)\<rparr>"

text \<open>The deferred functions of \<^verbatim>\<open>Do\<close>: \<^verbatim>\<open>stop()\<close> unregisters the callback unless it already
  started, and the token leaves \<^verbatim>\<open>serial\<close>.\<close>

definition stop :: "nat \<Rightarrow> csys \<Rightarrow> csys" where
  "stop i s = (if cs_ctx s i = None then s\<lparr>cs_after := cs_after s - {i}\<rparr> else s)"

definition return :: "nat \<Rightarrow> string \<Rightarrow> reply \<times> goerr option \<Rightarrow> csys \<Rightarrow> csys" where
  "return i cmd res s = put i (Returned cmd res) (upd (\<lambda>c. c\<lparr>cl_serial := None\<rparr>) (stop i s))"

definition take_reply :: "nat \<Rightarrow> reply \<Rightarrow> csys \<Rightarrow> csys" where
  "take_reply i r s = upd (\<lambda>c. c\<lparr>cl_replies := []\<rparr>) (s\<lparr>cs_got := cs_got s @ [(i, r)]\<rparr>)"

inductive cstep :: "csys \<Rightarrow> csys \<Rightarrow> bool" where
  call: "\<lbrakk>cs_call s i = Idle; \<not> injection cmd\<rbrakk> \<Longrightarrow> cstep s (put i (Entered cmd) s)"
| reject: "\<lbrakk>cs_call s i = Idle; injection cmd\<rbrakk> \<Longrightarrow>
    cstep s (put i (Returned cmd (empty_reply, Some (Msg ''tor control: command injection rejected''))) s)"
| acquire: "\<lbrakk>cs_call s i = Entered cmd; cl_serial (cs_cl s) = None\<rbrakk> \<Longrightarrow>
    cstep s (put i (Holding cmd) (upd (\<lambda>c. c\<lparr>cl_serial := Some i\<rparr>) s))"
| acquire_ctx: "\<lbrakk>cs_call s i = Entered cmd; cs_ctx s i = Some e\<rbrakk> \<Longrightarrow>
    cstep s (put i (Returned cmd (empty_reply, Some e)) s)"
| acquire_done: "\<lbrakk>cs_call s i = Entered cmd; cl_err (cs_cl s) = Some e\<rbrakk> \<Longrightarrow>
    cstep s (put i (Returned cmd (empty_reply, Some e)) s)"
| held_ctx: "\<lbrakk>cs_call s i = Holding cmd; cs_ctx s i = Some e\<rbrakk> \<Longrightarrow>
    cstep s (put i (Returned cmd (empty_reply, Some e)) (upd (\<lambda>c. c\<lparr>cl_serial := None\<rparr>) s))"
| arm: "\<lbrakk>cs_call s i = Holding cmd; cs_ctx s i = None\<rbrakk> \<Longrightarrow>
    cstep s (put i (Armed cmd) (s\<lparr>cs_after := insert i (cs_after s)\<rparr>))"
| transmit_fails: "cs_call s i = Armed cmd \<Longrightarrow>
    cstep s (return i cmd (empty_reply, Some e)
      (upd (\<lambda>c. fail e (c\<lparr>cl_wire := cl_wire c @ written c k (cmd @ [CR, LF])\<rparr>)) s))"
| transmit: "\<lbrakk>cs_call s i = Armed cmd; cl_err (cs_cl s) = None\<rbrakk> \<Longrightarrow>
    cstep s (put i (Waiting cmd) (upd (\<lambda>c. c\<lparr>cl_wire := cl_wire c @ cmd @ [CR, LF]\<rparr>)
      (s\<lparr>cs_sent := cs_sent s @ [(i, cmd)]\<rparr>)))"
| wait_reply: "\<lbrakk>cs_call s i = Waiting cmd; cl_replies (cs_cl s) = [r]\<rbrakk> \<Longrightarrow>
    cstep s (return i cmd (do_result (cs_ctx s i) r) (take_reply i r s))"
| wait_ctx: "\<lbrakk>cs_call s i = Waiting cmd; cs_ctx s i = Some e\<rbrakk> \<Longrightarrow>
    cstep s (return i cmd (empty_reply, Some e) (upd (fail e) s))"
| wait_done: "\<lbrakk>cs_call s i = Waiting cmd; cl_err (cs_cl s) = Some e; cl_replies (cs_cl s) = []\<rbrakk> \<Longrightarrow>
    cstep s (return i cmd (empty_reply, Some e) s)"
| cancel: "cs_ctx s i = None \<Longrightarrow> cstep s (s\<lparr>cs_ctx := (cs_ctx s)(i := Some e)\<rparr>)"
| after_func: "\<lbrakk>i \<in> cs_after s; cs_ctx s i = Some e\<rbrakk> \<Longrightarrow>
    cstep s (upd (fail e) (s\<lparr>cs_after := cs_after s - {i}\<rparr>))"
| close: "cstep s (upd Close s)"
| loop_read: "\<lbrakk>cl_loop (cs_cl s) = Reading; dn = None \<or> dn = cl_err (cs_cl s);
     readReply dn (cl_events (cs_cl s)) (cl_in (cs_cl s)) = (Inr r, q, rest)\<rbrakk> \<Longrightarrow>
    cstep s (upd (\<lambda>c. c\<lparr>cl_loop := Offering r, cl_events := q, cl_in := rest\<rparr>)
      (s\<lparr>cs_read := cs_read s @ [r]\<rparr>))"
| loop_fails: "\<lbrakk>cl_loop (cs_cl s) = Reading; dn = None \<or> dn = cl_err (cs_cl s);
     readReply dn (cl_events (cs_cl s)) (cl_in (cs_cl s)) = (Inl e, q, rest)\<rbrakk> \<Longrightarrow>
    cstep s (upd (\<lambda>c. fail e (c\<lparr>cl_loop := Stopped, cl_events := q, cl_in := rest\<rparr>)) s)"
| loop_closed: "\<lbrakk>cl_loop (cs_cl s) = Reading; cl_err (cs_cl s) \<noteq> None\<rbrakk> \<Longrightarrow>
    cstep s (upd (\<lambda>c. c\<lparr>cl_loop := Stopped\<rparr>) s)"
| loop_offer: "\<lbrakk>cl_loop (cs_cl s) = Offering r; cl_replies (cs_cl s) = []\<rbrakk> \<Longrightarrow>
    cstep s (upd (\<lambda>c. c\<lparr>cl_loop := Reading, cl_replies := [r]\<rparr>) s)"
| loop_done: "\<lbrakk>cl_loop (cs_cl s) = Offering r; cl_err (cs_cl s) \<noteq> None\<rbrakk> \<Longrightarrow>
    cstep s (upd (\<lambda>c. c\<lparr>cl_loop := Stopped\<rparr>) s)"
| take_event: "cl_events (cs_cl s) = ev # q \<Longrightarrow> cstep s (upd (\<lambda>c. c\<lparr>cl_events := q\<rparr>) s)"

abbreviation csteps :: "csys \<Rightarrow> csys \<Rightarrow> bool" where
  "csteps \<equiv> cstep\<^sup>*\<^sup>*"

inductive_cases cstep_cases: "cstep s t"

end
