(* ===== verification/Tor_Control_Proofs.thy ===== *)
theory Tor_Control_Proofs
  imports Tor_Control
begin

text \<open>
  Correctness of the control reader. A reference printer writes replies and events the
  way the control protocol does (status lines, dot-stuffed data blocks, events between
  the lines of a reply); the reader recovers exactly what was printed. Conversely, every
  reply the reader accepts is bounded, whatever bytes the peer sends.
\<close>

section \<open>A reference printer\<close>

text \<open>A line that is not the last one: plain, or opening a data block.\<close>

datatype part = Mid string | Block string "string list"

definition crlf :: "string \<Rightarrow> string" where
  "crlf s = s @ [CR, LF]"

definition stuff :: "string \<Rightarrow> string" where
  "stuff s = (if HasPrefix s ''.'' then CHR ''.'' # s else s)"

definition print_block :: "string list \<Rightarrow> string" where
  "print_block ls = concat (map (\<lambda>s. crlf (stuff s)) ls) @ crlf ''.''"

fun print_part :: "string \<Rightarrow> part \<Rightarrow> string" where
  "print_part st (Mid b) = crlf (st @ ''-'' @ b)"
| "print_part st (Block b ls) = crlf (st @ ''+'' @ b) @ print_block ls"

fun part_lines :: "part \<Rightarrow> string list" where
  "part_lines (Mid b) = [b]"
| "part_lines (Block b ls) = b # ls"

definition print_last :: "string \<Rightarrow> string \<Rightarrow> string" where
  "print_last st b = crlf (st @ '' '' @ b)"

text \<open>An item of a reply is one of its lines or an event that arrives before the next.\<close>

datatype item = Part part | Async "part list" string

fun print_item :: "string \<Rightarrow> item \<Rightarrow> string" where
  "print_item st (Part p) = print_part st p"
| "print_item st (Async ps b) = concat (map (print_part ''650'') ps) @ print_last ''650'' b"

definition print_reply :: "int \<Rightarrow> item list \<Rightarrow> string \<Rightarrow> string" where
  "print_reply code is b = concat (map (print_item (Itoa code)) is) @ print_last (Itoa code) b"

fun item_lines :: "item \<Rightarrow> string list" where
  "item_lines (Part p) = part_lines p"
| "item_lines (Async ps b) = []"

fun item_events :: "item \<Rightarrow> event list" where
  "item_events (Part p) = []"
| "item_events (Async ps b) = [concat (map part_lines ps) @ [b]]"

text \<open>A printable line has no line feed and fits the 64 KiB buffer.\<close>

definition fits :: "string \<Rightarrow> bool" where
  "fits s \<longleftrightarrow> LF \<notin> set s \<and> length s \<le> 65000"

fun part_fits :: "part \<Rightarrow> bool" where
  "part_fits (Mid b) = fits b"
| "part_fits (Block b ls) = (fits b \<and> list_all fits ls)"

fun item_fits :: "item \<Rightarrow> bool" where
  "item_fits (Part p) = part_fits p"
| "item_fits (Async ps b) = (list_all part_fits ps \<and> fits b)"

section \<open>The reader on printed text\<close>

lemma line_crlf:
  assumes "LF \<notin> set s" "length s \<le> 65534"
  shows "line (crlf s @ rest) = Inr (s, rest)"
proof -
  have "Cut LF (take 65536 (crlf s @ rest)) = Some (s @ [CR], take (65534 - length s) rest)"
    using assms Cut_append [of LF "s @ [CR]"] by (simp add: crlf_def take_Cons')
  then show ?thesis
    using assms by (simp add: line_def crlf_def)
qed

lemma unstuff_stuff [simp]: "unstuff (stuff s) = s"
  by (cases s) (auto simp: unstuff_def stuff_def HasPrefix_def)

lemma stuff_not_dot: "stuff s \<noteq> ''.''"
  by (cases s) (auto simp: stuff_def HasPrefix_def)

lemma stuff_line: "fits s \<Longrightarrow> line (crlf (stuff s) @ rest) = Inr (stuff s, rest)"
  by (rule line_crlf) (auto simp: fits_def stuff_def)

lemma length_crlf [simp]: "length (crlf s) = length s + 2"
  by (simp add: crlf_def)

lemma data_from_print:
  assumes "list_all fits ls" "n + length (print_block ls) \<le> maxReply"
  shows "data_from n acc (print_block ls @ rest) = Inr (acc @ ls, n + length (print_block ls), rest)"
  using assms
proof (induction ls arbitrary: n acc)
  case Nil
  have "line (crlf ''.'' @ rest) = Inr (''.'', rest)" by (rule line_crlf) auto
  with Nil show ?case
    by (subst data_from.simps) (simp add: print_block_def Let_def)
next
  case (Cons s ls)
  have "line (crlf (stuff s) @ print_block ls @ rest) = Inr (stuff s, print_block ls @ rest)"
    using Cons.prems by (simp add: stuff_line)
  moreover have "print_block (s # ls) @ rest = crlf (stuff s) @ print_block ls @ rest"
    by (simp add: print_block_def)
  moreover have "length (print_block (s # ls)) = length (stuff s) + 2 + length (print_block ls)"
    by (simp add: print_block_def)
  ultimately show ?case
    using Cons.prems Cons.IH [of "n + length (stuff s) + 2" "acc @ [s]"]
    by (subst data_from.simps) (simp add: Let_def stuff_not_dot add.assoc)
qed

lemma data_print:
  assumes "list_all fits ls" "length (print_block ls) \<le> maxReply"
  shows "data (print_block ls @ rest) = Inr (ls, length (print_block ls), rest)"
  using data_from_print [of ls 0 "[]"] assms by (simp add: data_def)

text \<open>The status of a reply is printed with three digits.\<close>

lemma Itoa_status:
  assumes "100 \<le> code" "code \<le> 699"
  shows "length (Itoa code) = 3" "Atoi (Itoa code) = Some code" "LF \<notin> set (Itoa code)"
proof -
  define n where "n = nat code"
  have n: "code = int n" "100 \<le> n" "n \<le> 699" using assms by (auto simp: n_def)
  have i: "Itoa code = dec n" by (simp add: n Itoa_nat)
  have "dec n = [chr (48 + n div 100), chr (48 + n div 10 mod 10), chr (48 + n mod 10)]"
  proof -
    have "\<not> n < 10" "\<not> n div 10 < 10" "n div 10 div 10 < 10" using n by auto
    then show ?thesis
      by (simp add: dec.simps [of n] dec.simps [of "n div 10"] dec.simps [of "n div 100"]
          div_mult2_eq [symmetric])
  qed
  then show "length (Itoa code) = 3" by (simp add: i)
  have nd: "c \<in> set (dec n) \<Longrightarrow> is_digit c" for c
    using dec_digits [of n] by (simp add: list_all_iff)
  have "\<not> HasPrefix (dec n) ''-''" "\<not> HasPrefix (dec n) ''+''"
    using nd [of "hd (dec n)"] by (auto simp: HasPrefix_iff is_digit_def)
  then show "Atoi (Itoa code) = Some code"
    using n by (simp add: Atoi_def i Let_def Itoa_nat)
  show "LF \<notin> set (Itoa code)"
    using nd [of LF] by (auto simp: i is_digit_def)
qed

lemma split_go_print:
  assumes "100 \<le> code" "code \<le> 699" "sep \<in> set '' -+''"
  shows "split_go (Itoa code @ sep # b) = Inr (code, sep, b)"
  using Itoa_status [OF assms(1,2)] assms by (simp add: split_go_def nth_append)

lemma status_line:
  assumes "100 \<le> code" "code \<le> 699" "fits b" "sep \<in> set '' -+''"
  shows "line (crlf (Itoa code @ sep # b) @ rest) = Inr (Itoa code @ sep # b, rest)"
  using Itoa_status [OF assms(1,2)] assms(3,4) by (intro line_crlf) (auto simp: fits_def)

lemma Itoa_650: "Itoa 650 = ''650''"
  by (simp add: Itoa_def dec.simps char_of_def bit_Suc_0_iff)

lemma event_line:
  assumes "fits b" "sep \<in> set '' -+''"
  shows "line (crlf (''650'' @ sep # b) @ rest) = Inr (''650'' @ sep # b, rest)"
    and "split_go (''650'' @ sep # b) = Inr (650, sep, b)"
  using status_line [of 650 b sep rest] split_go_print [of 650 sep b] assms by (simp_all add: Itoa_650)

lemma readEvent_from_block:
  assumes "data (blk @ r) = Inr (ls, k, r)"
  shows "readEvent_from n acc (CHR ''+'') (blk @ r) = readEvent_from (n + k) (acc @ ls) (CHR ''-'') r"
  by (simp add: assms readEvent_from.simps [of n acc] readEvent_from.simps [of "n + k" "acc @ ls"] Let_def
      split: sum.split prod.split)

lemma readEvent_from_line:
  assumes "fits b" "sep \<in> set '' -+''" "n + length b + 6 \<le> maxReply"
  shows "readEvent_from n acc (CHR ''-'') (crlf (''650'' @ sep # b) @ r) =
    readEvent_from (n + length b + 6) (acc @ [b]) sep r"
proof -
  have small: "\<not> maxReply < Suc (Suc (Suc (Suc (Suc (Suc (n + length b))))))"
    using assms(3) by simp
  show ?thesis
    by (subst readEvent_from.simps)
       (simp add: event_line [OF assms(1,2), simplified] small Let_def eval_nat_numeral)
qed

lemma readEvent_from_last: "readEvent_from n acc (CHR '' '') r = Inr (acc, r)"
  by (subst readEvent_from.simps) simp

lemma readEvent_from_print:
  assumes "list_all part_fits ps" "fits b"
    and "n + length (print_item '''' (Async ps b)) \<le> maxReply"
  shows "readEvent_from n acc (CHR ''-'') (print_item '''' (Async ps b) @ rest) =
    Inr (acc @ concat (map part_lines ps) @ [b], rest)"
  using assms
proof (induction ps arbitrary: n acc)
  case Nil
  then show ?case
    using readEvent_from_line [of b "CHR '' ''" n acc rest]
    by (simp add: print_last_def readEvent_from_last)
next
  case (Cons p ps)
  show ?case
  proof (cases p)
    case (Mid c)
    with Cons.prems Cons.IH [of "n + length c + 6" "acc @ [c]"] show ?thesis
      using readEvent_from_line [of c "CHR ''-''" n acc "print_item '''' (Async ps b) @ rest"]
      by simp
  next
    case (Block c ls)
    let ?r = "print_item '''' (Async ps b) @ rest" and ?k = "length (print_block ls)"
    have "readEvent_from n acc (CHR ''-'') (crlf (''650'' @ CHR ''+'' # c) @ print_block ls @ ?r) =
        readEvent_from (n + length c + 6) (acc @ [c]) (CHR ''+'') (print_block ls @ ?r)"
      using Block Cons.prems by (intro readEvent_from_line) auto
    also have "\<dots> = readEvent_from (n + length c + 6 + ?k) (acc @ [c] @ ls) (CHR ''-'') ?r"
      using Block Cons.prems
      by (subst readEvent_from_block [OF data_print]) auto
    also have "\<dots> = Inr (acc @ concat (map part_lines (p # ps)) @ [b], rest)"
      using Block Cons.prems by (subst Cons.IH) auto
    finally show ?thesis using Block by simp
  qed
qed

text \<open>The first line of an event is read by \<^const>\<open>readReply\<close>, the rest by
  \<^const>\<open>readEvent\<close>.\<close>

fun event_head :: "part list \<Rightarrow> string \<Rightarrow> char \<times> string" where
  "event_head [] b = (CHR '' '', b)"
| "event_head (Mid c # ps) b = (CHR ''-'', c)"
| "event_head (Block c ls # ps) b = (CHR ''+'', c)"

fun event_tail :: "part list \<Rightarrow> string \<Rightarrow> string" where
  "event_tail [] b = []"
| "event_tail (Mid c # ps) b = print_item '''' (Async ps b)"
| "event_tail (Block c ls # ps) b = print_block ls @ print_item '''' (Async ps b)"

lemma print_event_split:
  "print_item st (Async ps b) =
    crlf (''650'' @ fst (event_head ps b) # snd (event_head ps b)) @ event_tail ps b"
  by (induction ps b rule: event_head.induct) (simp_all add: print_last_def)

lemma event_head_ok:
  assumes "list_all part_fits ps" "fits b"
  shows "fits (snd (event_head ps b))" "fst (event_head ps b) \<in> set '' -+''"
  using assms by (induction ps b rule: event_head.induct) simp_all

lemma readEvent_print:
  assumes "list_all part_fits ps" "fits b" "length (print_item '''' (Async ps b)) \<le> maxReply"
  shows "readEvent (snd (event_head ps b)) (fst (event_head ps b)) (event_tail ps b @ rest) =
    Inr (concat (map part_lines ps) @ [b], rest)"
  using assms
proof (induction ps b rule: event_head.induct)
  case (1 b)
  then show ?case by (simp add: readEvent_def readEvent_from_last)
next
  case (2 c ps b)
  then show ?case
    using readEvent_from_print [of ps b 0 "[c]" rest] by (simp add: readEvent_def)
next
  case (3 c ls ps b)
  let ?r = "print_item '''' (Async ps b) @ rest"
  have "data (print_block ls @ ?r) = Inr (ls, length (print_block ls), ?r)"
    using 3 by (intro data_print) auto
  with 3 show ?case
    using readEvent_from_print [of ps b "length (print_block ls)" "c # ls" rest]
    by (simp add: readEvent_def readEvent_from_block)
qed

section \<open>Replies\<close>

lemma readReply_from_async:
  assumes "list_all part_fits ps" "fits b" "length q < maxEvents"
    and "n + length (print_item '''' (Async ps b)) \<le> maxReply"
  shows "\<exists>k \<le> length (print_item '''' (Async ps b)).
    readReply_from None n rc ls q (print_item '''' (Async ps b) @ rest) =
    readReply_from None (n + k) rc ls (q @ [concat (map part_lines ps) @ [b]]) rest"
proof -
  obtain sep c where hd: "event_head ps b = (sep, c)" by (cases "event_head ps b")
  let ?k = "length c + 6" and ?p = "print_item '''' (Async ps b)"
  have pr: "?p = crlf (''650'' @ sep # c) @ event_tail ps b"
    using hd by (simp only: print_event_split) simp
  then have l: "length ?p = ?k + length (event_tail ps b)" by simp
  have small: "\<not> maxReply < Suc (Suc (Suc (Suc (Suc (Suc (n + length c))))))"
    using assms(4) l by simp
  have h: "fits c" "sep \<in> set '' -+''"
    using event_head_ok [OF assms(1,2)] hd by simp_all
  have ev: "readEvent c sep (event_tail ps b @ rest) = Inr (concat (map part_lines ps) @ [b], rest)"
    using readEvent_print [of ps b rest] assms hd by simp
  have "readReply_from None n rc ls q
      (crlf (''650'' @ sep # c) @ event_tail ps b @ rest) =
    readReply_from None (n + ?k) rc ls (q @ [concat (map part_lines ps) @ [b]]) rest"
    using assms(3) ev
    by (subst readReply_from.simps)
       (simp add: event_line [OF h, simplified] small Let_def eval_nat_numeral)
  with l pr show ?thesis by (intro exI [of _ ?k]) simp
qed

lemma readReply_from_part:
  assumes "part_fits p" "100 \<le> code" "code \<le> 699" "code \<noteq> 650" "rc = 0 \<or> rc = code"
    and "n + length (print_part (Itoa code) p) \<le> maxReply"
  shows "readReply_from dn n rc ls q (print_part (Itoa code) p @ rest) =
    readReply_from dn (n + length (print_part (Itoa code) p)) code (ls @ part_lines p) q rest"
proof (cases p)
  case (Mid b)
  with assms have fb: "fits b" "CHR ''-'' \<in> set '' -+''" by auto
  have small: "\<not> maxReply < Suc (Suc (Suc (Suc (Suc (Suc (n + length b))))))"
    using assms(6) Mid Itoa_status [OF assms(2,3)] by simp
  show ?thesis
    using Mid assms(4,5) Itoa_status [OF assms(2,3)] status_line [OF assms(2,3) fb, of rest]
    by (subst readReply_from.simps)
       (auto simp: split_go_print [OF assms(2,3)] Let_def small eval_nat_numeral)
next
  case (Block b dl)
  with assms have fb: "fits b" "CHR ''+'' \<in> set '' -+''" by auto
  let ?k = "length (print_block dl)"
  have d: "data (print_block dl @ rest) = Inr (dl, ?k, rest)"
    using Block assms by (intro data_print) auto
  have small: "\<not> maxReply < Suc (Suc (Suc (Suc (Suc (Suc (n + length b))))))"
    "\<not> maxReply < Suc (Suc (Suc (Suc (Suc (Suc (n + (length b + ?k)))))))"
    using assms(6) Block Itoa_status [OF assms(2,3)] by simp_all
  show ?thesis
    using Block assms(4,5) Itoa_status [OF assms(2,3)] d
      status_line [OF assms(2,3) fb, of "print_block dl @ rest"]
    by (subst readReply_from.simps)
       (auto simp: split_go_print [OF assms(2,3)] Let_def small add.assoc eval_nat_numeral)
qed

lemma readReply_from_last:
  assumes "fits b" "100 \<le> code" "code \<le> 699" "code \<noteq> 650" "rc = 0 \<or> rc = code"
    and "n + length (print_last (Itoa code) b) \<le> maxReply"
  shows "readReply_from dn n rc ls q (print_last (Itoa code) b @ rest) =
    (Inr \<lparr>Code = code, Lines = ls @ [b]\<rparr>, q, rest)"
proof -
  have small: "\<not> maxReply < Suc (Suc (Suc (Suc (Suc (Suc (n + length b))))))"
    using assms(6) Itoa_status [OF assms(2,3)] by (simp add: print_last_def)
  show ?thesis
    using assms(4,5) Itoa_status [OF assms(2,3)] status_line [OF assms(2,3,1), of "CHR '' ''" rest]
    by (subst readReply_from.simps)
       (auto simp: print_last_def split_go_print [OF assms(2,3)] Let_def small eval_nat_numeral)
qed

lemma readReply_from_items:
  assumes "100 \<le> code" "code \<le> 699" "code \<noteq> 650" "rc = 0 \<or> rc = code"
    and "list_all item_fits is" "fits b"
    and "length q + length (concat (map item_events is)) \<le> maxEvents"
    and "n + length (print_reply code is b) \<le> maxReply"
  shows "readReply_from None n rc ls q (print_reply code is b @ rest) =
    (Inr \<lparr>Code = code, Lines = ls @ concat (map item_lines is) @ [b]\<rparr>,
     q @ concat (map item_events is), rest)"
  using assms
proof (induction "is" arbitrary: n rc ls q)
  case Nil
  then show ?case by (simp add: print_reply_def readReply_from_last)
next
  case (Cons i ist)
  let ?r = "print_reply code ist b"
  have pr: "print_reply code (i # ist) b = print_item (Itoa code) i @ ?r"
    by (simp add: print_reply_def)
  show ?case
  proof (cases i)
    case (Part p)
    then have "readReply_from None n rc ls q (print_reply code (i # ist) b @ rest) =
        readReply_from None (n + length (print_part (Itoa code) p)) code (ls @ part_lines p) q
          (?r @ rest)"
      using Cons.prems pr by (simp add: readReply_from_part)
    with Part Cons.prems pr show ?thesis by (simp add: Cons.IH)
  next
    case (Async ps c)
    then have e: "print_item (Itoa code) i = print_item '''' (Async ps c)" by simp
    obtain k where "k \<le> length (print_item '''' (Async ps c))"
      "readReply_from None n rc ls q (print_item '''' (Async ps c) @ ?r @ rest) =
       readReply_from None (n + k) rc ls (q @ [concat (map part_lines ps) @ [c]]) (?r @ rest)"
      using readReply_from_async [of ps c q n rc ls "?r @ rest"] Cons.prems pr e Async by auto
    with Async Cons.prems pr e show ?thesis by (simp add: Cons.IH)
  qed
qed

text \<open>
  C22. Reading a control reply recovers exactly what the peer printed. For every reply with
  a status code between 100 and 699 other than 650, with plain lines and dot-stuffed data
  blocks, and with any number of asynchronous events between its lines, the reader returns
  that code and those lines, queues exactly those events in order, and leaves the bytes
  that follow untouched, as long as lines fit the buffer, the whole is at most 1 MiB and the
  event queue has room.
\<close>

theorem readReply_roundtrip:
  assumes "100 \<le> code" "code \<le> 699" "code \<noteq> 650"
    and "list_all item_fits is" "fits b"
    and "length q + length (concat (map item_events is)) \<le> maxEvents"
    and "length (print_reply code is b) \<le> maxReply"
  shows "readReply None q (print_reply code is b @ rest) =
    (Inr \<lparr>Code = code, Lines = concat (map item_lines is) @ [b]\<rparr>,
     q @ concat (map item_events is), rest)"
  using readReply_from_items [of code 0 "is" b q 0 "[]" rest] assms by (simp add: readReply_def)

theorem readReply_roundtrip_witness:
  "readReply None []
     (print_reply 250
        [Part (Mid ''SocksPort=1''), Async [Block ''HS_DESC X'' [''.dot'']] ''OK'',
         Part (Block ''config-text='' [''.'', ''a''])] ''OK'' @ ''250 next'') =
   (Inr \<lparr>Code = 250, Lines = [''SocksPort=1'', ''config-text='', ''.'', ''a'', ''OK'']\<rparr>,
    [[''HS_DESC X'', ''.dot'', ''OK'']], ''250 next'')"
proof -
  have len: "length (Itoa 250) = 3" by (simp add: Itoa_status)
  show ?thesis
    by (subst readReply_roundtrip)
       (simp_all add: fits_def maxEvents_def maxReply_def print_reply_def print_last_def
         print_block_def stuff_def HasPrefix_def len)
qed

section \<open>Bounds on what the reader accepts\<close>

definition text_size :: "string list \<Rightarrow> nat" where
  "text_size ls = sum_list (map length ls)"

lemma text_size_simps [simp]:
  "text_size [] = 0" "text_size (s # ls) = length s + text_size ls"
  "text_size (ls @ ks) = text_size ls + text_size ks"
  by (simp_all add: text_size_def)

lemma length_unstuff: "length (unstuff s) \<le> length s"
  by (simp add: unstuff_def)

lemma data_from_bound:
  assumes "data_from n ls inp = Inr (ls', n', rest)"
  shows "n' \<le> maxReply \<and> text_size ls' + n \<le> text_size ls + n'"
  using assms
proof (induction n ls inp rule: data_from.induct)
  case (1 n ls inp)
  from 1(2) obtain s r where sr: "line inp = Inr (s, r)"
    by (subst (asm) data_from.simps) (auto split: sum.splits prod.splits)
  show ?case
  proof (cases "s = ''.'' \<or> maxReply < n + length s + 2")
    case True
    with 1(2) sr show ?thesis
      by (subst (asm) data_from.simps) (auto simp: Let_def split: if_splits)
  next
    case False
    with 1(2) sr have "data_from (n + length s + 2) (ls @ [unstuff s]) r = Inr (ls', n', rest)"
      by (subst (asm) data_from.simps) (simp add: Let_def)
    from 1(1) [OF sr refl refl _ _ this] False length_unstuff [of s] show ?thesis by simp
  qed
qed

lemma data_bound: "data inp = Inr (ls, k, rest) \<Longrightarrow> k \<le> maxReply \<and> text_size ls \<le> k"
  using data_from_bound [of 0 "[]" inp ls k rest] by (simp add: data_def)

lemma split_go_Inr:
  "split_go s = Inr (code, sep, body) \<Longrightarrow> 100 \<le> code \<and> code \<le> 699 \<and> length body \<le> length s"
  by (auto simp: split_go_def split: if_splits option.splits)

lemma readReply_from_cases:
  assumes "readReply_from dn n rc ls q inp = (Inr r, q', rest)"
  obtains
    (last) s code inp' where "line inp = Inr (s, rest)" "n + length s + 2 \<le> maxReply"
      "split_go s = Inr (code, CHR '' '', inp')" "code \<noteq> 650" "rc = 0 \<or> code = rc" "q' = q"
      "r = \<lparr>Code = code, Lines = ls @ [inp']\<rparr>"
  | (event) s sep body inp1 ev inp2 where "line inp = Inr (s, inp1)" "n + length s + 2 \<le> maxReply"
      "split_go s = Inr (650, sep, body)" "readEvent body sep inp1 = Inr (ev, inp2)"
      "length q < maxEvents" "length inp2 < length inp" "dn = None"
      "readReply_from dn (n + length s + 2) rc ls (q @ [ev]) inp2 = (Inr r, q', rest)"
  | (mid) s code sep body inp1 dls k inp2 where "line inp = Inr (s, inp1)"
      "split_go s = Inr (code, sep, body)" "code \<noteq> 650" "n + length s + 2 + k \<le> maxReply"
      "text_size dls \<le> k" "length inp2 < length inp" "rc = 0 \<or> code = rc" "sep \<noteq> CHR '' ''"
      "(if sep = CHR ''+'' then data inp1 else Inr ([], 0, inp1)) = Inr (dls, k, inp2)"
      "readReply_from dn (n + length s + 2 + k) code (ls @ [body] @ dls) q inp2 = (Inr r, q', rest)"
proof -
  from assms obtain s inp1 where l: "line inp = Inr (s, inp1)"
    by (subst (asm) readReply_from.simps) (auto split: sum.splits prod.splits)
  from assms l have n: "\<not> maxReply < n + length s + 2"
    by (subst (asm) readReply_from.simps) (auto simp: Let_def)
  from assms l n obtain code sep body where sp: "split_go s = Inr (code, sep, body)"
    by (subst (asm) readReply_from.simps) (auto simp: Let_def split: sum.splits prod.splits)
  show thesis
  proof (cases "code = 650")
    case True
    from assms l n sp True obtain ev inp2 where e: "readEvent body sep inp1 = Inr (ev, inp2)"
      "dn = None" "length q < maxEvents"
      "readReply_from dn (n + length s + 2) rc ls (q @ [ev]) inp2 = (Inr r, q', rest)"
      by (subst (asm) readReply_from.simps)
         (auto simp: Let_def split: sum.splits prod.splits if_splits option.splits)
    have "length inp2 < length inp"
      using line_Inr_length [OF l] readEvent_from_length [OF e(1) [unfolded readEvent_def]] by simp
    with l n sp True e show thesis by (intro event) simp_all
  next
    case False
    from assms l n sp False have rc: "rc = 0 \<or> code = rc"
      by (subst (asm) readReply_from.simps) (auto simp: Let_def split: if_splits)
    from assms l n sp False rc obtain dls k inp2
      where d: "(if sep = CHR ''+'' then data inp1 else Inr ([], 0, inp1)) = Inr (dls, k, inp2)"
      by (subst (asm) readReply_from.simps)
         (simp add: Let_def split: sum.splits prod.splits if_splits)
    have k: "text_size dls \<le> k" "length inp2 \<le> length inp1"
      using data_bound [of inp1 dls k inp2] data_from_length [of 0 "[]" inp1 dls k inp2] d
      by (auto simp: data_def split: if_splits)
    show thesis
    proof (cases "sep = CHR '' ''")
      case True
      with assms l n sp False rc show thesis
        by (subst (asm) readReply_from.simps) (auto simp: Let_def split: if_splits intro!: last)
    next
      case sep: False
      with assms l n sp False d have
        "readReply_from dn (n + length s + 2 + k) code (ls @ [body] @ dls) q inp2 = (Inr r, q', rest)"
        "n + length s + 2 + k \<le> maxReply"
        by (subst (asm) readReply_from.simps; simp add: Let_def split: if_splits)+
      with l sp False k rc sep d line_Inr_length [OF l] show thesis by (intro mid) auto
    qed
  qed
qed

lemma readReply_from_bound:
  assumes "readReply_from dn n rc ls q inp = (Inr r, q', rest)"
  shows "text_size (Lines r) + n \<le> text_size ls + maxReply \<and> length q' \<le> max (length q) maxEvents
    \<and> (\<exists>new. q' = q @ new) \<and> 100 \<le> Code r \<and> Code r \<le> 699 \<and> Code r \<noteq> 650 \<and> Lines r \<noteq> []
    \<and> length rest < length inp"
  using assms
proof (induction "length inp" arbitrary: n rc ls q inp rule: less_induct)
  case less
  from less.prems show ?case
  proof (cases rule: readReply_from_cases)
    case (last s code b)
    then show ?thesis using line_Inr_length [OF last(1)] split_go_Inr [OF last(3)] by auto
  next
    case (event s sep body inp1 ev inp2)
    from less.hyps [OF event(6,8)] event(5,6) show ?thesis by auto
  next
    case (mid s code sep body inp1 dls k inp2)
    from less.hyps [OF mid(6,10)] mid split_go_Inr [OF mid(2)] show ?thesis by auto
  qed
qed

text \<open>What a successful read returns depends on the input only: not on the events already
  queued, nor on whether the client failed meanwhile.\<close>

lemma readReply_from_input:
  assumes "readReply_from dn n rc ls q inp = (Inr r, q', rest)" "length p \<le> length q"
  shows "\<exists>p'. readReply_from None n rc ls p inp = (Inr r, p', rest)"
  using assms
proof (induction "length inp" arbitrary: n rc ls q p inp rule: less_induct)
  case less
  from less.prems(1) show ?case
  proof (cases rule: readReply_from_cases)
    case (last s code b)
    then show ?thesis
      by (subst readReply_from.simps) (auto simp: Let_def)
  next
    case (event s sep body inp1 ev inp2)
    have "length (p @ [ev]) \<le> length (q @ [ev])" using less.prems(2) by simp
    from less.hyps [OF event(6,8) this] event less.prems(2) show ?thesis
      by (subst readReply_from.simps) (auto simp: Let_def)
  next
    case (mid s code sep body inp1 dls k inp2)
    from less.hyps [OF mid(6,10) less.prems(2)] mid show ?thesis
      by (subst readReply_from.simps) (auto simp: Let_def)
  qed
qed

lemma readReply_input:
  "readReply dn q inp = (Inr r, q', rest) \<Longrightarrow> \<exists>p. readReply None [] inp = (Inr r, p, rest)"
  using readReply_from_input [of dn 0 0 "[]" q inp r q' rest "[]"] by (simp add: readReply_def)

text \<open>
  C34. Whatever the peer sends, an accepted reply is bounded and well formed: its text is
  at most 1 MiB, it has at least one line, its status is between 100 and 699 and never the
  event status 650, earlier queued events are kept, and the event queue never exceeds 64
  entries. Each accepted reply consumes input, so the read loop cannot spin.
\<close>

theorem readReply_bounded:
  assumes "readReply None q inp = (Inr r, q', rest)" "length q \<le> 64"
  shows "text_size (Lines r) \<le> 1048576 \<and> Lines r \<noteq> [] \<and>
    100 \<le> Code r \<and> Code r \<le> 699 \<and> Code r \<noteq> 650 \<and>
    (\<exists>new. q' = q @ new) \<and> length q' \<le> 64 \<and> length rest < length inp"
  using readReply_from_bound [of None 0 0 "[]" q inp r q' rest] assms
  by (auto simp: readReply_def maxReply_def maxEvents_def)

theorem readReply_bounded_witness:
  "readReply None [] (crlf ''250 OK'' @ ''250'') = (Inr \<lparr>Code = 250, Lines = [''OK'']\<rparr>, [], ''250'') \<and>
   text_size [''OK''] \<le> 1048576 \<and> length ''250'' < length (crlf ''250 OK'' @ ''250'')"
proof -
  have i: "Itoa 250 = ''250''" by code_simp
  have r: "readReply None [] (crlf ''250 OK'' @ ''250'') = (Inr \<lparr>Code = 250, Lines = [''OK'']\<rparr>, [], ''250'')"
    using readReply_from_items [of 250 0 "[]" "''OK''" "[]" 0 "[]" "''250''"] Itoa_status [of 250]
    by (simp add: readReply_def fits_def maxEvents_def maxReply_def print_reply_def print_last_def i)
  from readReply_bounded [OF r] r show ?thesis by simp
qed

end
