(* ===== verification/Tor_Client_Proofs.thy ===== *)
theory Tor_Client_Proofs
  imports Tor_Client Tor_Control_Proofs
begin

text \<open>
  The control client under arbitrary interleaving: replies are matched with the commands
  they answer, the bytes on the wire are whole commands, and one sequential request is a
  run of the step relation.
\<close>

lemmas csys_simps = put_def upd_def stop_def return_def take_reply_def

section \<open>Invariants\<close>

definition active :: "phase \<Rightarrow> bool" where
  "active p \<longleftrightarrow> (case p of Holding _ \<Rightarrow> True | Armed _ \<Rightarrow> True | Waiting _ \<Rightarrow> True | _ \<Rightarrow> False)"

text \<open>The token in \<^verbatim>\<open>serial\<close> belongs to the one caller that is inside the critical section.\<close>

definition serial_inv :: "csys \<Rightarrow> bool" where
  "serial_inv s \<longleftrightarrow> (\<forall>i. active (cs_call s i) \<longleftrightarrow> cl_serial (cs_cl s) = Some i)"

text \<open>Replies move in order from the reader through the channel to the callers.\<close>

definition pending :: "client \<Rightarrow> reply list" where
  "pending c = cl_replies c @ (case cl_loop c of Offering r \<Rightarrow> [r] | _ \<Rightarrow> [])"

definition flow_inv :: "csys \<Rightarrow> bool" where
  "flow_inv s \<longleftrightarrow> length (cl_replies (cs_cl s)) \<le> 1 \<and>
    (\<exists>lost. cs_read s = map snd (cs_got s) @ pending (cs_cl s) @ lost
      \<and> (cl_loop (cs_cl s) \<noteq> Stopped \<longrightarrow> lost = []))"

text \<open>All commands but the last have their reply; the last one has it too, or its caller
  still waits, or the client has failed.\<close>

definition pair_inv :: "csys \<Rightarrow> bool" where
  "pair_inv s \<longleftrightarrow>
    map fst (cs_got s) = map fst (take (length (cs_got s)) (cs_sent s)) \<and>
    length (cs_got s) \<le> length (cs_sent s) \<and>
    (\<forall>i cmd. cs_call s i = Waiting cmd \<longrightarrow>
       length (cs_sent s) = Suc (length (cs_got s)) \<and> last (cs_sent s) = (i, cmd)) \<and>
    (cl_err (cs_cl s) = None \<and> (\<forall>i cmd. cs_call s i \<noteq> Waiting cmd) \<longrightarrow>
       length (cs_sent s) = length (cs_got s))"

lemma fail_sels [simp]:
  "cl_serial (fail e c) = cl_serial c" "cl_replies (fail e c) = cl_replies c"
  "cl_events (fail e c) = cl_events c" "cl_loop (fail e c) = cl_loop c"
  "cl_in (fail e c) = cl_in c" "cl_wire (fail e c) = cl_wire c"
  "cl_err (fail e c) = (case cl_err c of None \<Rightarrow> Some e | Some d \<Rightarrow> Some d)"
  by (auto simp: fail_def split: option.splits)

lemma Close_sels [simp]:
  "cl_serial (Close c) = cl_serial c" "cl_replies (Close c) = cl_replies c"
  "cl_events (Close c) = cl_events c" "cl_loop (Close c) = cl_loop c"
  "cl_in (Close c) = cl_in c" "cl_wire (Close c) = cl_wire c" "cl_err (Close c) \<noteq> None"
  by (auto simp: Close_def split: option.splits)

lemma stop_sels [simp]:
  "cs_cl (stop i s) = cs_cl s" "cs_call (stop i s) = cs_call s" "cs_ctx (stop i s) = cs_ctx s"
  "cs_sent (stop i s) = cs_sent s" "cs_got (stop i s) = cs_got s" "cs_read (stop i s) = cs_read s"
  by (simp_all add: stop_def)

lemma active_simps [simp]:
  "\<not> active Idle" "\<not> active (Entered c)" "active (Holding c)" "active (Armed c)"
  "active (Waiting c)" "\<not> active (Returned c r)"
  by (simp_all add: active_def)

lemma serial_inv_step:
  assumes "cstep s t" "serial_inv s"
  shows "serial_inv t"
  using assms
  by cases (simp_all add: serial_inv_def put_def upd_def return_def take_reply_def, (metis active_simps option.inject)+)

lemma flow_inv_step: "cstep s t \<Longrightarrow> flow_inv s \<Longrightarrow> flow_inv t"
  by (induction rule: cstep.induct)
     (auto simp: flow_inv_def pending_def put_def upd_def return_def take_reply_def split: loop.splits)

text \<open>Two callers are never inside the critical section together.\<close>

lemma serial_inv_unique:
  assumes "serial_inv s" "active (cs_call s i)" "active (cs_call s j)"
  shows "i = j"
  using assms by (simp add: serial_inv_def)

lemma nobody_waits:
  assumes "serial_inv s" "cs_call s i = p" "active p" "\<And>c. p \<noteq> Waiting c"
  shows "\<forall>j cmd. cs_call s j \<noteq> Waiting cmd"
  using serial_inv_unique [OF assms(1), of i] assms(2-4) by (metis active_simps(5))

lemma pair_inv_cong:
  assumes "pair_inv s" "cs_got t = cs_got s" "cs_sent t = cs_sent s"
    and "\<And>i cmd. cs_call t i = Waiting cmd \<Longrightarrow> cs_call s i = Waiting cmd"
    and "cl_err (cs_cl t) = None \<Longrightarrow> cl_err (cs_cl s) = None \<and>
          (\<forall>i cmd. cs_call s i = Waiting cmd \<longrightarrow> cs_call t i = Waiting cmd)"
  shows "pair_inv t"
  using assms unfolding pair_inv_def by metis

lemma pair_inv_transmit:
  assumes "pair_inv s" "serial_inv s" "cs_call s i = Armed cmd" "cl_err (cs_cl s) = None"
  shows "pair_inv (put i (Waiting cmd) (upd (\<lambda>c. c\<lparr>cl_wire := cl_wire c @ cmd @ [CR, LF]\<rparr>)
      (s\<lparr>cs_sent := cs_sent s @ [(i, cmd)]\<rparr>)))"
proof -
  have "\<forall>j cmd. cs_call s j \<noteq> Waiting cmd"
    using nobody_waits [OF assms(2,3)] by simp
  with assms show ?thesis by (auto simp: pair_inv_def put_def upd_def)
qed

lemma pair_inv_reply:
  assumes "pair_inv s" "serial_inv s" "cs_call s i = Waiting cmd"
  shows "pair_inv (return i cmd res (take_reply i r s))"
proof -
  from assms have l: "length (cs_sent s) = Suc (length (cs_got s))" "last (cs_sent s) = (i, cmd)"
    unfolding pair_inv_def by blast+
  then have "cs_sent s = butlast (cs_sent s) @ [(i, cmd)]"
    by (metis append_butlast_last_id list.size(3) nat.distinct(1))
  moreover have "butlast (cs_sent s) = take (length (cs_got s)) (cs_sent s)"
    using l by (simp add: butlast_conv_take)
  moreover have "map fst (cs_got s) = map fst (take (length (cs_got s)) (cs_sent s))"
    using assms(1) unfolding pair_inv_def by blast
  ultimately have heads: "map fst (cs_sent s) = map fst (cs_got s @ [(i, r)])"
    by (metis fst_conv list.simps(8,9) map_append)
  have others: "cs_call s j \<noteq> Waiting c" if "j \<noteq> i" for j c
    using serial_inv_unique [OF assms(2), of i j] assms(3) that by auto
  define t where "t = return i cmd res (take_reply i r s)"
  have t: "cs_got t = cs_got s @ [(i, r)]" "cs_sent t = cs_sent s"
    "cs_call t = (cs_call s)(i := Returned cmd res)"
    by (simp_all add: t_def put_def upd_def return_def take_reply_def)
  have "cs_call t j \<noteq> Waiting c" for j c
    using others [of j c] by (simp add: t(3))
  then show ?thesis
    unfolding t_def [symmetric] pair_inv_def t(1,2) using l heads by simp
qed

lemma pair_inv_step:
  assumes "cstep s t" "serial_inv s" "pair_inv s"
  shows "pair_inv t"
  using assms(1)
proof cases
  case (transmit i cmd)
  with pair_inv_transmit [OF assms(3,2)] show ?thesis by simp
next
  case (wait_reply i cmd r)
  with pair_inv_reply [OF assms(3,2)] show ?thesis by simp
next
  case (wait_done i cmd e)
  show ?thesis unfolding wait_done(1) using wait_done(3)
    by (intro pair_inv_cong [OF assms(3)])
       (auto simp: put_def upd_def return_def split: if_splits)
qed (use assms(3) in \<open>elim pair_inv_cong;
      auto simp: put_def upd_def return_def split: if_splits option.splits\<close>)+

text \<open>The bytes on the wire are the transmitted commands, each ended by CRLF; only after a
  failure can a part of one more command follow.\<close>

definition wire_ok :: "client \<Rightarrow> (nat \<times> string) list \<Rightarrow> bool" where
  "wire_ok c sent \<longleftrightarrow>
    (\<exists>k cmd. cl_wire c = concat (map (\<lambda>(i, cmd). crlf cmd) sent) @ take k (crlf cmd)
       \<and> \<not> injection cmd \<and> (cl_err c = None \<longrightarrow> k = 0))"

lemma injection_iff: "injection c \<longleftrightarrow> CR \<in> set c \<or> LF \<in> set c \<or> CHR 0x00 \<in> set c"
  by (auto simp: injection_def ContainsAny_def list_ex_iff)

text \<open>The command of a caller that may still transmit it.\<close>

fun command_of :: "phase \<Rightarrow> string option" where
  "command_of (Entered cmd) = Some cmd"
| "command_of (Holding cmd) = Some cmd"
| "command_of (Armed cmd) = Some cmd"
| "command_of (Waiting cmd) = Some cmd"
| "command_of _ = None"

definition wire_inv :: "csys \<Rightarrow> bool" where
  "wire_inv s \<longleftrightarrow> wire_ok (cs_cl s) (cs_sent s) \<and>
    (\<forall>(i, cmd) \<in> set (cs_sent s). \<not> injection cmd) \<and>
    (\<forall>i cmd. command_of (cs_call s i) = Some cmd \<longrightarrow> \<not> injection cmd)"

lemma wire_ok_cong:
  assumes "wire_ok c sent" "cl_wire d = cl_wire c" "cl_err d = None \<Longrightarrow> cl_err c = None"
  shows "wire_ok d sent"
  using assms unfolding wire_ok_def by metis

lemma wire_ok_append:
  assumes "wire_ok c sent" "cl_err c = None" "\<not> injection cmd" "cl_wire d = cl_wire c @ take k (crlf cmd)"
    and "cl_err d \<noteq> None"
  shows "wire_ok d sent"
  using assms unfolding wire_ok_def by (intro exI [of _ k] exI [of _ cmd]) auto

lemma wire_ok_sent:
  assumes "wire_ok c sent" "cl_err c = None" "cl_wire d = cl_wire c @ crlf cmd"
  shows "wire_ok d (sent @ [(i, cmd)])"
  using assms unfolding wire_ok_def by (auto intro!: exI [of _ 0])

lemma wire_inv_cong:
  assumes "wire_inv s" "cs_sent t = cs_sent s" "cl_wire (cs_cl t) = cl_wire (cs_cl s)"
    and "cl_err (cs_cl t) = None \<Longrightarrow> cl_err (cs_cl s) = None"
    and "\<And>i cmd. command_of (cs_call t i) = Some cmd \<Longrightarrow>
          command_of (cs_call s i) = Some cmd \<or> \<not> injection cmd"
  shows "wire_inv t"
  using assms wire_ok_cong [of "cs_cl s" "cs_sent s" "cs_cl t"] unfolding wire_inv_def by metis

lemma wire_inv_command: "wire_inv s \<Longrightarrow> command_of (cs_call s i) = Some cmd \<Longrightarrow> \<not> injection cmd"
  by (auto simp: wire_inv_def)

lemma wire_inv_step:
  assumes "cstep s t" "wire_inv s"
  shows "wire_inv t"
  using assms(1)
proof cases
  case (transmit_fails i cmd e k)
  have inj: "\<not> injection cmd" using wire_inv_command [OF assms(2), of i] transmit_fails(2) by simp
  have t: "cs_sent t = cs_sent s" "cs_call t = (cs_call s)(i := Returned cmd (empty_reply, Some e))"
    "cl_err (cs_cl t) \<noteq> None" "cl_err (cs_cl s) = None \<Longrightarrow>
       cl_wire (cs_cl t) = cl_wire (cs_cl s) @ take k (crlf cmd)"
    "cl_err (cs_cl s) \<noteq> None \<Longrightarrow> cl_wire (cs_cl t) = cl_wire (cs_cl s)"
    unfolding transmit_fails(1)
    by (auto simp: put_def upd_def return_def crlf_def written_def split: option.splits)
  have "wire_ok (cs_cl s) (cs_sent s)" using assms(2) by (simp add: wire_inv_def)
  with t inj have "wire_ok (cs_cl t) (cs_sent s)"
    by (cases "cl_err (cs_cl s) = None") (auto intro: wire_ok_append wire_ok_cong)
  with assms(2) t(1,2) show ?thesis by (auto simp: wire_inv_def split: if_splits)
next
  case (transmit i cmd)
  have inj: "\<not> injection cmd" using wire_inv_command [OF assms(2), of i] transmit(2) by simp
  have t: "cs_sent t = cs_sent s @ [(i, cmd)]" "cs_call t = (cs_call s)(i := Waiting cmd)"
    "cl_wire (cs_cl t) = cl_wire (cs_cl s) @ crlf cmd"
    using transmit(1) by (simp_all add: put_def upd_def crlf_def)
  have "wire_ok (cs_cl t) (cs_sent t)"
    using assms(2) transmit(3) t(1,3) by (auto simp: wire_inv_def intro: wire_ok_sent)
  with assms(2) t(1,2) inj show ?thesis by (auto simp: wire_inv_def split: if_splits)
qed (rule wire_inv_cong [OF assms(2)];
     force simp: put_def upd_def return_def take_reply_def split: option.splits if_splits)+

text \<open>A successful return pairs the caller's command with the reply it took.\<close>

definition result_inv :: "csys \<Rightarrow> bool" where
  "result_inv s \<longleftrightarrow> (\<forall>i cmd r. cs_call s i = Returned cmd (r, None) \<longrightarrow>
    Code r = 250 \<and> (\<exists>k < length (cs_got s). cs_got s ! k = (i, r) \<and> k < length (cs_sent s)
      \<and> cs_sent s ! k = (i, cmd)))"

lemma result_inv_mono:
  assumes "result_inv s" "cs_got t = cs_got s @ g" "cs_sent t = cs_sent s @ w"
    and "\<And>i cmd r. cs_call t i = Returned cmd (r, None) \<Longrightarrow> cs_call s i = Returned cmd (r, None)"
  shows "result_inv t"
  unfolding result_inv_def
proof (intro allI impI)
  fix i cmd r
  assume "cs_call t i = Returned cmd (r, None)"
  with assms(1,4) obtain k where "Code r = 250" "k < length (cs_got s)" "cs_got s ! k = (i, r)"
    "k < length (cs_sent s)" "cs_sent s ! k = (i, cmd)"
    unfolding result_inv_def by metis
  then show "Code r = 250 \<and> (\<exists>k < length (cs_got t). cs_got t ! k = (i, r) \<and> k < length (cs_sent t)
      \<and> cs_sent t ! k = (i, cmd))"
    by (intro conjI exI [of _ k]) (simp_all add: assms(2,3) nth_append)
qed

lemma do_result_None: "do_result cerr r = (r', None) \<Longrightarrow> r' = r \<and> Code r = 250"
  by (auto simp: do_result_def split: option.splits if_splits)

lemma result_inv_step:
  assumes "cstep s t" "pair_inv s" "result_inv s"
  shows "result_inv t"
  using assms(1)
proof cases
  case (wait_reply i cmd r)
  from wait_reply(2) assms(2) have l: "length (cs_sent s) = Suc (length (cs_got s))"
    "last (cs_sent s) = (i, cmd)" unfolding pair_inv_def by blast+
  then have n: "cs_sent s ! length (cs_got s) = (i, cmd)"
    by (metis diff_Suc_1 last_conv_nth list.size(3) nat.distinct(1))
  define u where "u = take_reply i r s"
  have u: "cs_got u = cs_got s @ [(i, r)]" "cs_sent u = cs_sent s" "cs_call u = cs_call s"
    by (simp_all add: u_def take_reply_def upd_def)
  have "result_inv u"
    by (rule result_inv_mono [OF assms(3), of u "[(i, r)]" "[]"]) (simp_all add: u)
  moreover have t: "cs_got t = cs_got u" "cs_sent t = cs_sent u"
    "cs_call t = (cs_call u)(i := Returned cmd (do_result (cs_ctx s i) r))"
    using wait_reply(1) by (simp_all add: u_def return_def put_def upd_def)
  ultimately show ?thesis
    using l n u unfolding result_inv_def t
    by (auto simp: nth_append dest!: do_result_None intro!: exI [of _ "length (cs_got s)"])
next
  case (transmit i cmd)
  then show ?thesis
    by (intro result_inv_mono [OF assms(3), of t "[]" "[(i, cmd)]"])
       (auto simp: put_def upd_def split: if_splits)
qed (rule result_inv_mono [OF assms(3), of t "[]" "[]"];
     auto simp: put_def upd_def return_def split: if_splits)+

section \<open>Reachable states\<close>

definition client_inv :: "csys \<Rightarrow> bool" where
  "client_inv s \<longleftrightarrow> serial_inv s \<and> flow_inv s \<and> pair_inv s \<and> wire_inv s \<and> result_inv s"

lemma client_inv_init: "client_inv (cs_init inp)"
  by (auto simp: client_inv_def serial_inv_def flow_inv_def pending_def pair_inv_def wire_inv_def
      wire_ok_def result_inv_def cs_init_def New_def injection_def ContainsAny_def
      intro!: exI [of _ "0 :: nat"] exI [of _ "[]"])

lemma client_inv_steps:
  assumes "csteps s t" "client_inv s"
  shows "client_inv t"
  using assms
  by (induction rule: rtranclp_induct)
     (auto simp: client_inv_def
       intro: serial_inv_step flow_inv_step pair_inv_step wire_inv_step result_inv_step)

section \<open>Replies and the commands they answer\<close>

text \<open>A reply as the peer prints it: status, lines with the events between them, last line.\<close>

type_synonym printed = "int \<times> item list \<times> string"

fun print_full :: "printed \<Rightarrow> string" where
  "print_full (code, is, b) = print_reply code is b"

fun reply_of :: "printed \<Rightarrow> reply" where
  "reply_of (code, is, b) = \<lparr>Code = code, Lines = concat (map item_lines is) @ [b]\<rparr>"

fun printed_ok :: "printed \<Rightarrow> bool" where
  "printed_ok (code, is, b) \<longleftrightarrow> 100 \<le> code \<and> code \<le> 699 \<and> code \<noteq> 650 \<and> list_all item_fits is \<and> fits b
     \<and> length (concat (map item_events is)) \<le> maxEvents \<and> length (print_reply code is b) \<le> maxReply"

lemma readReply_print_full:
  assumes "printed_ok p" "readReply dn q (print_full p @ rest) = (Inr r, q', rest')"
  shows "r = reply_of p \<and> rest' = rest"
proof -
  obtain code is' b where p: "p = (code, is', b)" by (cases p) auto
  have "readReply_from None 0 0 [] [] (print_full p @ rest) =
      (Inr (reply_of p), concat (map item_events is'), rest)"
    using assms(1) readReply_from_items [of code 0 is' b "[]" 0 "[]" rest] by (simp add: p)
  with readReply_input [OF assms(2)] show ?thesis by (auto simp: readReply_def)
qed

definition stream_inv :: "printed list \<Rightarrow> string \<Rightarrow> csys \<Rightarrow> bool" where
  "stream_inv rs tail s \<longleftrightarrow>
    (\<forall>k < length (cs_read s). k < length rs \<longrightarrow> cs_read s ! k = reply_of (rs ! k)) \<and>
    (cl_loop (cs_cl s) \<noteq> Stopped \<and> length (cs_read s) \<le> length rs \<longrightarrow>
       cl_in (cs_cl s) = concat (map print_full (drop (length (cs_read s)) rs)) @ tail)"

lemma stream_inv_cong:
  assumes "stream_inv rs tail s" "cs_read t = cs_read s"
    and "cl_loop (cs_cl t) \<noteq> Stopped \<Longrightarrow>
          cl_loop (cs_cl s) \<noteq> Stopped \<and> cl_in (cs_cl t) = cl_in (cs_cl s)"
  shows "stream_inv rs tail t"
  using assms unfolding stream_inv_def by simp

lemma stream_inv_read:
  assumes "stream_inv rs tail s" "list_all printed_ok rs" "cl_loop (cs_cl s) = Reading"
    and "readReply dn q (cl_in (cs_cl s)) = (Inr r, q', rest)"
    and t: "cs_read t = cs_read s @ [r]" "cl_in (cs_cl t) = rest"
  shows "stream_inv rs tail t"
proof (cases "length (cs_read s) < length rs")
  case True
  let ?n = "length (cs_read s)"
  have d: "drop ?n rs = rs ! ?n # drop (Suc ?n) rs" using True by (simp add: Cons_nth_drop_Suc)
  have "cl_in (cs_cl s) = print_full (rs ! ?n) @ concat (map print_full (drop (Suc ?n) rs)) @ tail"
    using assms(1,3) True unfolding stream_inv_def d by simp
  moreover have "printed_ok (rs ! ?n)" using assms(2) True by (simp add: list_all_length)
  ultimately have "r = reply_of (rs ! ?n) \<and> rest = concat (map print_full (drop (Suc ?n) rs)) @ tail"
    using assms(4) by (metis readReply_print_full)
  with assms(1) t show ?thesis unfolding stream_inv_def by (auto simp: nth_append less_Suc_eq)
next
  case False
  with assms(1) t show ?thesis unfolding stream_inv_def by (auto simp: nth_append)
qed

lemma stream_inv_step:
  assumes "cstep s t" "list_all printed_ok rs" "stream_inv rs tail s"
  shows "stream_inv rs tail t"
  using assms(1)
proof cases
  case (loop_read dn r q rest)
  then show ?thesis
    by (intro stream_inv_read [OF assms(3,2) loop_read(2,4)]) (simp_all add: upd_def)
qed (rule stream_inv_cong [OF assms(3)];
     simp add: put_def upd_def return_def take_reply_def)+

lemma stream_inv_reachable:
  assumes "csteps (cs_init (concat (map print_full rs) @ tail)) s" "list_all printed_ok rs"
  shows "stream_inv rs tail s"
  using assms
proof (induction rule: rtranclp_induct)
  case base
  then show ?case by (simp add: stream_inv_def cs_init_def New_def)
next
  case (step y z)
  then show ?case by (blast intro: stream_inv_step)
qed

text \<open>
  C10. A successful request gets its own reply. However many goroutines call \<^verbatim>\<open>Do\<close>, however
  their steps interleave with the read loop, with cancellations, callbacks, write errors and
  \<^verbatim>\<open>Close\<close>: when the call of caller \<open>i\<close> returns a reply without error, its command was
  the \<open>k\<close>-th one written to the wire for some \<open>k\<close>, and the reply is the \<open>k\<close>-th reply the peer
  printed, with status 250. A late reply is never taken for the answer to a later command.
\<close>

theorem Do_correlation:
  assumes "csteps (cs_init (concat (map print_full rs) @ tail)) s" "list_all printed_ok rs"
    and "cs_call s i = Returned cmd (r, None)"
  shows "\<exists>k < length (cs_sent s). cs_sent s ! k = (i, cmd) \<and> Code r = 250 \<and>
    (k < length rs \<longrightarrow> r = reply_of (rs ! k))"
proof -
  have inv: "client_inv s" using client_inv_steps [OF assms(1)] client_inv_init by blast
  obtain k where k: "Code r = 250" "k < length (cs_got s)" "cs_got s ! k = (i, r)"
    "k < length (cs_sent s)" "cs_sent s ! k = (i, cmd)"
    using inv assms(3) unfolding client_inv_def result_inv_def by metis
  have "cs_read s ! k = r \<and> k < length (cs_read s)"
    using inv k(2,3) by (auto simp: client_inv_def flow_inv_def nth_append)
  moreover have "stream_inv rs tail s" by (rule stream_inv_reachable [OF assms(1,2)])
  ultimately have "k < length rs \<longrightarrow> r = reply_of (rs ! k)" unfolding stream_inv_def by metis
  with k show ?thesis by blast
qed

text \<open>
  C29. The wire carries whole commands only. In every reachable state the bytes written are
  the transmitted commands, each followed by CRLF and none containing a carriage return,
  a line feed or a NUL, so the peer sees exactly the commands that were sent; a fragment of
  one more command can follow only when the client has failed and transmits nothing more.
\<close>

theorem wire_framing:
  assumes "csteps (cs_init inp) s"
  shows "(\<exists>k cmd. cl_wire (cs_cl s) = concat (map (\<lambda>(i, c). crlf c) (cs_sent s)) @ take k (crlf cmd)
      \<and> \<not> injection cmd \<and> (cl_err (cs_cl s) = None \<longrightarrow> k = 0))
    \<and> list_all (\<lambda>(i, c). CR \<notin> set c \<and> LF \<notin> set c \<and> CHR 0x00 \<notin> set c) (cs_sent s)"
proof -
  have "wire_inv s" using client_inv_steps [OF assms client_inv_init] by (simp add: client_inv_def)
  then show ?thesis
    by (simp add: wire_inv_def wire_ok_def list_all_iff injection_iff case_prod_beta)
qed

section \<open>The sequential request is a run\<close>

definition runs :: "csys \<Rightarrow> nat \<Rightarrow> client \<Rightarrow> phase \<Rightarrow> bool" where
  "runs s i c p \<longleftrightarrow> (\<exists>t. csteps s t \<and> cs_cl t = c \<and> cs_call t i = p)"

lemma runs_step: "cstep s s' \<Longrightarrow> runs s' i c p \<Longrightarrow> runs s i c p"
  unfolding runs_def by (blast intro: converse_rtranclp_into_rtranclp)

lemma runs_here: "cs_cl s = c \<Longrightarrow> cs_call s i = p \<Longrightarrow> runs s i c p"
  unfolding runs_def by blast

text \<open>The second half of a request, after the write.\<close>

lemma runs_wait:
  assumes w: "cs_call s i = Waiting cmd" "cs_ctx s i = None" "cl_serial (cs_cl s) = Some i"
    "cl_err (cs_cl s) = None" "cl_replies (cs_cl s) = []" "cl_loop (cs_cl s) = Reading"
    and c1: "c1 = (cs_cl s)\<lparr>cl_serial := None\<rparr>"
  shows "runs s i (fail e c1) (Returned cmd (empty_reply, Some e))"
    and "readReply None (cl_events c1) (cl_in c1) = (Inr r, q, rest) \<Longrightarrow>
      runs s i (c1\<lparr>cl_events := q, cl_in := rest\<rparr>) (Returned cmd (do_result cerr r))"
    and "readReply None (cl_events c1) (cl_in c1) = (Inl d, q, rest) \<Longrightarrow>
      runs s i (fail d (c1\<lparr>cl_events := q, cl_in := rest, cl_loop := Stopped\<rparr>))
        (Returned cmd (empty_reply, Some d))"
proof -
  show "runs s i (fail e c1) (Returned cmd (empty_reply, Some e))"
    by (rule runs_step [OF cstep.cancel [of s i e]], simp add: w,
        rule runs_step [OF cstep.wait_ctx [of _ i cmd e]], simp_all add: w,
        rule runs_here) (simp_all add: c1 return_def put_def upd_def fail_def)
  assume rr: "readReply None (cl_events c1) (cl_in c1) = (Inr r, q, rest)"
  let ?s1 = "upd (\<lambda>c. c\<lparr>cl_loop := Offering r, cl_events := q, cl_in := rest\<rparr>)
      (s\<lparr>cs_read := cs_read s @ [r]\<rparr>)"
  let ?s2 = "upd (\<lambda>c. c\<lparr>cl_loop := Reading, cl_replies := [r]\<rparr>) ?s1"
  have s1: "cstep s ?s1" using rr w by (intro cstep.loop_read [of s None]) (simp_all add: c1)
  have s2: "cstep ?s1 ?s2" using w by (intro cstep.loop_offer) (simp_all add: upd_def)
  show "runs s i (c1\<lparr>cl_events := q, cl_in := rest\<rparr>) (Returned cmd (do_result cerr r))"
  proof (cases cerr)
    case None
    have "runs ?s2 i (c1\<lparr>cl_events := q, cl_in := rest\<rparr>) (Returned cmd (do_result cerr r))"
      by (rule runs_step [OF cstep.wait_reply [of _ i cmd r]], simp_all add: w upd_def,
          rule runs_here) (simp_all add: None c1 w return_def put_def upd_def take_reply_def)
    with s1 s2 show ?thesis by (blast intro: runs_step)
  next
    case (Some d)
    have "runs ?s2 i (c1\<lparr>cl_events := q, cl_in := rest\<rparr>) (Returned cmd (do_result cerr r))"
      by (rule runs_step [OF cstep.cancel [of _ i d]], simp add: w upd_def,
          rule runs_step [OF cstep.wait_reply [of _ i cmd r]], simp_all add: w upd_def,
          rule runs_here) (simp_all add: Some c1 w return_def put_def upd_def take_reply_def)
    with s1 s2 show ?thesis by (blast intro: runs_step)
  qed
next
  assume rr: "readReply None (cl_events c1) (cl_in c1) = (Inl d, q, rest)"
  show "runs s i (fail d (c1\<lparr>cl_events := q, cl_in := rest, cl_loop := Stopped\<rparr>))
        (Returned cmd (empty_reply, Some d))"
    by (rule runs_step [OF cstep.loop_fails [of s None d q rest]], use rr w in \<open>simp_all add: c1\<close>,
        rule runs_step [OF cstep.wait_done [of _ i cmd d]], use w in \<open>simp_all add: upd_def\<close>,
        rule runs_here) (use w in \<open>simp_all add: c1 return_def put_def upd_def fail_def\<close>)
qed

text \<open>The first half: every way to return before the write, and the state after it.\<close>

lemma runs_armed:
  assumes "cs_call s i = Entered cmd" "cs_ctx s i = None" "cl_serial (cs_cl s) = None"
    and "runs (put i (Armed cmd) ((upd (\<lambda>c. c\<lparr>cl_serial := Some i\<rparr>) s)
      \<lparr>cs_after := insert i (cs_after s)\<rparr>)) i c p"
  shows "runs s i c p"
  by (rule runs_step [OF cstep.acquire [OF assms(1,3)]],
      rule runs_step [OF cstep.arm [of _ i cmd]])
     (use assms in \<open>simp_all add: put_def upd_def\<close>)

lemma runs_held_ctx:
  assumes "cs_call s i = Entered cmd" "cs_ctx s i = None" "cl_serial (cs_cl s) = None"
  shows "runs s i (cs_cl s) (Returned cmd (empty_reply, Some e))"
  by (rule runs_step [OF cstep.acquire [OF assms(1,3)]],
      rule runs_step [OF cstep.cancel [of _ i e]], use assms in \<open>simp add: put_def upd_def\<close>,
      rule runs_step [OF cstep.held_ctx [of _ i cmd e]], simp_all add: put_def upd_def,
      rule runs_here) (use assms in simp_all)

lemma runs_acquire_ctx:
  assumes "cs_call s i = Entered cmd" "cs_ctx s i = None"
  shows "runs s i (cs_cl s) (Returned cmd (empty_reply, Some e))"
  by (rule runs_step [OF cstep.cancel [of _ i e]], use assms in simp,
      rule runs_step [OF cstep.acquire_ctx [of _ i cmd e]], use assms in simp_all,
      rule runs_here) (simp_all add: put_def)

lemma written_0 [simp]: "written c 0 s = []"
  by (simp add: written_def)

lemma runs_write_fails:
  assumes "cs_call s i = Entered cmd" "cs_ctx s i = None" "cl_serial (cs_cl s) = None"
  shows "runs s i (fail e ((cs_cl s)\<lparr>cl_wire := cl_wire (cs_cl s) @ written (cs_cl s) k (cmd @ [CR, LF])\<rparr>))
    (Returned cmd (empty_reply, Some e))"
  by (rule runs_armed [OF assms], rule runs_step [OF cstep.transmit_fails [of _ i cmd e k]],
      simp add: put_def, rule runs_here)
     (use assms in \<open>simp_all add: return_def put_def upd_def fail_def written_def\<close>)

lemma runs_transmit:
  assumes "cs_call s i = Entered cmd" "cs_ctx s i = None" "cl_serial (cs_cl s) = None"
    and "cl_err (cs_cl s) = None"
    and "runs (put i (Waiting cmd) (s\<lparr>cs_after := insert i (cs_after s), cs_sent := cs_sent s @ [(i, cmd)],
      cs_cl := (cs_cl s)\<lparr>cl_serial := Some i, cl_wire := cl_wire (cs_cl s) @ cmd @ [CR, LF]\<rparr>\<rparr>)) i c p"
  shows "runs s i c p"
  by (rule runs_armed [OF assms(1-3)], rule runs_step [OF cstep.transmit [of _ i cmd]])
     (use assms(4,5) in \<open>simp_all add: put_def upd_def\<close>)

text \<open>From the token to the result, when nothing goes wrong before the write returns.\<close>

lemma runs_request:
  assumes e: "cs_call s i = Entered cmd" "cs_ctx s i = None" "cl_serial (cs_cl s) = None"
    and "cl_err (cs_cl s) = None" "cl_replies (cs_cl s) = []" "cl_loop (cs_cl s) = Reading"
    and "de_acquire env = AcqSerial" "\<not> injection cmd" "de_ctx env = None" "de_deadline env = None"
    and "de_write env = None" "Do env (cs_cl s) cmd = (res, c')"
  shows "runs s i c' (Returned cmd res)"
proof -
  let ?c1 = "(cs_cl s)\<lparr>cl_wire := cl_wire (cs_cl s) @ cmd @ [CR, LF]\<rparr>"
  let ?t = "put i (Waiting cmd) (s\<lparr>cs_after := insert i (cs_after s), cs_sent := cs_sent s @ [(i, cmd)],
      cs_cl := (cs_cl s)\<lparr>cl_serial := Some i, cl_wire := cl_wire (cs_cl s) @ cmd @ [CR, LF]\<rparr>\<rparr>)"
  have t: "cs_call ?t i = Waiting cmd" "cs_ctx ?t i = None" "cl_serial (cs_cl ?t) = Some i"
    "cl_err (cs_cl ?t) = None" "cl_replies (cs_cl ?t) = []" "cl_loop (cs_cl ?t) = Reading"
    "?c1 = (cs_cl ?t)\<lparr>cl_serial := None\<rparr>"
    using assms by (simp_all add: put_def)
  have "runs ?t i c' (Returned cmd res)"
    using assms(4,7-12) runs_wait [OF t]
    by (auto simp: Do_def Let_def split: wait.splits prod.splits sum.splits)
  with runs_transmit [OF e assms(4)] show ?thesis by simp
qed

lemma runs_entered:
  assumes e: "cs_call s i = Entered cmd" "cs_ctx s i = None" "cl_serial (cs_cl s) = None"
    and "cl_replies (cs_cl s) = []" "cl_loop (cs_cl s) = Reading" "do_env_ok (cs_cl s) env"
    and a: "de_acquire env = AcqSerial" "\<not> injection cmd" "Do env (cs_cl s) cmd = (res, c')"
  shows "runs s i c' (Returned cmd res)"
proof (cases "de_ctx env")
  case (Some d)
  with a runs_held_ctx [OF e, of d] show ?thesis by (auto simp: Do_def)
next
  case ctx: None
  show ?thesis
  proof (cases "de_deadline env")
    case (Some d)
    with a ctx runs_write_fails [OF e, of d 0] show ?thesis by (auto simp: Do_def)
  next
    case dl: None
    show ?thesis
    proof (cases "de_write env")
      case (Some kd)
      with a ctx dl runs_write_fails [OF e, of "snd kd" "fst kd"] show ?thesis
        by (auto simp: Do_def split: prod.splits)
    next
      case None
      with assms ctx dl show ?thesis by (intro runs_request) (auto simp: do_env_ok_def)
    qed
  qed
qed

lemma Do_runs:
  assumes "cs_call s i = Idle" "cs_ctx s i = None" "cl_serial (cs_cl s) = None"
    and "cl_replies (cs_cl s) = []" "cl_loop (cs_cl s) = Reading" "do_env_ok (cs_cl s) env"
    and "Do env (cs_cl s) cmd = (res, c')"
  shows "runs s i c' (Returned cmd res)"
proof (cases "injection cmd")
  case True
  with assms(7) have "res = (empty_reply, Some (Msg ''tor control: command injection rejected''))"
    "c' = cs_cl s" by (auto simp: Do_def)
  then show ?thesis
    by (intro runs_step [OF cstep.reject [OF assms(1) True]] runs_here) (simp_all add: put_def)
next
  case False
  let ?s = "put i (Entered cmd) s"
  have e: "cs_call ?s i = Entered cmd" "cs_ctx ?s i = None" "cl_serial (cs_cl ?s) = None"
    "cs_cl ?s = cs_cl s" using assms by (simp_all add: put_def)
  have "runs ?s i c' (Returned cmd res)"
  proof (cases "de_acquire env")
    case (AcqCtx d)
    with assms(7) False runs_acquire_ctx [OF e(1,2), of d] e(4) show ?thesis by (auto simp: Do_def)
  next
    case AcqDone
    with assms(6) obtain d where d: "cl_err (cs_cl s) = Some d" by (auto simp: do_env_ok_def)
    with AcqDone assms(7) False have "res = (empty_reply, Some d)" "c' = cs_cl s"
      by (auto simp: Do_def)
    with d e show ?thesis
      by (intro runs_step [OF cstep.acquire_done [of ?s i cmd d]] runs_here) (simp_all add: put_def)
  next
    case AcqSerial
    with assms False e show ?thesis by (intro runs_entered) simp_all
  qed
  with cstep.call [OF assms(1) False] show ?thesis by (rule runs_step)
qed

text \<open>
  C30. The sequential request refines the interleaved one: whatever the environment decides
  during a call of \<^verbatim>\<open>Do\<close>, from any state in which no other call is active the result
  and the client that \<^const>\<open>Do\<close> computes are reached by steps of the concurrent client.
\<close>

theorem Do_refines:
  assumes "cs_call s i = Idle" "cs_ctx s i = None" "cl_serial (cs_cl s) = None"
    and "cl_replies (cs_cl s) = []" "cl_loop (cs_cl s) = Reading" "do_env_ok (cs_cl s) env"
    and "Do env (cs_cl s) cmd = (res, c')"
  shows "\<exists>t. csteps s t \<and> cs_cl t = c' \<and> cs_call t i = Returned cmd res"
  using Do_runs [OF assms] by (simp add: runs_def)

section \<open>A sample exchange\<close>

definition ok_env :: do_env where
  "ok_env = \<lparr>de_acquire = AcqSerial, de_ctx = None, de_deadline = None, de_write = None,
     de_wait = WaitReply None\<rparr>"

definition ok_input :: "printed list" where
  "ok_input = [(250, [Part (Mid ''version=0.4.8''), Async [] ''CIRC 1 BUILT''], ''OK'')]"

definition ok_reply :: reply where
  "ok_reply = \<lparr>Code = 250, Lines = [''version=0.4.8'', ''OK'']\<rparr>"

definition ok_start :: csys where
  "ok_start = cs_init (concat (map print_full ok_input) @ '''')"

lemma ok_input_ok: "list_all printed_ok ok_input"
proof -
  have "length (Itoa 250) = 3" by (simp add: Itoa_status)
  then show ?thesis
    by (simp add: ok_input_def fits_def maxEvents_def maxReply_def print_reply_def print_last_def)
qed

lemma ok_Do: "\<exists>c. Do ok_env (cs_cl ok_start) ''GETINFO version'' = ((ok_reply, None), c)"
proof -
  let ?i = "[Part (Mid ''version=0.4.8''), Async [] ''CIRC 1 BUILT'']"
  have "readReply None [] (print_reply 250 ?i ''OK'') =
      (Inr ok_reply, [[''CIRC 1 BUILT'']], '''')"
    using readReply_from_items [of 250 0 ?i "''OK''" "[]" 0 "[]" "''''"] ok_input_ok
    by (simp add: readReply_def ok_input_def ok_reply_def)
  then show ?thesis
    by (simp add: Do_def ok_env_def ok_start_def cs_init_def New_def ok_input_def injection_iff
        do_result_def ok_reply_def)
qed

lemma ok_start_idle:
  "cs_call ok_start 0 = Idle" "cs_ctx ok_start 0 = None" "cl_serial (cs_cl ok_start) = None"
  "cl_replies (cs_cl ok_start) = []" "cl_loop (cs_cl ok_start) = Reading"
  "do_env_ok (cs_cl ok_start) ok_env"
  by (simp_all add: ok_start_def cs_init_def New_def do_env_ok_def ok_env_def)

lemma ok_runs:
  obtains s where "csteps ok_start s" "cs_call s 0 = Returned ''GETINFO version'' (ok_reply, None)"
  using ok_Do Do_runs [OF ok_start_idle] unfolding runs_def by blast

theorem Do_refines_witness:
  "\<exists>t. csteps ok_start t \<and> cs_call t 0 = Returned ''GETINFO version'' (ok_reply, None)"
  using ok_Do Do_refines [OF ok_start_idle] by blast

theorem Do_correlation_witness:
  "\<exists>s. csteps ok_start s \<and> (\<exists>k < length (cs_sent s). cs_sent s ! k = (0, ''GETINFO version'')
     \<and> (k < length ok_input \<longrightarrow> ok_reply = reply_of (ok_input ! k)))"
proof -
  obtain s where s: "csteps ok_start s" "cs_call s 0 = Returned ''GETINFO version'' (ok_reply, None)"
    by (rule ok_runs)
  from Do_correlation [OF s(1) [unfolded ok_start_def] ok_input_ok s(2)] s(1) show ?thesis by blast
qed

theorem wire_framing_witness:
  "\<exists>s. csteps ok_start s \<and> cs_call s 0 = Returned ''GETINFO version'' (ok_reply, None) \<and>
     list_all (\<lambda>(i, c). CR \<notin> set c \<and> LF \<notin> set c \<and> CHR 0x00 \<notin> set c) (cs_sent s)"
proof -
  obtain s where s: "csteps ok_start s" "cs_call s 0 = Returned ''GETINFO version'' (ok_reply, None)"
    by (rule ok_runs)
  from wire_framing [OF s(1) [unfolded ok_start_def]] s show ?thesis by blast
qed

end
