(* ===== verification/Tor_Auth.thy ===== *)
theory Tor_Auth
  imports Tor_Client_Proofs
begin

text \<open>
  SAFECOOKIE authentication (internal/control/client.go, \<^verbatim>\<open>cookieMAC\<close> and
  \<^verbatim>\<open>Authenticate\<close>). HMAC-SHA256 is the parameter \<open>mac\<close>, from a key and a message; the
  random source is what \<^verbatim>\<open>io.ReadFull\<close> returns for 32 bytes. The controller answers the
  challenge only after the server has proved that it knows the cookie.
\<close>

section \<open>Definitions\<close>

definition serverKey :: string where
  "serverKey = ''Tor safe cookie authentication server-to-controller hash''"

definition clientKey :: string where
  "clientKey = ''Tor safe cookie authentication controller-to-server hash''"

type_synonym mac = "string \<Rightarrow> u8 list \<Rightarrow> u8 list"

definition cookieMAC :: "mac \<Rightarrow> string \<Rightarrow> u8 list \<Rightarrow> u8 list \<Rightarrow> u8 list \<Rightarrow> u8 list" where
  "cookieMAC mac key cookie client server = mac key (cookie @ client @ server)"

text \<open>The scan of the \<^verbatim>\<open>PROTOCOLINFO\<close> reply for the method.\<close>

definition offers_safecookie :: "string list \<Rightarrow> bool" where
  "offers_safecookie ls =
    list_ex (\<lambda>l. HasPrefix l ''AUTH '' \<and>
      list_ex (\<lambda>f. HasPrefix f ''METHODS='' \<and>
        ''SAFECOOKIE'' \<in> set (Split (CHR '','') (TrimPrefix f ''METHODS=''))) (Fields l)) ls"

text \<open>The scan of the challenge reply, field by field; a later field replaces an earlier
  one and a value that is not hexadecimal ends the scan.\<close>

definition hex_field :: "string \<Rightarrow> string \<Rightarrow> u8 list \<Rightarrow> u8 list res" where
  "hex_field key f old =
    (case CutPrefix f key of
       None \<Rightarrow> Inr old
     | Some v \<Rightarrow> (case hex_decode v of None \<Rightarrow> Inl (Msg ''encoding/hex'') | Some b \<Rightarrow> Inr b))"

fun challenge_fields :: "u8 list \<Rightarrow> u8 list \<Rightarrow> string list \<Rightarrow> (u8 list \<times> u8 list) res" where
  "challenge_fields server hash [] = Inr (server, hash)"
| "challenge_fields server hash (f # fs) =
    (case hex_field ''SERVERNONCE='' f server of
       Inl e \<Rightarrow> Inl e
     | Inr server' \<Rightarrow>
         (case hex_field ''SERVERHASH='' f hash of
            Inl e \<Rightarrow> Inl e
          | Inr hash' \<Rightarrow> challenge_fields server' hash' fs))"

definition challenge_reply :: "string list \<Rightarrow> (u8 list \<times> u8 list) res" where
  "challenge_reply ls = challenge_fields [] [] (concat (map Fields ls))"

definition challenge_command :: "u8 list \<Rightarrow> string" where
  "challenge_command client = ''AUTHCHALLENGE SAFECOOKIE '' @ hex_encode client"

definition response_command :: "mac \<Rightarrow> u8 list \<Rightarrow> u8 list \<Rightarrow> u8 list \<Rightarrow> string" where
  "response_command mac cookie client server =
    ''AUTHENTICATE '' @ hex_encode (cookieMAC mac clientKey cookie client server)"

definition Authenticate ::
  "mac \<Rightarrow> do_env \<times> do_env \<times> do_env \<Rightarrow> client \<Rightarrow> u8 list \<Rightarrow> u8 list res \<Rightarrow> goerr option \<times> client" where
  "Authenticate mac envs c cookie random =
    (let (env1, env2, env3) = envs in
     if length cookie \<noteq> 32 then (Some (Msg ''tor control: cookie must contain 32 bytes''), c)
     else case Do env1 c ''PROTOCOLINFO 1'' of
         ((r1, Some e), c1) \<Rightarrow> (Some e, c1)
       | ((r1, None), c1) \<Rightarrow>
     if \<not> offers_safecookie (Lines r1) then (Some (Msg ''tor control: SAFECOOKIE required''), c1)
     else case random of
         Inl e \<Rightarrow> (Some e, c1)
       | Inr client \<Rightarrow>
     case Do env2 c1 (challenge_command client) of
         ((r2, Some e), c2) \<Rightarrow> (Some e, c2)
       | ((r2, None), c2) \<Rightarrow>
     case challenge_reply (Lines r2) of
         Inl e \<Rightarrow> (Some e, c2)
       | Inr (server, hash) \<Rightarrow>
     if length server \<noteq> 32 \<or> length hash \<noteq> 32 \<or> hash \<noteq> cookieMAC mac serverKey cookie client server
     then (Some (Msg ''tor control: SAFECOOKIE server proof failed''), c2)
     else case Do env3 c2 (response_command mac cookie client server) of
         ((r3, e), c3) \<Rightarrow> (e, c3))"

section \<open>The response is sent to a proven server only\<close>

lemma fail_wire [simp]: "cl_wire (fail e c) = cl_wire c"
  by simp

text \<open>One request writes a prefix of its command line, all of it when it succeeds, and a
  success has status 250 and is the next reply of the input. The first select can take the
  branch on \<^verbatim>\<open>done\<close> only when the client has failed.\<close>

lemma Do_wire_part:
  assumes "Do env c cmd = ((r, e), c')"
  shows "\<exists>k. cl_wire c' = cl_wire c @ take k (crlf cmd)"
proof -
  have nothing: "\<exists>k. w = w @ take k (crlf cmd)" for w by (auto intro: exI [of _ 0])
  have all: "\<exists>k. w @ cmd @ [CR, LF] = w @ take k (crlf cmd)" for w
    by (rule exI [of _ "length (crlf cmd)"]) (simp add: crlf_def)
  have part: "\<exists>k. w @ written c n (cmd @ [CR, LF]) = w @ take k (crlf cmd)" for w n
    by (cases "cl_err c") (auto simp: written_def crlf_def intro: exI [of _ n] exI [of _ 0])
  show ?thesis
    using assms nothing all part
    by (auto simp: Do_def Let_def do_result_def
        split: if_splits acquire.splits option.splits wait.splits prod.splits sum.splits)
qed

lemma Do_success:
  assumes "Do env c cmd = ((r, None), c')" "cl_err c = None" "de_acquire env \<noteq> AcqDone"
  shows "cl_wire c' = cl_wire c @ crlf cmd \<and> Code r = 250 \<and> cl_err c' = None \<and>
    readReply None (cl_events c) (cl_in c) = (Inr r, cl_events c', cl_in c')"
  using assms
  by (auto simp: Do_def Let_def do_result_def crlf_def
      split: if_splits acquire.splits option.splits wait.splits prod.splits sum.splits)

text \<open>The ways an authentication can end, by the request it stops at.\<close>

lemma Authenticate_cases:
  assumes "Authenticate mac (e1, e2, e3) c cookie random = (err, c')"
  obtains
    (early) "err \<noteq> None" "c' = c"
  | (info) r1 e where "err \<noteq> None" "Do e1 c ''PROTOCOLINFO 1'' = ((r1, e), c')"
  | (challenge) r1 c1 client r2 e where "err \<noteq> None" "Do e1 c ''PROTOCOLINFO 1'' = ((r1, None), c1)"
      "offers_safecookie (Lines r1)" "random = Inr client"
      "Do e2 c1 (challenge_command client) = ((r2, e), c')"
  | (response) r1 c1 client r2 c2 server hash r3 where
      "Do e1 c ''PROTOCOLINFO 1'' = ((r1, None), c1)" "offers_safecookie (Lines r1)"
      "random = Inr client" "Do e2 c1 (challenge_command client) = ((r2, None), c2)"
      "challenge_reply (Lines r2) = Inr (server, hash)" "length server = 32" "length hash = 32"
      "hash = cookieMAC mac serverKey cookie client server"
      "Do e3 c2 (response_command mac cookie client server) = ((r3, err), c')" "length cookie = 32"
proof -
  have pair: "\<exists>r e c'. x = ((r, e), c')" for x :: "(reply \<times> goerr option) \<times> client"
    by (metis prod.collapse)
  obtain r1 d1 c1 where d1: "Do e1 c ''PROTOCOLINFO 1'' = ((r1, d1), c1)" using pair by blast
  note a = assms [unfolded Authenticate_def, simplified]
  show thesis
  proof (cases "length cookie = 32 \<and> d1 = None \<and> offers_safecookie (Lines r1) \<and> random \<noteq> Inl (projl random)")
    case False
    with a d1 have "err \<noteq> None \<and> (c' = c \<or> c' = c1)"
      by (cases random) (auto split: option.splits if_splits)
    with d1 show thesis using early info by blast
  next
    case True
    then obtain client where cl: "length cookie = 32" "d1 = None" "offers_safecookie (Lines r1)"
      "random = Inr client" by (cases random) auto
    obtain r2 d2 c2 where d2: "Do e2 c1 (challenge_command client) = ((r2, d2), c2)"
      using pair by blast
    show thesis
    proof (cases "\<exists>server hash. d2 = None \<and> challenge_reply (Lines r2) = Inr (server, hash) \<and>
        length server = 32 \<and> length hash = 32 \<and> hash = cookieMAC mac serverKey cookie client server")
      case False
      with a d1 cl d2 have "err \<noteq> None \<and> c' = c2"
        by (auto split: option.splits if_splits sum.splits)
      with d1 d2 cl show thesis by (intro challenge) simp_all
    next
      case True
      then obtain server where sv: "d2 = None" "length server = 32"
        "challenge_reply (Lines r2) = Inr (server, cookieMAC mac serverKey cookie client server)"
        "length (cookieMAC mac serverKey cookie client server) = 32" by auto
      obtain r3 d3 c3 where d3:
        "Do e3 c2 (response_command mac cookie client server) = ((r3, d3), c3)" using pair by blast
      with a d1 cl d2 sv have "err = d3" "c' = c3" by simp_all
      with d1 d2 d3 cl sv show thesis by (intro response) auto
    qed
  qed
qed

text \<open>
  C15. SAFECOOKIE never answers an unproven server. The bytes an authentication writes are
  a prefix of \<^verbatim>\<open>PROTOCOLINFO 1\<close>, or that command and a prefix of the challenge, or both and
  a prefix of the response; and in the last case the first reply of the peer offered
  SAFECOOKIE and the second one contained a 32-byte nonce with the HMAC of cookie, client
  nonce and that server nonce under the server key. No other command is ever sent, and
  authentication succeeds only when the response was sent in full and got status 250.
\<close>

theorem Authenticate_proof_first:
  assumes "Authenticate mac (e1, e2, e3) c cookie random = (err, c')" "cl_err c = None"
    and "AcqDone \<notin> {de_acquire e1, de_acquire e2, de_acquire e3}"
  shows "(err \<noteq> None \<and> (\<exists>k. cl_wire c' = cl_wire c @ take k (crlf ''PROTOCOLINFO 1'')))
    \<or> (err \<noteq> None \<and> (\<exists>client k. random = Inr client \<and>
         cl_wire c' = cl_wire c @ crlf ''PROTOCOLINFO 1'' @ take k (crlf (challenge_command client))))
    \<or> (\<exists>client server r1 q1 in1 r2 q2 in2 k.
         readReply None (cl_events c) (cl_in c) = (Inr r1, q1, in1) \<and> offers_safecookie (Lines r1) \<and>
         readReply None q1 in1 = (Inr r2, q2, in2) \<and> Code r1 = 250 \<and> Code r2 = 250 \<and>
         random = Inr client \<and> length server = 32 \<and>
         challenge_reply (Lines r2) = Inr (server, cookieMAC mac serverKey cookie client server) \<and>
         cl_wire c' = cl_wire c @ crlf ''PROTOCOLINFO 1'' @ crlf (challenge_command client) @
           take k (crlf (response_command mac cookie client server)) \<and>
         (err = None \<longrightarrow> length (crlf (response_command mac cookie client server)) \<le> k \<and>
            (\<exists>r3 q3 in3. readReply None q2 in2 = (Inr r3, q3, in3) \<and> Code r3 = 250)))"
  using assms(1)
proof (cases rule: Authenticate_cases)
  case early
  from early(2) have "cl_wire c' = cl_wire c @ take 0 (crlf ''PROTOCOLINFO 1'')" by simp
  with early(1) show ?thesis by blast
next
  case (info r1 e)
  with Do_wire_part [OF info(2)] show ?thesis by blast
next
  case (challenge r1 c1 client r2 e)
  from challenge(2) assms(2,3) have "cl_wire c1 = cl_wire c @ crlf ''PROTOCOLINFO 1''"
    using Do_success [OF challenge(2)] by auto
  with challenge(1,4) Do_wire_part [OF challenge(5)] show ?thesis by auto
next
  case (response r1 c1 client r2 c2 server hash r3)
  have 1: "cl_wire c1 = cl_wire c @ crlf ''PROTOCOLINFO 1''" "Code r1 = 250" "cl_err c1 = None"
    "readReply None (cl_events c) (cl_in c) = (Inr r1, cl_events c1, cl_in c1)"
    using Do_success [OF response(1)] assms(2,3) by auto
  have 2: "cl_wire c2 = cl_wire c1 @ crlf (challenge_command client)" "Code r2 = 250" "cl_err c2 = None"
    "readReply None (cl_events c1) (cl_in c1) = (Inr r2, cl_events c2, cl_in c2)"
    using Do_success [OF response(4) 1(3)] assms(3) by auto
  let ?resp = "crlf (response_command mac cookie client server)"
  have "\<exists>k. cl_wire c' = cl_wire c2 @ take k ?resp \<and> (err = None \<longrightarrow> length ?resp \<le> k \<and>
      (\<exists>r3 q3 in3. readReply None (cl_events c2) (cl_in c2) = (Inr r3, q3, in3) \<and> Code r3 = 250))"
  proof (cases err)
    case None
    with Do_success [of e3 c2 _ r3 c'] response(9) 2(3) assms(3) show ?thesis
      by (intro exI [of _ "length ?resp"]) auto
  next
    case (Some d)
    with Do_wire_part [OF response(9)] show ?thesis by auto
  qed
  with 1 2 response show ?thesis by (intro disjI2) (metis append.assoc)
qed

section \<open>An honest server is accepted\<close>

lemma Do_ok:
  assumes "readReply None (cl_events c) (cl_in c) = (Inr r, q, rest)" "\<not> injection cmd" "Code r = 250"
  shows "Do ok_env c cmd = ((r, None), c\<lparr>cl_wire := cl_wire c @ crlf cmd, cl_events := q, cl_in := rest\<rparr>)"
  using assms by (simp add: Do_def ok_env_def do_result_def crlf_def)

lemma hex_encode_word: "bs \<noteq> [] \<Longrightarrow> word (hex_encode bs)"
proof -
  assume "bs \<noteq> []"
  moreover have "33 \<le> byte c \<and> byte c < 128" if "c \<in> set (hex_encode bs)" for c
    using hex_encode_chars [of bs] that by (fastforce simp: hex_char_def unhex_def split: if_splits)
  ultimately show ?thesis by (cases bs) (auto simp: word_def list_all_iff)
qed

lemma hex_encode_no_break: "\<not> injection (hex_encode bs)"
proof -
  have "c \<notin> set (hex_encode bs)" if "\<not> hex_char c" for c
    using that by (intro hex_codec.enc_excludes) simp
  then show ?thesis by (auto simp: injection_iff hex_char_def unhex_def)
qed

lemma commands_clean:
  "\<not> injection ''PROTOCOLINFO 1''" "\<not> injection (challenge_command client)"
  "\<not> injection (response_command mac cookie client server)"
  using hex_encode_no_break
  by (simp_all add: challenge_command_def response_command_def injection_iff)

definition challenge_line :: "u8 list \<Rightarrow> u8 list \<Rightarrow> string" where
  "challenge_line hash nonce =
    ''AUTHCHALLENGE'' @ CHR '' '' # (''SERVERHASH='' @ hex_encode hash) @ CHR '' '' # ''SERVERNONCE='' @ hex_encode nonce"

lemma challenge_reply_line:
  assumes "hash \<noteq> []" "nonce \<noteq> []"
  shows "challenge_reply [challenge_line hash nonce] = Inr (nonce, hash)"
proof -
  have w: "word ''AUTHCHALLENGE''" "word (''SERVERHASH='' @ hex_encode hash)"
    "word (''SERVERNONCE='' @ hex_encode nonce)"
    using hex_encode_word [OF assms(1)] hex_encode_word [OF assms(2)] by (simp_all add: word_def)
  have f: "Fields (challenge_line hash nonce) =
      [''AUTHCHALLENGE'', ''SERVERHASH='' @ hex_encode hash, ''SERVERNONCE='' @ hex_encode nonce]"
    unfolding challenge_line_def
    by (simp only: Fields_Cons_word [OF w(1)] Fields_Cons_word [OF w(2)] Fields_word [OF w(3)])
  show ?thesis
    unfolding challenge_reply_def
    by (simp add: f hex_field_def CutPrefix_def HasPrefix_def hex_codec.dcd_enc)
qed

lemma Authenticate_honest:
  assumes "length cookie = 32" "length client = 32" "length nonce = 32"
    and "hash = cookieMAC mac serverKey cookie client nonce" "length hash = 32"
    and "printed_ok (250, items, b)" "offers_safecookie (Lines (reply_of (250, items, b)))"
    and "length (cl_events c) + length (concat (map item_events items)) \<le> maxEvents"
    and "cl_in c = print_full (250, items, b) @ print_full (250, [], challenge_line hash nonce) @
           print_full (250, [], ''OK'') @ rest"
  shows "\<exists>c'. Authenticate mac (ok_env, ok_env, ok_env) c cookie (Inr client) = (None, c') \<and>
    cl_in c' = rest \<and>
    cl_wire c' = cl_wire c @ crlf ''PROTOCOLINFO 1'' @ crlf (challenge_command client) @
      crlf (response_command mac cookie client nonce)"
proof -
  let ?r1 = "reply_of (250, items, b)" and ?r2 = "\<lparr>Code = 250, Lines = [challenge_line hash nonce]\<rparr>"
    and ?r3 = "\<lparr>Code = 250, Lines = [''OK'']\<rparr>"
  let ?q = "cl_events c @ concat (map item_events items)"
  have read: "readReply None q (print_full (250, its, d) @ r) =
      (Inr (reply_of (250, its, d)), q @ concat (map item_events its), r)"
    if "printed_ok (250, its, d)" "length q + length (concat (map item_events its)) \<le> maxEvents"
    for its d q r
    using that readReply_from_items [of 250 0 its d q 0 "[]" r] by (simp add: readReply_def)
  have cl: "LF \<notin> set (challenge_line hash nonce)" "length (challenge_line hash nonce) \<le> 200"
    using hex_encode_no_break [of hash] hex_encode_no_break [of nonce] assms(3,5)
    by (simp_all add: challenge_line_def injection_iff)
  have p: "printed_ok (250, [], challenge_line hash nonce)" "printed_ok (250, [], ''OK'')"
    using cl Itoa_status [of 250]
    by (simp_all add: fits_def maxReply_def maxEvents_def print_reply_def print_last_def)
  have ch: "challenge_reply [challenge_line hash nonce] = Inr (nonce, hash)"
    using assms(3,5) by (intro challenge_reply_line) auto
  define c1 where "c1 = c\<lparr>cl_wire := cl_wire c @ crlf ''PROTOCOLINFO 1'', cl_events := ?q,
    cl_in := print_full (250, [], challenge_line hash nonce) @ print_full (250, [], ''OK'') @ rest\<rparr>"
  define c2 where "c2 = c1\<lparr>cl_wire := cl_wire c1 @ crlf (challenge_command client), cl_events := ?q,
    cl_in := print_full (250, [], ''OK'') @ rest\<rparr>"
  define c3 where "c3 = c2\<lparr>cl_wire := cl_wire c2 @ crlf (response_command mac cookie client nonce),
    cl_events := ?q, cl_in := rest\<rparr>"
  have d1: "Do ok_env c ''PROTOCOLINFO 1'' = ((?r1, None), c1)"
    unfolding c1_def using assms(6,8,9) commands_clean(1) by (intro Do_ok) (simp_all only: read reply_of.simps reply.simps simp_thms)
  have d2: "Do ok_env c1 (challenge_command client) = ((?r2, None), c2)"
    unfolding c2_def using p(1) assms(8) commands_clean(2) read [of "[]" "challenge_line hash nonce" ?q]
    by (intro Do_ok) (simp_all add: c1_def)
  have d3: "Do ok_env c2 (response_command mac cookie client nonce) = ((?r3, None), c3)"
    unfolding c3_def using p(2) assms(8) commands_clean(3) read [of "[]" "''OK''" ?q]
    by (intro Do_ok) (simp_all add: c2_def)
  have "Authenticate mac (ok_env, ok_env, ok_env) c cookie (Inr client) = (None, c3)"
    using assms(1,3,4,5,7) ch by (simp add: Authenticate_def d1 d2 d3 del: reply_of.simps)
  then show ?thesis by (simp add: c3_def c2_def c1_def)
qed

text \<open>
  C40. An honest server is accepted. When the peer answers the three commands with status
  250, offers SAFECOOKIE in the first reply and proves knowledge of the cookie in the
  second, authentication succeeds and has written exactly the three commands, whatever
  other lines and events surround the first reply.
\<close>

theorem Authenticate_complete:
  assumes "length cookie = 32" "length client = 32" "length nonce = 32"
    and "hash = cookieMAC mac serverKey cookie client nonce" "length hash = 32"
    and "printed_ok (250, items, b)" "offers_safecookie (Lines (reply_of (250, items, b)))"
    and "length (cl_events c) + length (concat (map item_events items)) \<le> maxEvents"
    and "cl_in c = print_full (250, items, b) @ print_full (250, [], challenge_line hash nonce) @
           print_full (250, [], ''OK'') @ rest"
  shows "\<exists>c'. Authenticate mac (ok_env, ok_env, ok_env) c cookie (Inr client) = (None, c') \<and>
    cl_in c' = rest \<and>
    cl_wire c' = cl_wire c @ crlf ''PROTOCOLINFO 1'' @ crlf (challenge_command client) @
      crlf (response_command mac cookie client nonce)"
  by (rule Authenticate_honest [OF assms])

section \<open>A sample authentication\<close>

text \<open>A MAC that takes the first 32 bytes of its message stands in for HMAC-SHA256.\<close>

definition toy_mac :: mac where
  "toy_mac key msg = take 32 msg"

definition zeros :: "u8 list" where
  "zeros = replicate 32 0"

definition auth_items :: "item list" where
  "auth_items = [Part (Mid ''PROTOCOLINFO 1''), Async [] ''STATUS_GENERAL'',
     Part (Mid ''AUTH METHODS=COOKIE,SAFECOOKIE'')]"

definition auth_client :: client where
  "auth_client = New (print_full (250, auth_items, ''OK'') @
     print_full (250, [], challenge_line zeros zeros) @ print_full (250, [], ''OK'') @ [])"

lemma auth_sample_facts:
  "length zeros = 32" "zeros = cookieMAC toy_mac serverKey zeros zeros zeros"
  "printed_ok (250, auth_items, ''OK'')"
  "offers_safecookie (Lines (reply_of (250, auth_items, ''OK'')))"
  "length (cl_events auth_client) + length (concat (map item_events auth_items)) \<le> maxEvents"
proof -
  show "length zeros = 32" by (simp add: zeros_def)
  then show "zeros = cookieMAC toy_mac serverKey zeros zeros zeros"
    by (simp add: cookieMAC_def toy_mac_def)
  show "printed_ok (250, auth_items, ''OK'')"
    using Itoa_status [of 250]
    by (simp add: auth_items_def fits_def maxReply_def maxEvents_def print_reply_def print_last_def)
  show "length (cl_events auth_client) + length (concat (map item_events auth_items)) \<le> maxEvents"
    by (simp add: auth_client_def New_def auth_items_def maxEvents_def)
  have w: "word ''AUTH''" "word ''METHODS=COOKIE,SAFECOOKIE''" by (simp_all add: word_def)
  have "Fields (''AUTH'' @ CHR '' '' # ''METHODS=COOKIE,SAFECOOKIE'') =
      [''AUTH'', ''METHODS=COOKIE,SAFECOOKIE'']"
    by (simp only: Fields_Cons_word [OF w(1)] Fields_word [OF w(2)])
  then show "offers_safecookie (Lines (reply_of (250, auth_items, ''OK'')))"
    by (simp add: offers_safecookie_def auth_items_def HasPrefix_def TrimPrefix_def)
qed

theorem Authenticate_complete_witness:
  "\<exists>c'. Authenticate toy_mac (ok_env, ok_env, ok_env) auth_client zeros (Inr zeros) = (None, c')"
  using Authenticate_complete [OF auth_sample_facts(1,1,1,2,1,3-5), of "[]"]
  by (auto simp: auth_client_def New_def)

theorem Authenticate_proof_first_witness:
  "\<exists>c' client server. Authenticate toy_mac (ok_env, ok_env, ok_env) auth_client zeros (Inr zeros) = (None, c')
     \<and> length server = 32 \<and> cl_wire c' = cl_wire auth_client @ crlf ''PROTOCOLINFO 1'' @
       crlf (challenge_command client) @ crlf (response_command toy_mac zeros client server)"
proof -
  have "cl_in auth_client = print_full (250, auth_items, ''OK'') @
     print_full (250, [], challenge_line zeros zeros) @ print_full (250, [], ''OK'') @ []"
    by (simp add: auth_client_def New_def)
  from Authenticate_honest [OF auth_sample_facts(1,1,1,2,1,3-5) this]
  obtain c' where a: "Authenticate toy_mac (ok_env, ok_env, ok_env) auth_client zeros (Inr zeros) = (None, c')"
    by blast
  have "cl_err auth_client = None" "AcqDone \<notin> {de_acquire ok_env, de_acquire ok_env, de_acquire ok_env}"
    by (simp_all add: auth_client_def New_def ok_env_def)
  from Authenticate_proof_first [OF a this] a show ?thesis by (auto simp: take_all) blast
qed

end
