(* ===== verification/Tor_Events.thy ===== *)
theory Tor_Events
  imports Go_Strconv
begin

text \<open>
  Typed events and their delivery (events.go): the event values, startup stages and
  \<^verbatim>\<open>newStartupError\<close>, the broker that fans events out to bounded subscriber channels,
  and the parsing of Tor's status events (\<^verbatim>\<open>controlWords\<close>, \<^verbatim>\<open>eventArguments\<close>). The locale
  \<open>recent_feed\<close> is the contract of a bounded history that keeps the newest entries.
\<close>

section \<open>Event values\<close>

datatype event_severity = EventNotice | EventWarning | EventError
datatype transport_state = TransportStarting | TransportReady | TransportFailed
datatype terminal_cause = TerminalProcessExit | TerminalControlConnection | TerminalProxyListener
datatype outbound_failure =
    OutboundAttachmentRejected | OutboundAttachmentClosed | OutboundDialFailed | OutboundStreamFailed
datatype shutdown_stage =
    ShutdownOutbound | ShutdownResources | ShutdownControl | ShutdownGracefulWait | ShutdownKill
  | ShutdownForcedWait | ShutdownSandbox | ShutdownProxy | ShutdownTemporaryFiles
datatype publication_state = PublicationPending | PublicationPublished | PublicationFailed

datatype driver_event =
    BootstrapEvent (ev_progress: u8) (ev_stage: string) (ev_severity: event_severity) (ev_problem: string)
  | TransportEvent string transport_state event_severity
  | TerminalEvent terminal_cause
  | OutboundEvent outbound_failure u64 bool
  | ShutdownEvent shutdown_stage

datatype service_event = PublicationEvent publication_state string

section \<open>Startup stages\<close>

definition startupStageNames :: "string list" where
  "startupStageNames =
    [''configuration validation'', ''working directory setup'', ''state directory setup'',
     ''local proxy credential setup'', ''local proxy listener setup'', ''Tor configuration setup'',
     ''Tor process start'', ''control endpoint discovery'', ''control connection setup'',
     ''control authentication'', ''control ownership setup'', ''control event setup'',
     ''upstream proxy verification'', ''network enablement'', ''SOCKS listener discovery'']"

definition stage_String :: "u8 \<Rightarrow> string" where
  "stage_String s =
    (if length startupStageNames \<le> unat s then ''unknown stage'' else startupStageNames ! unat s)"

definition newStartupError :: "u8 \<Rightarrow> goerr option \<Rightarrow> goerr option" where
  "newStartupError stage err =
    (case err of
       None \<Rightarrow> None
     | Some e \<Rightarrow> if errors_as_startup e \<noteq> None then Some e else Some (StartupError stage e))"

lemma newStartupError_stage:
  "newStartupError stage (Some e) = Some e' \<Longrightarrow>
    errors_as_startup e' = Some (case errors_as_startup e of None \<Rightarrow> stage | Some s \<Rightarrow> s)"
  by (auto simp: newStartupError_def split: if_splits option.splits)

lemma newStartupError_is:
  "newStartupError stage (Some e) = Some e' \<Longrightarrow> errors_is e' t = errors_is e t"
  by (auto simp: newStartupError_def split: if_splits)

section \<open>The contract of a bounded history\<close>

text \<open>
  A history with a fixed capacity to which values are pushed: what it shows afterwards is
  what fits of the old contents followed by the new value, the newest last.
\<close>

locale recent_feed =
  fixes push :: "'a \<Rightarrow> 'b \<Rightarrow> 'b"
    and view :: "'b \<Rightarrow> 'a list"
    and capacity :: "'b \<Rightarrow> nat"
    and ok :: "'b \<Rightarrow> bool"
  assumes push_view: "ok b \<Longrightarrow> view (push e b) = last_n (capacity b) (view b @ [e])"
    and push_capacity: "ok b \<Longrightarrow> capacity (push e b) = capacity b"
    and push_ok: "ok b \<Longrightarrow> ok (push e b)"
    and ok_bound: "ok b \<Longrightarrow> 0 < capacity b \<and> length (view b) \<le> capacity b"
begin

lemma pushes_ok: "ok b \<Longrightarrow> ok (fold push es b) \<and> capacity (fold push es b) = capacity b"
  by (induction es arbitrary: b) (simp_all add: push_ok push_capacity)

text \<open>After any number of pushes the history shows the most recent entries, in order.\<close>

lemma pushes_view: "ok b \<Longrightarrow> view (fold push es b) = last_n (capacity b) (view b @ es)"
proof (induction es arbitrary: b)
  case (Cons e es)
  then have "view (fold push es (push e b)) = last_n (capacity b) (last_n (capacity b) (view b @ [e]) @ es)"
    by (simp add: push_ok push_capacity push_view)
  also have "\<dots> = last_n (capacity b) ((view b @ [e]) @ es)" by (rule last_n_last_n_append)
  finally show ?case by simp
qed (simp add: ok_bound)

lemma push_newest: "ok b \<Longrightarrow> view (push e b) \<noteq> [] \<and> last (view (push e b)) = e"
  using ok_bound [of b] by (simp add: push_view last_n_def)

end

section \<open>Subscriber channels\<close>

text \<open>A buffered Go channel; a send on a closed one and a second close panic.\<close>

record 'a chan =
  ch_cap :: nat
  ch_buf :: "'a list"
  ch_closed :: bool

text \<open>The nested selects of \<^verbatim>\<open>publish\<close> for one channel: send, else drop the oldest entry and
  send. \<^const>\<open>None\<close> is a panic.\<close>

definition chan_publish :: "'a \<Rightarrow> 'a chan \<Rightarrow> 'a chan option" where
  "chan_publish e ch =
    (if ch_closed ch then None
     else if length (ch_buf ch) < ch_cap ch then Some (ch\<lparr>ch_buf := ch_buf ch @ [e]\<rparr>)
     else let buf = tl (ch_buf ch)
          in if length buf < ch_cap ch then Some (ch\<lparr>ch_buf := buf @ [e]\<rparr>)
             else Some (ch\<lparr>ch_buf := buf\<rparr>))"

definition chan_close :: "'a chan \<Rightarrow> 'a chan option" where
  "chan_close ch = (if ch_closed ch then None else Some (ch\<lparr>ch_closed := True\<rparr>))"

definition chan_receive :: "'a chan \<Rightarrow> ('a option \<times> 'a chan) option" where
  "chan_receive ch =
    (case ch_buf ch of
       x # xs \<Rightarrow> Some (Some x, ch\<lparr>ch_buf := xs\<rparr>)
     | [] \<Rightarrow> if ch_closed ch then Some (None, ch) else None)"

definition chan_ok :: "'a chan \<Rightarrow> bool" where
  "chan_ok ch \<longleftrightarrow> \<not> ch_closed ch \<and> 1 \<le> ch_cap ch \<and> ch_cap ch \<le> 1024 \<and> length (ch_buf ch) \<le> ch_cap ch"

lemma chan_publish_ok:
  assumes "chan_ok ch"
  shows "chan_publish e ch = Some (ch\<lparr>ch_buf := last_n (ch_cap ch) (ch_buf ch @ [e])\<rparr>)"
proof (cases "length (ch_buf ch) < ch_cap ch")
  case False
  with assms have "length (ch_buf ch) = ch_cap ch" "0 < ch_cap ch" by (auto simp: chan_ok_def)
  with assms show ?thesis
    using last_n_snoc_full [of "ch_buf ch" "ch_cap ch" e] by (simp add: chan_publish_def chan_ok_def)
qed (use assms in \<open>simp add: chan_publish_def chan_ok_def\<close>)

interpretation sub: recent_feed "\<lambda>e ch. the (chan_publish e ch)" ch_buf ch_cap chan_ok
proof
  fix e and ch :: "'a chan"
  assume ok: "chan_ok ch"
  show "ch_buf (the (chan_publish e ch)) = last_n (ch_cap ch) (ch_buf ch @ [e])"
    "ch_cap (the (chan_publish e ch)) = ch_cap ch"
    using chan_publish_ok [OF ok] by simp_all
  show "chan_ok (the (chan_publish e ch))"
    using ok chan_publish_ok [OF ok] by (simp add: chan_ok_def)
  show "0 < ch_cap ch \<and> length (ch_buf ch) \<le> ch_cap ch"
    using ok by (simp add: chan_ok_def)
qed

section \<open>The broker\<close>

text \<open>
  \<open>br_subs\<close> are the keys of the map \<^verbatim>\<open>subs\<close>; \<open>br_chans\<close> keeps every channel made, since a
  subscriber can still drain a channel that was removed and closed. Publication to the
  channels is independent, so the order of Go's map iteration is irrelevant; the model
  visits them in list order.
\<close>

record 'a broker =
  br_closed :: bool
  br_next :: u64
  br_subs :: "u64 list"
  br_chans :: "u64 \<Rightarrow> 'a chan option"

definition newEventBroker :: "'a broker" where
  "newEventBroker = \<lparr>br_closed = False, br_next = 0, br_subs = [], br_chans = (\<lambda>_. None)\<rparr>"

definition subscribeInitial :: "int \<Rightarrow> 'a list \<Rightarrow> 'a broker \<Rightarrow> u64 res \<times> 'a broker" where
  "subscribeInitial buffer initial b =
    (if buffer < 1 \<or> 1024 < buffer
     then (Inl (Msg ''tor-driver: event buffer must be between 1 and 1024''), b)
     else if br_closed b then (Inl (Sentinel ErrClosed), b)
     else let i = br_next b;
              ch = \<lparr>ch_cap = nat buffer, ch_buf = last_n (nat buffer) initial, ch_closed = False\<rparr>
          in (Inr i, b\<lparr>br_next := br_next b + 1, br_subs := List.insert i (br_subs b),
                br_chans := (br_chans b)(i \<mapsto> ch)\<rparr>))"

definition on_chan :: "u64 \<Rightarrow> ('a chan \<Rightarrow> 'a chan option) \<Rightarrow> 'a broker \<Rightarrow> 'a broker option" where
  "on_chan i f b =
    (case br_chans b i of
       None \<Rightarrow> None
     | Some ch \<Rightarrow> map_option (\<lambda>ch'. b\<lparr>br_chans := (br_chans b)(i \<mapsto> ch')\<rparr>) (f ch))"

text \<open>The function that \<^verbatim>\<open>subscribeInitial\<close> returns; its \<^verbatim>\<open>sync.Once\<close> is the first call.\<close>

definition unsubscribe :: "u64 \<Rightarrow> 'a broker \<Rightarrow> 'a broker option" where
  "unsubscribe i b =
    (if i \<in> set (br_subs b)
     then on_chan i chan_close (b\<lparr>br_subs := removeAll i (br_subs b)\<rparr>)
     else Some b)"

fun each_chan :: "('a chan \<Rightarrow> 'a chan option) \<Rightarrow> u64 list \<Rightarrow> 'a broker \<Rightarrow> 'a broker option" where
  "each_chan f [] b = Some b"
| "each_chan f (i # is) b = (case on_chan i f b of None \<Rightarrow> None | Some b' \<Rightarrow> each_chan f is b')"

definition publish :: "'a \<Rightarrow> 'a broker \<Rightarrow> 'a broker option" where
  "publish e b = (if br_closed b then Some b else each_chan (chan_publish e) (br_subs b) b)"

definition broker_close :: "'a broker \<Rightarrow> 'a broker option" where
  "broker_close b =
    (if br_closed b then Some b
     else each_chan chan_close (br_subs b) (b\<lparr>br_closed := True, br_subs := []\<rparr>))"

definition receive :: "u64 \<Rightarrow> 'a broker \<Rightarrow> 'a broker option" where
  "receive i b = on_chan i (\<lambda>ch. map_option snd (chan_receive ch)) b"

section \<open>Parsing status events\<close>

definition eventSeverity :: "casemap \<Rightarrow> string \<Rightarrow> event_severity \<times> bool" where
  "eventSeverity U value =
    (let v = ToUpper U value
     in if v = ''NOTICE'' \<or> v = ''INFO'' \<or> v = ''DEBUG'' then (EventNotice, True)
        else if v = ''WARN'' \<or> v = ''WARNING'' then (EventWarning, True)
        else if v = ''ERR'' \<or> v = ''ERROR'' then (EventError, True)
        else (EventNotice, False))"

text \<open>The inner loop of \<^verbatim>\<open>controlWords\<close>: the word read so far, the rest of the line, and
  whether the word ends inside a quotation or an escape.\<close>

fun word_scan :: "bool \<Rightarrow> bool \<Rightarrow> string \<Rightarrow> string \<Rightarrow> string \<times> string \<times> bool" where
  "word_scan quoted escaped w [] = (w, [], quoted \<or> escaped)"
| "word_scan quoted escaped w (c # s) =
    (if escaped then word_scan quoted False (w @ [c]) s
     else if quoted \<and> c = CHR 0x5C then word_scan quoted True (w @ [c]) s
     else if c = CHR 0x22 then word_scan (\<not> quoted) False (w @ [c]) s
     else if c = CHR '' '' \<and> \<not> quoted then (w, c # s, False)
     else word_scan quoted False (w @ [c]) s)"

lemma word_scan_rest: "word_scan q e w s = (w', rest, bad) \<Longrightarrow> length rest \<le> length s"
  by (induction q e w s rule: word_scan.induct) (auto split: if_splits)

lemma word_scan_start: "c \<noteq> CHR '' '' \<Longrightarrow> word_scan False False [] (c # s) = word_scan (c = CHR 0x22) False [c] s"
  by simp

lemma controlWords_shrink:
  assumes "dropWhile (\<lambda>c. c = CHR '' '') s = c # t" "word_scan False False [] (c # t) = (w, rest, bad)"
  shows "length rest < length s"
proof -
  have "c \<noteq> CHR '' ''" using assms(1) by (simp add: dropWhile_eq_Cons_conv)
  from trans [OF word_scan_start [OF this, of t, symmetric] assms(2)]
  have "length rest \<le> length t" by (rule word_scan_rest)
  moreover have "length (c # t) \<le> length s"
    using length_dropWhile_le [of "\<lambda>c. c = CHR '' ''" s] assms(1) by simp
  ultimately show ?thesis by simp
qed

function controlWords_from :: "string list \<Rightarrow> string \<Rightarrow> string list res" where
  "controlWords_from ws s =
    (case dropWhile (\<lambda>c. c = CHR '' '') s of
       [] \<Rightarrow> Inr ws
     | c # t \<Rightarrow>
         (case word_scan False False [] (c # t) of
            (w, rest, bad) \<Rightarrow>
              if bad then Inl (Msg ''tor-driver: malformed control status event'')
              else controlWords_from (ws @ [w]) rest))"
  by pat_completeness auto
termination
  by (relation "measure (\<lambda>(_, s). length s)") (auto intro: controlWords_shrink [OF _ sym] simp del: word_scan.simps)

declare controlWords_from.simps [simp del]

definition controlWords :: "string \<Rightarrow> string list res" where
  "controlWords s = controlWords_from [] s"

definition token_rune :: "nat \<Rightarrow> bool" where
  "token_rune c \<longleftrightarrow> (97 \<le> c \<and> c \<le> 122) \<or> (65 \<le> c \<and> c \<le> 90) \<or> (48 \<le> c \<and> c \<le> 57) \<or> c = 95 \<or> c = 45"

definition safeEventToken :: "string \<Rightarrow> bool" where
  "safeEventToken value \<longleftrightarrow> value \<noteq> [] \<and> length value \<le> 64 \<and> list_all token_rune (runes value)"

fun eventArguments_from :: "(string \<Rightarrow> string option) \<Rightarrow> string list \<Rightarrow> string \<Rightarrow> string option" where
  "eventArguments_from result [] = result"
| "eventArguments_from result (w # ws) =
    (case Cut (CHR ''='') w of
       None \<Rightarrow> eventArguments_from result ws
     | Some (key, v) \<Rightarrow>
         if \<not> safeEventToken key then eventArguments_from result ws
         else if HasPrefix v [CHR 0x22] then
           (case Unquote v of
              None \<Rightarrow> eventArguments_from result ws
            | Some decoded \<Rightarrow> eventArguments_from (result(key \<mapsto> decoded)) ws)
         else eventArguments_from (result(key \<mapsto> v)) ws)"

definition eventArguments :: "string list \<Rightarrow> string \<Rightarrow> string option" where
  "eventArguments ws = eventArguments_from Map.empty ws"

text \<open>A token has no byte that means something to the control protocol or the log.\<close>

lemma safeEventToken_bytes:
  "safeEventToken s \<longleftrightarrow> s \<noteq> [] \<and> length s \<le> 64 \<and> list_all (\<lambda>c. token_rune (byte c)) s"
  using runes_all [of token_rune False s] by (auto simp: safeEventToken_def token_rune_def)

end
