(* ===== verification/Tor_Events_Proofs.thy ===== *)
theory Tor_Events_Proofs
  imports Tor_Events Tor_Render_Proofs "HOL-Library.Sublist"
begin

text \<open>
  Correctness of event delivery: the broker never panics, a subscriber's channel holds
  the newest events in order, and a publication that races with receives at every select
  loses old entries only.
\<close>

section \<open>The broker invariant\<close>

definition broker_inv :: "'a broker \<Rightarrow> bool" where
  "broker_inv b \<longleftrightarrow> distinct (br_subs b) \<and> (br_closed b \<longrightarrow> br_subs b = []) \<and>
    (\<forall>i \<in> set (br_subs b). \<exists>ch. br_chans b i = Some ch \<and> chan_ok ch)"

lemma each_chan_Some:
  assumes "distinct is" "\<forall>i \<in> set is. \<exists>ch. br_chans b i = Some ch \<and> f ch = Some (g ch)"
  shows "each_chan f is b =
    Some (b\<lparr>br_chans := \<lambda>i. if i \<in> set is then map_option g (br_chans b i) else br_chans b i\<rparr>)"
  using assms
proof (induction "is" arbitrary: b)
  case (Cons i ist)
  from Cons.prems obtain ch where ch: "br_chans b i = Some ch" "f ch = Some (g ch)" by auto
  define b' where "b' = b\<lparr>br_chans := (br_chans b)(i \<mapsto> g ch)\<rparr>"
  have "each_chan f ist b' = Some (b'\<lparr>br_chans :=
      \<lambda>j. if j \<in> set ist then map_option g (br_chans b' j) else br_chans b' j\<rparr>)"
    using Cons.prems by (intro Cons.IH) (auto simp: b'_def)
  moreover have "(\<lambda>j. if j \<in> set ist then map_option g (br_chans b' j) else br_chans b' j) =
      (\<lambda>j. if j \<in> set (i # ist) then map_option g (br_chans b j) else br_chans b j)"
    using Cons.prems(1) ch by (auto simp: b'_def fun_eq_iff)
  ultimately show ?case
    using ch by (simp add: on_chan_def b'_def)
qed simp

definition pushed :: "'a \<Rightarrow> 'a chan \<Rightarrow> 'a chan" where
  "pushed e ch = ch\<lparr>ch_buf := last_n (ch_cap ch) (ch_buf ch @ [e])\<rparr>"

lemma publish_Some:
  assumes "broker_inv b" "\<not> br_closed b"
  shows "publish e b = Some (b\<lparr>br_chans := \<lambda>i. if i \<in> set (br_subs b)
    then map_option (pushed e) (br_chans b i) else br_chans b i\<rparr>)"
  using assms each_chan_Some [of "br_subs b" b "chan_publish e" "pushed e"]
  by (fastforce simp: publish_def broker_inv_def chan_publish_ok pushed_def)

lemma broker_close_Some:
  assumes "broker_inv b" "\<not> br_closed b"
  shows "broker_close b = Some (b\<lparr>br_closed := True, br_subs := [], br_chans := \<lambda>i. if i \<in> set (br_subs b)
    then map_option (\<lambda>ch. ch\<lparr>ch_closed := True\<rparr>) (br_chans b i) else br_chans b i\<rparr>)"
proof -
  let ?b = "b\<lparr>br_closed := True, br_subs := []\<rparr>"
  have "\<forall>i \<in> set (br_subs b). \<exists>ch. br_chans ?b i = Some ch \<and> chan_close ch = Some (ch\<lparr>ch_closed := True\<rparr>)"
    using assms(1) by (fastforce simp: broker_inv_def chan_close_def chan_ok_def)
  with each_chan_Some [of "br_subs b" ?b chan_close "\<lambda>ch. ch\<lparr>ch_closed := True\<rparr>"] assms
  show ?thesis by (simp add: broker_close_def broker_inv_def cong: if_cong)
qed

lemma unsubscribe_Some:
  assumes "broker_inv b" "i \<in> set (br_subs b)"
  obtains ch where "br_chans b i = Some ch" "chan_ok ch"
    "unsubscribe i b = Some (b\<lparr>br_subs := removeAll i (br_subs b),
       br_chans := (br_chans b)(i \<mapsto> ch\<lparr>ch_closed := True\<rparr>)\<rparr>)"
  using assms by (auto simp: broker_inv_def unsubscribe_def on_chan_def chan_close_def chan_ok_def)

lemma chan_ok_pushed: "chan_ok ch \<Longrightarrow> chan_ok (pushed e ch)"
  by (simp add: chan_ok_def pushed_def)

lemma broker_inv_new [inv_intros]: "broker_inv newEventBroker"
  by (simp add: broker_inv_def newEventBroker_def)

lemma broker_inv_subscribe [inv_intros]:
  assumes "broker_inv b" "subscribeInitial buffer initial b = (r, b')"
  shows "broker_inv b'"
  using assms
  by (auto simp: subscribeInitial_def broker_inv_def chan_ok_def Let_def split: if_splits)

lemma broker_inv_publish [inv_intros]:
  assumes "broker_inv b" "publish e b = Some b'"
  shows "broker_inv b'"
proof (cases "br_closed b")
  case False
  with assms publish_Some [OF assms(1) False, of e] show ?thesis
    by (fastforce simp: broker_inv_def chan_ok_pushed)
qed (use assms in \<open>simp add: publish_def\<close>)

lemma broker_inv_close [inv_intros]:
  assumes "broker_inv b" "broker_close b = Some b'"
  shows "broker_inv b' \<and> br_closed b'"
proof (cases "br_closed b")
  case False
  with assms broker_close_Some [OF assms(1) False] show ?thesis by (auto simp: broker_inv_def)
qed (use assms in \<open>simp add: broker_close_def\<close>)

lemma broker_inv_unsubscribe [inv_intros]:
  assumes "broker_inv b" "unsubscribe i b = Some b'"
  shows "broker_inv b'"
proof (cases "i \<in> set (br_subs b)")
  case True
  from unsubscribe_Some [OF assms(1) True] obtain ch where "br_chans b i = Some ch" "chan_ok ch"
    "unsubscribe i b = Some (b\<lparr>br_subs := removeAll i (br_subs b),
       br_chans := (br_chans b)(i \<mapsto> ch\<lparr>ch_closed := True\<rparr>)\<rparr>)" .
  with assms show ?thesis by (auto simp: broker_inv_def distinct_removeAll)
qed (use assms in \<open>simp add: unsubscribe_def\<close>)

lemma chan_ok_receive: "chan_ok ch \<Longrightarrow> chan_receive ch = Some (x, ch') \<Longrightarrow> chan_ok ch'"
  by (auto simp: chan_receive_def chan_ok_def split: list.splits if_splits)

lemma broker_inv_receive [inv_intros]:
  assumes "broker_inv b" "receive i b = Some b'"
  shows "broker_inv b'"
  using assms
  by (fastforce simp: receive_def on_chan_def broker_inv_def split: option.splits
      dest: chan_ok_receive)

section \<open>Runs of the broker\<close>

text \<open>Any sequence of operations; a receive that would block is not a step.\<close>

inductive bstep :: "'a broker \<Rightarrow> 'a broker \<Rightarrow> bool" where
  subscribe: "subscribeInitial buffer initial b = (r, b') \<Longrightarrow> bstep b b'"
| cancel: "unsubscribe i b = Some b' \<Longrightarrow> bstep b b'"
| event: "publish e b = Some b' \<Longrightarrow> bstep b b'"
| finish: "broker_close b = Some b' \<Longrightarrow> bstep b b'"
| recv: "receive i b = Some b' \<Longrightarrow> bstep b b'"

lemma bsteps_inv: "bstep\<^sup>*\<^sup>* b b' \<Longrightarrow> broker_inv b \<Longrightarrow> broker_inv b'"
  by (induction rule: rtranclp_induct) (auto elim!: bstep.cases intro: inv_intros dest: broker_inv_close)

lemma broker_total:
  assumes "broker_inv b"
  shows "publish e b \<noteq> None \<and> broker_close b \<noteq> None \<and> unsubscribe i b \<noteq> None"
proof -
  have "publish e b \<noteq> None"
    using publish_Some [OF assms] by (cases "br_closed b") (simp_all add: publish_def)
  moreover have "broker_close b \<noteq> None"
    using broker_close_Some [OF assms] by (cases "br_closed b") (simp_all add: broker_close_def)
  moreover have "unsubscribe i b \<noteq> None"
  proof (cases "i \<in> set (br_subs b)")
    case True
    then show ?thesis by (rule unsubscribe_Some [OF assms]) simp
  qed (simp add: unsubscribe_def)
  ultimately show ?thesis by blast
qed

text \<open>
  C24. The event broker never panics. After any sequence of subscriptions, cancellations,
  publications, receives and closes, publishing does not send on a closed channel, and
  neither closing the broker nor cancelling a subscription closes a channel twice.
\<close>

theorem broker_never_panics:
  assumes "bstep\<^sup>*\<^sup>* newEventBroker b"
  shows "publish e b \<noteq> None \<and> broker_close b \<noteq> None \<and> unsubscribe i b \<noteq> None"
  using broker_total [OF bsteps_inv [OF assms broker_inv_new]] .

theorem broker_never_panics_witness:
  "\<exists>b :: nat broker. bstep\<^sup>*\<^sup>* newEventBroker b \<and> br_subs b = [0] \<and> publish 7 b \<noteq> None \<and> unsubscribe 0 b \<noteq> None"
proof -
  define b where "b = snd (subscribeInitial 2 [1, 2, 3 :: nat] newEventBroker)"
  have "bstep newEventBroker b" by (rule bstep.subscribe [of 2 "[1, 2, 3]"]) (simp add: b_def prod_eq_iff)
  then have r: "bstep\<^sup>*\<^sup>* newEventBroker b" by blast
  have "br_subs b = [0]" by (simp add: b_def subscribeInitial_def newEventBroker_def Let_def)
  with r broker_never_panics [OF r, of 7 0] show ?thesis by blast
qed

section \<open>What a subscriber sees\<close>

fun publish_all :: "'a list \<Rightarrow> 'a broker \<Rightarrow> 'a broker option" where
  "publish_all [] b = Some b"
| "publish_all (e # es) b = (case publish e b of None \<Rightarrow> None | Some b' \<Rightarrow> publish_all es b')"

lemma publish_chan:
  assumes "broker_inv b" "\<not> br_closed b" "i \<in> set (br_subs b)" "br_chans b i = Some ch"
  obtains b' where "publish e b = Some b'" "broker_inv b'" "\<not> br_closed b'" "br_subs b' = br_subs b"
    "br_chans b' i = Some (the (chan_publish e ch))" "chan_ok ch"
proof -
  from assms have ok: "chan_ok ch" by (auto simp: broker_inv_def)
  let ?b = "b\<lparr>br_chans := \<lambda>i. if i \<in> set (br_subs b)
    then map_option (pushed e) (br_chans b i) else br_chans b i\<rparr>"
  have "publish e b = Some ?b" by (rule publish_Some [OF assms(1,2)])
  moreover from broker_inv_publish [OF assms(1) this] have "broker_inv ?b" .
  ultimately show thesis
    using that [of ?b] assms ok by (simp add: chan_publish_ok [OF ok] pushed_def)
qed

lemma publish_all_chan:
  assumes "broker_inv b" "\<not> br_closed b" "i \<in> set (br_subs b)" "br_chans b i = Some ch"
  shows "\<exists>b' ch'. publish_all es b = Some b' \<and> br_chans b' i = Some ch' \<and>
    ch' = fold (\<lambda>e ch. the (chan_publish e ch)) es ch"
  using assms
proof (induction es arbitrary: b ch)
  case (Cons e es)
  from publish_chan [OF Cons.prems] obtain b' where b': "publish e b = Some b'" "broker_inv b'"
    "\<not> br_closed b'" "br_subs b' = br_subs b" "br_chans b' i = Some (the (chan_publish e ch))" .
  from Cons.IH [OF b'(2,3) _ b'(5)] Cons.prems(3) b'(1,4) show ?case by simp
qed simp

text \<open>
  A subscriber's channel holds the newest events in order. After subscribing with a
  buffer of \<open>n\<close> entries to a working broker, any sequence of publications leaves in the
  channel exactly the last \<open>n\<close> values of the initial events followed by the published ones.
\<close>

theorem subscriber_sees_newest:
  assumes "broker_inv b" "\<not> br_closed b" "1 \<le> n" "n \<le> 1024"
    and "subscribeInitial (int n) initial b = (r, b1)"
  shows "\<exists>i b2 ch. r = Inr i \<and> publish_all es b1 = Some b2 \<and> br_chans b2 i = Some ch \<and>
    ch_buf ch = last_n n (initial @ es)"
proof -
  let ?i = "br_next b" and ?ch = "\<lparr>ch_cap = n, ch_buf = last_n n initial, ch_closed = False\<rparr>"
  from assms have b1: "r = Inr ?i" "br_chans b1 ?i = Some ?ch" "?i \<in> set (br_subs b1)" "\<not> br_closed b1"
    by (auto simp: subscribeInitial_def Let_def split: if_splits)
  have inv: "broker_inv b1" by (rule broker_inv_subscribe [OF assms(1,5)])
  then have ok: "chan_ok ?ch" using b1 by (auto simp: broker_inv_def)
  from publish_all_chan [OF inv b1(4,3,2), of es] obtain b2 ch where
    "publish_all es b1 = Some b2" "br_chans b2 ?i = Some ch"
    "ch = fold (\<lambda>e ch. the (chan_publish e ch)) es ?ch" by blast
  moreover have "ch_buf (fold (\<lambda>e ch. the (chan_publish e ch)) es ?ch) = last_n n (initial @ es)"
    using sub.pushes_view [OF ok, of es] by (simp add: last_n_last_n_append)
  ultimately show ?thesis using b1(1) by blast
qed

theorem subscriber_sees_newest_witness:
  "\<exists>b2 ch. publish_all [3, 4] (snd (subscribeInitial (int 2) [1, 2 :: nat] newEventBroker)) = Some b2 \<and>
     br_chans b2 0 = Some ch \<and> ch_buf ch = [3, 4]"
proof -
  have s: "subscribeInitial (int 2) [1, 2 :: nat] newEventBroker =
      (Inr 0, snd (subscribeInitial (int 2) [1, 2 :: nat] newEventBroker))"
    by (simp add: subscribeInitial_def newEventBroker_def Let_def)
  have c: "\<not> br_closed (newEventBroker :: nat broker)" by (simp add: newEventBroker_def)
  from subscriber_sees_newest [OF broker_inv_new c _ _ s, of "[3, 4]"] show ?thesis
    by (auto simp: last_n_def)
qed

section \<open>Publication racing with receives\<close>

text \<open>
  A receiver does not hold the broker's mutex, so it can take entries between the selects
  of a publication. \<open>PubDrop\<close> is the publisher after its first send found the channel full,
  \<open>PubRetry\<close> after it tried to drop the oldest entry. \<open>fd_log\<close> lists what was published and
  \<open>fd_got\<close> what was received.
\<close>

datatype 'a publisher = PubIdle | PubDrop 'a | PubRetry 'a

record 'a feed =
  fd_cap :: nat
  fd_buf :: "'a list"
  fd_pub :: "'a publisher"
  fd_log :: "'a list"
  fd_got :: "'a list"

inductive fstep :: "'a feed \<Rightarrow> 'a feed \<Rightarrow> bool" where
  send: "\<lbrakk>fd_pub f = PubIdle; length (fd_buf f) < fd_cap f\<rbrakk> \<Longrightarrow>
    fstep f (f\<lparr>fd_buf := fd_buf f @ [e], fd_log := fd_log f @ [e]\<rparr>)"
| full: "\<lbrakk>fd_pub f = PubIdle; \<not> length (fd_buf f) < fd_cap f\<rbrakk> \<Longrightarrow> fstep f (f\<lparr>fd_pub := PubDrop e\<rparr>)"
| drop_oldest: "\<lbrakk>fd_pub f = PubDrop e; fd_buf f = x # xs\<rbrakk> \<Longrightarrow>
    fstep f (f\<lparr>fd_buf := xs, fd_pub := PubRetry e\<rparr>)"
| drop_empty: "\<lbrakk>fd_pub f = PubDrop e; fd_buf f = []\<rbrakk> \<Longrightarrow> fstep f (f\<lparr>fd_pub := PubRetry e\<rparr>)"
| resend: "\<lbrakk>fd_pub f = PubRetry e; length (fd_buf f) < fd_cap f\<rbrakk> \<Longrightarrow>
    fstep f (f\<lparr>fd_buf := fd_buf f @ [e], fd_log := fd_log f @ [e], fd_pub := PubIdle\<rparr>)"
| lost: "\<lbrakk>fd_pub f = PubRetry e; \<not> length (fd_buf f) < fd_cap f\<rbrakk> \<Longrightarrow>
    fstep f (f\<lparr>fd_log := fd_log f @ [e], fd_pub := PubIdle\<rparr>)"
| take: "fd_buf f = x # xs \<Longrightarrow> fstep f (f\<lparr>fd_buf := xs, fd_got := fd_got f @ [x]\<rparr>)"

definition fd_init :: "nat \<Rightarrow> 'a list \<Rightarrow> 'a feed" where
  "fd_init n initial = \<lparr>fd_cap = n, fd_buf = last_n n initial, fd_pub = PubIdle,
     fd_log = last_n n initial, fd_got = []\<rparr>"

definition feed_inv :: "'a feed \<Rightarrow> bool" where
  "feed_inv f \<longleftrightarrow> 0 < fd_cap f \<and> length (fd_buf f) \<le> fd_cap f \<and>
    (\<forall>e. fd_pub f = PubRetry e \<longrightarrow> length (fd_buf f) < fd_cap f) \<and>
    subseq (fd_got f @ fd_buf f) (fd_log f) \<and>
    (fd_pub f = PubIdle \<and> fd_log f \<noteq> [] \<longrightarrow>
       fd_got f @ fd_buf f \<noteq> [] \<and> last (fd_got f @ fd_buf f) = last (fd_log f))"

lemma subseq_drop_mid: "subseq (xs @ y # ys) zs \<Longrightarrow> subseq (xs @ ys) zs"
proof -
  assume a: "subseq (xs @ y # ys) zs"
  have "subseq (xs @ ys) (xs @ y # ys)" by (intro list_emb_append_mono) auto
  then show ?thesis using a by (rule subseq_order.order_trans)
qed

lemma subseq_snoc: "subseq (xs @ ys) zs \<Longrightarrow> subseq (xs @ ys @ [e]) (zs @ [e])"
  using list_emb_append_mono [of "(=)" "xs @ ys" zs "[e]" "[e]"] by simp

lemma feed_inv_step: "fstep f g \<Longrightarrow> feed_inv f \<Longrightarrow> feed_inv g"
proof (induction rule: fstep.induct)
  case (drop_oldest f e x xs)
  then show ?case using subseq_drop_mid [of "fd_got f" x xs "fd_log f"] by (auto simp: feed_inv_def)
next
  case (send f e)
  then show ?case using subseq_snoc [of "fd_got f" "fd_buf f" "fd_log f" e] by (simp add: feed_inv_def)
next
  case (resend f e)
  then show ?case using subseq_snoc [of "fd_got f" "fd_buf f" "fd_log f" e] by (simp add: feed_inv_def)
qed (auto simp: feed_inv_def)

lemma feed_inv_steps: "fstep\<^sup>*\<^sup>* f g \<Longrightarrow> feed_inv f \<Longrightarrow> feed_inv g"
  by (induction rule: rtranclp_induct) (auto intro: feed_inv_step)

lemma feed_inv_init: "0 < n \<Longrightarrow> feed_inv (fd_init n initial)"
  by (simp add: feed_inv_def fd_init_def)

text \<open>
  C39. A publication that races with its receiver loses old entries only. Whatever receives
  happen between the selects, the buffer stays within its capacity, the receiver sees the
  published events in order, some possibly missing, whenever the publisher is idle the last
  event published is delivered or waiting in the channel, and the final send of a
  publication never finds the channel full.
\<close>

theorem feed_keeps_newest:
  assumes "fstep\<^sup>*\<^sup>* (fd_init n initial) f" "0 < n"
  shows "length (fd_buf f) \<le> n \<and> subseq (fd_got f @ fd_buf f) (fd_log f) \<and>
    (fd_pub f = PubIdle \<and> fd_log f \<noteq> [] \<longrightarrow>
       fd_got f @ fd_buf f \<noteq> [] \<and> last (fd_got f @ fd_buf f) = last (fd_log f)) \<and>
    (\<forall>e. fd_pub f = PubRetry e \<longrightarrow> length (fd_buf f) < n)"
proof -
  have "fd_cap f = n" using assms(1)
    by (induction rule: rtranclp_induct) (auto simp: fd_init_def elim: fstep.cases)
  with feed_inv_steps [OF assms(1) feed_inv_init [OF assms(2)]] show ?thesis
    by (auto simp: feed_inv_def)
qed

theorem feed_keeps_newest_witness:
  "\<exists>f. fstep\<^sup>*\<^sup>* (fd_init 1 [5 :: nat]) f \<and> fd_buf f = [] \<and> fd_pub f = PubRetry 6 \<and> length (fd_buf f) < 1"
proof -
  let ?f0 = "fd_init 1 [5 :: nat]"
  let ?f1 = "?f0\<lparr>fd_pub := PubDrop 6\<rparr>"
  let ?f2 = "?f1\<lparr>fd_buf := [], fd_pub := PubRetry 6\<rparr>"
  have "fstep ?f0 ?f1" by (rule fstep.full) (simp_all add: fd_init_def)
  moreover have "fstep ?f1 ?f2" by (rule fstep.drop_oldest [of _ 6 5 "[]"]) (simp_all add: fd_init_def)
  ultimately have r: "fstep\<^sup>*\<^sup>* ?f0 ?f2" by (meson rtranclp.rtrancl_refl rtranclp.rtrancl_into_rtrancl)
  from feed_keeps_newest [OF r] r show ?thesis by (intro exI [of _ ?f2]) simp
qed

section \<open>Status events read back what was printed\<close>

text \<open>A whole word scans to itself and stops at the following space or at the end.\<close>

definition whole_word :: "string \<Rightarrow> bool" where
  "whole_word w \<longleftrightarrow> w \<noteq> [] \<and> hd w \<noteq> CHR '' '' \<and>
    (\<forall>acc s. s = [] \<or> hd s = CHR '' '' \<longrightarrow> word_scan False False acc (w @ s) = (acc @ w, s, False))"

lemma word_scan_stop: "s = [] \<or> hd s = CHR '' '' \<Longrightarrow> word_scan False False w s = (w, s, False)"
  by (cases s) auto

lemma controlWords_from_word:
  assumes "whole_word w" "s = [] \<or> hd s = CHR '' ''"
  shows "controlWords_from ws (w @ s) = controlWords_from (ws @ [w]) s"
proof -
  obtain c t where w: "w = c # t" "c \<noteq> CHR '' ''" using assms(1) by (cases w) (auto simp: whole_word_def)
  have sc: "word_scan False False [] (w @ s) = ([] @ w, s, False)"
    using assms unfolding whole_word_def by blast
  have "dropWhile (\<lambda>c. c = CHR '' '') (w @ s) = c # (t @ s)" using w by simp
  then show ?thesis
    using sc w(1) by (subst controlWords_from.simps) (simp del: word_scan.simps)
qed

lemma controlWords_from_space: "controlWords_from ws (CHR '' '' # s) = controlWords_from ws s"
  by (subst (1 2) controlWords_from.simps) simp

lemma controlWords_from_Join:
  assumes "list_all whole_word ks"
  shows "controlWords_from ws (Join '' '' ks) = Inr (ws @ ks)"
  using assms
proof (induction ks arbitrary: ws rule: induct_list012)
  case 1
  then show ?case by (subst controlWords_from.simps) simp
next
  case (2 k)
  have "controlWords_from (ws @ [k]) [] = Inr (ws @ [k])" by (subst controlWords_from.simps) simp
  with 2 controlWords_from_word [of k "[]" ws] show ?case by simp
next
  case (3 k l ks)
  then show ?case
    using controlWords_from_word [of k "CHR '' '' # Join '' '' (l # ks)" ws]
    by (simp add: controlWords_from_space)
qed

text \<open>The arguments of a status event: a key, the equals sign and a quoted value.\<close>

definition print_arg :: "string \<times> string \<Rightarrow> string" where
  "print_arg kv = fst kv @ CHR ''='' # quote (snd kv)"

definition arg_ok :: "string \<times> string \<Rightarrow> bool" where
  "arg_ok kv \<longleftrightarrow> safeEventToken (fst kv) \<and> (\<forall>c \<in> set (snd kv). byte c < 128 \<and> byte c \<noteq> 10)"

lemma word_scan_plain:
  "list_all (\<lambda>c. c \<noteq> CHR '' '' \<and> c \<noteq> CHR 0x22) k \<Longrightarrow>
    word_scan False False acc (k @ s) = word_scan False False (acc @ k) s"
  by (induction k arbitrary: acc) auto

lemma word_scan_quoted:
  "word_scan True False acc (concat (map quote_char v) @ CHR 0x22 # s) =
    word_scan False False (acc @ concat (map quote_char v) @ [CHR 0x22]) s"
proof (induction v arbitrary: acc)
  case (Cons c v)
  have "word_scan True False acc (quote_char c @ r) = word_scan True False (acc @ quote_char c) r" for r
    by (auto simp: quote_char_def)
  with Cons show ?case by simp
qed simp

lemma print_arg_word:
  assumes "arg_ok kv"
  shows "whole_word (print_arg kv)"
proof -
  have tok: "list_all (\<lambda>c. token_rune (byte c)) (fst kv)" "fst kv \<noteq> []"
    using assms by (auto simp: arg_ok_def safeEventToken_bytes)
  have plain: "list_all (\<lambda>c. c \<noteq> CHR '' '' \<and> c \<noteq> CHR 0x22) (fst kv @ ''='')"
    using tok(1) by (auto simp: list_all_iff token_rune_def)
  have "word_scan False False acc (print_arg kv @ s) = (acc @ print_arg kv, s, False)"
    if "s = [] \<or> hd s = CHR '' ''" for acc s
    using word_scan_plain [OF plain, of acc "quote (snd kv) @ s"] that
      word_scan_quoted [of "(acc @ fst kv @ ''='') @ [CHR 0x22]" "snd kv" s]
      word_scan_stop [OF that]
    by (simp add: print_arg_def quote_def del: append_assoc) (simp add: append_assoc)
  moreover have "hd (print_arg kv) \<noteq> CHR '' ''"
    using plain tok(2) by (cases "fst kv") (auto simp: print_arg_def)
  ultimately show ?thesis by (simp add: whole_word_def print_arg_def)
qed

lemma eventArguments_step:
  assumes "arg_ok (k, v)"
  shows "eventArguments_from m (print_arg (k, v) # ws) = eventArguments_from (m(k \<mapsto> v)) ws"
proof -
  have k: "safeEventToken k" "\<forall>c\<in>set v. byte c < 128 \<and> byte c \<noteq> 10"
    using assms by (auto simp: arg_ok_def)
  have "CHR ''='' \<notin> set k"
    using k(1) by (auto simp: safeEventToken_bytes list_all_iff token_rune_def)
  then have "Cut (CHR ''='') (print_arg (k, v)) = Some (k, quote v)"
    by (simp add: print_arg_def Cut_append)
  moreover have "Unquote (quote v) = Some v"
    using unquote_body_quote [OF k(2)] by (simp add: Unquote_def quote_def)
  moreover have "HasPrefix (quote v) [CHR 0x22]" by (simp add: HasPrefix_def quote_def)
  ultimately show ?thesis using k(1) by simp
qed

lemma eventArguments_from_args:
  "list_all arg_ok kvs \<Longrightarrow> eventArguments_from m (map print_arg kvs) = m ++ map_of (rev kvs)"
proof (induction kvs arbitrary: m)
  case (Cons kv kvs)
  then show ?case by (cases kv) (simp add: eventArguments_step del: eventArguments_from.simps)
qed simp

text \<open>
  C38. Status event arguments survive the control protocol's quoting. A line that prints
  arguments as \<open>key="value"\<close>, separated by spaces, with token keys and arbitrary ASCII
  values, spaces, quotes and backslashes included, is split into exactly these words, and
  looking a key up gives the value it was printed with, of its last occurrence.
\<close>

theorem eventArguments_roundtrip:
  assumes "list_all arg_ok kvs"
  shows "\<exists>ws. controlWords (Join '' '' (map print_arg kvs)) = Inr ws \<and> ws = map print_arg kvs \<and>
    eventArguments ws = map_of (rev kvs)"
proof -
  have "list_all whole_word (map print_arg kvs)"
    using assms by (simp add: list_all_iff print_arg_word)
  then show ?thesis
    using controlWords_from_Join [of "map print_arg kvs" "[]"] eventArguments_from_args [OF assms, of Map.empty]
    by (simp add: controlWords_def eventArguments_def)
qed

theorem eventArguments_roundtrip_witness:
  "\<exists>ws. controlWords (Join '' '' (map print_arg [(''TAG'', ''a b''), (''WARNING'', [CHR 0x22])])) = Inr ws \<and>
     eventArguments ws ''WARNING'' = Some [CHR 0x22]"
proof -
  have "list_all arg_ok [(''TAG'', ''a b''), (''WARNING'', [CHR 0x22])]"
    by (simp add: arg_ok_def safeEventToken_bytes token_rune_def)
  from eventArguments_roundtrip [OF this] show ?thesis by auto
qed

end
