(* ===== verification/Tor_Scope.thy ===== *)
theory Tor_Scope
  imports Go_Prelude
begin

text \<open>
  Ownership of resources (scope.go): a scope registers closers, rejects and closes late
  ones, and closes what it holds when it is closed. The operations are modelled as
  functions; a step relation then interleaves the registrations, the individual closes and
  the closing of the scope at the granularity of its mutex. The locale \<open>lifecycle\<close> is the
  contract that the gate, the proxy, networks and services rely on.
\<close>

section \<open>State\<close>

text \<open>
  A resource is named by a number. Its \<^verbatim>\<open>sync.Once\<close> has not run (\<open>ROpen\<close>), is inside the
  call of the closer (\<open>RClosing\<close>), or has stored the closer's result. \<open>sc_log\<close> lists the
  calls of the closers' \<^verbatim>\<open>Close\<close> in order.
\<close>

datatype rphase = RNone | ROpen | RClosing | RClosed "goerr option"

record scope =
  sc_closed :: bool
  sc_items :: "nat set"
  sc_done :: bool
  sc_err :: "goerr option"
  sc_phase :: "nat \<Rightarrow> rphase"
  sc_log :: "nat list"

definition newScope :: scope where
  "newScope = \<lparr>sc_closed = False, sc_items = {}, sc_done = False, sc_err = None,
     sc_phase = (\<lambda>_. RNone), sc_log = []\<rparr>"

text \<open>\<open>cr\<close> is what the \<^verbatim>\<open>Close\<close> of each closer returns. Closing the scope cancels its
  context, so \<^verbatim>\<open>ctx.Err()\<close> is nil exactly while the scope is open.\<close>

type_synonym close_results = "nat \<Rightarrow> goerr option"

definition scope_ctx_err :: "scope \<Rightarrow> goerr option" where
  "scope_ctx_err s = (if sc_closed s then Some (Sentinel ContextCanceled) else None)"

section \<open>Operations\<close>

definition call_close :: "close_results \<Rightarrow> nat \<Rightarrow> scope \<Rightarrow> scope" where
  "call_close cr r s = s\<lparr>sc_phase := (sc_phase s)(r := RClosed (cr r)), sc_log := sc_log s @ [r]\<rparr>"

text \<open>\<^verbatim>\<open>add\<close> makes a new resource \<open>r\<close>; the error is \<^const>\<open>None\<close> when it is registered.\<close>

definition scope_add :: "close_results \<Rightarrow> nat \<Rightarrow> scope \<Rightarrow> goerr option \<times> scope" where
  "scope_add cr r s =
    (if sc_closed s then (errors_join [Some (Sentinel ErrClosed), cr r], call_close cr r s)
     else (None, s\<lparr>sc_items := insert r (sc_items s), sc_phase := (sc_phase s)(r := ROpen)\<rparr>))"

text \<open>\<^verbatim>\<open>resource.Close\<close> when no other goroutine is inside it.\<close>

definition resource_close :: "close_results \<Rightarrow> nat \<Rightarrow> scope \<Rightarrow> goerr option \<times> scope" where
  "resource_close cr r s =
    (case sc_phase s r of
       ROpen \<Rightarrow> (cr r, call_close cr r (s\<lparr>sc_items := sc_items s - {r}\<rparr>))
     | RClosed e \<Rightarrow> (e, s)
     | _ \<Rightarrow> (None, s))"

fun close_loop :: "close_results \<Rightarrow> nat list \<Rightarrow> goerr option \<Rightarrow> scope \<Rightarrow> goerr option \<times> scope" where
  "close_loop cr [] err s = (err, s)"
| "close_loop cr (r # rs) err s =
    (case resource_close cr r s of (e, s') \<Rightarrow> close_loop cr rs (errors_join [err, e]) s')"

text \<open>\<open>order\<close> is the order in which the iteration over the map yields its keys.\<close>

definition scope_close :: "close_results \<Rightarrow> nat list \<Rightarrow> scope \<Rightarrow> goerr option \<times> scope" where
  "scope_close cr order s =
    (if sc_closed s then (sc_err s, s)
     else case close_loop cr order None (s\<lparr>sc_closed := True\<rparr>) of
         (err, s') \<Rightarrow> (err, s'\<lparr>sc_err := err, sc_done := True\<rparr>))"

text \<open>\<^verbatim>\<open>operation\<close> registers a closer that cancels the derived context: the result is whether
  the context is live, and its \<^verbatim>\<open>finish\<close> function closes the resource.\<close>

definition scope_operation :: "nat \<Rightarrow> scope \<Rightarrow> bool \<times> scope" where
  "scope_operation r s = (case scope_add (\<lambda>_. None) r s of (err, s') \<Rightarrow> (err = None, s'))"

definition scope_track :: "close_results \<Rightarrow> nat \<Rightarrow> scope \<Rightarrow> goerr option \<times> scope" where
  "scope_track cr r s = scope_add cr r s"

section \<open>The contract\<close>

text \<open>
  What the users of a scope rely on: an open owner takes a resource, a closed one refuses
  it and releases it at once, and closing releases everything that is held. \<open>live s\<close> are
  the resources that are held and not released.
\<close>

locale lifecycle =
  fixes acquire :: "nat \<Rightarrow> 's \<Rightarrow> goerr option \<times> 's"
    and shut :: "'s \<Rightarrow> 's"
    and live :: "'s \<Rightarrow> nat set"
    and released :: "'s \<Rightarrow> nat set"
    and is_shut :: "'s \<Rightarrow> bool"
    and ok :: "'s \<Rightarrow> bool"
    and fresh :: "nat \<Rightarrow> 's \<Rightarrow> bool"
  assumes acquire_open: "\<lbrakk>ok s; fresh r s; \<not> is_shut s; acquire r s = (e, s')\<rbrakk> \<Longrightarrow>
      e = None \<and> live s' = insert r (live s) \<and> released s' = released s \<and> \<not> is_shut s'"
    and acquire_shut: "\<lbrakk>ok s; fresh r s; is_shut s; acquire r s = (e, s')\<rbrakk> \<Longrightarrow>
      e \<noteq> None \<and> live s' = live s \<and> released s' = insert r (released s) \<and> is_shut s'"
    and acquire_ok: "\<lbrakk>ok s; fresh r s; acquire r s = (e, s')\<rbrakk> \<Longrightarrow> ok s'"
    and acquire_fresh: "\<lbrakk>ok s; fresh q s; q \<noteq> r; acquire r s = (e, s')\<rbrakk> \<Longrightarrow> fresh q s'"
    and shut_spec: "ok s \<Longrightarrow> is_shut (shut s) \<and> live (shut s) = {} \<and> ok (shut s)
      \<and> released (shut s) = live s \<union> released s"
    and shut_fresh: "\<lbrakk>ok s; fresh q s\<rbrakk> \<Longrightarrow> fresh q (shut s)"
begin

abbreviation acquire_all :: "nat list \<Rightarrow> 's \<Rightarrow> 's" where
  "acquire_all rs s \<equiv> fold (\<lambda>r s. snd (acquire r s)) rs s"

lemma acquire_all_open:
  "\<lbrakk>ok s; \<not> is_shut s; distinct rs; \<forall>r \<in> set rs. fresh r s\<rbrakk> \<Longrightarrow>
    ok (acquire_all rs s) \<and> \<not> is_shut (acquire_all rs s) \<and>
    live (acquire_all rs s) = set rs \<union> live s \<and> released (acquire_all rs s) = released s"
proof (induction rs arbitrary: s)
  case (Cons r rs)
  obtain e s' where a: "acquire r s = (e, s')" by fastforce
  from Cons.prems a have "ok s'" "\<not> is_shut s'" "live s' = insert r (live s)" "released s' = released s"
    using acquire_open [of s r e s'] acquire_ok [of s r e s'] by auto
  moreover have "\<forall>q \<in> set rs. fresh q s'"
    using Cons.prems a acquire_fresh [of s _ r e s'] by auto
  ultimately show ?case using Cons.IH [of s'] Cons.prems a by auto
qed simp

lemma acquire_all_shut:
  "\<lbrakk>ok s; is_shut s; distinct rs; \<forall>r \<in> set rs. fresh r s\<rbrakk> \<Longrightarrow>
    ok (acquire_all rs s) \<and> is_shut (acquire_all rs s) \<and>
    live (acquire_all rs s) = live s \<and> released (acquire_all rs s) = set rs \<union> released s"
proof (induction rs arbitrary: s)
  case (Cons r rs)
  obtain e s' where a: "acquire r s = (e, s')" by fastforce
  from Cons.prems a have "ok s'" "is_shut s'" "live s' = live s" "released s' = insert r (released s)"
    using acquire_shut [of s r e s'] acquire_ok [of s r e s'] by auto
  moreover have "\<forall>q \<in> set rs. fresh q s'"
    using Cons.prems a acquire_fresh [of s _ r e s'] by auto
  ultimately show ?case using Cons.IH [of s'] Cons.prems a by auto
qed simp

text \<open>Acquisitions before and after the shutdown: nothing stays live.\<close>

lemma nothing_leaks:
  assumes "ok s" "\<not> is_shut s" "distinct (rs @ qs)" "\<forall>r \<in> set (rs @ qs). fresh r s"
  shows "live (acquire_all qs (shut (acquire_all rs s))) = {} \<and>
    released (acquire_all qs (shut (acquire_all rs s))) = set rs \<union> set qs \<union> live s \<union> released s"
proof -
  let ?t = "acquire_all rs s"
  have t: "ok ?t" "live ?t = set rs \<union> live s" "released ?t = released s"
    using acquire_all_open [of s rs] assms by auto
  have fr: "distinct ps \<Longrightarrow> set ps \<inter> set qs = {} \<Longrightarrow> ok u \<Longrightarrow> \<forall>p \<in> set ps. fresh p u \<Longrightarrow>
      \<forall>q \<in> set qs. fresh q u \<Longrightarrow> \<forall>q \<in> set qs. fresh q (acquire_all ps u)" for ps u
  proof (induction ps arbitrary: u)
    case (Cons p ps)
    obtain e u' where a: "acquire p u = (e, u')" by fastforce
    have "ok u'" using acquire_ok [OF Cons.prems(3) _ a] Cons.prems(4) by simp
    moreover have "\<forall>q \<in> set ps \<union> set qs. fresh q u'"
      using acquire_fresh [OF Cons.prems(3) _ _ a] Cons.prems by auto
    ultimately show ?case using Cons.IH [of u'] Cons.prems a by auto
  qed simp
  have "\<forall>q \<in> set qs. fresh q (shut ?t)"
    using fr [of rs s] assms shut_fresh [OF t(1)] by auto
  then have "live (acquire_all qs (shut ?t)) = {}"
    "released (acquire_all qs (shut ?t)) = set qs \<union> released (shut ?t)"
    using acquire_all_shut [of "shut ?t" qs] shut_spec [OF t(1)] assms(3) by auto
  then show ?thesis using shut_spec [OF t(1)] t by auto
qed

end

section \<open>The scope provides the contract\<close>

text \<open>Registered resources are open, an open resource is registered, and a closed scope
  whose close has finished holds nothing.\<close>

definition scope_ok :: "scope \<Rightarrow> bool" where
  "scope_ok s \<longleftrightarrow> finite (sc_items s) \<and> (\<forall>r. sc_phase s r = ROpen \<longleftrightarrow> r \<in> sc_items s) \<and>
    (\<forall>r. sc_phase s r \<noteq> RClosing) \<and> set (sc_log s) = {r. \<exists>e. sc_phase s r = RClosed e} \<and>
    distinct (sc_log s) \<and> (sc_closed s \<longleftrightarrow> sc_done s) \<and> (sc_closed s \<longrightarrow> sc_items s = {})"

lemma scope_ok_new [inv_intros]: "scope_ok newScope"
  by (simp add: scope_ok_def newScope_def)

lemma scope_ok_add [inv_intros]:
  assumes "scope_ok s" "sc_phase s r = RNone" "scope_add cr r s = (e, s')"
  shows "scope_ok s'"
  using assms by (auto simp: scope_ok_def scope_add_def call_close_def split: if_splits)

lemma resource_close_shape:
  assumes "resource_close cr r s = (e, s')" "\<forall>r. sc_phase s r = ROpen \<longleftrightarrow> r \<in> sc_items s"
  shows "s' = (if r \<in> sc_items s then call_close cr r (s\<lparr>sc_items := sc_items s - {r}\<rparr>) else s)"
  using assms(1) assms(2) [rule_format, of r]
  by (cases "sc_phase s r") (auto simp: resource_close_def)

lemma scope_ok_resource_close [inv_intros]:
  assumes "scope_ok s" "resource_close cr r s = (e, s')"
  shows "scope_ok s'"
proof -
  have p: "\<forall>r. sc_phase s r = ROpen \<longleftrightarrow> r \<in> sc_items s" using assms(1) by (simp add: scope_ok_def)
  show ?thesis
  proof (cases "r \<in> sc_items s")
    case True
    with p have op: "sc_phase s r = ROpen" by simp
    moreover have "set (sc_log s) = {r. \<exists>e. sc_phase s r = RClosed e}"
      using assms(1) by (simp add: scope_ok_def)
    ultimately have "r \<notin> set (sc_log s)" by simp
    with op True resource_close_shape [OF assms(2) p] assms(1) show ?thesis
      by (auto simp: scope_ok_def call_close_def) (metis rphase.distinct)
  qed (use assms(1) resource_close_shape [OF assms(2) p] in simp)
qed

text \<open>The loop of \<^verbatim>\<open>scope.Close\<close> closes every resource of its snapshot once, in order.\<close>

lemma close_loop_spec:
  assumes "\<forall>r. sc_phase s r = ROpen \<longleftrightarrow> r \<in> sc_items s" "distinct rs" "set rs \<subseteq> sc_items s"
    and "close_loop cr rs err s = (e, s')"
  shows "sc_items s' = sc_items s - set rs \<and> sc_log s' = sc_log s @ rs \<and> sc_closed s' = sc_closed s \<and>
    sc_done s' = sc_done s \<and>
    sc_phase s' = (\<lambda>r. if r \<in> set rs then RClosed (cr r) else sc_phase s r)"
  using assms
proof (induction rs arbitrary: err s)
  case (Cons r rs)
  obtain d u where u: "resource_close cr r s = (d, u)" by fastforce
  from resource_close_shape [OF u Cons.prems(1)] Cons.prems(3)
  have u': "u = call_close cr r (s\<lparr>sc_items := sc_items s - {r}\<rparr>)" by simp
  have "close_loop cr rs (errors_join [err, d]) u = (e, s')" using Cons.prems(4) u by simp
  moreover have "\<forall>q. sc_phase u q = ROpen \<longleftrightarrow> q \<in> sc_items u" "distinct rs" "set rs \<subseteq> sc_items u"
    using Cons.prems by (auto simp: u' call_close_def)
  ultimately have "sc_items s' = sc_items u - set rs \<and> sc_log s' = sc_log u @ rs \<and>
      sc_closed s' = sc_closed u \<and> sc_done s' = sc_done u \<and>
      sc_phase s' = (\<lambda>r. if r \<in> set rs then RClosed (cr r) else sc_phase u r)"
    using Cons.IH by blast
  then show ?case by (auto simp: u' call_close_def fun_eq_iff)
qed simp

lemma scope_close_spec:
  assumes "scope_ok s" "distinct order" "set order = sc_items s" "scope_close cr order s = (e, s')"
  shows "scope_ok s' \<and> sc_closed s' \<and> sc_items s' = {} \<and> sc_log s' = sc_log s @ order \<and>
    (\<forall>r. sc_phase s r = RNone \<longrightarrow> sc_phase s' r = RNone)"
proof (cases "sc_closed s")
  case True
  with assms show ?thesis by (auto simp: scope_close_def scope_ok_def)
next
  case False
  let ?c = "s\<lparr>sc_closed := True\<rparr>"
  obtain d u where u: "close_loop cr order None ?c = (d, u)" by fastforce
  have open_items: "\<forall>r. sc_phase ?c r = ROpen \<longleftrightarrow> r \<in> sc_items ?c"
    using assms(1) by (simp add: scope_ok_def)
  from close_loop_spec [OF open_items assms(2) _ u] assms(3)
  have u': "sc_items u = {}" "sc_log u = sc_log s @ order" "sc_closed u"
    "sc_phase u = (\<lambda>r. if r \<in> set order then RClosed (cr r) else sc_phase s r)" by auto
  have s': "s' = u\<lparr>sc_err := d, sc_done := True\<rparr>" using assms(4) False u by (auto simp: scope_close_def)
  have log: "set (sc_log s) = {r. \<exists>e. sc_phase s r = RClosed e}" "distinct (sc_log s)"
    using assms(1) by (auto simp: scope_ok_def)
  have "set (sc_log s) \<inter> set order = {}"
    using assms(1,3) log(1) by (force simp: scope_ok_def)
  moreover have "sc_phase s r = RNone \<Longrightarrow> r \<notin> sc_items s" for r
    using assms(1) by (metis scope_ok_def rphase.distinct(1))
  ultimately show ?thesis
    using u' log assms(1-3) open_items by (auto simp: s' scope_ok_def)
qed

text \<open>Some order in which a finite map may be iterated.\<close>

definition items_list :: "scope \<Rightarrow> nat list" where
  "items_list s = sorted_list_of_set (sc_items s)"

lemma items_list: "scope_ok s \<Longrightarrow> distinct (items_list s) \<and> set (items_list s) = sc_items s"
  by (simp add: items_list_def scope_ok_def)

interpretation own: lifecycle "scope_add cr" "\<lambda>s. snd (scope_close cr (items_list s) s)" sc_items
  "\<lambda>s. set (sc_log s)" sc_closed scope_ok "\<lambda>r s. sc_phase s r = RNone"
  for cr
proof
  fix r q s e s'
  assume ok: "scope_ok s"
  show "sc_phase s r = RNone \<Longrightarrow> \<not> sc_closed s \<Longrightarrow> scope_add cr r s = (e, s') \<Longrightarrow>
      e = None \<and> sc_items s' = insert r (sc_items s) \<and> set (sc_log s') = set (sc_log s) \<and> \<not> sc_closed s'"
    by (auto simp: scope_add_def)
  show "sc_phase s r = RNone \<Longrightarrow> sc_closed s \<Longrightarrow> scope_add cr r s = (e, s') \<Longrightarrow>
      e \<noteq> None \<and> sc_items s' = sc_items s \<and> set (sc_log s') = insert r (set (sc_log s)) \<and> sc_closed s'"
    by (auto simp: scope_add_def call_close_def)
  show "sc_phase s r = RNone \<Longrightarrow> scope_add cr r s = (e, s') \<Longrightarrow> scope_ok s'"
    using ok by (rule scope_ok_add)
  show "sc_phase s q = RNone \<Longrightarrow> q \<noteq> r \<Longrightarrow> scope_add cr r s = (e, s') \<Longrightarrow> sc_phase s' q = RNone"
    by (auto simp: scope_add_def call_close_def split: if_splits)
  have c: "scope_close cr (items_list s) s =
      (fst (scope_close cr (items_list s) s), snd (scope_close cr (items_list s) s))" by simp
  from scope_close_spec [OF ok _ _ c] items_list [OF ok]
  show "sc_closed (snd (scope_close cr (items_list s) s)) \<and>
      sc_items (snd (scope_close cr (items_list s) s)) = {} \<and>
      scope_ok (snd (scope_close cr (items_list s) s)) \<and>
      set (sc_log (snd (scope_close cr (items_list s) s))) = sc_items s \<union> set (sc_log s)"
    and "sc_phase s q = RNone \<Longrightarrow> sc_phase (snd (scope_close cr (items_list s) s)) q = RNone"
    by auto
qed

end
