(* ===== verification/Tor_Scope_Proofs.thy ===== *)
theory Tor_Scope_Proofs
  imports Tor_Scope
begin

text \<open>
  Scopes under concurrency: registrations, closes of single resources by their owners and
  the close of the scope interleave, with one step for each critical section of the scope and
  for each call of a closer. That the calls end, with the mutex as part of the state, is
  in \<open>Tor_Scope_Locks\<close>.
\<close>

section \<open>Steps\<close>

text \<open>The goroutine that closes the scope: not yet, in the loop over the rest of its
  snapshot with the error joined so far, or done.\<close>

datatype closer = NotClosing | Looping "nat list" "goerr option" | Finished

record ssys =
  ss_scope :: scope
  ss_closer :: closer

definition ss_init :: ssys where
  "ss_init = \<lparr>ss_scope = newScope, ss_closer = NotClosing\<rparr>"

definition on_scope :: "(scope \<Rightarrow> scope) \<Rightarrow> ssys \<Rightarrow> ssys" where
  "on_scope f s = s\<lparr>ss_scope := f (ss_scope s)\<rparr>"

inductive sstep :: "ssys \<Rightarrow> ssys \<Rightarrow> bool" where
  register: "\<lbrakk>sc_phase (ss_scope s) r = RNone; \<not> sc_closed (ss_scope s)\<rbrakk> \<Longrightarrow>
    sstep s (on_scope (\<lambda>c. c\<lparr>sc_items := insert r (sc_items c), sc_phase := (sc_phase c)(r := ROpen)\<rparr>) s)"
| reject: "\<lbrakk>sc_phase (ss_scope s) r = RNone; sc_closed (ss_scope s)\<rbrakk> \<Longrightarrow>
    sstep s (on_scope (\<lambda>c. c\<lparr>sc_phase := (sc_phase c)(r := RClosing)\<rparr>) s)"
| begin_close: "sc_phase (ss_scope s) r = ROpen \<Longrightarrow>
    sstep s (on_scope (\<lambda>c. c\<lparr>sc_items := sc_items c - {r}, sc_phase := (sc_phase c)(r := RClosing)\<rparr>) s)"
| end_close: "sc_phase (ss_scope s) r = RClosing \<Longrightarrow>
    sstep s (on_scope (\<lambda>c. c\<lparr>sc_phase := (sc_phase c)(r := RClosed e), sc_log := sc_log c @ [r]\<rparr>) s)"
| shut: "\<lbrakk>ss_closer s = NotClosing; distinct order; set order = sc_items (ss_scope s)\<rbrakk> \<Longrightarrow>
    sstep s ((on_scope (\<lambda>c. c\<lparr>sc_closed := True\<rparr>) s)\<lparr>ss_closer := Looping order None\<rparr>)"
| advance: "\<lbrakk>ss_closer s = Looping (r # rs) err; sc_phase (ss_scope s) r = RClosed e\<rbrakk> \<Longrightarrow>
    sstep s (s\<lparr>ss_closer := Looping rs (errors_join [err, e])\<rparr>)"
| finish: "ss_closer s = Looping [] err \<Longrightarrow>
    sstep s ((on_scope (\<lambda>c. c\<lparr>sc_err := err, sc_done := True\<rparr>) s)\<lparr>ss_closer := Finished\<rparr>)"

definition scope_inv :: "ssys \<Rightarrow> bool" where
  "scope_inv s \<longleftrightarrow>
    sc_items (ss_scope s) = {r. sc_phase (ss_scope s) r = ROpen} \<and>
    set (sc_log (ss_scope s)) = {r. \<exists>e. sc_phase (ss_scope s) r = RClosed e} \<and>
    distinct (sc_log (ss_scope s)) \<and>
    (case ss_closer s of
       NotClosing \<Rightarrow> \<not> sc_closed (ss_scope s) \<and> \<not> sc_done (ss_scope s)
     | Looping rs err \<Rightarrow> sc_closed (ss_scope s) \<and> \<not> sc_done (ss_scope s) \<and>
         sc_items (ss_scope s) \<subseteq> set rs \<and> (\<forall>r \<in> set rs. sc_phase (ss_scope s) r \<noteq> RNone)
     | Finished \<Rightarrow> sc_closed (ss_scope s) \<and> sc_done (ss_scope s) \<and> sc_items (ss_scope s) = {})"

lemma scope_inv_init: "scope_inv ss_init"
  by (simp add: scope_inv_def ss_init_def newScope_def)

lemma scope_inv_phase:
  assumes "scope_inv s" "sc_phase (ss_scope s) r = p" "p \<noteq> ROpen" "\<And>e. p \<noteq> RClosed e"
  shows "r \<notin> sc_items (ss_scope s)" "r \<notin> set (sc_log (ss_scope s))"
  using assms unfolding scope_inv_def by auto

lemma scope_inv_step:
  assumes "sstep s t" "scope_inv s"
  shows "scope_inv t"
  using assms(1)
proof cases
  case (register r)
  with scope_inv_phase [OF assms(2), of r RNone] assms(2) show ?thesis
    by (auto simp: scope_inv_def on_scope_def split: closer.splits)
next
  case (reject r)
  with scope_inv_phase [OF assms(2), of r RNone] assms(2) show ?thesis
    by (auto simp: scope_inv_def on_scope_def split: closer.splits)
next
  case (begin_close r)
  with assms(2) show ?thesis
    by (auto simp: scope_inv_def on_scope_def split: closer.splits)
next
  case (end_close r e)
  with scope_inv_phase [OF assms(2), of r RClosing] assms(2) show ?thesis
    by (auto simp: scope_inv_def on_scope_def split: closer.splits)
next
  case (advance r rs err e)
  with assms(2) show ?thesis by (auto simp: scope_inv_def)
qed (use assms(2) in \<open>auto simp: scope_inv_def on_scope_def\<close>)

lemma scope_inv_steps: "sstep\<^sup>*\<^sup>* s t \<Longrightarrow> scope_inv s \<Longrightarrow> scope_inv t"
  by (induction rule: rtranclp_induct) (auto intro: scope_inv_step)

text \<open>
  C19. A scope releases every resource exactly once and keeps none. However registrations,
  closes of single resources and the close of the scope interleave, the closer of a resource
  is called at most once; and once the close of the scope has finished, nothing is
  registered, no resource is open, and a later registration is never held open.
\<close>

theorem scope_releases_once:
  assumes "sstep\<^sup>*\<^sup>* ss_init s"
  shows "distinct (sc_log (ss_scope s)) \<and>
    (\<forall>r. (\<exists>e. sc_phase (ss_scope s) r = RClosed e) \<longleftrightarrow> count_list (sc_log (ss_scope s)) r = 1) \<and>
    (sc_done (ss_scope s) \<longrightarrow> sc_items (ss_scope s) = {} \<and> (\<forall>r. sc_phase (ss_scope s) r \<noteq> ROpen))"
proof -
  have inv: "scope_inv s" by (rule scope_inv_steps [OF assms scope_inv_init])
  have log: "distinct (sc_log (ss_scope s))"
    "set (sc_log (ss_scope s)) = {r. \<exists>e. sc_phase (ss_scope s) r = RClosed e}"
    using inv unfolding scope_inv_def by blast+
  have "distinct xs \<Longrightarrow> count_list xs r = 1 \<longleftrightarrow> r \<in> set xs" for xs :: "nat list" and r
    by (induction xs) auto
  from this [OF log(1)] have "count_list (sc_log (ss_scope s)) r = 1 \<longleftrightarrow> r \<in> set (sc_log (ss_scope s))" for r .
  moreover have "sc_done (ss_scope s) \<Longrightarrow> sc_items (ss_scope s) = {}"
    using inv by (auto simp: scope_inv_def split: closer.splits)
  ultimately show ?thesis using inv log by (auto simp: scope_inv_def)
qed

theorem scope_releases_once_witness:
  "\<exists>s. sstep\<^sup>*\<^sup>* ss_init s \<and> sc_done (ss_scope s) \<and> sc_items (ss_scope s) = {}"
proof -
  let ?s1 = "(on_scope (\<lambda>c. c\<lparr>sc_closed := True\<rparr>) ss_init)\<lparr>ss_closer := Looping [] None\<rparr>"
  let ?s2 = "(on_scope (\<lambda>c. c\<lparr>sc_err := None, sc_done := True\<rparr>) ?s1)\<lparr>ss_closer := Finished\<rparr>"
  have "sstep ss_init ?s1" by (rule sstep.shut) (simp_all add: ss_init_def newScope_def)
  moreover have "sstep ?s1 ?s2" by (rule sstep.finish) simp
  ultimately have r: "sstep\<^sup>*\<^sup>* ss_init ?s2" by (meson rtranclp.rtrancl_refl rtranclp.rtrancl_into_rtrancl)
  have "sc_done (ss_scope ?s2)" by (simp add: on_scope_def)
  with r scope_releases_once [OF r] show ?thesis by blast
qed

section \<open>The operations as functions\<close>

text \<open>
  Late acquisitions do not leak. Register any resources with a new scope, close it, and
  try to register more: nothing stays registered, and every resource, early or late, has
  been closed.
\<close>

theorem scope_late_acquisitions:
  assumes "distinct (rs @ qs)"
  shows "let s = fold (\<lambda>r s. snd (scope_add cr r s)) rs newScope;
             t = snd (scope_close cr (items_list s) s);
             u = fold (\<lambda>r s. snd (scope_add cr r s)) qs t
         in sc_items u = {} \<and> set (sc_log u) = set rs \<union> set qs"
  using own.nothing_leaks [of newScope rs qs cr] assms scope_ok_new
  by (simp add: newScope_def Let_def)

theorem scope_late_acquisitions_witness:
  "let s = fold (\<lambda>r s. snd (scope_add (\<lambda>_. None) r s)) [1, 2] newScope;
       t = snd (scope_close (\<lambda>_. None) (items_list s) s);
       u = fold (\<lambda>r s. snd (scope_add (\<lambda>_. None) r s)) [3] t
   in sc_items u = {} \<and> set (sc_log u) = set [1, 2] \<union> set [3]"
  by (rule scope_late_acquisitions) simp

end
