(* ===== verification/Tor_Scope_Locks.thy ===== *)
theory Tor_Scope_Locks
  imports Tor_Scope
begin

text \<open>
  Scopes at the level of their locks (scope.go): the mutex of the scope and the \<^verbatim>\<open>sync.Once\<close> of
  each resource are part of the state, any number of goroutines call \<^verbatim>\<open>add\<close>, \<^verbatim>\<open>resource.Close\<close> and
  \<^verbatim>\<open>scope.Close\<close>, and every acquisition, critical section and call of a closer is a step of its
  own. A goroutine that waits for the mutex, for a \<^verbatim>\<open>Once\<close> that another one runs, for the end of
  another \<^verbatim>\<open>Close\<close> or for a closer that does not return has no step. The theory shows that the
  calls cannot block each other and that all of them end.
\<close>

section \<open>State\<close>

text \<open>The scope with the goroutine that holds its mutex.\<close>

record mscope = scope +
  mu :: "nat option"

definition mlock :: "nat \<Rightarrow> mscope \<Rightarrow> mscope option" where
  "mlock g s = (if mu s = None then Some (s\<lparr>mu := Some g\<rparr>) else None)"

definition munlock :: "mscope \<Rightarrow> mscope" where
  "munlock s = s\<lparr>mu := None\<rparr>"

definition set_phase :: "nat \<Rightarrow> rphase \<Rightarrow> mscope \<Rightarrow> mscope" where
  "set_phase r p s = s\<lparr>sc_phase := (sc_phase s)(r := p)\<rparr>"

text \<open>The \<^verbatim>\<open>Close\<close> of the closer of a resource returned.\<close>

definition closer_returned :: "close_results \<Rightarrow> nat \<Rightarrow> mscope \<Rightarrow> mscope" where
  "closer_returned cr r s = set_phase r (RClosed (cr r)) (s\<lparr>sc_log := sc_log s @ [r]\<rparr>)"

text \<open>
  Where a goroutine is. A call of \<^verbatim>\<open>resource.Close\<close> returns to the owner of the resource or
  to the loop of \<^verbatim>\<open>scope.Close\<close>, which has the rest of its snapshot and the error so far.
\<close>

datatype caller = Owner | CloseLoop "nat list" "goerr option"

datatype point =
    Idle
  | AddLock nat | AddHeld nat | AddCloser nat
  | ResOnce nat caller | ResLock nat caller | ResHeld nat caller | ResCloser nat caller
  | ScopeLock | ScopeHeld | ScopeLoop "nat list" "goerr option"
  | StoreLock "goerr option" | StoreHeld "goerr option" | DoneClose
  | AwaitDone | ReadLock | ReadHeld

definition return_to :: "caller \<Rightarrow> goerr option \<Rightarrow> point" where
  "return_to k e = (case k of Owner \<Rightarrow> Idle | CloseLoop rs err \<Rightarrow> ScopeLoop rs (errors_join [err, e]))"

datatype call = CallAdd nat | CallClose nat | CallScopeClose

fun enter :: "call \<Rightarrow> point" where
  "enter (CallAdd r) = AddLock r"
| "enter (CallClose r) = ResOnce r Owner"
| "enter CallScopeClose = ScopeLock"

section \<open>Steps\<close>

text \<open>
  One step of goroutine \<open>g\<close>, or \<^const>\<open>None\<close> when it has to wait. \<open>order\<close> is the order in which the map
  of resources is iterated when the snapshot is taken; \<open>returns\<close> tells which closers return.
  A resource that was never registered has no handle, so that \<^verbatim>\<open>Close\<close> is not called.
\<close>

fun point_step ::
  "close_results \<Rightarrow> (nat \<Rightarrow> bool) \<Rightarrow> nat list \<Rightarrow> nat \<Rightarrow> point \<Rightarrow> mscope \<Rightarrow> (point \<times> mscope) option" where
  "point_step cr returns order g Idle s = None"
| "point_step cr returns order g (AddLock r) s = map_option (Pair (AddHeld r)) (mlock g s)"
| "point_step cr returns order g (AddHeld r) s =
    Some (if sc_closed s then (AddCloser r, munlock s)
          else (Idle, munlock (set_phase r ROpen (s\<lparr>sc_items := insert r (sc_items s)\<rparr>))))"
| "point_step cr returns order g (AddCloser r) s = (if returns r then Some (Idle, closer_returned cr r s) else None)"
| "point_step cr returns order g (ResOnce r k) s =
    (case sc_phase s r of
       ROpen \<Rightarrow> Some (ResLock r k, set_phase r RClosing s)
     | RClosing \<Rightarrow> None
     | RClosed e \<Rightarrow> Some (return_to k e, s)
     | RNone \<Rightarrow> Some (return_to k None, s))"
| "point_step cr returns order g (ResLock r k) s = map_option (Pair (ResHeld r k)) (mlock g s)"
| "point_step cr returns order g (ResHeld r k) s = Some (ResCloser r k, munlock (s\<lparr>sc_items := sc_items s - {r}\<rparr>))"
| "point_step cr returns order g (ResCloser r k) s =
    (if returns r then Some (return_to k (cr r), closer_returned cr r s) else None)"
| "point_step cr returns order g ScopeLock s = map_option (Pair ScopeHeld) (mlock g s)"
| "point_step cr returns order g ScopeHeld s =
    (if sc_closed s then Some (AwaitDone, munlock s)
     else if distinct order \<and> set order = sc_items s
     then Some (ScopeLoop order None, munlock (s\<lparr>sc_closed := True\<rparr>))
     else None)"
| "point_step cr returns order g (ScopeLoop [] err) s = Some (StoreLock err, s)"
| "point_step cr returns order g (ScopeLoop (r # rs) err) s = Some (ResOnce r (CloseLoop rs err), s)"
| "point_step cr returns order g (StoreLock err) s = map_option (Pair (StoreHeld err)) (mlock g s)"
| "point_step cr returns order g (StoreHeld err) s = Some (DoneClose, munlock (s\<lparr>sc_err := err\<rparr>))"
| "point_step cr returns order g DoneClose s = Some (Idle, s\<lparr>sc_done := True\<rparr>)"
| "point_step cr returns order g AwaitDone s = (if sc_done s then Some (ReadLock, s) else None)"
| "point_step cr returns order g ReadLock s = map_option (Pair ReadHeld) (mlock g s)"
| "point_step cr returns order g ReadHeld s = Some (Idle, munlock s)"

text \<open>The goroutines with the calls that each of them still makes.\<close>

record lsys =
  ls_scope :: mscope
  ls_threads :: "(point \<times> call list) list"

inductive lstep :: "close_results \<Rightarrow> (nat \<Rightarrow> bool) \<Rightarrow> lsys \<Rightarrow> lsys \<Rightarrow> bool" for cr returns where
  call: "\<lbrakk>g < length (ls_threads s); ls_threads s ! g = (Idle, c # cs)\<rbrakk> \<Longrightarrow>
    lstep cr returns s \<lparr>ls_scope = ls_scope s, ls_threads = (ls_threads s)[g := (enter c, cs)]\<rparr>"
| move: "\<lbrakk>g < length (ls_threads s); ls_threads s ! g = (p, cs);
     point_step cr returns order g p (ls_scope s) = Some (q, t)\<rbrakk> \<Longrightarrow>
    lstep cr returns s \<lparr>ls_scope = t, ls_threads = (ls_threads s)[g := (q, cs)]\<rparr>"

definition lstart :: "call list list \<Rightarrow> lsys" where
  "lstart progs = \<lparr>ls_scope = \<lparr>sc_closed = False, sc_items = {}, sc_done = False, sc_err = None,
     sc_phase = (\<lambda>_. RNone), sc_log = [], mu = None\<rparr>, ls_threads = map (Pair Idle) progs\<rparr>"


section \<open>The invariant\<close>

text \<open>Where goroutine \<open>g\<close> is, and the resources that it still adds.\<close>

definition at_point :: "lsys \<Rightarrow> nat \<Rightarrow> point" where
  "at_point s g = (if g < length (ls_threads s) then fst (ls_threads s ! g) else Idle)"

fun adding :: "point \<Rightarrow> nat list" where
  "adding (AddLock r) = [r]"
| "adding (AddHeld r) = [r]"
| "adding (AddCloser r) = [r]"
| "adding _ = []"

fun call_adds :: "call list \<Rightarrow> nat list" where
  "call_adds [] = []"
| "call_adds (CallAdd r # cs) = r # call_adds cs"
| "call_adds (_ # cs) = call_adds cs"

definition to_add :: "lsys \<Rightarrow> nat \<Rightarrow> nat list" where
  "to_add s g = (if g < length (ls_threads s)
     then adding (fst (ls_threads s ! g)) @ call_adds (snd (ls_threads s ! g)) else [])"

fun holds_mutex :: "point \<Rightarrow> bool" where
  "holds_mutex (AddHeld _) = True"
| "holds_mutex (ResHeld _ _) = True"
| "holds_mutex ScopeHeld = True"
| "holds_mutex (StoreHeld _) = True"
| "holds_mutex ReadHeld = True"
| "holds_mutex _ = False"

text \<open>The goroutine is inside the \<^verbatim>\<open>Once\<close> of the resource.\<close>

fun in_once :: "nat \<Rightarrow> point \<Rightarrow> bool" where
  "in_once q (ResLock r _) = (q = r)"
| "in_once q (ResHeld r _) = (q = r)"
| "in_once q (ResCloser r _) = (q = r)"
| "in_once q _ = False"

fun in_loop :: "caller \<Rightarrow> bool" where
  "in_loop Owner = False"
| "in_loop (CloseLoop _ _) = True"

text \<open>The goroutine runs the first \<^verbatim>\<open>Close\<close> of the scope.\<close>

fun closing_scope :: "point \<Rightarrow> bool" where
  "closing_scope (ResOnce _ k) = in_loop k"
| "closing_scope (ResLock _ k) = in_loop k"
| "closing_scope (ResHeld _ k) = in_loop k"
| "closing_scope (ResCloser _ k) = in_loop k"
| "closing_scope (ScopeLoop _ _) = True"
| "closing_scope (StoreLock _) = True"
| "closing_scope (StoreHeld _) = True"
| "closing_scope DoneClose = True"
| "closing_scope _ = False"

text \<open>What the goroutine still takes out of the map.\<close>

fun loop_rest :: "caller \<Rightarrow> nat set" where
  "loop_rest Owner = {}"
| "loop_rest (CloseLoop rs _) = set rs"

fun to_delete :: "point \<Rightarrow> nat set" where
  "to_delete (ResOnce r k) = insert r (loop_rest k)"
| "to_delete (ResLock r k) = insert r (loop_rest k)"
| "to_delete (ResHeld r k) = insert r (loop_rest k)"
| "to_delete (ResCloser _ k) = loop_rest k"
| "to_delete (ScopeLoop rs _) = set rs"
| "to_delete _ = {}"

definition mutex_inv :: "(nat \<Rightarrow> point) \<Rightarrow> mscope \<Rightarrow> bool" where
  "mutex_inv p s \<longleftrightarrow> (\<forall>g. holds_mutex (p g) \<longleftrightarrow> mu s = Some g)"

definition once_inv :: "(nat \<Rightarrow> point) \<Rightarrow> mscope \<Rightarrow> bool" where
  "once_inv p s \<longleftrightarrow> (\<forall>g r. in_once r (p g) \<longrightarrow> sc_phase s r = RClosing) \<and>
    (\<forall>g h r. in_once r (p g) \<and> in_once r (p h) \<longrightarrow> g = h) \<and>
    (\<forall>r. sc_phase s r = RClosing \<longrightarrow> (\<exists>g. in_once r (p g)))"

definition items_inv :: "(nat \<Rightarrow> point) \<Rightarrow> mscope \<Rightarrow> bool" where
  "items_inv p s \<longleftrightarrow> finite (sc_items s) \<and> (\<forall>r \<in> sc_items s. sc_phase s r = ROpen \<or> sc_phase s r = RClosing) \<and>
    (\<forall>r. sc_phase s r = ROpen \<longrightarrow> r \<in> sc_items s) \<and>
    (\<forall>g r k. p g = ResCloser r k \<longrightarrow> r \<notin> sc_items s) \<and>
    (sc_closed s \<longrightarrow> sc_items s \<subseteq> (\<Union>g. to_delete (p g)))"

definition close_inv :: "(nat \<Rightarrow> point) \<Rightarrow> mscope \<Rightarrow> bool" where
  "close_inv p s \<longleftrightarrow> (sc_closed s \<and> \<not> sc_done s \<longrightarrow> (\<exists>g. closing_scope (p g))) \<and>
    (\<forall>g. p g = AwaitDone \<longrightarrow> sc_closed s)"

definition log_inv :: "mscope \<Rightarrow> bool" where
  "log_inv s \<longleftrightarrow> set (sc_log s) = {r. \<exists>e. sc_phase s r = RClosed e} \<and> distinct (sc_log s)"

definition add_inv :: "nat set \<Rightarrow> (nat \<Rightarrow> nat list) \<Rightarrow> mscope \<Rightarrow> bool" where
  "add_inv A ws s \<longleftrightarrow> (\<forall>g. distinct (ws g)) \<and> (\<forall>g h. g \<noteq> h \<longrightarrow> set (ws g) \<inter> set (ws h) = {}) \<and>
    (\<forall>g. \<forall>r \<in> set (ws g). sc_phase s r = RNone) \<and>
    A = (\<Union>g. set (ws g)) \<union> {r. sc_phase s r \<noteq> RNone}"

definition lock_inv :: "nat set \<Rightarrow> lsys \<Rightarrow> bool" where
  "lock_inv A s \<longleftrightarrow> mutex_inv (at_point s) (ls_scope s) \<and> once_inv (at_point s) (ls_scope s) \<and>
    items_inv (at_point s) (ls_scope s) \<and> close_inv (at_point s) (ls_scope s) \<and> log_inv (ls_scope s) \<and>
    add_inv A (to_add s) (ls_scope s)"

lemmas mutex_defs = mlock_def munlock_def set_phase_def closer_returned_def return_to_def

fun_cases point_stepE: "point_step cr returns order g p s = Some (q, t)"

lemmas step_simps = mutex_defs fun_upd_apply

lemma mutex_step:
  assumes "point_step cr returns order g (p g) s = Some (q, t)" "mutex_inv p s"
  shows "mutex_inv (p(g := q)) t"
proof -
  have h: "holds_mutex (p h) \<longleftrightarrow> mu s = Some h" for h using assms(2) by (simp add: mutex_inv_def)
  have "mu t = (if holds_mutex q then Some g else if holds_mutex (p g) then None else mu s) \<and>
      (holds_mutex q \<longrightarrow> mu s = None)"
    using assms(1) h [of g]
    by (elim point_stepE) (auto simp: mutex_defs split: if_splits rphase.splits caller.splits)
  then show ?thesis unfolding mutex_inv_def using h by (auto split: if_splits)
qed

text \<open>A step enters the \<^verbatim>\<open>Once\<close> of an open resource, leaves one, or changes nothing of them.\<close>

lemma once_moves:
  assumes "point_step cr returns order g x s = Some (q, t)" "\<forall>r \<in> set (adding x). sc_phase s r = RNone"
  obtains "\<forall>r. in_once r q = in_once r x" "\<forall>r. sc_phase t r = RClosing \<longleftrightarrow> sc_phase s r = RClosing"
    | (enters) r0 where "sc_phase s r0 = ROpen" "\<forall>r. in_once r q \<longleftrightarrow> r = r0" "\<forall>r. \<not> in_once r x"
        "\<forall>r. sc_phase t r = RClosing \<longleftrightarrow> r = r0 \<or> sc_phase s r = RClosing"
    | (leaves) r0 where "\<forall>r. in_once r x \<longleftrightarrow> r = r0" "\<forall>r. \<not> in_once r q"
        "\<forall>r. sc_phase t r = RClosing \<longleftrightarrow> r \<noteq> r0 \<and> sc_phase s r = RClosing"
proof (cases "\<exists>r k. x = ResCloser r k")
  case True
  then obtain r k where "x = ResCloser r k" by blast
  with assms(1) show thesis by (intro leaves [of r]) (auto simp: step_simps split: if_splits caller.splits)
next
  case False
  then show thesis using assms(1)
    by (elim point_stepE) (use assms(2) that in \<open>auto simp: step_simps split: if_splits rphase.splits caller.splits\<close>)
qed

lemma once_step:
  assumes "point_step cr returns order g (p g) s = Some (q, t)" "once_inv p s"
    and "\<forall>r \<in> set (adding (p g)). sc_phase s r = RNone"
  shows "once_inv (p(g := q)) t"
proof -
  have i: "in_once r (p h) \<Longrightarrow> sc_phase s r = RClosing" "in_once r (p h) \<Longrightarrow> in_once r (p i) \<Longrightarrow> h = i"
    "sc_phase s r = RClosing \<Longrightarrow> \<exists>g. in_once r (p g)" for h i r
    using assms(2) unfolding once_inv_def by blast+
  from assms(1,3) show ?thesis
  proof (cases rule: once_moves)
    case 1
    then have same: "in_once r ((p(g := q)) h) = in_once r (p h)" for h r by simp
    show ?thesis using assms(2) 1(2) unfolding once_inv_def same by simp
  next
    case (enters r0)
    have new: "\<not> in_once r0 (p h)" for h using i(1) enters(1) by fastforce
    have o: "in_once r ((p(g := q)) h) \<longleftrightarrow> in_once r (p h) \<or> h = g \<and> r = r0" for h r using enters(2,3) by auto
    have "h = h'" if "in_once r ((p(g := q)) h)" "in_once r ((p(g := q)) h')" for h h' r
      using that i(2) new unfolding o by blast
    moreover have "\<exists>h. in_once r ((p(g := q)) h)" if "sc_phase t r = RClosing" for r
      using that enters(4) i(3) [of r] unfolding o by blast
    moreover have "sc_phase t r = RClosing" if "in_once r ((p(g := q)) h)" for h r
      using that enters(4) i(1) [of r h] unfolding o by blast
    ultimately show ?thesis unfolding once_inv_def by (intro conjI allI impI) blast+
  next
    case (leaves r0)
    have "\<not> in_once r0 (p h)" if "h \<noteq> g" for h using i(2) [of r0 h g] leaves(1) that by blast
    then have o: "in_once r ((p(g := q)) h) \<longleftrightarrow> in_once r (p h) \<and> r \<noteq> r0" for h r using leaves(1,2) by auto
    have "\<exists>h. in_once r ((p(g := q)) h)" if "sc_phase t r = RClosing" for r
      using that leaves(3) i(3) [of r] unfolding o by blast
    moreover have "sc_phase t r = RClosing" if "in_once r ((p(g := q)) h)" for h r
      using that leaves(3) i(1) [of r h] unfolding o by blast
    moreover have "h = h'" if "in_once r ((p(g := q)) h)" "in_once r ((p(g := q)) h')" for h h' r
      using that i(2) [of r h h'] unfolding o by blast
    ultimately show ?thesis unfolding once_inv_def by (intro conjI allI impI) blast+
  qed
qed

text \<open>What a step does to the map: it adds the resource that the goroutine adds, or takes some out
  that the goroutine was to delete.\<close>

lemma items_moves:
  assumes "point_step cr returns order g x s = Some (q, t)"
  shows "sc_items t \<subseteq> sc_items s \<union> set (adding x)" "finite (sc_items s) \<Longrightarrow> finite (sc_items t)"
    "q = ResCloser r k \<Longrightarrow> r \<notin> sc_items t"
    "sc_closed t \<Longrightarrow> sc_closed s \<and> sc_items t \<subseteq> sc_items s \<or> sc_items t \<subseteq> to_delete q"
    "r \<in> sc_items t \<Longrightarrow> r \<in> to_delete x \<Longrightarrow> r \<in> to_delete q \<or> (\<exists>e. sc_phase s r = RClosed e) \<or> sc_phase s r = RNone"
proof -
  show "sc_items t \<subseteq> sc_items s \<union> set (adding x)" using assms
    by (elim point_stepE) (auto simp: step_simps split: if_splits rphase.splits caller.splits)
  then show "finite (sc_items s) \<Longrightarrow> finite (sc_items t)" by (rule finite_subset) simp
  show "q = ResCloser r k \<Longrightarrow> r \<notin> sc_items t" using assms
    by (elim point_stepE) (auto simp: step_simps split: if_splits rphase.splits caller.splits)
  show "sc_closed t \<Longrightarrow> sc_closed s \<and> sc_items t \<subseteq> sc_items s \<or> sc_items t \<subseteq> to_delete q" using assms
    by (elim point_stepE) (auto simp: step_simps split: if_splits rphase.splits caller.splits)
  show "r \<in> sc_items t \<Longrightarrow> r \<in> to_delete x \<Longrightarrow> r \<in> to_delete q \<or> (\<exists>e. sc_phase s r = RClosed e) \<or> sc_phase s r = RNone"
    using assms by (elim point_stepE) (auto simp: step_simps split: if_splits rphase.splits caller.splits)
qed

lemma items_phases:
  assumes "point_step cr returns order g (p g) s = Some (q, t)" "items_inv p s" "once_inv p s"
    and "\<forall>r \<in> set (adding (p g)). sc_phase s r = RNone"
  shows "\<forall>r \<in> sc_items t. sc_phase t r = ROpen \<or> sc_phase t r = RClosing" "\<forall>r. sc_phase t r = ROpen \<longrightarrow> r \<in> sc_items t"
proof -
  have i: "r \<in> sc_items s \<Longrightarrow> sc_phase s r = ROpen \<or> sc_phase s r = RClosing" "sc_phase s r = ROpen \<Longrightarrow> r \<in> sc_items s"
    "p g = ResCloser r k \<Longrightarrow> r \<notin> sc_items s" "in_once r (p g) \<Longrightarrow> sc_phase s r = RClosing"
    "sc_phase s r = RNone \<Longrightarrow> r \<notin> sc_items s" for r k
    using assms(2,3) unfolding items_inv_def once_inv_def by (blast, blast, blast, blast, fastforce)
  show "\<forall>r \<in> sc_items t. sc_phase t r = ROpen \<or> sc_phase t r = RClosing"
    using assms(1) by (elim point_stepE) (use assms(4) i in \<open>auto simp: step_simps split: if_splits rphase.splits caller.splits\<close>)
  show "\<forall>r. sc_phase t r = ROpen \<longrightarrow> r \<in> sc_items t"
    using assms(1) by (elim point_stepE) (use assms(4) i in \<open>auto simp: step_simps split: if_splits rphase.splits caller.splits\<close>)
qed

lemma items_step:
  assumes "point_step cr returns order g (p g) s = Some (q, t)" "items_inv p s" "once_inv p s"
    and "\<forall>r \<in> set (adding (p g)). sc_phase s r = RNone"
  shows "items_inv (p(g := q)) t"
proof -
  note m = items_moves [OF assms(1)]
  have ph: "r \<in> sc_items s \<Longrightarrow> sc_phase s r = ROpen \<or> sc_phase s r = RClosing" for r
    using assms(2) unfolding items_inv_def by blast
  have "r \<notin> sc_items t" if "(p(g := q)) h = ResCloser r k" for h r k
  proof (cases "h = g")
    case False
    then have h: "p h = ResCloser r k" using that by simp
    then have "sc_phase s r = RClosing" using assms(3) unfolding once_inv_def by (metis in_once.simps(3))
    moreover have "r \<notin> sc_items s" using assms(2) h unfolding items_inv_def by blast
    ultimately show ?thesis using m(1) assms(4) by fastforce
  qed (use m(3) that in auto)
  moreover have "sc_items t \<subseteq> (\<Union>h. to_delete ((p(g := q)) h))" if c: "sc_closed t"
  proof
    fix r
    assume r: "r \<in> sc_items t"
    consider "r \<in> to_delete q" | "sc_closed s" "r \<in> sc_items s" using m(4) [OF c] r by blast
    then show "r \<in> (\<Union>h. to_delete ((p(g := q)) h))"
    proof cases
      case 2
      then obtain h where h: "r \<in> to_delete (p h)" using assms(2) unfolding items_inv_def by blast
      show ?thesis
      proof (cases "h = g")
        case True
        then have "r \<in> to_delete q" using m(5) [OF r] h ph [OF 2(2)] by auto
        then show ?thesis by (metis UN_I UNIV_I fun_upd_same)
      qed (use h in \<open>metis UN_I UNIV_I fun_upd_other\<close>)
    qed (metis UN_I UNIV_I fun_upd_same)
  qed
  moreover have "finite (sc_items t)" using m(2) assms(2) by (simp add: items_inv_def)
  ultimately show ?thesis unfolding items_inv_def using items_phases [OF assms] by blast
qed

lemma close_step:
  assumes "point_step cr returns order g (p g) s = Some (q, t)" "close_inv p s"
  shows "close_inv (p(g := q)) t"
proof -
  have "sc_closed t \<and> \<not> sc_done t \<Longrightarrow> closing_scope q \<or> sc_closed s \<and> \<not> sc_done s \<and> \<not> closing_scope (p g)"
    using assms(1) by (elim point_stepE) (auto simp: step_simps split: if_splits rphase.splits caller.splits)
  moreover have "sc_closed s \<Longrightarrow> sc_closed t" "q = AwaitDone \<Longrightarrow> sc_closed t"
    using assms(1) by (elim point_stepE, auto simp: step_simps split: if_splits rphase.splits caller.splits)+
  ultimately show ?thesis using assms(2) unfolding close_inv_def by (metis fun_upd_apply)
qed

lemma log_step:
  assumes "point_step cr returns order g (p g) s = Some (q, t)" "log_inv s" "once_inv p s"
    and "\<forall>r \<in> set (adding (p g)). sc_phase s r = RNone"
  shows "log_inv t"
proof -
  have i: "in_once r (p g) \<Longrightarrow> sc_phase s r = RClosing" for r using assms(3) unfolding once_inv_def by blast
  have n: "\<exists>r. r \<notin> set (sc_log s) \<and> sc_log t = sc_log s @ [r] \<and> sc_phase t = (sc_phase s)(r := RClosed (cr r))"
    if "sc_log t \<noteq> sc_log s"
    using assms(1) that
    by (elim point_stepE) (use assms(2,4) i in \<open>auto simp: log_inv_def step_simps split: if_splits rphase.splits caller.splits\<close>)
  have e: "sc_phase t r = RClosed e \<longleftrightarrow> sc_phase s r = RClosed e" if "sc_log t = sc_log s" for r e
    using assms(1) that
    by (elim point_stepE) (use assms(4) i in \<open>auto simp: step_simps split: if_splits rphase.splits caller.splits\<close>)
  show ?thesis
  proof (cases "sc_log t = sc_log s")
    case True
    then show ?thesis using assms(2) e by (simp add: log_inv_def)
  qed (use n assms(2) in \<open>fastforce simp: log_inv_def\<close>)
qed

text \<open>A step adds the resource that the goroutine was to add, or leaves the names alone.\<close>

lemma add_moves:
  assumes "point_step cr returns order g x s = Some (q, t)" "\<forall>r. in_once r x \<longrightarrow> sc_phase s r = RClosing"
  obtains "adding q = adding x" "\<forall>r. sc_phase t r = RNone \<longleftrightarrow> sc_phase s r = RNone"
    | r0 where "adding x = [r0]" "adding q = []" "\<forall>r. sc_phase t r = RNone \<longleftrightarrow> r \<noteq> r0 \<and> sc_phase s r = RNone"
proof (cases "adding q = adding x")
  case True
  have "\<forall>r. sc_phase t r = RNone \<longleftrightarrow> sc_phase s r = RNone"
    using assms(1) by (elim point_stepE) (use assms(2) True in \<open>auto simp: step_simps split: if_splits rphase.splits caller.splits\<close>)
  then show thesis using True that(1) by blast
next
  case False
  then have "\<exists>r0. adding x = [r0] \<and> adding q = [] \<and> (\<forall>r. sc_phase t r = RNone \<longleftrightarrow> r \<noteq> r0 \<and> sc_phase s r = RNone)"
    using assms(1) by (elim point_stepE) (auto simp: step_simps split: if_splits rphase.splits caller.splits)
  then show thesis using that(2) by blast
qed

lemma add_step:
  assumes "point_step cr returns order g (p g) s = Some (q, t)" "add_inv A ws s" "once_inv p s"
    and "ws g = adding (p g) @ cs"
  shows "add_inv A (ws(g := adding q @ cs)) t"
proof -
  have "\<forall>r. in_once r (p g) \<longrightarrow> sc_phase s r = RClosing" using assms(3) unfolding once_inv_def by blast
  with assms(1) show ?thesis
  proof (cases rule: add_moves)
    case 1
    then have "ws(g := adding q @ cs) = ws" using assms(4) by auto
    then show ?thesis using assms(2) 1(2) by (simp add: add_inv_def)
  next
    case (2 r0)
    let ?ws = "ws(g := adding q @ cs)"
    have g: "ws g = r0 # cs" "?ws g = cs" using assms(4) 2 by simp_all
    have i: "distinct (ws h)" "h \<noteq> h' \<Longrightarrow> set (ws h) \<inter> set (ws h') = {}" "r \<in> set (ws h) \<Longrightarrow> sc_phase s r = RNone"
      "A = (\<Union>g. set (ws g)) \<union> {r. sc_phase s r \<noteq> RNone}" for h h' r
      using assms(2) unfolding add_inv_def by blast+
    have sub: "set (?ws h) = set (ws h) - {r0}" for h
      using g i(1) [of g] i(2) [of h g] by (cases "h = g") auto
    have "distinct (?ws h)" for h using i(1) [of h] i(1) [of g] g by (cases "h = g") auto
    moreover have "(\<Union>h. set (?ws h)) \<union> {r. sc_phase t r \<noteq> RNone} = (\<Union>g. set (ws g)) \<union> {r. sc_phase s r \<noteq> RNone}"
    proof -
      have "r0 \<in> (\<Union>g. set (ws g))" using g(1) by (metis UN_I UNIV_I list.set_intros(1))
      then show ?thesis unfolding sub using 2(3) by auto
    qed
    moreover have "(set (ws h) - {r0}) \<inter> (set (ws h') - {r0}) = {}" if "h \<noteq> h'" for h h' using i(2) [OF that] by blast
    moreover have "sc_phase t r = RNone" if "r \<in> set (ws h) - {r0}" for h r using that i(3) [of r h] 2(3) by simp
    ultimately show ?thesis unfolding add_inv_def sub i(4) by (intro conjI allI impI ballI) (assumption | simp)+
  qed
qed

section \<open>The whole system\<close>

lemma at_point_move:
  "g < length (ls_threads s) \<Longrightarrow>
    at_point \<lparr>ls_scope = t, ls_threads = (ls_threads s)[g := (q, cs)]\<rparr> = (at_point s)(g := q)"
  by (auto simp: at_point_def fun_eq_iff nth_list_update)

lemma to_add_move:
  "g < length (ls_threads s) \<Longrightarrow>
    to_add \<lparr>ls_scope = t, ls_threads = (ls_threads s)[g := (q, cs)]\<rparr> = (to_add s)(g := adding q @ call_adds cs)"
  by (auto simp: to_add_def fun_eq_iff nth_list_update)

lemma enter_quiet:
  "adding (enter c) @ call_adds cs = call_adds (c # cs)" "\<not> holds_mutex (enter c)" "\<not> in_once r (enter c)"
  "\<not> closing_scope (enter c)" "enter c \<noteq> ResCloser r k" "enter c \<noteq> AwaitDone"
  by (cases c; simp)+

lemma call_inv:
  assumes "lock_inv A s" "g < length (ls_threads s)" "ls_threads s ! g = (Idle, c # cs)"
  shows "lock_inv A \<lparr>ls_scope = ls_scope s, ls_threads = (ls_threads s)[g := (enter c, cs)]\<rparr>"
proof -
  let ?s = "\<lparr>ls_scope = ls_scope s, ls_threads = (ls_threads s)[g := (enter c, cs)]\<rparr>"
  have idle: "at_point s g = Idle" "to_add s g = call_adds (c # cs)" using assms(2,3) by (simp_all add: at_point_def to_add_def)
  have p: "at_point ?s = (at_point s)(g := enter c)" by (rule at_point_move [OF assms(2)])
  have "to_add ?s = to_add s" unfolding to_add_move [OF assms(2)] enter_quiet(1) using idle(2) by auto
  moreover have "mutex_inv (at_point ?s) (ls_scope s)" "once_inv (at_point ?s) (ls_scope s)" "close_inv (at_point ?s) (ls_scope s)"
    unfolding p using assms(1) idle(1)
    by (auto simp: lock_inv_def mutex_inv_def once_inv_def close_inv_def enter_quiet; metis holds_mutex.simps(6) in_once.simps(4) closing_scope.simps(9))+
  moreover have "items_inv (at_point ?s) (ls_scope s)"
  proof -
    have "to_delete (at_point s h) \<subseteq> to_delete ((at_point ?s) h)" for h unfolding p using idle(1) by simp
    then have "(\<Union>h. to_delete (at_point s h)) \<subseteq> (\<Union>h. to_delete (at_point ?s h))" by blast
    then show ?thesis using assms(1) unfolding lock_inv_def items_inv_def p by (auto simp: enter_quiet)
  qed
  ultimately show ?thesis using assms(1) by (simp add: lock_inv_def)
qed

lemma lock_inv_step:
  assumes "lstep cr returns s s'" "lock_inv A s"
  shows "lock_inv A s'"
  using assms(1)
proof cases
  case (call g c cs)
  then show ?thesis using call_inv [OF assms(2)] by simp
next
  case (move g p cs order q t)
  have p: "at_point s g = p" "to_add s g = adding p @ call_adds cs" using move(2,3) by (simp_all add: at_point_def to_add_def)
  have st: "point_step cr returns order g (at_point s g) (ls_scope s) = Some (q, t)" using move(4) p(1) by simp
  have i: "mutex_inv (at_point s) (ls_scope s)" "once_inv (at_point s) (ls_scope s)" "items_inv (at_point s) (ls_scope s)"
    "close_inv (at_point s) (ls_scope s)" "log_inv (ls_scope s)" "add_inv A (to_add s) (ls_scope s)"
    using assms(2) by (simp_all add: lock_inv_def)
  have n: "\<forall>r \<in> set (adding (at_point s g)). sc_phase (ls_scope s) r = RNone"
    using i(6) p unfolding add_inv_def by (metis UnCI set_append)
  have w: "to_add s g = adding (at_point s g) @ call_adds cs" using p by simp
  show ?thesis
    unfolding lock_inv_def move(1) at_point_move [OF move(2)] to_add_move [OF move(2)] lsys.select_convs
    using mutex_step [where p = "at_point s", OF st i(1)] once_step [where p = "at_point s", OF st i(2) n]
      items_step [where p = "at_point s", OF st i(3,2) n] close_step [where p = "at_point s", OF st i(4)]
      log_step [where p = "at_point s", OF st i(5,2) n] add_step [where p = "at_point s", OF st i(6,2) w] by blast
qed

section \<open>No call blocks another\<close>

lemma point_able:
  assumes "p \<noteq> Idle" "finite (sc_items s)" "\<forall>r. returns r"
  shows "(\<exists>order q t. point_step cr returns order g p s = Some (q, t)) \<or> mu s \<noteq> None \<and> \<not> holds_mutex p \<or>
    (\<exists>r k. p = ResOnce r k \<and> sc_phase s r = RClosing) \<or> p = AwaitDone \<and> \<not> sc_done s"
proof (cases "p = ScopeHeld")
  case True
  obtain order where "set order = sc_items s" "distinct order" using finite_distinct_list [OF assms(2)] by blast
  then have "\<exists>q t. point_step cr returns order g p s = Some (q, t)" using True by simp
  then show ?thesis by blast
next
  case False
  then show ?thesis using assms(1,3)
    by (cases p) (auto simp: mlock_def split: rphase.splits, (metis list.exhaust point_step.simps(11,12))?)
qed

lemma threads_progress:
  assumes "lock_inv A s" "\<forall>r. returns r" "th \<in> set (ls_threads s)" "th \<noteq> (Idle, [])"
  shows "\<exists>t. lstep cr returns s t"
proof -
  let ?p = "at_point s" and ?s = "ls_scope s"
  have inv: "mutex_inv ?p ?s" "once_inv ?p ?s" "close_inv ?p ?s" and fin: "finite (sc_items ?s)"
    using assms(1) by (simp_all add: lock_inv_def items_inv_def)
  have go: "\<exists>t. lstep cr returns s t" if "point_step cr returns order g (?p g) ?s = Some (q, t)" for order g q t
  proof -
    have "g < length (ls_threads s)" using that by (auto simp: at_point_def split: if_splits)
    then show ?thesis using that lstep.move [of g s "?p g" "snd (ls_threads s ! g)" cr returns order q t]
      by (auto simp: at_point_def)
  qed
  have able: "(\<exists>t. lstep cr returns s t) \<or> mu ?s \<noteq> None \<and> \<not> holds_mutex (?p g) \<or>
      (\<exists>r k. ?p g = ResOnce r k \<and> sc_phase ?s r = RClosing) \<or> ?p g = AwaitDone \<and> \<not> sc_done ?s" if "?p g \<noteq> Idle" for g
    using point_able [OF that fin assms(2), where cr = cr and g = g] go by blast
  show ?thesis
  proof (cases "mu ?s")
    case (Some h)
    then have "holds_mutex (?p h)" using inv(1) by (simp add: mutex_inv_def)
    then show ?thesis using able [of h] by (cases "?p h") auto
  next
    case None
    have once: "\<exists>t. lstep cr returns s t" if "sc_phase ?s r = RClosing" for r
    proof -
      obtain h where "in_once r (?p h)" using inv(2) \<open>sc_phase ?s r = RClosing\<close> unfolding once_inv_def by blast
      then show ?thesis using able [of h] None by (cases "?p h") auto
    qed
    obtain g where g: "g < length (ls_threads s)" "ls_threads s ! g = th" using assms(3) by (auto simp: in_set_conv_nth)
    show ?thesis
    proof (cases "?p g = Idle")
      case True
      then obtain c cs where "ls_threads s ! g = (Idle, c # cs)"
        using g assms(4) by (cases th; cases "snd th") (auto simp: at_point_def)
      then show ?thesis using lstep.call [OF g(1)] by blast
    next
      case False
      consider "\<exists>t. lstep cr returns s t" | r where "sc_phase ?s r = RClosing" | "?p g = AwaitDone" "\<not> sc_done ?s"
        using able [OF False] None by blast
      then show ?thesis
      proof cases
        case 3
        then obtain h where "closing_scope (?p h)" using inv(3) unfolding close_inv_def by metis
        then have "?p h \<noteq> Idle" "?p h \<noteq> AwaitDone" by auto
        then show ?thesis using able [of h] None once by blast
      qed (use once in blast)+
    qed
  qed
qed

section \<open>Every run ends\<close>

text \<open>The steps that a goroutine still makes; \<open>n\<close> bounds the resources in the map.\<close>

fun caller_work :: "caller \<Rightarrow> nat" where
  "caller_work Owner = 0"
| "caller_work (CloseLoop rs _) = 5 * length rs + 4"

fun point_work :: "nat \<Rightarrow> point \<Rightarrow> nat" where
  "point_work n Idle = 0"
| "point_work n (AddLock _) = 3"
| "point_work n (AddHeld _) = 2"
| "point_work n (AddCloser _) = 1"
| "point_work n (ResOnce _ k) = caller_work k + 4"
| "point_work n (ResLock _ k) = caller_work k + 3"
| "point_work n (ResHeld _ k) = caller_work k + 2"
| "point_work n (ResCloser _ k) = caller_work k + 1"
| "point_work n ScopeLock = 5 * n + 6"
| "point_work n ScopeHeld = 5 * n + 5"
| "point_work n (ScopeLoop rs _) = 5 * length rs + 4"
| "point_work n (StoreLock _) = 3"
| "point_work n (StoreHeld _) = 2"
| "point_work n DoneClose = 1"
| "point_work n AwaitDone = 3"
| "point_work n ReadLock = 2"
| "point_work n ReadHeld = 1"

definition call_work :: "nat \<Rightarrow> call \<Rightarrow> nat" where
  "call_work n c = Suc (point_work n (enter c))"

definition thread_work :: "nat \<Rightarrow> point \<times> call list \<Rightarrow> nat" where
  "thread_work n th = point_work n (fst th) + sum_list (map (call_work n) (snd th))"

definition system_work :: "nat \<Rightarrow> lsys \<Rightarrow> nat" where
  "system_work n s = sum_list (map (thread_work n) (ls_threads s))"

lemma point_work_step:
  assumes "point_step cr returns order g p s = Some (q, t)" "card (sc_items s) \<le> n"
  shows "point_work n q < point_work n p"
proof -
  have "length order \<le> n" if "distinct order" "set order = sc_items s" using that assms(2) distinct_card by fastforce
  then show ?thesis using assms(1)
    by (elim point_stepE) (auto simp: mutex_defs split: if_splits rphase.splits caller.splits)
qed

lemma system_work_step:
  assumes "lstep cr returns s s'" "card (sc_items (ls_scope s)) \<le> n"
  shows "system_work n s' < system_work n s"
proof -
  have drop: "system_work n \<lparr>ls_scope = t, ls_threads = (ls_threads s)[g := th]\<rparr> < system_work n s"
    if "g < length (ls_threads s)" "thread_work n th < thread_work n (ls_threads s ! g)" for t g th
  proof -
    have "thread_work n (ls_threads s ! g) \<le> system_work n s"
      unfolding system_work_def using that(1) by (intro member_le_sum_list) simp_all
    then show ?thesis using that by (simp add: system_work_def map_update sum_list_update)
  qed
  from assms(1) show ?thesis
  proof cases
    case (call g c cs)
    show ?thesis unfolding call(1) by (rule drop [OF call(2)]) (simp add: call(3) thread_work_def call_work_def)
  next
    case (move g p cs order q t)
    show ?thesis unfolding move(1)
      by (rule drop [OF move(2)]) (use point_work_step [OF move(4) assms(2)] in \<open>simp add: move(3) thread_work_def\<close>)
  qed
qed

lemma items_within:
  assumes "lock_inv A s" "finite A"
  shows "card (sc_items (ls_scope s)) \<le> card A"
proof (rule card_mono [OF assms(2)])
  show "sc_items (ls_scope s) \<subseteq> A"
    using assms(1) unfolding lock_inv_def items_inv_def add_inv_def by fastforce
qed

text \<open>The close of the scope that the programs ask for is still to come, or it happened.\<close>

definition close_ahead :: "lsys \<Rightarrow> bool" where
  "close_ahead s \<longleftrightarrow> sc_closed (ls_scope s) \<or>
    (\<exists>th \<in> set (ls_threads s). CallScopeClose \<in> set (snd th) \<or> fst th = ScopeLock \<or> fst th = ScopeHeld)"

lemma close_ahead_step:
  assumes "lstep cr returns s s'" "close_ahead s"
  shows "close_ahead s'"
proof (cases "sc_closed (ls_scope s)")
  case True
  with assms(1) show ?thesis
  proof cases
    case (move g p cs order q t)
    have "sc_closed t" using move(4) True
      by (elim point_stepE) (auto simp: mutex_defs split: if_splits rphase.splits caller.splits)
    then show ?thesis by (simp add: move(1) close_ahead_def)
  qed (simp add: close_ahead_def)
next
  case False
  then obtain h where h: "h < length (ls_threads s)" "CallScopeClose \<in> set (snd (ls_threads s ! h)) \<or>
      fst (ls_threads s ! h) = ScopeLock \<or> fst (ls_threads s ! h) = ScopeHeld"
    using assms(2) unfolding close_ahead_def by (metis in_set_conv_nth)
  have stay: "close_ahead \<lparr>ls_scope = t, ls_threads = (ls_threads s)[g := th]\<rparr>"
    if "g < length (ls_threads s)" "g = h \<Longrightarrow> sc_closed t \<or> CallScopeClose \<in> set (snd th) \<or> fst th = ScopeLock \<or> fst th = ScopeHeld" for t g th
  proof -
    let ?x = "(ls_threads s)[g := th] ! h"
    have "?x \<in> set ((ls_threads s)[g := th])" using h(1) by (intro nth_mem) simp
    moreover have "?x = (if g = h then th else ls_threads s ! h)" using h(1) by (simp add: nth_list_update)
    ultimately show ?thesis using that(2) h(2) by (auto simp: close_ahead_def split: if_splits)
  qed
  from assms(1) show ?thesis
  proof cases
    case (call g c cs)
    show ?thesis unfolding call(1) by (rule stay [OF call(2)]) (use call(3) h(2) in \<open>cases c; auto\<close>)
  next
    case (move g p cs order q t)
    have "p = ScopeLock \<Longrightarrow> q = ScopeHeld" "p = ScopeHeld \<Longrightarrow> sc_closed t"
      using move(4) False by (auto simp: mutex_defs split: if_splits)
    then show ?thesis unfolding move(1) by (intro stay [OF move(2)]) (use move(3) h(2) in auto)
  qed
qed

lemma lock_inv_start:
  assumes "distinct (concat (map call_adds progs))"
  shows "lock_inv (set (concat (map call_adds progs))) (lstart progs)"
proof -
  have p: "at_point (lstart progs) g = Idle" for g by (simp add: at_point_def lstart_def)
  have w: "to_add (lstart progs) g = (if g < length progs then call_adds (progs ! g) else [])" for g
    by (simp add: to_add_def lstart_def)
  have d: "distinct (call_adds (progs ! g))" if "g < length progs" for g
    using assms that by (simp add: distinct_concat_iff)
  have dis: "set (call_adds (progs ! g)) \<inter> set (call_adds (progs ! h)) = {}" if "g < h" "h < length progs" for g h
  proof -
    have "progs = take h progs @ progs ! h # drop (Suc h) progs" by (rule id_take_nth_drop [OF that(2)])
    then have "distinct (concat (map call_adds (take h progs)) @ call_adds (progs ! h) @ concat (map call_adds (drop (Suc h) progs)))"
      using assms by (metis concat.simps(2) concat_append list.simps(9) map_append)
    moreover have "progs ! g \<in> set (take h progs)" using that by (metis in_set_conv_nth length_take min.absorb4 nth_take)
    ultimately show ?thesis by auto
  qed
  have "add_inv (set (concat (map call_adds progs))) (to_add (lstart progs)) (ls_scope (lstart progs))"
    unfolding add_inv_def w using d dis
    by (auto simp: lstart_def in_set_conv_nth) (metis Int_iff empty_iff linorder_neqE_nat nth_mem)+
  moreover have "ls_scope (lstart progs) = \<lparr>sc_closed = False, sc_items = {}, sc_done = False, sc_err = None,
     sc_phase = (\<lambda>_. RNone), sc_log = [], mu = None\<rparr>" by (simp add: lstart_def)
  ultimately show ?thesis unfolding lock_inv_def
    by (simp add: p mutex_inv_def once_inv_def items_inv_def close_inv_def log_inv_def)
qed

lemma lock_run:
  assumes "((lstep cr returns) ^^ n) (lstart progs) s" "distinct (concat (map call_adds progs))"
  defines "A \<equiv> set (concat (map call_adds progs))"
  shows "lock_inv A s \<and> n + system_work (card A) s \<le> system_work (card A) (lstart progs) \<and>
    (CallScopeClose \<in> set (concat progs) \<longrightarrow> close_ahead s)"
  using assms(1)
proof (induction n arbitrary: s)
  case 0
  then show ?case using lock_inv_start [OF assms(2)] by (auto simp: A_def close_ahead_def lstart_def)
next
  case (Suc n)
  then obtain u where u: "((lstep cr returns) ^^ n) (lstart progs) u" "lstep cr returns u s" by auto
  note IH = Suc.IH [OF u(1)]
  have "card (sc_items (ls_scope u)) \<le> card A" by (rule items_within [OF conjunct1 [OF IH]]) (simp add: A_def)
  from system_work_step [OF u(2) this] lock_inv_step [OF u(2)] close_ahead_step [OF u(2)] IH show ?case by auto
qed

text \<open>The most steps that the goroutines can make together.\<close>

definition total_work :: "call list list \<Rightarrow> nat" where
  "total_work progs = sum_list (map (call_work (length (concat (map call_adds progs)))) (concat progs))"

lemma work_start:
  assumes "distinct (concat (map call_adds progs))"
  shows "system_work (card (set (concat (map call_adds progs)))) (lstart progs) = total_work progs"
proof -
  have c: "card (set (concat (map call_adds progs))) = length (concat (map call_adds progs))" by (rule distinct_card [OF assms])
  have "sum_list (map (\<lambda>cs. sum_list (map f cs)) xss) = sum_list (map f (concat xss))" for f :: "call \<Rightarrow> nat" and xss
    by (induction xss) simp_all
  then show ?thesis unfolding c by (simp add: system_work_def lstart_def total_work_def thread_work_def comp_def)
qed

text \<open>
  C33. The calls of a scope do not block each other, and all of them end. Let any goroutines call
  \<^verbatim>\<open>add\<close>, \<^verbatim>\<open>resource.Close\<close> and \<^verbatim>\<open>scope.Close\<close> in any order and with any scheduling, where each closer
  returns when it is called, without using the scope itself. Then no run is longer than a bound that the calls determine; and a run that
  cannot go on has ended properly: every call returned, the mutex is free and, when some
  goroutine closed the scope, the close is recorded as done, nothing is registered, and the
  closer of every resource that was ever added, early or late, was called exactly once.
\<close>

theorem scope_calls_finish:
  assumes "((lstep cr (\<lambda>_. True)) ^^ n) (lstart progs) s" "distinct (concat (map call_adds progs))"
  shows "n \<le> total_work progs \<and>
    ((\<nexists>t. lstep cr (\<lambda>_. True) s t) \<longrightarrow>
      (\<forall>th \<in> set (ls_threads s). th = (Idle, [])) \<and> mu (ls_scope s) = None \<and>
      (CallScopeClose \<in> set (concat progs) \<longrightarrow>
        sc_closed (ls_scope s) \<and> sc_done (ls_scope s) \<and> sc_items (ls_scope s) = {} \<and>
        distinct (sc_log (ls_scope s)) \<and> set (sc_log (ls_scope s)) = set (concat (map call_adds progs))))"
proof -
  let ?A = "set (concat (map call_adds progs))" and ?s = "ls_scope s"
  note run = lock_run [OF assms]
  have inv: "mutex_inv (at_point s) ?s" "once_inv (at_point s) ?s" "items_inv (at_point s) ?s" "close_inv (at_point s) ?s"
    "log_inv ?s" "add_inv ?A (to_add s) ?s" using run by (simp_all add: lock_inv_def)
  have "n \<le> total_work progs" using run work_start [OF assms(2)] by simp
  moreover have "(\<forall>th \<in> set (ls_threads s). th = (Idle, [])) \<and> mu ?s = None \<and>
      (CallScopeClose \<in> set (concat progs) \<longrightarrow> sc_closed ?s \<and> sc_done ?s \<and> sc_items ?s = {} \<and>
        distinct (sc_log ?s) \<and> set (sc_log ?s) = ?A)" if stop: "\<nexists>t. lstep cr (\<lambda>_. True) s t"
  proof -
    have idle: "\<forall>th \<in> set (ls_threads s). th = (Idle, [])"
      using threads_progress [OF conjunct1 [OF run], of "\<lambda>_. True"] stop by blast
    then have "ls_threads s ! g = (Idle, [])" if "g < length (ls_threads s)" for g using that nth_mem by blast
    then have p: "at_point s g = Idle" "to_add s g = []" for g by (simp_all add: at_point_def to_add_def)
    have "mu ?s = None" using inv(1) by (cases "mu ?s") (auto simp: mutex_inv_def p)
    moreover have "sc_closed ?s \<and> sc_done ?s \<and> sc_items ?s = {} \<and> distinct (sc_log ?s) \<and> set (sc_log ?s) = ?A"
      if "CallScopeClose \<in> set (concat progs)"
    proof -
      have c: "sc_closed ?s" using run that idle by (auto simp: close_ahead_def)
      then have d: "sc_done ?s" "sc_items ?s = {}" using inv(3,4) by (auto simp: close_inv_def items_inv_def p)
      have "sc_phase ?s r \<noteq> ROpen" "sc_phase ?s r \<noteq> RClosing" for r
        using inv(2,3) d(2) by (auto simp: items_inv_def once_inv_def p)
      then have "(\<exists>e. sc_phase ?s r = RClosed e) \<longleftrightarrow> sc_phase ?s r \<noteq> RNone" for r by (cases "sc_phase ?s r") auto
      then have "set (sc_log ?s) = ?A" using inv(5,6) by (simp add: log_inv_def add_inv_def p)
      then show ?thesis using c d inv(5) by (simp add: log_inv_def)
    qed
    ultimately show ?thesis using idle by blast
  qed
  ultimately show ?thesis by blast
qed

lemma run_ends:
  assumes "\<And>n s. (R ^^ n) a s \<Longrightarrow> n \<le> (b :: nat)"
  shows "\<exists>n s. (R ^^ n) a s \<and> (\<nexists>t. R s t)"
proof -
  let ?N = "{n. \<exists>s. (R ^^ n) a s}"
  have fin: "finite ?N" by (rule finite_subset [of _ "{..b}"]) (use assms in auto)
  have "0 \<in> ?N" by auto
  then obtain s where s: "(R ^^ Max ?N) a s" using Max_in [OF fin] by blast
  have "\<not> R s t" for t
  proof
    assume "R s t"
    then have "(R ^^ Suc (Max ?N)) a t" using s by auto
    then have "Suc (Max ?N) \<in> ?N" by blast
    from Max_ge [OF fin this] show False by simp
  qed
  with s show ?thesis by blast
qed

theorem scope_calls_finish_witness:
  "\<exists>n s. ((lstep (\<lambda>_. None) (\<lambda>_. True)) ^^ n) (lstart [[CallAdd 7, CallClose 7], [CallAdd 8], [CallScopeClose], [CallScopeClose]]) s \<and>
     n \<le> 47 \<and> sc_done (ls_scope s) \<and> sc_items (ls_scope s) = {} \<and> set (sc_log (ls_scope s)) = {7, 8}"
proof -
  let ?progs = "[[CallAdd 7, CallClose 7], [CallAdd 8], [CallScopeClose], [CallScopeClose]]"
  have d: "distinct (concat (map call_adds ?progs))" by simp
  have w: "total_work ?progs = 47" by (simp add: total_work_def call_work_def)
  obtain n s where s: "((lstep (\<lambda>_. None) (\<lambda>_. True)) ^^ n) (lstart ?progs) s" "\<nexists>t. lstep (\<lambda>_. None) (\<lambda>_. True) s t"
    using run_ends [of "lstep (\<lambda>_. None) (\<lambda>_. True)" "lstart ?progs" "total_work ?progs"] scope_calls_finish [OF _ d] by blast
  from scope_calls_finish [OF s(1) d] s w show ?thesis by (intro exI [of _ n] exI [of _ s]) simp
qed

end
