(* ===== verification/Tor_Gate.thy ===== *)
theory Tor_Gate
  imports Tor_Scope Tor_Events Tor_Api
begin

text \<open>
  The outbound gate (proxy.go, \<^verbatim>\<open>epoch\<close> and \<^verbatim>\<open>outboundGate\<close>): the one place where the
  outgoing Network is attached, replaced, latched after failures and dialled. An epoch is a
  scope that owns the connections made through one attachment. The Network itself is
  external: what it answers to subscriptions, status queries and dials is part of the
  environment, as are the results of closing connections (\<open>cr\<close>).
\<close>

section \<open>State\<close>

text \<open>\<open>ep_cleanup\<close> names the unsubscribe functions of the attachment.\<close>

record epoch =
  ep_scope :: scope
  ep_generation :: u64
  ep_cleanup :: "nat list"

text \<open>
  Epochs are heap objects: \<open>gt_epoch\<close> is the pointer to the current one, \<open>gt_epochs\<close> the heap,
  since a dial in flight keeps its epoch after a replacement. \<open>gt_events\<close> lists the events
  handed to \<^verbatim>\<open>notify\<close> \<open>gt_unsubscribed\<close> the cleanup functions that ran, and \<open>gt_dropped\<close> the
  connections closed before any epoch owned them.
\<close>

record gate =
  gt_epoch :: "nat option"
  gt_closed :: bool
  gt_generation :: u64
  gt_attempts :: u64
  gt_policy :: u8
  gt_notify :: bool
  gt_epochs :: "nat \<Rightarrow> epoch option"
  gt_next :: nat
  gt_events :: "driver_event list"
  gt_unsubscribed :: "nat list"
  gt_dropped :: "nat list"

definition new_gate :: "u8 \<Rightarrow> bool \<Rightarrow> gate" where
  "new_gate policy notify = \<lparr>gt_epoch = None, gt_closed = False, gt_generation = 0, gt_attempts = 0,
     gt_policy = policy, gt_notify = notify, gt_epochs = (\<lambda>_. None), gt_next = 0, gt_events = [],
     gt_unsubscribed = [], gt_dropped = []\<rparr>"

definition gate_publish :: "driver_event \<Rightarrow> gate \<Rightarrow> gate" where
  "gate_publish ev g = (if gt_notify g then g\<lparr>gt_events := gt_events g @ [ev]\<rparr> else g)"

definition on_epoch :: "nat \<Rightarrow> (epoch \<Rightarrow> epoch) \<Rightarrow> gate \<Rightarrow> gate" where
  "on_epoch i f g = g\<lparr>gt_epochs := (gt_epochs g)(i := map_option f (gt_epochs g i))\<rparr>"

definition epoch_generation :: "nat \<Rightarrow> gate \<Rightarrow> u64" where
  "epoch_generation i g = (case gt_epochs g i of None \<Rightarrow> 0 | Some e \<Rightarrow> ep_generation e)"

definition epoch_up :: "nat \<Rightarrow> gate \<Rightarrow> bool" where
  "epoch_up i g = (case gt_epochs g i of None \<Rightarrow> False | Some e \<Rightarrow> scope_ctx_err (ep_scope e) = None)"

section \<open>Epochs\<close>

definition epoch_close :: "close_results \<Rightarrow> nat \<Rightarrow> gate \<Rightarrow> goerr option \<times> gate" where
  "epoch_close cr i g =
    (case gt_epochs g i of
       None \<Rightarrow> (None, g)
     | Some e \<Rightarrow>
         (case scope_close cr (items_list (ep_scope e)) (ep_scope e) of
            (err, s) \<Rightarrow> (err, on_epoch i (\<lambda>e. e\<lparr>ep_scope := s\<rparr>) g)))"

text \<open>\<^verbatim>\<open>attachmentObserver.Close\<close> and \<^verbatim>\<open>epoch.Down\<close> have the same effect.\<close>

definition observer_close :: "close_results \<Rightarrow> nat \<Rightarrow> gate \<Rightarrow> goerr option \<times> gate" where
  "observer_close cr i g =
    (case epoch_close cr i g of
       (err, g') \<Rightarrow> (err, gate_publish (OutboundEvent OutboundAttachmentClosed (epoch_generation i g') True) g'))"

definition epoch_Down :: "close_results \<Rightarrow> nat \<Rightarrow> gate \<Rightarrow> goerr option \<times> gate" where
  "epoch_Down cr i g =
    (case epoch_close cr i g of
       (err, g') \<Rightarrow> (err, gate_publish (OutboundEvent OutboundAttachmentClosed (epoch_generation i g') True) g'))"

definition retire :: "close_results \<Rightarrow> nat \<Rightarrow> gate \<Rightarrow> goerr option \<times> gate" where
  "retire cr i g =
    (case epoch_close cr i g of
       (err, g') \<Rightarrow> (err, g'\<lparr>gt_unsubscribed := gt_unsubscribed g' @
          (case gt_epochs g' i of None \<Rightarrow> [] | Some e \<Rightarrow> ep_cleanup e)\<rparr>))"

definition networkFailure :: "goerr option \<Rightarrow> bool" where
  "networkFailure err =
    (case err of
       None \<Rightarrow> False
     | Some e \<Rightarrow> \<not> errors_is e IoEOF \<and> \<not> errors_is e NetErrClosed \<and> \<not> errors_is e ContextCanceled)"

definition failed :: "close_results \<Rightarrow> nat \<Rightarrow> goerr \<Rightarrow> outbound_failure \<Rightarrow> gate \<Rightarrow> gate" where
  "failed cr i err failure g =
    (let latched = errors_is err NetErrClosed \<or>
           (gt_policy g = LatchOutboundErrors \<and> networkFailure (Some err));
         g' = (if latched then snd (epoch_close cr i g) else g)
     in gate_publish (OutboundEvent failure (epoch_generation i g') latched) g')"

section \<open>Replacing the attachment\<close>

text \<open>
  What the new Network does while it is attached. \<open>at_closer\<close> and \<open>at_updown\<close> are present
  when it implements the subscriber interfaces, with the unsubscribe function it returns,
  the error, and whether it invokes the callback at once; \<open>at_isup\<close> when it reports its
  status; \<open>at_late_close\<close> when a callback from another goroutine comes before the last check.
\<close>

record attach_env =
  at_closer :: "(nat option \<times> goerr option \<times> bool) option"
  at_updown :: "(nat option \<times> goerr option \<times> bool) option"
  at_isup :: "(bool \<times> goerr option) option"
  at_late_close :: bool

definition gate_reject :: "close_results \<Rightarrow> nat \<Rightarrow> goerr option list \<Rightarrow> gate \<Rightarrow> goerr option \<times> gate" where
  "gate_reject cr i errs g =
    (let g1 = gate_publish (OutboundEvent OutboundAttachmentRejected (epoch_generation i g) True) g
     in case retire cr i g1 of
         (rerr, g2) \<Rightarrow> (errors_join (Some (Sentinel ErrOutboundUnavailable) # errs @ [rerr]), g2))"

definition add_cleanup :: "nat \<Rightarrow> nat option \<Rightarrow> gate \<Rightarrow> gate" where
  "add_cleanup i un g =
    (case un of None \<Rightarrow> g | Some f \<Rightarrow> on_epoch i (\<lambda>e. e\<lparr>ep_cleanup := ep_cleanup e @ [f]\<rparr>) g)"

definition attach_sub ::
  "(gate \<Rightarrow> goerr option \<times> gate) \<Rightarrow> close_results \<Rightarrow> nat \<Rightarrow> (nat option \<times> goerr option \<times> bool) option \<Rightarrow>
   gate \<Rightarrow> goerr option \<times> gate" where
  "attach_sub callback cr i answer g =
    (case answer of
       None \<Rightarrow> (None, g)
     | Some (un, err, fired) \<Rightarrow>
         let g1 = add_cleanup i un (if fired then snd (callback g) else g)
         in case err of
             None \<Rightarrow> (None, g1)
           | Some e \<Rightarrow> gate_reject cr i [Some e] g1)"

definition attach_isup :: "close_results \<Rightarrow> nat \<Rightarrow> (bool \<times> goerr option) option \<Rightarrow> gate \<Rightarrow> goerr option \<times> gate" where
  "attach_isup cr i answer g =
    (case answer of
       None \<Rightarrow> (None, g)
     | Some (up, err) \<Rightarrow> if err \<noteq> None \<or> \<not> up then gate_reject cr i [] g else (None, g))"

definition attach_install :: "close_results \<Rightarrow> nat \<Rightarrow> bool \<Rightarrow> gate \<Rightarrow> goerr option \<times> gate" where
  "attach_install cr i late g =
    (let g1 = (if late then snd (observer_close cr i g) else g)
     in if \<not> epoch_up i g1 then gate_reject cr i [] g1 else (None, g1\<lparr>gt_epoch := Some i\<rparr>))"

text \<open>Run the second operation unless the first one returned an error.\<close>

definition and_then ::
  "goerr option \<times> gate \<Rightarrow> (gate \<Rightarrow> goerr option \<times> gate) \<Rightarrow> goerr option \<times> gate" where
  "and_then r f = (case r of (Some e, g) \<Rightarrow> (Some e, g) | (None, g) \<Rightarrow> f g)"

definition new_epoch :: "gate \<Rightarrow> gate" where
  "new_epoch g = g\<lparr>gt_epochs := (gt_epochs g)(gt_next g \<mapsto>
     \<lparr>ep_scope = newScope, ep_generation = gt_generation g, ep_cleanup = []\<rparr>), gt_next := gt_next g + 1\<rparr>"

definition attach :: "close_results \<Rightarrow> attach_env \<Rightarrow> gate \<Rightarrow> goerr option \<times> gate" where
  "attach cr env g =
    (let i = gt_next g
     in and_then (and_then (and_then
          (attach_sub (observer_close cr i) cr i (at_closer env) (new_epoch g))
          (attach_sub (epoch_Down cr i) cr i (at_updown env)))
          (attach_isup cr i (at_isup env)))
          (attach_install cr i (at_late_close env)))"

definition retire_old :: "close_results \<Rightarrow> nat option \<Rightarrow> gate \<Rightarrow> goerr option \<times> gate" where
  "retire_old cr old g =
    (case old of
       None \<Rightarrow> (None, g)
     | Some i \<Rightarrow>
         (case retire cr i g of
            (None, g1) \<Rightarrow> (None, g1)
          | (Some e, g1) \<Rightarrow>
              (Some e, gate_publish (OutboundEvent OutboundAttachmentRejected (gt_generation g1) True) g1)))"

definition replace :: "close_results \<Rightarrow> attach_env option \<Rightarrow> gate \<Rightarrow> goerr option \<times> gate" where
  "replace cr n g =
    (if gt_closed g then (Some (Sentinel ErrClosed), g)
     else and_then
       (retire_old cr (gt_epoch g) (g\<lparr>gt_epoch := None, gt_generation := gt_generation g + 1\<rparr>))
       (\<lambda>g1. case n of None \<Rightarrow> (None, g1) | Some env \<Rightarrow> attach cr env g1))"

definition gate_Close :: "close_results \<Rightarrow> gate \<Rightarrow> goerr option \<times> gate" where
  "gate_Close cr g =
    (let g1 = g\<lparr>gt_closed := True, gt_epoch := None\<rparr>
     in case gt_epoch g of None \<Rightarrow> (None, g1) | Some i \<Rightarrow> retire cr i g1)"

definition gate_state :: "gate \<Rightarrow> outbound_state" where
  "gate_state g = \<lparr>Available = (\<not> gt_closed g \<and> (case gt_epoch g of None \<Rightarrow> False | Some i \<Rightarrow> epoch_up i g)),
     Generation = gt_generation g, Attempts = gt_attempts g\<rparr>"

section \<open>Dialling\<close>

text \<open>An operation on the scope of epoch \<open>i\<close>.\<close>

definition with_scope :: "nat \<Rightarrow> (scope \<Rightarrow> 'r \<times> scope) \<Rightarrow> 'r \<Rightarrow> gate \<Rightarrow> 'r \<times> gate" where
  "with_scope i f d g =
    (case gt_epochs g i of
       None \<Rightarrow> (d, g)
     | Some e \<Rightarrow> (case f (ep_scope e) of (r, s) \<Rightarrow> (r, on_epoch i (\<lambda>e. e\<lparr>ep_scope := s\<rparr>) g)))"

definition epoch_add :: "close_results \<Rightarrow> nat \<Rightarrow> nat \<Rightarrow> gate \<Rightarrow> goerr option \<times> gate" where
  "epoch_add cr i r g = with_scope i (scope_add cr r) None g"

definition epoch_release :: "close_results \<Rightarrow> nat \<Rightarrow> nat \<Rightarrow> gate \<Rightarrow> gate" where
  "epoch_release cr i r g = snd (with_scope i (resource_close cr r) None g)"

text \<open>The epoch a dial may use, under the gate's mutex.\<close>

definition dial_pick :: "gate \<Rightarrow> nat option" where
  "dial_pick g =
    (case gt_epoch g of
       None \<Rightarrow> None
     | Some i \<Rightarrow> if gt_closed g \<or> \<not> epoch_up i g then None else Some i)"

text \<open>\<^verbatim>\<open>ctx.Err()\<close> of the operation context: the caller's error \<open>pctx\<close>, or cancellation when
  the operation's resource was closed with its epoch.\<close>

definition dial_ctx :: "nat \<Rightarrow> nat \<Rightarrow> goerr option \<Rightarrow> gate \<Rightarrow> goerr option" where
  "dial_ctx i op pctx g =
    (case pctx of
       Some e \<Rightarrow> Some e
     | None \<Rightarrow>
         (case gt_epochs g i of
            None \<Rightarrow> None
          | Some e \<Rightarrow> if sc_phase (ep_scope e) op = ROpen then None else Some (Sentinel ContextCanceled)))"

text \<open>Up to the call of the Network: register the incoming connection \<open>inc\<close> and the
  operation \<open>op\<close>, check the context, count the attempt.\<close>

definition dial_enter ::
  "close_results \<Rightarrow> nat \<Rightarrow> nat \<Rightarrow> nat \<Rightarrow> goerr option \<Rightarrow> gate \<Rightarrow> goerr option \<times> gate" where
  "dial_enter cr i inc op pctx g =
    (case epoch_add cr i inc g of
       (Some _, g1) \<Rightarrow> (Some (Sentinel ErrOutboundUnavailable), g1)
     | (None, g1) \<Rightarrow>
         (case epoch_add (\<lambda>_. None) i op g1 of
            (_, g2) \<Rightarrow>
              (case dial_ctx i op pctx g2 of
                 Some e \<Rightarrow> (Some e, epoch_release cr i op (epoch_release cr i inc g2))
               | None \<Rightarrow> (None, g2\<lparr>gt_attempts := gt_attempts g2 + 1\<rparr>))))"

text \<open>After the call: \<open>out\<close> and \<open>err\<close> are what the Network's \<^verbatim>\<open>Dial\<close> returned. The result is
  the owned connection or an error; the deferred \<^verbatim>\<open>finish\<close> closes the operation.\<close>

definition dial_finish ::
  "close_results \<Rightarrow> nat \<Rightarrow> nat \<Rightarrow> nat \<Rightarrow> goerr option \<Rightarrow> nat option \<Rightarrow> goerr option \<Rightarrow> gate \<Rightarrow> nat res \<times> gate" where
  "dial_finish cr i inc op pctx out err g =
    (case err of
       Some e \<Rightarrow>
         let g1 = (case out of None \<Rightarrow> g | Some c \<Rightarrow> g\<lparr>gt_dropped := gt_dropped g @ [c]\<rparr>);
             g2 = epoch_release cr i inc g1;
             g3 = (if dial_ctx i op pctx g2 = None then failed cr i e OutboundDialFailed g2 else g2)
         in (Inl (Joined [Sentinel ErrOutboundUnavailable, e]), epoch_release cr i op g3)
     | None \<Rightarrow>
         (case out of
            None \<Rightarrow>
              let g1 = snd (epoch_close cr i (epoch_release cr i inc g));
                  g2 = gate_publish (OutboundEvent OutboundDialFailed (epoch_generation i g1) True) g1
              in (Inl (Sentinel ErrOutboundUnavailable), epoch_release cr i op g2)
          | Some c \<Rightarrow>
              (case epoch_add cr i c g of
                 (Some _, g1) \<Rightarrow>
                   (Inl (Sentinel ErrOutboundUnavailable), epoch_release cr i op (epoch_release cr i inc g1))
               | (None, g1) \<Rightarrow>
                   (case dial_ctx i op pctx g1 of
                      Some e \<Rightarrow>
                        (Inl e, epoch_release cr i op (epoch_release cr i inc (epoch_release cr i c g1)))
                    | None \<Rightarrow> (Inr c, epoch_release cr i op g1)))))"

text \<open>What the environment does during one dial: the caller's context before and after the
  call, whether the epoch is closed while the Network dials, and its answer.\<close>

record dial_env =
  dl_before :: "goerr option"
  dl_closed :: bool
  dl_out :: "nat option"
  dl_err :: "goerr option"
  dl_after :: "goerr option"

definition dial :: "close_results \<Rightarrow> dial_env \<Rightarrow> nat \<Rightarrow> nat \<Rightarrow> gate \<Rightarrow> nat res \<times> gate" where
  "dial cr env inc op g =
    (case dial_pick g of
       None \<Rightarrow> (Inl (Sentinel ErrOutboundUnavailable), g)
     | Some i \<Rightarrow>
         (case dial_enter cr i inc op (dl_before env) g of
            (Some e, g1) \<Rightarrow> (Inl e, g1)
          | (None, g1) \<Rightarrow>
              let g2 = (if dl_closed env then snd (epoch_close cr i g1) else g1)
              in dial_finish cr i inc op (dl_after env) (dl_out env) (dl_err env) g2))"

section \<open>Interleaving\<close>

text \<open>\<^verbatim>\<open>replace\<close> and \<^verbatim>\<open>Close\<close> hold the mutex \<^verbatim>\<open>change\<close>: one of them runs at a time, between its
  detachment of the old epoch and its end. Dials are between picking their epoch and
  returning.\<close>

datatype changer =
    RepIdle | RepRetire "nat option" "attach_env option" | RepAttach attach_env | RepClose "nat option"
datatype dialler = DIdle | DPicked nat nat nat | DDialing nat nat nat | DDone "nat res"

record gsys =
  gs_gate :: gate
  gs_change :: changer
  gs_dial :: "nat \<Rightarrow> dialler"

definition gs_init :: "u8 \<Rightarrow> bool \<Rightarrow> gsys" where
  "gs_init policy notify = \<lparr>gs_gate = new_gate policy notify, gs_change = RepIdle, gs_dial = (\<lambda>_. DIdle)\<rparr>"

definition unused :: "nat \<Rightarrow> nat \<Rightarrow> gate \<Rightarrow> bool" where
  "unused i r g = (case gt_epochs g i of None \<Rightarrow> True | Some e \<Rightarrow> sc_phase (ep_scope e) r = RNone)"

inductive gstep :: "close_results \<Rightarrow> gsys \<Rightarrow> gsys \<Rightarrow> bool" for cr where
  replace_begin: "\<lbrakk>gs_change s = RepIdle; \<not> gt_closed (gs_gate s)\<rbrakk> \<Longrightarrow>
    gstep cr s (s\<lparr>gs_gate := (gs_gate s)\<lparr>gt_epoch := None, gt_generation := gt_generation (gs_gate s) + 1\<rparr>,
      gs_change := RepRetire (gt_epoch (gs_gate s)) n\<rparr>)"
| close_begin: "gs_change s = RepIdle \<Longrightarrow>
    gstep cr s (s\<lparr>gs_gate := (gs_gate s)\<lparr>gt_closed := True, gt_epoch := None\<rparr>,
      gs_change := RepClose (gt_epoch (gs_gate s))\<rparr>)"
| close_retired: "gs_change s = RepClose old \<Longrightarrow>
    gstep cr s (s\<lparr>gs_gate := (case old of None \<Rightarrow> gs_gate s | Some i \<Rightarrow> snd (retire cr i (gs_gate s))),
      gs_change := RepIdle\<rparr>)"
| retired: "\<lbrakk>gs_change s = RepRetire old n; retire_old cr old (gs_gate s) = (err, g)\<rbrakk> \<Longrightarrow>
    gstep cr s (s\<lparr>gs_gate := g, gs_change :=
      (case (err, n) of (None, Some env) \<Rightarrow> RepAttach env | _ \<Rightarrow> RepIdle)\<rparr>)"
| attached: "\<lbrakk>gs_change s = RepAttach env; attach cr env (gs_gate s) = (err, g)\<rbrakk> \<Longrightarrow>
    gstep cr s (s\<lparr>gs_gate := g, gs_change := RepIdle\<rparr>)"
| pick: "\<lbrakk>gs_dial s t = DIdle; dial_pick (gs_gate s) = Some i\<rbrakk> \<Longrightarrow>
    gstep cr s (s\<lparr>gs_dial := (gs_dial s)(t := DPicked i inc op)\<rparr>)"
| refuse: "\<lbrakk>gs_dial s t = DIdle; dial_pick (gs_gate s) = None\<rbrakk> \<Longrightarrow>
    gstep cr s (s\<lparr>gs_dial := (gs_dial s)(t := DDone (Inl (Sentinel ErrOutboundUnavailable)))\<rparr>)"
| enter: "\<lbrakk>gs_dial s t = DPicked i inc op; inc \<noteq> op; unused i inc (gs_gate s); unused i op (gs_gate s);
     dial_enter cr i inc op pctx (gs_gate s) = (err, g)\<rbrakk> \<Longrightarrow>
    gstep cr s (s\<lparr>gs_gate := g, gs_dial := (gs_dial s)(t :=
      (case err of None \<Rightarrow> DDialing i inc op | Some e \<Rightarrow> DDone (Inl e)))\<rparr>)"
| leave: "\<lbrakk>gs_dial s t = DDialing i inc op; \<forall>c. out = Some c \<longrightarrow> unused i c (gs_gate s);
     dial_finish cr i inc op pctx out err (gs_gate s) = (res, g)\<rbrakk> \<Longrightarrow>
    gstep cr s (s\<lparr>gs_gate := g, gs_dial := (gs_dial s)(t := DDone res)\<rparr>)"
| callback: "gstep cr s (s\<lparr>gs_gate := snd (observer_close cr i (gs_gate s))\<rparr>)"
| stream_failed: "gstep cr s (s\<lparr>gs_gate := failed cr i e OutboundStreamFailed (gs_gate s)\<rparr>)"
| hang_up: "gstep cr s (s\<lparr>gs_gate := epoch_release cr i r (gs_gate s)\<rparr>)"

abbreviation gsteps :: "close_results \<Rightarrow> gsys \<Rightarrow> gsys \<Rightarrow> bool" where
  "gsteps cr \<equiv> (gstep cr)\<^sup>*\<^sup>*"

end
