(* ===== verification/Tor_Gate_Proofs.thy ===== *)
theory Tor_Gate_Proofs
  imports Tor_Gate
begin

text \<open>
  The gate fails closed: whatever happens concurrently, connections are owned by an epoch
  and an epoch that was replaced, latched or shut owns nothing.
\<close>

section \<open>How the heap of epochs evolves\<close>

text \<open>Everything but attaching and detaching keeps the pointers, keeps every epoch, never
  reopens a scope and keeps its consistency.\<close>

definition epoch_evolves :: "epoch \<Rightarrow> epoch \<Rightarrow> bool" where
  "epoch_evolves e e' \<longleftrightarrow> ep_generation e' = ep_generation e \<and>
    (scope_ok (ep_scope e) \<longrightarrow> scope_ok (ep_scope e')) \<and> (sc_closed (ep_scope e) \<longrightarrow> sc_closed (ep_scope e'))"

definition evolves :: "gate \<Rightarrow> gate \<Rightarrow> bool" where
  "evolves g g' \<longleftrightarrow> gt_epoch g' = gt_epoch g \<and> gt_closed g' = gt_closed g \<and> gt_next g' = gt_next g \<and>
    gt_generation g' = gt_generation g \<and> (\<forall>i. rel_option epoch_evolves (gt_epochs g i) (gt_epochs g' i))"

named_theorems evolve_intros \<open>operations under which the heap of epochs evolves\<close>

lemma epoch_evolves_refl [simp]: "epoch_evolves e e"
  by (simp add: epoch_evolves_def)

lemma evolves_refl [simp, evolve_intros]: "evolves g g"
  by (simp add: evolves_def option.rel_refl)

lemma evolves_trans:
  assumes "evolves g h" "evolves h k"
  shows "evolves g k"
proof -
  have "rel_option epoch_evolves (gt_epochs g i) (gt_epochs k i)" for i
    using assms by (cases "gt_epochs g i"; cases "gt_epochs h i"; cases "gt_epochs k i")
      (auto simp: evolves_def epoch_evolves_def dest!: spec [of _ i])
  with assms show ?thesis by (simp add: evolves_def)
qed

lemma evolves_publish [evolve_intros]: "evolves g (gate_publish ev g)"
  by (simp add: gate_publish_def evolves_def option.rel_refl)

lemma evolves_on_epoch:
  assumes "\<And>e. gt_epochs g i = Some e \<Longrightarrow> epoch_evolves e (f e)"
  shows "evolves g (on_epoch i f g)"
  using assms by (auto simp: evolves_def on_epoch_def option.rel_refl option.rel_map
      intro: option.rel_refl_strong)

lemma evolves_with_scope:
  assumes "with_scope i f d g = (r, g')"
    and "\<And>e t s. gt_epochs g i = Some e \<Longrightarrow> f (ep_scope e) = (t, s) \<Longrightarrow>
           (scope_ok (ep_scope e) \<longrightarrow> scope_ok s) \<and> (sc_closed (ep_scope e) \<longrightarrow> sc_closed s)"
  shows "evolves g g'"
proof (cases "gt_epochs g i")
  case (Some e)
  obtain t s where f: "f (ep_scope e) = (t, s)" by fastforce
  with assms(1) Some have g': "g' = on_epoch i (\<lambda>e. e\<lparr>ep_scope := s\<rparr>) g" by (simp add: with_scope_def)
  show ?thesis unfolding g' using assms(2) [OF Some f] Some
    by (intro evolves_on_epoch) (auto simp: epoch_evolves_def)
qed (use assms(1) in \<open>simp add: with_scope_def\<close>)

lemma resource_close_closed: "resource_close cr r s = (e, s') \<Longrightarrow> sc_closed s' = sc_closed s"
  by (auto simp: resource_close_def call_close_def split: rphase.splits)

lemma evolves_release [evolve_intros]: "evolves g (epoch_release cr i r g)"
  unfolding epoch_release_def
  by (rule evolves_with_scope [of i "resource_close cr r" None g "fst (with_scope i (resource_close cr r) None g)"])
     (auto intro: scope_ok_resource_close simp: resource_close_closed)

lemma scope_close_closed:
  assumes "scope_close cr (items_list s) s = (e, s')"
  shows "(scope_ok s \<longrightarrow> scope_ok s') \<and> (scope_ok s \<longrightarrow> sc_closed s')"
  using scope_close_spec [OF _ _ _ assms] items_list [of s] by auto

lemma close_loop_closed: "close_loop cr rs err s = (e, s') \<Longrightarrow> sc_closed s' = sc_closed s"
  by (induction rs arbitrary: err s) (auto split: prod.splits dest: resource_close_closed)

lemma scope_close_stays: "scope_close cr order s = (e, s') \<Longrightarrow> sc_closed s'"
  by (auto simp: scope_close_def split: if_splits prod.splits dest: close_loop_closed)

lemma epoch_close_with_scope:
  "epoch_close cr i g = with_scope i (\<lambda>s. scope_close cr (items_list s) s) None g"
  by (simp add: epoch_close_def with_scope_def)

lemma evolves_epoch_close [evolve_intros]:
  assumes "epoch_close cr i g = (err, g')"
  shows "evolves g g'"
  by (rule evolves_with_scope [OF assms [unfolded epoch_close_with_scope]])
     (auto dest: scope_close_closed scope_close_stays)

lemma epoch_close_closes:
  assumes "epoch_close cr i g = (err, g')" "gt_epochs g' i = Some e"
  shows "sc_closed (ep_scope e)"
proof (cases "gt_epochs g i")
  case (Some d)
  obtain t u where tu: "scope_close cr (items_list (ep_scope d)) (ep_scope d) = (t, u)" by fastforce
  with assms Some have "e = d\<lparr>ep_scope := u\<rparr>" by (auto simp: epoch_close_def on_epoch_def)
  with scope_close_stays [OF tu] show ?thesis by simp
qed (use assms in \<open>simp add: epoch_close_def\<close>)

lemma evolves_observer [evolve_intros]: "evolves g (snd (observer_close cr i g))"
  by (auto simp: observer_close_def split: prod.splits
      intro: evolves_trans [OF evolves_epoch_close evolves_publish])

lemma evolves_Down [evolve_intros]: "evolves g (snd (epoch_Down cr i g))"
  by (auto simp: epoch_Down_def split: prod.splits
      intro: evolves_trans [OF evolves_epoch_close evolves_publish])

lemma evolves_failed [evolve_intros]: "evolves g (failed cr i e f g)"
proof -
  have "evolves g (snd (epoch_close cr i g))"
    by (metis evolves_epoch_close prod.collapse)
  then show ?thesis
    by (auto simp: failed_def Let_def intro: evolves_trans [OF _ evolves_publish] evolves_publish)
qed

lemma evolves_retire [evolve_intros]:
  assumes "retire cr i g = (err, g')"
  shows "evolves g g'"
proof -
  obtain h where h: "epoch_close cr i g = (err, h)" "g' = h\<lparr>gt_unsubscribed := gt_unsubscribed h @
      (case gt_epochs h i of None \<Rightarrow> [] | Some e \<Rightarrow> ep_cleanup e)\<rparr>"
    using assms by (auto simp: retire_def split: prod.splits)
  from evolves_epoch_close [OF h(1)] show ?thesis by (simp add: h(2) evolves_def)
qed

lemma retire_closes:
  assumes "retire cr i g = (err, g')" "gt_epochs g' i = Some e"
  shows "sc_closed (ep_scope e)"
  using assms epoch_close_closes [of cr i g] by (auto simp: retire_def split: prod.splits)

lemma evolves_add:
  assumes "epoch_add cr i r g = (e, g')" "unused i r g"
  shows "evolves g g'"
  by (rule evolves_with_scope [OF assms(1) [unfolded epoch_add_def]])
     (use assms(2) in \<open>auto simp: unused_def scope_add_def call_close_def intro: scope_ok_add split: if_splits\<close>)

section \<open>The invariant\<close>

text \<open>Every epoch is consistent, and only those in \<open>P\<close> may still be open.\<close>

definition gate_ok :: "nat set \<Rightarrow> gate \<Rightarrow> bool" where
  "gate_ok P g \<longleftrightarrow>
    (\<forall>i e. gt_epochs g i = Some e \<longrightarrow> scope_ok (ep_scope e) \<and> i < gt_next g \<and> (i \<notin> P \<longrightarrow> sc_closed (ep_scope e)))"

lemma gate_okD:
  assumes "gate_ok P g" "gt_epochs g i = Some e"
  shows "scope_ok (ep_scope e)" "i < gt_next g" "i \<notin> P \<Longrightarrow> sc_closed (ep_scope e)"
  using assms by (auto simp: gate_ok_def)

lemma gate_ok_evolves:
  assumes "gate_ok P g" "evolves g g'"
  shows "gate_ok P g'"
  unfolding gate_ok_def
proof (intro allI impI)
  fix i e'
  assume e': "gt_epochs g' i = Some e'"
  have "rel_option epoch_evolves (gt_epochs g i) (gt_epochs g' i)" using assms(2) by (simp add: evolves_def)
  then obtain e where "gt_epochs g i = Some e" "epoch_evolves e e'"
    using e' by (cases "gt_epochs g i") auto
  with gate_okD [OF assms(1)] assms(2) show
    "scope_ok (ep_scope e') \<and> i < gt_next g' \<and> (i \<notin> P \<longrightarrow> sc_closed (ep_scope e'))"
    by (auto simp: epoch_evolves_def evolves_def)
qed

lemma gate_ok_mono: "gate_ok P g \<Longrightarrow> P \<subseteq> Q \<Longrightarrow> gate_ok Q g"
  by (auto simp: gate_ok_def)

lemma gate_ok_shrink:
  assumes "gate_ok P g" "\<And>e. gt_epochs g i = Some e \<Longrightarrow> sc_closed (ep_scope e)"
  shows "gate_ok (P - {i}) g"
  using assms by (auto simp: gate_ok_def)

lemma gate_ok_retire:
  assumes "gate_ok P g" "retire cr i g = (err, g')"
  shows "gate_ok (P - {i}) g'"
  by (rule gate_ok_shrink [OF gate_ok_evolves [OF assms(1) evolves_retire [OF assms(2)]]])
     (rule retire_closes [OF assms(2)])

lemma unused_add:
  assumes "epoch_add cr i r g = (e, g')" "unused i q g" "q \<noteq> r"
  shows "unused i q g'"
  using assms by (auto simp: epoch_add_def with_scope_def unused_def on_epoch_def scope_add_def
      call_close_def split: option.splits prod.splits if_splits)

lemma evolves_attempts: "evolves g (g\<lparr>gt_attempts := n\<rparr>)"
  by (simp add: evolves_def option.rel_refl)

lemma evolves_dropped: "evolves g (g\<lparr>gt_dropped := n\<rparr>)"
  by (simp add: evolves_def option.rel_refl)

lemma evolves_dial_enter:
  assumes "dial_enter cr i inc op pctx g = (err, g')" "unused i inc g" "unused i op g" "inc \<noteq> op"
  shows "evolves g g'"
proof -
  obtain e1 g1 where 1: "epoch_add cr i inc g = (e1, g1)" by fastforce
  have ev1: "evolves g g1" by (rule evolves_add [OF 1 assms(2)])
  show ?thesis
  proof (cases e1)
    case (Some d)
    with assms(1) 1 ev1 show ?thesis by (auto simp: dial_enter_def)
  next
    case None
    obtain e2 g2 where 2: "epoch_add (\<lambda>_. None) i op g1 = (e2, g2)" by fastforce
    have ev2: "evolves g g2"
      using unused_add [OF 1 assms(3)] assms(4) by (intro evolves_trans [OF ev1 evolves_add [OF 2]]) auto
    have "g' = epoch_release cr i op (epoch_release cr i inc g2) \<or> g' = g2\<lparr>gt_attempts := gt_attempts g2 + 1\<rparr>"
      using assms(1) 1 2 None by (auto simp: dial_enter_def split: option.splits)
    moreover have "evolves g (epoch_release cr i op (epoch_release cr i inc g2))"
      by (rule evolves_trans [OF evolves_trans [OF ev2 evolves_release] evolves_release])
    ultimately show ?thesis using evolves_trans [OF ev2 evolves_attempts] by auto
  qed
qed

lemma evolves_dial_finish:
  assumes "dial_finish cr i inc op pctx out err g = (res, g')" "\<forall>c. out = Some c \<longrightarrow> unused i c g"
  shows "evolves g g'"
proof (cases err)
  case (Some e)
  let ?g1 = "case out of None \<Rightarrow> g | Some c \<Rightarrow> g\<lparr>gt_dropped := gt_dropped g @ [c]\<rparr>"
  have 1: "evolves g ?g1" by (auto intro: evolves_dropped split: option.splits)
  have 2: "evolves g (epoch_release cr i inc ?g1)" by (rule evolves_trans [OF 1 evolves_release])
  then have "evolves g (failed cr i e OutboundDialFailed (epoch_release cr i inc ?g1))"
    by (rule evolves_trans [OF _ evolves_failed])
  with 2 assms(1) Some show ?thesis
    by (auto simp: dial_finish_def Let_def intro: evolves_trans [OF _ evolves_release] split: if_splits)
next
  case None
  show ?thesis
  proof (cases out)
    case None
    let ?h = "epoch_release cr i inc g"
    have "evolves g (snd (epoch_close cr i ?h))"
      by (metis evolves_trans [OF evolves_release] evolves_epoch_close prod.collapse)
    with None \<open>err = None\<close> assms(1) show ?thesis
      by (auto simp: dial_finish_def Let_def
          intro!: evolves_trans [OF _ evolves_release] evolves_trans [OF _ evolves_publish])
  next
    case (Some c)
    obtain e1 g1 where 1: "epoch_add cr i c g = (e1, g1)" by fastforce
    have ev1: "evolves g g1" using assms(2) Some by (intro evolves_add [OF 1]) simp
    have rel: "evolves g h \<Longrightarrow> evolves g (epoch_release cr i r h)" for h r
      by (rule evolves_trans [OF _ evolves_release])
    from assms(1) Some \<open>err = None\<close> 1 ev1 show ?thesis
      by (auto simp: dial_finish_def intro!: rel split: option.splits)
  qed
qed

section \<open>Replacing\<close>

text \<open>An attachment that is refused leaves its epoch closed; one that succeeds installs an
  open epoch. Nothing else is left open.\<close>

lemma evolves_add_cleanup: "evolves g (add_cleanup i un g)"
  by (auto simp: add_cleanup_def epoch_evolves_def intro: evolves_on_epoch split: option.splits)

lemma gate_reject_spec:
  assumes "gate_reject cr i errs g = (err, g')"
  shows "evolves g g' \<and> err \<noteq> None \<and> (\<forall>e. gt_epochs g' i = Some e \<longrightarrow> sc_closed (ep_scope e))"
proof -
  let ?g1 = "gate_publish (OutboundEvent OutboundAttachmentRejected (epoch_generation i g) True) g"
  obtain r g2 where r: "retire cr i ?g1 = (r, g2)" by fastforce
  with assms have "g' = g2" "err \<noteq> None" by (auto simp: gate_reject_def Let_def)
  with evolves_trans [OF evolves_publish evolves_retire [OF r]] retire_closes [OF r] show ?thesis by blast
qed

definition attach_step :: "nat \<Rightarrow> gate \<Rightarrow> goerr option \<times> gate \<Rightarrow> bool" where
  "attach_step i g r \<longleftrightarrow> evolves g (snd r) \<and>
    (fst r \<noteq> None \<longrightarrow> (\<forall>e. gt_epochs (snd r) i = Some e \<longrightarrow> sc_closed (ep_scope e)))"

lemma attach_step_reject: "evolves g h \<Longrightarrow> attach_step i g (gate_reject cr i errs h)"
  using gate_reject_spec [of cr i errs h "fst (gate_reject cr i errs h)" "snd (gate_reject cr i errs h)"]
  by (auto simp: attach_step_def intro: evolves_trans)

lemma attach_step_sub:
  assumes "\<And>h. evolves h (snd (callback h))"
  shows "attach_step i g (attach_sub callback cr i answer g)"
proof (cases answer)
  case None
  then show ?thesis by (simp add: attach_sub_def attach_step_def)
next
  case (Some a)
  obtain un err fired where a: "a = (un, err, fired)" by (cases a) auto
  have "evolves g (add_cleanup i un (if fired then snd (callback g) else g))"
    using assms [of g] by (auto intro: evolves_trans [OF _ evolves_add_cleanup] evolves_add_cleanup)
  with Some a show ?thesis
    by (auto simp: attach_sub_def Let_def attach_step_reject split: option.splits)
       (simp_all add: attach_step_def)
qed

lemma attach_step_isup: "attach_step i g (attach_isup cr i answer g)"
  by (auto simp: attach_isup_def attach_step_reject split: option.splits)
     (simp_all add: attach_step_def)

lemma attach_step_and_then:
  assumes "attach_step i g r" "\<And>h. evolves g h \<Longrightarrow> attach_step i h (f h)"
  shows "attach_step i g (and_then r f)"
proof -
  obtain e h where r: "r = (e, h)" by fastforce
  show ?thesis
  proof (cases e)
    case None
    have gh: "evolves g h" using assms(1) by (simp add: attach_step_def r)
    with assms(2) [OF this] None r show ?thesis
      by (auto simp: and_then_def attach_step_def intro: evolves_trans)
  qed (use assms(1) r in \<open>simp add: and_then_def\<close>)
qed

definition attach_checks :: "close_results \<Rightarrow> attach_env \<Rightarrow> nat \<Rightarrow> gate \<Rightarrow> goerr option \<times> gate" where
  "attach_checks cr env i g = and_then (and_then
     (attach_sub (observer_close cr i) cr i (at_closer env) g)
     (attach_sub (epoch_Down cr i) cr i (at_updown env)))
     (attach_isup cr i (at_isup env))"

lemma attach_step_checks: "attach_step i g (attach_checks cr env i g)"
  unfolding attach_checks_def
  by (intro attach_step_and_then attach_step_sub attach_step_isup evolves_observer evolves_Down)

lemma attach_checks:
  "attach cr env g = and_then (attach_checks cr env (gt_next g) (new_epoch g))
     (attach_install cr (gt_next g) (at_late_close env))"
  by (simp add: attach_def attach_checks_def Let_def)

lemma gate_ok_new_epoch: "gate_ok P g \<Longrightarrow> gate_ok (insert (gt_next g) P) (new_epoch g)"
  by (auto simp: gate_ok_def new_epoch_def scope_ok_new less_SucI)

lemma gate_ok_next: "gate_ok P g \<Longrightarrow> gt_next g \<notin> P \<or> gt_epochs g (gt_next g) = None"
  by (meson gate_okD(2) less_irrefl not_None_eq)

lemma attach_spec:
  assumes "gate_ok P g" "gt_next g \<notin> P" "gt_epoch g = None" "attach cr env g = (err, g')"
  shows "gt_closed g' = gt_closed g \<and> gt_generation g' = gt_generation g \<and>
    (err \<noteq> None \<longrightarrow> gt_epoch g' = None \<and> gate_ok P g') \<and>
    (err = None \<longrightarrow> gt_epoch g' = Some (gt_next g) \<and> epoch_up (gt_next g) g' \<and>
       epoch_generation (gt_next g) g' = gt_generation g \<and> gate_ok (insert (gt_next g) P) g')"
proof -
  let ?i = "gt_next g" and ?Q = "insert (gt_next g) P"
  have P: "P = ?Q - {?i}" using assms(2) by auto
  obtain e1 g1 where c: "attach_checks cr env ?i (new_epoch g) = (e1, g1)" by fastforce
  have st: "evolves (new_epoch g) g1" "e1 \<noteq> None \<Longrightarrow> gt_epochs g1 ?i = Some e \<Longrightarrow> sc_closed (ep_scope e)" for e
    using attach_step_checks [of ?i "new_epoch g" cr env] by (auto simp: attach_step_def c)
  have ok: "gate_ok ?Q h" "gt_epoch h = None" "gt_closed h = gt_closed g" "gt_generation h = gt_generation g"
    "epoch_generation ?i h = gt_generation g" if "evolves (new_epoch g) h" for h
  proof -
    show "gate_ok ?Q h" by (rule gate_ok_evolves [OF gate_ok_new_epoch [OF assms(1)] that])
    have "rel_option epoch_evolves (gt_epochs (new_epoch g) ?i) (gt_epochs h ?i)"
      using that by (simp add: evolves_def)
    then show "epoch_generation ?i h = gt_generation g"
      by (cases "gt_epochs h ?i") (auto simp: new_epoch_def epoch_evolves_def epoch_generation_def)
  qed (use that assms(3) in \<open>simp_all add: evolves_def new_epoch_def\<close>)
  show ?thesis
  proof (cases e1)
    case (Some d)
    with assms(4) c have "err = Some d" "g' = g1" by (simp_all add: attach_checks and_then_def)
    with ok [OF st(1)] st(2) Some gate_ok_shrink [of ?Q g1 ?i] P show ?thesis by auto
  next
    case None
    define g2 where "g2 = (if at_late_close env then snd (observer_close cr ?i g1) else g1)"
    have ev2: "evolves (new_epoch g) g2"
      unfolding g2_def using evolves_trans [OF st(1) evolves_observer] st(1) by simp
    have a: "(if \<not> epoch_up ?i g2 then gate_reject cr ?i [] g2 else (None, g2\<lparr>gt_epoch := Some ?i\<rparr>)) = (err, g')"
      using assms(4) c None unfolding g2_def
      by (simp add: attach_checks and_then_def attach_install_def Let_def split del: if_split)
    show ?thesis
    proof (cases "epoch_up ?i g2")
      case True
      with a have "err = None" "g' = g2\<lparr>gt_epoch := Some ?i\<rparr>" by auto
      with True ok [OF ev2] show ?thesis
        by (simp add: gate_ok_def epoch_up_def epoch_generation_def)
    next
      case False
      with a have r: "gate_reject cr ?i [] g2 = (err, g')" by simp
      from gate_reject_spec [OF r] ok [OF evolves_trans [OF ev2]] gate_ok_shrink [of ?Q g' ?i] P
      show ?thesis by auto
    qed
  qed
qed

definition gate_inv :: "gate \<Rightarrow> bool" where
  "gate_inv g \<longleftrightarrow> gate_ok (set_option (gt_epoch g)) g \<and> (\<forall>i. gt_epoch g = Some i \<longrightarrow> i < gt_next g) \<and>
    (gt_closed g \<longrightarrow> gt_epoch g = None)"

lemma gate_inv_new: "gate_inv (new_gate policy notify)"
  by (simp add: gate_inv_def gate_ok_def new_gate_def)

lemma gate_ok_fields:
  "gate_ok P (g\<lparr>gt_epoch := x\<rparr>) = gate_ok P g" "gate_ok P (g\<lparr>gt_generation := n\<rparr>) = gate_ok P g"
  "gate_ok P (g\<lparr>gt_closed := b\<rparr>) = gate_ok P g"
  by (simp_all add: gate_ok_def)

lemma retire_old_spec:
  assumes "gate_ok (set_option old) g" "gt_epoch g = None" "retire_old cr old g = (err, g')"
  shows "gate_ok {} g' \<and> gt_epoch g' = None \<and> gt_closed g' = gt_closed g \<and>
    gt_generation g' = gt_generation g \<and> gt_next g' = gt_next g"
proof (cases old)
  case None
  with assms show ?thesis by (simp add: retire_old_def)
next
  case (Some i)
  obtain e h where r: "retire cr i g = (e, h)" by fastforce
  have ok: "gate_ok {} h" using gate_ok_retire [OF assms(1) r] Some by simp
  have "g' = h \<or> (\<exists>ev. g' = gate_publish ev h)"
    using assms(3) Some r by (auto simp: retire_old_def split: option.splits)
  with ok have "gate_ok {} g'" "evolves g g'"
    using gate_ok_evolves [OF ok evolves_publish] evolves_retire [OF r]
      evolves_trans [OF evolves_retire [OF r] evolves_publish] by auto
  with assms(2) show ?thesis by (simp add: evolves_def)
qed

text \<open>Held connections and operations of the epochs that are not current.\<close>

definition stale_empty :: "gate \<Rightarrow> bool" where
  "stale_empty g \<longleftrightarrow> (\<forall>i e. gt_epochs g i = Some e \<and> gt_epoch g \<noteq> Some i \<longrightarrow>
     sc_closed (ep_scope e) \<and> sc_items (ep_scope e) = {})"

lemma gate_ok_stale:
  assumes "gate_ok P g" "gt_epochs g i = Some e" "i \<notin> P"
  shows "sc_closed (ep_scope e) \<and> sc_items (ep_scope e) = {}"
  using gate_okD [OF assms(1,2)] assms(3) by (simp add: scope_ok_def)

lemma gate_inv_stale: "gate_inv g \<Longrightarrow> stale_empty g"
  unfolding stale_empty_def gate_inv_def
  by (intro allI impI, rule gate_ok_stale [of "set_option (gt_epoch g)"]) auto

lemma replace_spec:
  assumes "gate_inv g" "\<not> gt_closed g" "replace cr n g = (err, g')"
  shows "gate_inv g' \<and> gt_generation g' = gt_generation g + 1 \<and> \<not> gt_closed g' \<and>
    (err = None \<and> n \<noteq> None \<longrightarrow> (\<exists>i. gt_epoch g' = Some i \<and> epoch_up i g' \<and>
       epoch_generation i g' = gt_generation g + 1)) \<and>
    (err \<noteq> None \<or> n = None \<longrightarrow> gt_epoch g' = None)"
proof -
  let ?g1 = "g\<lparr>gt_epoch := None, gt_generation := gt_generation g + 1\<rparr>"
  obtain e h where r: "retire_old cr (gt_epoch g) ?g1 = (e, h)" by fastforce
  have ok1: "gate_ok (set_option (gt_epoch g)) ?g1"
    using assms(1) by (simp add: gate_inv_def gate_ok_def)
  have h: "gate_ok {} h" "gt_epoch h = None" "\<not> gt_closed h" "gt_generation h = gt_generation g + 1"
    using retire_old_spec [OF ok1 _ r] assms(2) by simp_all
  show ?thesis
  proof (cases "e = None \<and> n \<noteq> None")
    case True
    then obtain env where env: "n = Some env" by blast
    with assms(2,3) r True have a: "attach cr env h = (err, g')" by (simp add: replace_def and_then_def)
    from attach_spec [OF h(1) _ h(2) a] h have sp:
      "gt_closed g' = gt_closed h" "gt_generation g' = gt_generation h"
      "err \<noteq> None \<Longrightarrow> gt_epoch g' = None \<and> gate_ok {} g'"
      "err = None \<Longrightarrow> gt_epoch g' = Some (gt_next h) \<and> epoch_up (gt_next h) g' \<and>
         epoch_generation (gt_next h) g' = gt_generation h \<and> gate_ok {gt_next h} g'" by auto
    have "gt_next h < gt_next g'" if "err = None"
      using sp(4) [OF that] by (auto simp: epoch_up_def gate_ok_def split: option.splits)
    with sp h env show ?thesis by (cases err) (auto simp: gate_inv_def)
  next
    case False
    with assms(2,3) r have "g' = h" "err \<noteq> None \<or> n = None"
      by (auto simp: replace_def and_then_def split: option.splits)
    with h show ?thesis by (auto simp: gate_inv_def)
  qed
qed

text \<open>
  C18. Replacing the outgoing Network fails closed. On an open gate, whatever the old and the
  new Network answer: the generation grows by one; every epoch that is not current afterwards
  is closed and holds no connection and no operation; when the call succeeds with a Network,
  the gate is available with an epoch of the new generation; and when it fails, or detaches
  the Network, the gate is unavailable. On a closed gate it returns \<^verbatim>\<open>ErrClosed\<close> and changes
  nothing.
\<close>

theorem replace_fails_closed:
  assumes "gate_inv g" "replace cr n g = (err, g')"
  shows "gate_inv g' \<and> stale_empty g' \<and>
    (if gt_closed g then err = Some (Sentinel ErrClosed) \<and> g' = g
     else Generation (gate_state g') = Generation (gate_state g) + 1 \<and>
       (Available (gate_state g') \<longleftrightarrow> err = None \<and> n \<noteq> None) \<and>
       (\<forall>i. gt_epoch g' = Some i \<longrightarrow> epoch_generation i g' = Generation (gate_state g')))"
proof (cases "gt_closed g")
  case True
  with assms show ?thesis by (simp add: replace_def gate_inv_stale)
next
  case False
  note sp = replace_spec [OF assms(1) False assms(2)]
  with False gate_inv_stale [of g'] show ?thesis
    by (cases "err = None \<and> n \<noteq> None") (auto simp: gate_state_def)
qed

definition plain_network :: attach_env where
  "plain_network = \<lparr>at_closer = None, at_updown = None, at_isup = Some (True, None), at_late_close = False\<rparr>"

theorem replace_fails_closed_witness:
  "Available (gate_state (snd (replace (\<lambda>_. None) (Some plain_network) (new_gate 0 True))))"
proof -
  let ?r = "replace (\<lambda>_. None) (Some plain_network) (new_gate 0 True)"
  have "fst ?r = None"
    by (simp add: replace_def and_then_def retire_old_def new_gate_def attach_def attach_sub_def
        attach_isup_def attach_install_def plain_network_def Let_def new_epoch_def epoch_up_def
        scope_ctx_err_def newScope_def)
  with replace_fails_closed [OF gate_inv_new, of "\<lambda>_. None" "Some plain_network" 0 True "fst ?r" "snd ?r"]
  show ?thesis by (auto simp: new_gate_def)
qed

section \<open>Interleaved operation\<close>

definition opened :: "gsys \<Rightarrow> nat set" where
  "opened s = set_option (gt_epoch (gs_gate s)) \<union>
    (case gs_change s of RepRetire old _ \<Rightarrow> set_option old | RepClose old \<Rightarrow> set_option old | _ \<Rightarrow> {})"

definition gsys_inv :: "gsys \<Rightarrow> bool" where
  "gsys_inv s \<longleftrightarrow> gate_ok (opened s) (gs_gate s) \<and> (\<forall>i \<in> opened s. i < gt_next (gs_gate s)) \<and>
    (gs_change s \<noteq> RepIdle \<longrightarrow> gt_epoch (gs_gate s) = None) \<and>
    (gt_closed (gs_gate s) \<longrightarrow> gt_epoch (gs_gate s) = None \<and> (\<exists>old. gs_change s \<in> {RepIdle, RepClose old}))"

lemma gsys_inv_init: "gsys_inv (gs_init policy notify)"
  by (simp add: gsys_inv_def gs_init_def gate_ok_def new_gate_def opened_def)

lemma gsys_inv_evolves:
  assumes "gsys_inv s" "evolves (gs_gate s) g" "gs_change t = gs_change s" "gs_gate t = g"
  shows "gsys_inv t"
proof -
  have "opened t = opened s" using assms(2-4) by (simp add: opened_def evolves_def)
  then show ?thesis
    using assms gate_ok_evolves [OF _ assms(2)] by (simp add: gsys_inv_def evolves_def)
qed

lemma gsys_inv_retired:
  assumes "gsys_inv s" "gs_change s = RepRetire old n" "retire_old cr old (gs_gate s) = (err, g)"
  shows "gsys_inv (s\<lparr>gs_gate := g, gs_change :=
      (case (err, n) of (None, Some env) \<Rightarrow> RepAttach env | _ \<Rightarrow> RepIdle)\<rparr>)"
proof -
  have "gate_ok (set_option old) (gs_gate s)" "gt_epoch (gs_gate s) = None"
    using assms(1,2) by (auto simp: gsys_inv_def opened_def)
  moreover have "\<not> gt_closed (gs_gate s)" using assms(1,2) by (auto simp: gsys_inv_def)
  ultimately show ?thesis using retire_old_spec [OF _ _ assms(3)]
    by (auto simp: gsys_inv_def opened_def split: option.splits)
qed

lemma gsys_inv_attached:
  assumes "gsys_inv s" "gs_change s = RepAttach env" "attach cr env (gs_gate s) = (err, g)"
  shows "gsys_inv (s\<lparr>gs_gate := g, gs_change := RepIdle\<rparr>)"
proof -
  have ok: "gate_ok {} (gs_gate s)" "gt_epoch (gs_gate s) = None"
    using assms(1,2) by (auto simp: gsys_inv_def opened_def)
  note sp = attach_spec [OF ok(1) _ ok(2) assms(3), simplified]
  have "gt_next (gs_gate s) < gt_next g" if "err = None"
    using sp that by (auto simp: epoch_up_def gate_ok_def split: option.splits)
  moreover have "\<not> gt_closed (gs_gate s)" using assms(1,2) by (auto simp: gsys_inv_def)
  ultimately show ?thesis using sp by (cases err) (auto simp: gsys_inv_def opened_def)
qed

lemma gsys_inv_close_retired:
  assumes "gsys_inv s" "gs_change s = RepClose old"
  shows "gsys_inv (s\<lparr>gs_gate := (case old of None \<Rightarrow> gs_gate s | Some i \<Rightarrow> snd (retire cr i (gs_gate s))),
      gs_change := RepIdle\<rparr>)"
proof (cases old)
  case None
  with assms show ?thesis by (auto simp: gsys_inv_def opened_def)
next
  case (Some i)
  obtain e h where r: "retire cr i (gs_gate s) = (e, h)" by fastforce
  have "gate_ok {i} (gs_gate s)" "gt_epoch (gs_gate s) = None"
    using assms Some by (auto simp: gsys_inv_def opened_def)
  with gate_ok_retire [OF _ r] evolves_retire [OF r] Some r show ?thesis
    by (force simp: gsys_inv_def opened_def evolves_def)
qed

lemma gsys_inv_step:
  assumes "gstep cr s t" "gsys_inv s"
  shows "gsys_inv t"
  using assms(1)
proof cases
  case (replace_begin n)
  with assms(2) show ?thesis by (auto simp: gsys_inv_def opened_def gate_ok_fields)
next
  case close_begin
  with assms(2) show ?thesis by (auto simp: gsys_inv_def opened_def gate_ok_fields)
next
  case (close_retired old)
  then show ?thesis using gsys_inv_close_retired [OF assms(2)] by simp
next
  case (retired old n err g)
  then show ?thesis using gsys_inv_retired [OF assms(2)] by simp
next
  case (attached env err g)
  then show ?thesis using gsys_inv_attached [OF assms(2)] by simp
next
  case (enter d i inc op pctx err g)
  then show ?thesis
    using evolves_dial_enter [OF enter(6,4,5,3)] by (intro gsys_inv_evolves [OF assms(2)]) simp_all
next
  case (leave d i inc op out pctx err res g)
  then show ?thesis
    using evolves_dial_finish [OF leave(4,3)] by (intro gsys_inv_evolves [OF assms(2)]) simp_all
next
  case (callback i)
  then show ?thesis by (intro gsys_inv_evolves [OF assms(2) evolves_observer]) simp_all
next
  case (stream_failed i e)
  then show ?thesis by (intro gsys_inv_evolves [OF assms(2) evolves_failed]) simp_all
next
  case (hang_up i r)
  then show ?thesis by (intro gsys_inv_evolves [OF assms(2) evolves_release]) simp_all
qed (use assms(2) in \<open>auto simp: gsys_inv_def opened_def\<close>)

lemma gsys_inv_steps: "gsteps cr s t \<Longrightarrow> gsys_inv s \<Longrightarrow> gsys_inv t"
  by (induction rule: rtranclp_induct) (auto intro: gsys_inv_step)

text \<open>
  C12. The gate holds connections of the current Network only, under every interleaving of
  dials, replacements, callbacks of the Network, stream failures and hang-ups. Whenever no
  replacement or close is running, every epoch but the current one is closed and holds no
  incoming or outgoing connection and no pending operation; after the gate was closed, no
  epoch holds anything, even when dials were in flight.
\<close>

theorem gate_holds_current_only:
  assumes "gsteps cr (gs_init policy notify) s" "gs_change s = RepIdle"
  shows "stale_empty (gs_gate s) \<and>
    (gt_closed (gs_gate s) \<longrightarrow> (\<forall>i e. gt_epochs (gs_gate s) i = Some e \<longrightarrow> sc_items (ep_scope e) = {}))"
proof -
  have inv: "gsys_inv s" by (rule gsys_inv_steps [OF assms(1) gsys_inv_init])
  have ok: "gate_ok (set_option (gt_epoch (gs_gate s))) (gs_gate s)"
    using inv assms(2) by (simp add: gsys_inv_def opened_def)
  have "stale_empty (gs_gate s)"
    unfolding stale_empty_def
    by (intro allI impI, rule gate_ok_stale [OF ok]) auto
  moreover have "gt_closed (gs_gate s) \<Longrightarrow> gt_epoch (gs_gate s) = None"
    using inv by (simp add: gsys_inv_def)
  ultimately show ?thesis unfolding stale_empty_def by auto
qed

theorem gate_holds_current_only_witness:
  "\<exists>s. gsteps (\<lambda>_. None) (gs_init 0 True) s \<and> gt_closed (gs_gate s) \<and> stale_empty (gs_gate s)"
proof -
  let ?s0 = "gs_init 0 True"
  let ?s1 = "?s0\<lparr>gs_gate := (gs_gate ?s0)\<lparr>gt_closed := True, gt_epoch := None\<rparr>, gs_change := RepClose None\<rparr>"
  let ?s2 = "?s1\<lparr>gs_gate := gs_gate ?s1, gs_change := RepIdle\<rparr>"
  have "gstep (\<lambda>_. None) ?s0 ?s1"
    using gstep.close_begin [of ?s0 "\<lambda>_. None"] by (simp add: gs_init_def new_gate_def)
  moreover have "gstep (\<lambda>_. None) ?s1 ?s2"
    using gstep.close_retired [of ?s1 None "\<lambda>_. None"] by simp
  ultimately have r: "gsteps (\<lambda>_. None) ?s0 ?s2"
    by (meson rtranclp.rtrancl_refl rtranclp.rtrancl_into_rtrancl)
  from gate_holds_current_only [OF r] r show ?thesis by (intro exI [of _ ?s2]) simp
qed

section \<open>Dialling does not leak\<close>

text \<open>What epoch \<open>i\<close> holds.\<close>

definition held :: "gate \<Rightarrow> nat \<Rightarrow> nat set" where
  "held g i = (case gt_epochs g i of None \<Rightarrow> {} | Some e \<Rightarrow> sc_items (ep_scope e))"

definition epoch_ok :: "gate \<Rightarrow> nat \<Rightarrow> bool" where
  "epoch_ok g i \<longleftrightarrow> (\<exists>e. gt_epochs g i = Some e \<and> scope_ok (ep_scope e))"

lemma epoch_ok_evolves: "evolves g g' \<Longrightarrow> epoch_ok g i \<Longrightarrow> epoch_ok g' i"
proof -
  assume a: "evolves g g'" "epoch_ok g i"
  from a(1) have "rel_option epoch_evolves (gt_epochs g i) (gt_epochs g' i)" by (simp add: evolves_def)
  with a(2) show ?thesis by (cases "gt_epochs g' i") (auto simp: epoch_ok_def epoch_evolves_def)
qed

lemma unused_not_held:
  assumes "unused i r g" "epoch_ok g i"
  shows "r \<notin> held g i"
proof -
  from assms(2) obtain e where e: "gt_epochs g i = Some e" "scope_ok (ep_scope e)" by (auto simp: epoch_ok_def)
  have "sc_phase (ep_scope e) r \<noteq> ROpen" using assms(1) e(1) by (simp add: unused_def)
  then show ?thesis using e by (simp add: held_def scope_ok_def)
qed

lemma held_release:
  assumes "epoch_ok g i"
  shows "held (epoch_release cr i r g) i = held g i - {r}"
proof -
  from assms obtain e where e: "gt_epochs g i = Some e" "scope_ok (ep_scope e)" by (auto simp: epoch_ok_def)
  obtain x s where rc: "resource_close cr r (ep_scope e) = (x, s)" by fastforce
  have "\<forall>r. sc_phase (ep_scope e) r = ROpen \<longleftrightarrow> r \<in> sc_items (ep_scope e)" using e(2) by (simp add: scope_ok_def)
  from resource_close_shape [OF rc this] show ?thesis
    using e(1) rc by (auto simp: held_def epoch_release_def with_scope_def on_epoch_def call_close_def)
qed

lemma held_close:
  assumes "epoch_ok g i"
  shows "held (snd (epoch_close cr i g)) i = {}"
proof -
  from assms obtain e where e: "gt_epochs g i = Some e" "scope_ok (ep_scope e)" by (auto simp: epoch_ok_def)
  obtain x s where sc: "scope_close cr (items_list (ep_scope e)) (ep_scope e) = (x, s)" by fastforce
  from scope_close_spec [OF e(2) _ _ sc] items_list [OF e(2)] have "sc_items s = {}" by auto
  with e(1) sc show ?thesis by (simp add: held_def epoch_close_def on_epoch_def)
qed

lemma held_publish [simp]: "held (gate_publish ev g) i = held g i"
  by (simp add: held_def gate_publish_def)

lemma held_failed: "epoch_ok g i \<Longrightarrow> held (failed cr i e f g) i \<subseteq> held g i"
  by (auto simp: failed_def Let_def held_close)

lemma held_add:
  assumes "epoch_add cr i r g = (err, g')" "epoch_ok g i"
  shows "held g' i = (if err = None then insert r (held g i) else held g i)"
  using assms by (auto simp: epoch_add_def with_scope_def epoch_ok_def held_def on_epoch_def scope_add_def
      call_close_def split: if_splits)

lemmas epoch_ok_release = epoch_ok_evolves [OF evolves_release]
lemmas epoch_ok_failed = epoch_ok_evolves [OF evolves_failed]

lemma dial_error_held:
  assumes "dial_finish cr i inc op pctx out (Some d) g = (Inl e, g')" "epoch_ok g i"
  shows "held g' i \<subseteq> held g i - {inc, op}"
proof -
  define g1 where "g1 = (case out of None \<Rightarrow> g | Some c \<Rightarrow> g\<lparr>gt_dropped := gt_dropped g @ [c]\<rparr>)"
  have g1: "epoch_ok g1 i" "held g1 i = held g i"
    using assms(2) by (auto simp: g1_def epoch_ok_def held_def split: option.splits)
  define g2 where "g2 = epoch_release cr i inc g1"
  have g2: "epoch_ok g2 i" "held g2 i = held g i - {inc}"
    using g1 epoch_ok_release held_release by (simp_all add: g2_def)
  define g3 where "g3 = (if dial_ctx i op pctx g2 = None then failed cr i d OutboundDialFailed g2 else g2)"
  have g3: "epoch_ok g3 i" "held g3 i \<subseteq> held g i - {inc}"
    using g2 epoch_ok_failed [OF g2(1)] held_failed [OF g2(1)] by (auto simp: g3_def)
  have "g' = epoch_release cr i op g3"
    using assms(1) unfolding g1_def g2_def g3_def
    by (auto simp: dial_finish_def Let_def split del: if_split)
  then show ?thesis using g3(2) by (auto simp: held_release [OF g3(1)])
qed

lemma dial_nil_held:
  assumes "dial_finish cr i inc op pctx None None g = (Inl e, g')" "epoch_ok g i"
  shows "held g' i \<subseteq> held g i - {inc, op}"
proof -
  define h where "h = snd (epoch_close cr i (epoch_release cr i inc g))"
  have "epoch_ok h i" unfolding h_def
    by (metis epoch_ok_evolves evolves_epoch_close prod.collapse epoch_ok_release [OF assms(2)])
  then have "epoch_ok (gate_publish (OutboundEvent OutboundDialFailed (epoch_generation i h) True) h) i"
    by (rule epoch_ok_evolves [OF evolves_publish])
  moreover have "held h i = {}" unfolding h_def by (rule held_close [OF epoch_ok_release [OF assms(2)]])
  moreover have "g' = epoch_release cr i op (gate_publish (OutboundEvent OutboundDialFailed (epoch_generation i h) True) h)"
    using assms(1) by (simp add: dial_finish_def Let_def h_def)
  ultimately show ?thesis by (simp add: held_release)
qed

lemma dial_conn_held:
  assumes "dial_finish cr i inc op pctx (Some c) None g = (Inl e, g')" "epoch_ok g i"
    and "unused i c g" "c \<notin> held g i"
  shows "held g' i \<subseteq> held g i - {inc, op}"
proof -
  obtain x g1 where a: "epoch_add cr i c g = (x, g1)" by fastforce
  have ok1: "epoch_ok g1 i" using epoch_ok_evolves [OF evolves_add [OF a assms(3)] assms(2)] .
  note h1 = held_add [OF a assms(2)]
  have "(x \<noteq> None \<and> g' = epoch_release cr i op (epoch_release cr i inc g1)) \<or>
      g' = epoch_release cr i op (epoch_release cr i inc (epoch_release cr i c g1))"
    using assms(1) a by (cases x; cases "dial_ctx i op pctx g1") (auto simp: dial_finish_def)
  moreover have "held (epoch_release cr i op (epoch_release cr i inc h)) i = held h i - {inc, op}"
    if "epoch_ok h i" for h
    using held_release [OF that] held_release [OF epoch_ok_release [OF that]] by auto
  moreover have "held (epoch_release cr i c g1) i = held g1 i - {c}" by (rule held_release [OF ok1])
  ultimately show ?thesis
    using h1 assms(4) ok1 epoch_ok_release [OF ok1, of cr i c] by (cases x) auto
qed

lemma dial_finish_held:
  assumes "dial_finish cr i inc op pctx out err g = (Inl e, g')" "epoch_ok g i"
    and "\<forall>c. out = Some c \<longrightarrow> unused i c g \<and> c \<notin> held g i"
  shows "held g' i \<subseteq> held g i - {inc, op}"
proof (cases err)
  case None
  show ?thesis
  proof (cases out)
    case None
    with \<open>err = None\<close> assms show ?thesis by (intro dial_nil_held) simp_all
  next
    case (Some c)
    with \<open>err = None\<close> assms show ?thesis by (intro dial_conn_held [where c = c]) simp_all
  qed
next
  case (Some d)
  with assms show ?thesis by (intro dial_error_held) simp_all
qed

lemma dial_enter_held:
  assumes "dial_enter cr i inc op pctx g = (err, g')" "epoch_ok g i" "unused i inc g" "unused i op g" "inc \<noteq> op"
  shows "epoch_ok g' i" "err \<noteq> None \<Longrightarrow> held g' i \<subseteq> held g i"
    "err = None \<Longrightarrow> held g' i = insert op (insert inc (held g i)) \<and> gt_attempts g' = gt_attempts g + 1"
proof -
  show "epoch_ok g' i" by (rule epoch_ok_evolves [OF evolves_dial_enter [OF assms(1,3-5)] assms(2)])
  obtain e1 g1 where 1: "epoch_add cr i inc g = (e1, g1)" by fastforce
  obtain e2 g2 where 2: "epoch_add (\<lambda>_. None) i op g1 = (e2, g2)" by fastforce
  have ok1: "epoch_ok g1 i" by (rule epoch_ok_evolves [OF evolves_add [OF 1 assms(3)] assms(2)])
  have u: "unused i op g1" using unused_add [OF 1 assms(4)] assms(5) by simp
  have ok2: "epoch_ok g2 i" by (rule epoch_ok_evolves [OF evolves_add [OF 2 u] ok1])
  note h = held_add [OF 1 assms(2)] held_add [OF 2 ok1]
  have att: "gt_attempts g2 = gt_attempts g"
    using 1 2 by (auto simp: epoch_add_def with_scope_def on_epoch_def split: option.splits prod.splits)
  have op_open: "e2 = None" if "dial_ctx i op pctx g2 = None"
  proof (rule ccontr)
    assume "e2 \<noteq> None"
    then have "held g2 i = held g1 i" using h(2) by auto
    moreover obtain s where "gt_epochs g2 i = Some s" "scope_ok (ep_scope s)" using ok2 by (auto simp: epoch_ok_def)
    moreover have "sc_phase (ep_scope s) op = ROpen" if "gt_epochs g2 i = Some s" for s
      using \<open>dial_ctx i op pctx g2 = None\<close> that by (auto simp: dial_ctx_def split: option.splits if_splits)
    ultimately have "op \<in> held g1 i" by (auto simp: held_def scope_ok_def)
    moreover have "op \<notin> held g1 i"
      by (rule unused_not_held [OF u ok1])
    ultimately show False by blast
  qed
  have rel: "held (epoch_release cr i op (epoch_release cr i inc g2)) i = held g2 i - {inc, op}"
    using held_release [OF ok2] held_release [OF epoch_ok_release [OF ok2]] by auto
  show "err \<noteq> None \<Longrightarrow> held g' i \<subseteq> held g i"
    using assms(1) 1 2 h rel
    by (cases e1; cases e2; cases "dial_ctx i op pctx g2") (auto simp: dial_enter_def)
  show "err = None \<Longrightarrow> held g' i = insert op (insert inc (held g i)) \<and> gt_attempts g' = gt_attempts g + 1"
    using assms(1) 1 2 h op_open att
    by (cases e1; cases "dial_ctx i op pctx g2") (auto simp: dial_enter_def held_def)
qed

lemma dial_finish_out:
  assumes "dial_finish cr i inc op pctx out err g = (Inr c, g')"
  shows "out = Some c" "err = None"
  using assms by (cases err; cases out; auto simp: dial_finish_def Let_def split: prod.splits option.splits)+

lemma dial_finish_success:
  assumes "dial_finish cr i inc op pctx out err g = (Inr c, g')" "epoch_ok g i" "unused i c g"
  shows "out = Some c \<and> epoch_up i g' \<and> held g' i = insert c (held g i) - {op} \<and> epoch_up i g"
proof -
  note oe = dial_finish_out(2) [OF assms(1)] dial_finish_out(1) [OF assms(1)]
  obtain x g1 where a: "epoch_add cr i c g = (x, g1)" by fastforce
  with assms(1) oe have x: "x = None" and g': "g' = epoch_release cr i op g1"
    by (cases x; cases "dial_ctx i op pctx g1"; auto simp: dial_finish_def)+
  have ok1: "epoch_ok g1 i" by (rule epoch_ok_evolves [OF evolves_add [OF a assms(3)] assms(2)])
  have up: "epoch_up i g" "epoch_up i g1"
    using a x assms(2) by (auto simp: epoch_add_def with_scope_def scope_add_def epoch_up_def epoch_ok_def
        scope_ctx_err_def on_epoch_def split: option.splits if_splits)
  have "epoch_up i g'"
    using up(2) unfolding g' epoch_release_def
    by (auto simp: with_scope_def epoch_up_def on_epoch_def scope_ctx_err_def
        dest: resource_close_closed split: option.splits prod.splits if_splits)
  with oe up held_release [OF ok1] held_add [OF a assms(2)] x show ?thesis by (simp add: g')
qed

lemma unused_evolving_enter:
  assumes "dial_enter cr i inc op pctx g = (None, g')" "unused i c g" "c \<noteq> inc" "c \<noteq> op"
  shows "unused i c g'"
proof -
  obtain e1 g1 where 1: "epoch_add cr i inc g = (e1, g1)" by fastforce
  obtain e2 g2 where 2: "epoch_add (\<lambda>_. None) i op g1 = (e2, g2)" by fastforce
  have "unused i c g2" by (rule unused_add [OF 2 unused_add [OF 1 assms(2,3)] assms(4)])
  moreover have "g' = g2\<lparr>gt_attempts := gt_attempts g2 + 1\<rparr>"
    using assms(1) 1 2 by (cases e1; cases "dial_ctx i op pctx g2") (auto simp: dial_enter_def)
  ultimately show ?thesis by (simp add: unused_def)
qed

lemma unused_epoch_close:
  assumes "epoch_ok g i" "unused i c g"
  shows "unused i c (snd (epoch_close cr i g))"
proof -
  from assms obtain e where e: "gt_epochs g i = Some e" "scope_ok (ep_scope e)" by (auto simp: epoch_ok_def)
  obtain x s where sc: "scope_close cr (items_list (ep_scope e)) (ep_scope e) = (x, s)" by fastforce
  from scope_close_spec [OF e(2) _ _ sc] items_list [OF e(2)] assms(2) e(1)
  have "sc_phase s c = RNone" by (simp add: unused_def)
  with e(1) sc show ?thesis by (simp add: unused_def epoch_close_def on_epoch_def)
qed

lemma epoch_close_down: "epoch_ok g i \<Longrightarrow> \<not> epoch_up i (snd (epoch_close cr i g))"
  using epoch_close_closes [of cr i g "fst (epoch_close cr i g)" "snd (epoch_close cr i g)"]
  by (auto simp: epoch_up_def scope_ctx_err_def split: option.splits)

lemma dial_pick_available: "dial_pick g = None \<longleftrightarrow> \<not> Available (gate_state g)"
  by (auto simp: dial_pick_def gate_state_def split: option.splits)

lemma dial_spec:
  assumes "gate_inv g" "dial cr env inc op g = (res, g')"
    and "distinct (inc # op # (case dl_out env of None \<Rightarrow> [] | Some c \<Rightarrow> [c]))"
    and "\<forall>i. gt_epoch g = Some i \<longrightarrow> unused i inc g \<and> unused i op g \<and> (\<forall>c. dl_out env = Some c \<longrightarrow> unused i c g)"
  shows "(\<not> Available (gate_state g) \<longrightarrow> res = Inl (Sentinel ErrOutboundUnavailable) \<and> g' = g) \<and>
    (\<forall>i e. gt_epoch g = Some i \<and> res = Inl e \<longrightarrow> held g' i \<subseteq> held g i) \<and>
    (\<forall>c. res = Inr c \<longrightarrow> (\<exists>i. gt_epoch g = Some i \<and> dl_out env = Some c \<and> epoch_up i g' \<and>
       held g' i = {c, inc} \<union> held g i))"
proof (cases "dial_pick g")
  case None
  with assms(2) show ?thesis by (auto simp: dial_def)
next
  case (Some i)
  then have i: "gt_epoch g = Some i" by (auto simp: dial_pick_def split: option.splits if_splits)
  have av: "Available (gate_state g)" using Some dial_pick_available [of g] by simp
  have "gt_epochs g i \<noteq> None" using Some i by (auto simp: dial_pick_def epoch_up_def split: if_splits option.splits)
  then have ok: "epoch_ok g i" using assms(1) gate_okD(1) by (auto simp: gate_inv_def epoch_ok_def)
  have u: "unused i inc g" "unused i op g" "inc \<noteq> op" using assms(3,4) i by auto
  have opn: "op \<notin> held g i" using unused_not_held [OF u(2) ok] .
  obtain x g1 where 1: "dial_enter cr i inc op (dl_before env) g = (x, g1)" by fastforce
  note en = dial_enter_held [OF 1 ok u]
  show ?thesis
  proof (cases x)
    case (Some e)
    with assms(2) \<open>dial_pick g = Some i\<close> 1 have "res = Inl e" "g' = g1" by (simp_all add: dial_def)
    with en(2) Some i av show ?thesis by simp
  next
    case x: None
    define g2 where "g2 = (if dl_closed env then snd (epoch_close cr i g1) else g1)"
    have fin: "dial_finish cr i inc op (dl_after env) (dl_out env) (dl_err env) g2 = (res, g')"
      using assms(2) Some 1 x unfolding g2_def by (simp add: dial_def Let_def split del: if_split)
    have ok2: "epoch_ok g2 i"
      using en(1) epoch_ok_evolves [OF evolves_epoch_close [of cr i g1] en(1)] unfolding g2_def
      by (metis prod.collapse)
    have h2: "held g2 i \<subseteq> insert op (insert inc (held g i))"
      using en(3) [OF x] held_close [OF en(1)] by (simp add: g2_def)
    have u2: "unused i c g2" if "dl_out env = Some c" for c
    proof -
      have "unused i c g1"
        using unused_evolving_enter [OF 1 [unfolded x], of c] assms(3,4) i that by auto
      then show ?thesis using unused_epoch_close [OF en(1)] by (simp add: g2_def)
    qed
    show ?thesis
    proof (cases res)
      case (Inl e)
      have "held g' i \<subseteq> held g2 i - {inc, op}"
        using u2 unused_not_held [OF _ ok2] by (intro dial_finish_held [OF fin [unfolded Inl] ok2]) blast
      with h2 i av Inl show ?thesis by auto
    next
      case (Inr c)
      have out: "dl_out env = Some c" by (rule dial_finish_out(1) [OF fin [unfolded Inr]])
      note s = dial_finish_success [OF fin [unfolded Inr] ok2 u2 [OF out]]
      have "g2 = g1" using s epoch_close_down [OF en(1)] by (auto simp: g2_def split: if_splits)
      moreover have "c \<noteq> op" using assms(3) out by auto
      ultimately have "held g' i = {c, inc} \<union> held g i" using s en(3) [OF x] opn u(3) by auto
      with Inr s i av show ?thesis by simp
    qed
  qed
qed

text \<open>
  A connection that the Network gave to a dial which fails is closed: at once when it came with
  an error, otherwise by the scope of the epoch.
\<close>

lemma dropped_kept:
  "gt_dropped (gate_publish ev g) = gt_dropped g" "gt_dropped (snd (epoch_close cr i g)) = gt_dropped g"
  "gt_dropped (epoch_release cr i r g) = gt_dropped g"
  by (auto simp: gate_publish_def epoch_close_def epoch_release_def with_scope_def on_epoch_def split: option.split prod.split)

lemma dropped_failed: "gt_dropped (failed cr i e f g) = gt_dropped g"
  by (simp add: failed_def Let_def dropped_kept)

definition epoch_log :: "nat \<Rightarrow> gate \<Rightarrow> nat list" where
  "epoch_log i g = (case gt_epochs g i of None \<Rightarrow> [] | Some e \<Rightarrow> sc_log (ep_scope e))"

lemmas epoch_log_defs = epoch_log_def epoch_release_def epoch_add_def with_scope_def on_epoch_def
  scope_add_def resource_close_def call_close_def

lemma log_release: "c \<in> set (epoch_log i g) \<Longrightarrow> c \<in> set (epoch_log i (epoch_release cr i r g))"
  by (cases "gt_epochs g i") (auto simp: epoch_log_defs split: rphase.split)

lemma log_add_refused: "epoch_add cr i c g = (Some e, g') \<Longrightarrow> gt_epochs g i \<noteq> None \<Longrightarrow> c \<in> set (epoch_log i g')"
  by (auto simp: epoch_log_defs split: option.splits prod.splits if_splits)

lemma log_add_release:
  "epoch_add cr i c g = (None, g') \<Longrightarrow> gt_epochs g i \<noteq> None \<Longrightarrow> c \<in> set (epoch_log i (epoch_release cr i c g'))"
  by (auto simp: epoch_log_defs split: option.splits prod.splits if_splits)

lemma dial_finish_closes:
  assumes "dial_finish cr i inc op pctx (Some c) err g = (Inl x, g')" "gt_epochs g i \<noteq> None"
  shows "if err = None then c \<in> set (epoch_log i g') else gt_dropped g' = gt_dropped g @ [c]"
proof (cases err)
  case (Some e)
  with assms(1) show ?thesis by (auto simp: dial_finish_def Let_def dropped_kept dropped_failed split: if_splits)
next
  case None
  obtain r g1 where g1: "epoch_add cr i c g = (r, g1)" by fastforce
  show ?thesis
  proof (cases r)
    case (Some e)
    then have "g' = epoch_release cr i op (epoch_release cr i inc g1)" using None assms(1) g1 by (simp add: dial_finish_def)
    with log_add_refused [OF g1 [unfolded Some] assms(2)] log_release None show ?thesis by simp
  next
    case r: None
    then have "g' = epoch_release cr i op (epoch_release cr i inc (epoch_release cr i c g1))"
      using None assms(1) g1 by (auto simp: dial_finish_def split: option.splits)
    with log_add_release [OF g1 [unfolded r] assms(2)] log_release None show ?thesis by simp
  qed
qed

text \<open>
  C31. A dial either hands out a connection that the open current epoch owns, or leaves
  nothing behind. While the gate is unavailable a dial is refused without calling the
  Network. On every error path, cancellation, closing of the epoch while the Network dials
  and answers without a connection included, neither the incoming connection nor the
  operation nor the new connection stays registered. On success the outgoing and the
  incoming connection are registered with an epoch that is still open, so that retiring it
  closes both.
\<close>

theorem dial_owns_or_leaves_nothing:
  assumes "gate_inv g" "dial cr env inc op g = (res, g')"
    and "distinct (inc # op # (case dl_out env of None \<Rightarrow> [] | Some c \<Rightarrow> [c]))"
    and "\<forall>i. gt_epoch g = Some i \<longrightarrow> unused i inc g \<and> unused i op g \<and> (\<forall>c. dl_out env = Some c \<longrightarrow> unused i c g)"
  shows "(\<not> Available (gate_state g) \<longrightarrow> res = Inl (Sentinel ErrOutboundUnavailable) \<and> g' = g) \<and>
    (\<forall>i e. gt_epoch g = Some i \<and> res = Inl e \<longrightarrow> held g' i \<subseteq> held g i) \<and>
    (\<forall>c. res = Inr c \<longrightarrow> (\<exists>i. gt_epoch g = Some i \<and> dl_out env = Some c \<and> epoch_up i g' \<and>
       held g' i = {c, inc} \<union> held g i))"
  by (rule dial_spec [OF assms])

definition sample_gate :: gate where
  "sample_gate = snd (replace (\<lambda>_. None) (Some plain_network) (new_gate 0 True))"

definition sample_dial :: dial_env where
  "sample_dial = \<lparr>dl_before = None, dl_closed = False, dl_out = Some 3, dl_err = None, dl_after = None\<rparr>"

lemma sample_gate_value:
  "gt_epoch sample_gate = Some 0" "gt_closed sample_gate = False"
  "gt_epochs sample_gate = (\<lambda>_. None)(0 \<mapsto> \<lparr>ep_scope = newScope, ep_generation = 1, ep_cleanup = []\<rparr>)"
  by (simp_all add: sample_gate_def replace_def and_then_def retire_old_def new_gate_def attach_def
      attach_sub_def attach_isup_def attach_install_def plain_network_def Let_def new_epoch_def
      epoch_up_def scope_ctx_err_def newScope_def)

lemma sample_gate_inv: "gate_inv sample_gate"
  using replace_spec [OF gate_inv_new, of 0 True "\<lambda>_. None" "Some plain_network"]
  by (metis new_gate_def gate.select_convs(2) prod.collapse sample_gate_def)

theorem dial_owns_or_leaves_nothing_witness:
  "\<exists>g'. dial (\<lambda>_. None) sample_dial 1 2 sample_gate = (Inr 3, g') \<and> held g' 0 = {3, 1}"
proof -
  have d: "fst (dial (\<lambda>_. None) sample_dial 1 2 sample_gate) = Inr 3"
    by (simp add: dial_def dial_pick_def sample_gate_value epoch_up_def scope_ctx_err_def newScope_def
        dial_enter_def epoch_add_def with_scope_def scope_add_def on_epoch_def sample_dial_def dial_ctx_def
        dial_finish_def Let_def)
  obtain g' where g': "dial (\<lambda>_. None) sample_dial 1 2 sample_gate = (Inr 3, g')"
    using d by (metis prod.collapse)
  have "held sample_gate 0 = {}" by (simp add: held_def sample_gate_value newScope_def)
  moreover have "\<forall>i. gt_epoch sample_gate = Some i \<longrightarrow> unused i 1 sample_gate \<and> unused i 2 sample_gate \<and>
      (\<forall>c. dl_out sample_dial = Some c \<longrightarrow> unused i c sample_gate)"
    by (simp add: sample_gate_value unused_def newScope_def)
  ultimately show ?thesis
    using dial_owns_or_leaves_nothing [OF sample_gate_inv g'] g'
    by (auto simp: sample_gate_value sample_dial_def)
qed

end
