(* ===== verification/Tor_Proxy.thy ===== *)
theory Tor_Proxy
  imports Tor_Gate Tor_Config
begin

text \<open>
  The local SOCKS5 proxy that Tor connects through (proxy.go, \<^verbatim>\<open>proxyServer\<close>): username
  authentication, the CONNECT request with numeric addresses only, the handling of one
  connection over the gate, and the accept loop with its connection limit. A connection is
  the bytes its peer sends and the bytes written to it.
\<close>

section \<open>Connections\<close>

text \<open>\<open>pc_writes\<close> are the results of the writes to come: \<^const>\<open>None\<close> for success, also when the
  list is exhausted, and the number of bytes delivered before an error.\<close>

record pconn =
  pc_in :: "u8 list"
  pc_out :: "u8 list"
  pc_writes :: "nat option list"

definition ReadFull :: "nat \<Rightarrow> pconn \<Rightarrow> (u8 list \<times> pconn) option" where
  "ReadFull n c = (if length (pc_in c) < n then None
     else Some (take n (pc_in c), c\<lparr>pc_in := drop n (pc_in c)\<rparr>))"

definition conn_write :: "u8 list \<Rightarrow> pconn \<Rightarrow> bool \<times> pconn" where
  "conn_write bs c =
    (case pc_writes c of
       Some k # ws \<Rightarrow> (False, c\<lparr>pc_out := pc_out c @ take k bs, pc_writes := ws\<rparr>)
     | None # ws \<Rightarrow> (True, c\<lparr>pc_out := pc_out c @ bs, pc_writes := ws\<rparr>)
     | [] \<Rightarrow> (True, c\<lparr>pc_out := pc_out c @ bs\<rparr>))"

section \<open>Authentication\<close>

text \<open>The second part: the username and password message of RFC 1929.\<close>

definition read_credentials :: "pconn \<Rightarrow> (u8 list \<times> u8 list \<times> pconn) option" where
  "read_credentials c =
    (case ReadFull 2 c of
       Some ([v, n], c1) \<Rightarrow>
         if v \<noteq> 1 \<or> n = 0 then None
         else (case ReadFull (unat n) c1 of
             None \<Rightarrow> None
           | Some (user, c2) \<Rightarrow>
               (case ReadFull 1 c2 of
                  Some ([m], c3) \<Rightarrow>
                    if m = 0 then None
                    else (case ReadFull (unat m) c3 of
                        None \<Rightarrow> None
                      | Some (password, c4) \<Rightarrow> Some (user, password, c4))
                | _ \<Rightarrow> None))
     | _ \<Rightarrow> None)"

text \<open>The first part: version and methods.\<close>

definition read_methods :: "pconn \<Rightarrow> (u8 list \<times> pconn) option" where
  "read_methods c =
    (case ReadFull 2 c of
       Some ([v, n], c1) \<Rightarrow> if v \<noteq> 5 \<or> n = 0 then None else ReadFull (unat n) c1
     | _ \<Rightarrow> None)"

definition proxy_authenticate :: "u8 list \<Rightarrow> u8 list \<Rightarrow> pconn \<Rightarrow> bool \<times> pconn" where
  "proxy_authenticate user password c =
    (case read_methods c of
       None \<Rightarrow> (False, c)
     | Some (methods, c1) \<Rightarrow>
         if 2 \<notin> set methods then (False, snd (conn_write [5, 255] c1))
         else (case conn_write [5, 2] c1 of
             (False, c2) \<Rightarrow> (False, c2)
           | (True, c2) \<Rightarrow>
               (case read_credentials c2 of
                  None \<Rightarrow> (False, c2)
                | Some (u, p, c3) \<Rightarrow>
                    let ok = (u = user \<and> p = password)
                    in (case conn_write [1, if ok then 0 else 1] c3 of (w, c4) \<Rightarrow> (ok \<and> w, c4)))))"

section \<open>Requests and replies\<close>

text \<open>The address part of a request: IPv4 or IPv6, no names.\<close>

definition read_address :: "u8 \<Rightarrow> pconn \<Rightarrow> (ipaddr \<times> pconn, u8) sum" where
  "read_address kind c =
    (if kind = 1 then (case ReadFull 4 c of None \<Rightarrow> Inr 1 | Some (b, c1) \<Rightarrow> Inl (IPv4 b, c1))
     else if kind = 4 then (case ReadFull 16 c of None \<Rightarrow> Inr 1 | Some (b, c1) \<Rightarrow> Inl (IPv6 b [], c1))
     else Inr 8)"

definition Uint16 :: "u8 list \<Rightarrow> u16" where
  "Uint16 bs = of_nat (unat (bs ! 0) * 256 + unat (bs ! 1))"

text \<open>\<^verbatim>\<open>readConnect\<close>: the address text with code 0, or a nonzero SOCKS error code.\<close>

definition readConnect :: "pconn \<Rightarrow> (string \<times> u8) \<times> pconn" where
  "readConnect c =
    (case ReadFull 4 c of
       Some ([v, cmd, rsv, kind], c1) \<Rightarrow>
         if v \<noteq> 5 \<or> rsv \<noteq> 0 then (([], 1), c1)
         else if cmd \<noteq> 1 then (([], 7), c1)
         else (case read_address kind c1 of
             Inr code \<Rightarrow> (([], code), c1)
           | Inl (addr, c2) \<Rightarrow>
               (case ReadFull 2 c2 of
                  None \<Rightarrow> (([], 1), c2)
                | Some (port, c3) \<Rightarrow>
                    if Uint16 port = 0 \<or> IsUnspecified addr then (([], 8), c3)
                    else ((print_addrport \<lparr>ap_addr = addr, ap_port = Uint16 port\<rparr>, 0), c3)))
     | _ \<Rightarrow> (([], 1), c))"

definition replySOCKS :: "u8 \<Rightarrow> pconn \<Rightarrow> bool \<times> pconn" where
  "replySOCKS code c = conn_write [5, code, 0, 1, 0, 0, 0, 0, 0, 0] c"

section \<open>One connection\<close>

text \<open>
  What the environment decides while one connection is handled: whether setting the
  deadline works, what happens during the dial to an address, the state of the context
  after the reply, whether clearing the deadline works, whether the outgoing connection can
  be closed for writing only, which copy ends first, and the results of the copies in the
  order in which they end.
\<close>

datatype copy_dst = ToOut | ToInc

record handle_env =
  he_deadline :: bool
  he_dial :: "string \<Rightarrow> dial_env"
  he_ctx :: "goerr option"
  he_clear :: bool
  he_half :: bool
  he_first :: copy_dst
  he_copies :: "goerr option \<times> goerr option"

text \<open>\<^verbatim>\<open>proxyPair.Close\<close>.\<close>

definition pair_close :: "close_results \<Rightarrow> nat \<Rightarrow> nat \<Rightarrow> nat \<Rightarrow> gate \<Rightarrow> gate" where
  "pair_close cr i inc out g = epoch_release cr i out (epoch_release cr i inc g)"

definition stream_error :: "close_results \<Rightarrow> nat \<Rightarrow> goerr option \<Rightarrow> gate \<Rightarrow> gate" where
  "stream_error cr i err g =
    (case err of
       None \<Rightarrow> g
     | Some e \<Rightarrow> if networkFailure (Some e) then failed cr i e OutboundStreamFailed g else g)"

text \<open>
  The two copies, in the order in which they end: which side each one writes to, and its
  error. A copy that ends shuts down the writing side of its destination, or closes the
  destination when that is not supported (\<open>half\<close> tells this of the outgoing connection;
  closing the incoming one does not concern the gate).
\<close>

definition copyOne :: "close_results \<Rightarrow> bool \<Rightarrow> nat \<Rightarrow> nat \<Rightarrow> nat \<Rightarrow> copy_dst \<Rightarrow> gate \<Rightarrow> gate" where
  "copyOne cr half i inc out dst g =
    (if dst = ToOut \<and> \<not> half then pair_close cr i inc out g else g)"

definition relay ::
  "close_results \<Rightarrow> bool \<Rightarrow> nat \<Rightarrow> nat \<Rightarrow> nat \<Rightarrow> copy_dst \<Rightarrow> goerr option \<times> goerr option \<Rightarrow> gate \<Rightarrow> gate" where
  "relay cr half i inc out dst errs g =
    (let g1 = copyOne cr half i inc out dst g;
         g2 = (if fst errs \<noteq> None then pair_close cr i inc out g1 else g1);
         g3 = copyOne cr half i inc out (if dst = ToOut then ToInc else ToOut) g2
     in stream_error cr i (snd errs) (stream_error cr i (fst errs) g3))"

definition handle ::
  "close_results \<Rightarrow> handle_env \<Rightarrow> u8 list \<Rightarrow> u8 list \<Rightarrow> nat \<Rightarrow> nat \<Rightarrow> pconn \<Rightarrow> gate \<Rightarrow> pconn \<times> gate" where
  "handle cr env user password inc op c g =
    (if \<not> he_deadline env then (c, g)
     else case proxy_authenticate user password c of
         (False, c1) \<Rightarrow> (c1, g)
       | (True, c1) \<Rightarrow>
           (case readConnect c1 of
              ((address, code), c2) \<Rightarrow>
                if code \<noteq> 0 then (snd (replySOCKS code c2), g)
                else (case dial cr (he_dial env address) inc op g of
                    (Inl e, g1) \<Rightarrow> (snd (replySOCKS 1 c2), g1)
                  | (Inr out, g1) \<Rightarrow>
                      let i = the (dial_pick g);
                          (sent, c3) = replySOCKS 0 c2
                      in if \<not> sent \<or> he_ctx env \<noteq> None \<or> \<not> he_clear env
                         then (c3, pair_close cr i inc out g1)
                         else (c3, pair_close cr i inc out (relay cr (he_half env) i inc out (he_first env) (he_copies env) g1)))))"

section \<open>The accept loop\<close>

text \<open>
  \<open>ps_running\<close> are the connections whose handlers run, \<open>ps_refused\<close> those closed because the
  limit was reached, and \<open>ps_stopped\<close> tells that \<^verbatim>\<open>serve\<close> returned. The token in the channel
  \<^verbatim>\<open>limit\<close> is taken before a handler starts and given back when it ends, so the channel's
  length is the number of running handlers.
\<close>

record pserver =
  ps_max :: nat
  ps_scope :: scope
  ps_running :: "nat list"
  ps_refused :: "nat list"
  ps_stopped :: bool
  ps_err :: "goerr option"

definition startProxy :: "nat \<Rightarrow> pserver" where
  "startProxy n = \<lparr>ps_max = n, ps_scope = newScope, ps_running = [], ps_refused = [],
     ps_stopped = False, ps_err = None\<rparr>"

text \<open>One turn of \<^verbatim>\<open>serve\<close> with the result of \<^verbatim>\<open>Accept\<close>.\<close>

definition serve_turn :: "close_results \<Rightarrow> nat res \<Rightarrow> pserver \<Rightarrow> pserver" where
  "serve_turn cr accepted p =
    (if ps_stopped p then p
     else case accepted of
         Inl e \<Rightarrow> p\<lparr>ps_err := Some e, ps_stopped := True\<rparr>
       | Inr c \<Rightarrow>
           if ps_max p \<le> length (ps_running p) then p\<lparr>ps_refused := ps_refused p @ [c]\<rparr>
           else (case scope_track cr c (ps_scope p) of
               (Some e, s) \<Rightarrow> p\<lparr>ps_scope := s, ps_stopped := True\<rparr>
             | (None, s) \<Rightarrow> p\<lparr>ps_scope := s, ps_running := ps_running p @ [c]\<rparr>))"

text \<open>The end of a handler: its deferred functions close the connection and give the token
  back.\<close>

definition handler_end :: "close_results \<Rightarrow> nat \<Rightarrow> pserver \<Rightarrow> pserver" where
  "handler_end cr c p =
    (if c \<in> set (ps_running p)
     then p\<lparr>ps_scope := snd (resource_close cr c (ps_scope p)), ps_running := remove1 c (ps_running p)\<rparr>
     else p)"

text \<open>The first part of \<^verbatim>\<open>proxyServer.Close\<close>: the scope, then the listener, whose failing
  \<^verbatim>\<open>Accept\<close> ends the loop. The call then waits for the loop and for the handlers.\<close>

definition proxy_shut :: "close_results \<Rightarrow> pserver \<Rightarrow> pserver" where
  "proxy_shut cr p = p\<lparr>ps_scope := snd (scope_close cr (items_list (ps_scope p)) (ps_scope p))\<rparr>"

text \<open>The result of \<^verbatim>\<open>Close\<close>, with the error of the listener's \<^verbatim>\<open>Close\<close>.\<close>

definition proxy_Close :: "close_results \<Rightarrow> goerr option \<Rightarrow> pserver \<Rightarrow> goerr option \<times> pserver" where
  "proxy_Close cr lerr p =
    (errors_join [fst (scope_close cr (items_list (ps_scope p)) (ps_scope p)), lerr], proxy_shut cr p)"

inductive pstep :: "close_results \<Rightarrow> pserver \<Rightarrow> pserver \<Rightarrow> bool" for cr where
  accept: "\<forall>c. accepted = Inr c \<longrightarrow> sc_phase (ps_scope p) c = RNone \<Longrightarrow> pstep cr p (serve_turn cr accepted p)"
| handler_done: "pstep cr p (handler_end cr c p)"
| hang_up: "pstep cr p (p\<lparr>ps_scope := snd (resource_close cr c (ps_scope p))\<rparr>)"
| shut: "pstep cr p (proxy_shut cr p)"

end
