(* ===== verification/Tor_Proxy_Proofs.thy ===== *)
theory Tor_Proxy_Proofs
  imports Tor_Proxy Tor_Gate_Proofs
begin

text \<open>
  Correctness of the local SOCKS5 proxy: who is let in, which requests reach the gate, what
  a connection leaves behind, and that the number of handlers stays within the limit.
\<close>

section \<open>Reading and writing\<close>

lemma ReadFull_iff:
  "ReadFull n c = Some (b, c') \<longleftrightarrow> (\<exists>r. length b = n \<and> pc_in c = b @ r \<and> c' = c\<lparr>pc_in := r\<rparr>)"
  by (cases c; cases c') (auto simp: ReadFull_def append_eq_conv_conj)

lemma ReadFull_append [simp]:
  "length b = n \<Longrightarrow> pc_in c = b @ r \<Longrightarrow> ReadFull n c = Some (b, c\<lparr>pc_in := r\<rparr>)"
  by (auto simp: ReadFull_iff)

lemma ReadFull_1: "ReadFull (Suc 0) c = Some (b, c') \<longleftrightarrow>
    (\<exists>x r. b = [x] \<and> pc_in c = x # r \<and> c' = c\<lparr>pc_in := r\<rparr>)"
  by (auto simp: ReadFull_iff length_Suc_conv)

lemma ReadFull_2: "ReadFull 2 c = Some (b, c') \<longleftrightarrow>
    (\<exists>x y r. b = [x, y] \<and> pc_in c = x # y # r \<and> c' = c\<lparr>pc_in := r\<rparr>)"
  by (auto simp: ReadFull_iff numeral_2_eq_2 length_Suc_conv)

lemma ReadFull_4: "ReadFull 4 c = Some (b, c') \<longleftrightarrow>
    (\<exists>w x y z r. b = [w, x, y, z] \<and> pc_in c = w # x # y # z # r \<and> c' = c\<lparr>pc_in := r\<rparr>)"
  by (auto simp: ReadFull_iff eval_nat_numeral length_Suc_conv)

lemma ReadFull_none: "ReadFull n c = None \<longleftrightarrow> length (pc_in c) < n"
  by (simp add: ReadFull_def)

lemmas read_simps = ReadFull_1 ReadFull_2 ReadFull_4

lemma conn_write_in [simp]: "pc_in (snd (conn_write bs c)) = pc_in c"
  by (auto simp: conn_write_def split: list.splits option.splits)

text \<open>A connection whose writes succeed.\<close>

definition writable :: "pconn \<Rightarrow> bool" where
  "writable c \<longleftrightarrow> list_all (\<lambda>w. w = None) (pc_writes c)"

definition written :: "u8 list \<Rightarrow> pconn \<Rightarrow> pconn" where
  "written bs c = c\<lparr>pc_out := pc_out c @ bs, pc_writes := tl (pc_writes c)\<rparr>"

lemma written_sel [simp]:
  "pc_in (written bs c) = pc_in c" "pc_out (written bs c) = pc_out c @ bs"
  by (simp_all add: written_def)

lemma conn_write_ok: "fst (conn_write bs c) \<Longrightarrow> snd (conn_write bs c) = written bs c"
  by (cases c) (auto simp: conn_write_def written_def split: list.splits option.splits)

lemma conn_write_writable: "writable c \<Longrightarrow> conn_write bs c = (True, written bs c)"
  by (cases c) (auto simp: conn_write_def writable_def written_def split: list.splits option.splits)

lemma writable_written [simp]: "writable c \<Longrightarrow> writable (written bs c)"
  by (cases "pc_writes c") (auto simp: writable_def written_def)

lemma writable_in [simp]: "writable (c\<lparr>pc_in := r\<rparr>) = writable c"
  by (simp add: writable_def)

section \<open>Authentication\<close>

text \<open>The messages of a client that presents a name and a password.\<close>

definition hello :: "u8 list \<Rightarrow> u8 list" where
  "hello ms = 5 # of_nat (length ms) # ms"

definition login :: "u8 list \<Rightarrow> u8 list \<Rightarrow> u8 list" where
  "login u p = 1 # of_nat (length u) # u @ of_nat (length p) # p"

definition short :: "u8 list \<Rightarrow> bool" where
  "short bs \<longleftrightarrow> 0 < length bs \<and> length bs < 256"

lemma unat_short: "short bs \<Longrightarrow> unat (of_nat (length bs) :: u8) = length bs \<and> of_nat (length bs) \<noteq> (0 :: u8)"
  by (auto simp: short_def unat_of_nat take_bit_nat_eq_self unat_eq_0 [symmetric])

lemma short_unat: "(n :: u8) \<noteq> 0 \<Longrightarrow> length bs = unat n \<Longrightarrow> short bs \<and> n = of_nat (length bs)"
  by (auto simp: short_def unat_gt_0)

lemma read_methods_iff:
  "read_methods c = Some (ms, c') \<longleftrightarrow>
    (\<exists>r. short ms \<and> pc_in c = hello ms @ r \<and> c' = c\<lparr>pc_in := r\<rparr>)"
proof
  assume "read_methods c = Some (ms, c')"
  then obtain n c1 where "ReadFull 2 c = Some ([5, n], c1)" "n \<noteq> 0" "ReadFull (unat n) c1 = Some (ms, c')"
    by (auto simp: read_methods_def split: option.splits list.splits if_splits)
  then show "\<exists>r. short ms \<and> pc_in c = hello ms @ r \<and> c' = c\<lparr>pc_in := r\<rparr>"
    using short_unat [of n ms] by (auto simp: ReadFull_2 ReadFull_iff hello_def)
next
  assume "\<exists>r. short ms \<and> pc_in c = hello ms @ r \<and> c' = c\<lparr>pc_in := r\<rparr>"
  then obtain r where r: "short ms" "pc_in c = hello ms @ r" "c' = c\<lparr>pc_in := r\<rparr>" by blast
  then have "ReadFull 2 c = Some ([5, of_nat (length ms)], c\<lparr>pc_in := ms @ r\<rparr>)"
    by (simp add: hello_def)
  then show "read_methods c = Some (ms, c')"
    using r unat_short [of ms] by (simp add: read_methods_def)
qed

lemma read_credentials_iff:
  "read_credentials c = Some (u, p, c') \<longleftrightarrow>
    (\<exists>r. short u \<and> short p \<and> pc_in c = login u p @ r \<and> c' = c\<lparr>pc_in := r\<rparr>)"
proof
  assume "read_credentials c = Some (u, p, c')"
  then obtain n c1 c2 m c3 where r: "ReadFull 2 c = Some ([1, n], c1)" "n \<noteq> 0" "ReadFull (unat n) c1 = Some (u, c2)"
      "ReadFull (Suc 0) c2 = Some ([m], c3)" "m \<noteq> 0" "ReadFull (unat m) c3 = Some (p, c')"
    by (auto simp: read_credentials_def split: option.splits list.splits if_splits)
  then show "\<exists>r. short u \<and> short p \<and> pc_in c = login u p @ r \<and> c' = c\<lparr>pc_in := r\<rparr>"
    using short_unat [of n u] short_unat [of m p]
    by (auto simp: ReadFull_1 ReadFull_2 ReadFull_iff login_def)
next
  assume "\<exists>r. short u \<and> short p \<and> pc_in c = login u p @ r \<and> c' = c\<lparr>pc_in := r\<rparr>"
  then obtain r where r: "short u" "short p" "pc_in c = login u p @ r" "c' = c\<lparr>pc_in := r\<rparr>" by blast
  let ?c2 = "c\<lparr>pc_in := of_nat (length p) # p @ r\<rparr>"
  have "ReadFull 2 c = Some ([1, of_nat (length u)], c\<lparr>pc_in := u @ of_nat (length p) # p @ r\<rparr>)"
    using r(3) by (simp add: login_def)
  moreover have "ReadFull (Suc 0) ?c2 = Some ([of_nat (length p)], c\<lparr>pc_in := p @ r\<rparr>)"
    by (simp add: ReadFull_1)
  ultimately show "read_credentials c = Some (u, p, c')"
    using r unat_short [OF r(1)] unat_short [OF r(2)] by (simp add: read_credentials_def)
qed

lemma authenticate_sound:
  assumes "proxy_authenticate user password c = (True, c')"
  shows "\<exists>ms. short ms \<and> 2 \<in> set ms \<and> short user \<and> short password \<and>
    pc_in c = hello ms @ login user password @ pc_in c' \<and> pc_out c' = pc_out c @ [5, 2, 1, 0]"
proof -
  obtain ms c1 where 1: "read_methods c = Some (ms, c1)" "2 \<in> set ms"
    using assms by (auto simp: proxy_authenticate_def split: option.splits if_splits)
  obtain c2 where 2: "conn_write [5, 2] c1 = (True, c2)"
    using assms 1 by (auto simp: proxy_authenticate_def split: prod.splits bool.splits if_splits)
  obtain u p c3 where 3: "read_credentials c2 = Some (u, p, c3)"
    using assms 1 2 by (auto simp: proxy_authenticate_def split: option.splits)
  obtain w c4 where 4: "conn_write [1, if u = user \<and> p = password then 0 else 1] c3 = (w, c4)" by fastforce
  have eq: "u = user" "p = password" "w" "c4 = c'"
    using assms 1 2 3 4 by (auto simp: proxy_authenticate_def Let_def split: if_splits)
  from 2 4 eq conn_write_ok [of "[5, 2]" c1] conn_write_ok [of "[1, 0]" c3]
  have "c2 = written [5, 2] c1" "c' = written [1, 0] c3" by simp_all
  with 1 3 eq show ?thesis
    by (intro exI [of _ ms]) (auto simp: read_methods_iff read_credentials_iff)
qed

lemma authenticate_complete:
  assumes "writable c" "short ms" "2 \<in> set ms" "short u" "short p"
    and "pc_in c = hello ms @ login u p @ rest"
  shows "fst (proxy_authenticate user password c) = (u = user \<and> p = password) \<and>
    pc_in (snd (proxy_authenticate user password c)) = rest \<and>
    pc_out (snd (proxy_authenticate user password c)) =
      pc_out c @ [5, 2, 1, if u = user \<and> p = password then 0 else 1] \<and>
    writable (snd (proxy_authenticate user password c))"
proof -
  let ?c1 = "c\<lparr>pc_in := login u p @ rest\<rparr>"
  let ?c2 = "written [5, 2] ?c1"
  let ?c3 = "?c2\<lparr>pc_in := rest\<rparr>"
  have w: "writable ?c1" "writable ?c3" using assms(1) writable_written [of ?c1] by simp_all
  have 1: "read_methods c = Some (ms, ?c1)" using assms by (simp add: read_methods_iff)
  have 2: "conn_write [5, 2] ?c1 = (True, ?c2)" by (rule conn_write_writable [OF w(1)])
  have 3: "read_credentials ?c2 = Some (u, p, ?c3)" using assms by (simp add: read_credentials_iff)
  show ?thesis using 1 2 3 assms(3) conn_write_writable [OF w(2)] writable_written [OF w(2)]
    by (simp add: proxy_authenticate_def)
qed

text \<open>
  C21. The proxy lets in exactly the clients that present its credentials. When
  authentication succeeds, the client offered method 2 and sent the configured user name
  and password, and it was answered with the method and the success status; the bytes that
  follow are left for the request. Conversely, while writes work, a client that offers
  method 2 is admitted exactly when its name and password are the configured ones, and is
  told so.
\<close>

theorem proxy_authenticates_exactly:
  "(\<forall>c'. proxy_authenticate user password c = (True, c') \<longrightarrow>
      (\<exists>ms. short ms \<and> 2 \<in> set ms \<and> short user \<and> short password \<and>
        pc_in c = hello ms @ login user password @ pc_in c' \<and> pc_out c' = pc_out c @ [5, 2, 1, 0])) \<and>
   (\<forall>ms u p rest. writable c \<and> short ms \<and> 2 \<in> set ms \<and> short u \<and> short p \<and>
      pc_in c = hello ms @ login u p @ rest \<longrightarrow>
      fst (proxy_authenticate user password c) = (u = user \<and> p = password) \<and>
      pc_in (snd (proxy_authenticate user password c)) = rest \<and>
      pc_out (snd (proxy_authenticate user password c)) =
        pc_out c @ [5, 2, 1, if u = user \<and> p = password then 0 else 1])"
  using authenticate_sound [of user password c] authenticate_complete [of c] by blast

definition sample_conn :: "u8 list \<Rightarrow> pconn" where
  "sample_conn bs = \<lparr>pc_in = bs, pc_out = [], pc_writes = []\<rparr>"

theorem proxy_authenticates_exactly_witness:
  "fst (proxy_authenticate [7] [9] (sample_conn (hello [0, 2] @ login [7] [9] @ [3]))) \<and>
   \<not> fst (proxy_authenticate [7] [9] (sample_conn (hello [0, 2] @ login [7] [8] @ [3])))"
proof -
  note a = proxy_authenticates_exactly [of "[7]" "[9]", THEN conjunct2, rule_format]
  have "fst (proxy_authenticate [7] [9] (sample_conn (hello [0, 2] @ login [7] [9] @ [3]))) =
      ([7 :: u8] = [7] \<and> [9 :: u8] = [9])"
    by (rule a [THEN conjunct1, of _ "[0, 2]" _ _ "[3]"]) (simp add: sample_conn_def writable_def short_def)
  moreover have "fst (proxy_authenticate [7] [9] (sample_conn (hello [0, 2] @ login [7] [8] @ [3]))) =
      ([7 :: u8] = [7] \<and> [8 :: u8] = [9])"
    by (rule a [THEN conjunct1, of _ "[0, 2]" _ _ "[3]"]) (simp add: sample_conn_def writable_def short_def)
  ultimately show ?thesis by simp
qed

section \<open>Requests\<close>

text \<open>A CONNECT request for a numeric address.\<close>

definition port_bytes :: "u16 \<Rightarrow> u8 list" where
  "port_bytes p = [of_nat (unat p div 256), of_nat (unat p mod 256)]"

definition request :: "ipaddr \<Rightarrow> u16 \<Rightarrow> u8 list" where
  "request a p = [5, 1, 0, if is_v4 a then 1 else 4] @
     (case a of IPv4 b \<Rightarrow> b | IPv6 b _ \<Rightarrow> b) @ port_bytes p"

definition addr_wf :: "ipaddr \<Rightarrow> bool" where
  "addr_wf a \<longleftrightarrow> (case a of IPv4 b \<Rightarrow> length b = 4 | IPv6 b z \<Rightarrow> length b = 16 \<and> z = [])"

lemma unat_Uint16: "unat (Uint16 [x, y]) = unat x * 256 + unat y"
proof -
  have "unat x * 256 + unat y < 65536" using unat_u8_less [of x] unat_u8_less [of y] by linarith
  then show ?thesis unfolding Uint16_def unat_of_nat by (simp add: take_bit_nat_eq_self)
qed

lemma Uint16_port_bytes [simp]: "Uint16 (port_bytes p) = p"
proof -
  have l: "unat p < 65536" using unsigned_less [of p, where 'a = nat] by simp
  then have "unat (of_nat (unat p div 256) :: u8) = unat p div 256"
    "unat (of_nat (unat p mod 256) :: u8) = unat p mod 256"
    by (simp_all add: unat_of_nat take_bit_nat_eq_self)
  then show ?thesis by (simp add: Uint16_def port_bytes_def)
qed

lemma port_bytes_Uint16: "port_bytes (Uint16 [x, y]) = [x, y]"
  using unat_u8_less [of y] by (simp add: port_bytes_def unat_Uint16)

lemma length_port_bytes [simp]: "length (port_bytes p) = 2"
  by (simp add: port_bytes_def)

lemma read_address_iff:
  "read_address kind c = Inl (a, c') \<longleftrightarrow> (\<exists>r. addr_wf a \<and> kind = (if is_v4 a then 1 else 4) \<and>
     pc_in c = (case a of IPv4 b \<Rightarrow> b | IPv6 b _ \<Rightarrow> b) @ r \<and> c' = c\<lparr>pc_in := r\<rparr>)" (is "?L \<longleftrightarrow> ?R")
proof
  assume ?L
  then show ?R
    by (auto simp: read_address_def addr_wf_def is_v4_def ReadFull_iff split: option.splits if_splits)
next
  assume ?R
  then show ?L by (cases a) (auto simp: read_address_def addr_wf_def is_v4_def)
qed

lemma readConnect_sound:
  assumes "readConnect c = ((address, 0), c')"
  shows "\<exists>a p r. addr_wf a \<and> p \<noteq> 0 \<and> \<not> IsUnspecified a \<and> pc_in c = request a p @ r \<and>
    c' = c\<lparr>pc_in := r\<rparr> \<and> address = print_addrport \<lparr>ap_addr = a, ap_port = p\<rparr>"
proof -
  obtain kind c1 where 1: "ReadFull 4 c = Some ([5, 1, 0, kind], c1)"
    using assms by (auto simp: readConnect_def split: option.splits list.splits if_splits)
  then obtain a c2 where 2: "read_address kind c1 = Inl (a, c2)"
    using assms by (auto simp: readConnect_def read_address_def split: option.splits sum.splits if_splits)
  with assms 1 obtain port c3 where 3: "ReadFull 2 c2 = Some (port, c3)"
    by (auto simp: readConnect_def split: option.splits)
  with assms 1 2 have "Uint16 port \<noteq> 0" "\<not> IsUnspecified a" "c3 = c'"
    "address = print_addrport \<lparr>ap_addr = a, ap_port = Uint16 port\<rparr>"
    by (auto simp: readConnect_def split: if_splits)
  moreover from 1 2 3 obtain r where "addr_wf a" "pc_in c = request a (Uint16 port) @ r" "c' = c\<lparr>pc_in := r\<rparr>"
    using \<open>c3 = c'\<close> by (auto simp: ReadFull_4 ReadFull_2 read_address_iff request_def port_bytes_Uint16)
  ultimately show ?thesis by blast
qed

lemma readConnect_complete:
  assumes "addr_wf a" "p \<noteq> 0" "\<not> IsUnspecified a" "pc_in c = request a p @ r"
  shows "readConnect c = ((print_addrport \<lparr>ap_addr = a, ap_port = p\<rparr>, 0), c\<lparr>pc_in := r\<rparr>)"
proof -
  let ?bs = "case a of IPv4 b \<Rightarrow> b | IPv6 b _ \<Rightarrow> b"
  let ?c1 = "c\<lparr>pc_in := ?bs @ port_bytes p @ r\<rparr>"
  let ?c2 = "c\<lparr>pc_in := port_bytes p @ r\<rparr>"
  have 1: "ReadFull 4 c = Some ([5, 1, 0, if is_v4 a then 1 else 4], ?c1)"
    using assms(4) by (simp add: request_def)
  have 2: "read_address (if is_v4 a then 1 else 4) ?c1 = Inl (a, ?c2)"
    unfolding read_address_iff by (rule exI [of _ "port_bytes p @ r"]) (simp add: assms(1))
  have 3: "ReadFull 2 ?c2 = Some (port_bytes p, c\<lparr>pc_in := r\<rparr>)"
    by (auto simp: ReadFull_iff)
  show ?thesis using assms(2,3) by (simp add: readConnect_def 1 2 3)
qed

lemma readConnect_refusals:
  assumes "pc_in c = 5 # cmd # 0 # kind # r"
  shows "(cmd \<noteq> 1 \<longrightarrow> fst (readConnect c) = ([], 7)) \<and>
    (cmd = 1 \<and> kind \<notin> {1, 4} \<longrightarrow> fst (readConnect c) = ([], 8))"
proof -
  have "ReadFull 4 c = Some ([5, cmd, 0, kind], c\<lparr>pc_in := r\<rparr>)" using assms by (simp add: ReadFull_4)
  then show ?thesis by (simp add: readConnect_def read_address_def)
qed

lemma readConnect_code: "snd (fst (readConnect c)) \<in> {0, 1, 7, 8}"
proof (cases "ReadFull 4 c")
  case (Some x)
  then obtain v cmd rsv kind c1 where x: "ReadFull 4 c = Some ([v, cmd, rsv, kind], c1)"
    by (cases x) (auto simp: ReadFull_4)
  have "read_address kind c1 = Inr code \<Longrightarrow> code \<in> {1, 8}" for code
    by (auto simp: read_address_def split: option.splits if_splits)
  with x show ?thesis by (simp add: readConnect_def split: sum.split option.split prod.split) blast
qed (simp add: readConnect_def)

lemma quad: "length b = 4 \<Longrightarrow> \<exists>w x y z. b = [w, x, y, z]"
  by (simp add: eval_nat_numeral length_Suc_conv) blast

lemma numericEndpoint_v4:
  assumes "length b = 4" "p \<noteq> 0" "\<not> IsUnspecified (IPv4 b)"
  shows "numericEndpoint (print_addrport \<lparr>ap_addr = IPv4 b, ap_port = p\<rparr>) False =
    Inr \<lparr>ap_addr = IPv4 b, ap_port = p\<rparr>"
  using quad [OF assms(1)] assms(2,3)
  by (auto simp: numericEndpoint_def ParseAddrPort_print_v4 zone_of_def)

text \<open>
  C23. The proxy accepts exactly the CONNECT requests for a numeric address. Code 0 is
  returned exactly when the input starts with a request for an IPv4 or IPv6 address that
  is not the unspecified one and a port that is not zero; the text handed to the gate is
  the printed form of that address and port, and for IPv4 it parses back to them as a
  numeric endpoint. Other commands are refused with code 7 and other address types, names
  to be resolved among them, with code 8.
\<close>

theorem readConnect_numeric_only:
  "(readConnect c = ((address, 0), c') \<longleftrightarrow>
     (\<exists>a p r. addr_wf a \<and> p \<noteq> 0 \<and> \<not> IsUnspecified a \<and> pc_in c = request a p @ r \<and>
        c' = c\<lparr>pc_in := r\<rparr> \<and> address = print_addrport \<lparr>ap_addr = a, ap_port = p\<rparr> \<and>
        (is_v4 a \<longrightarrow> numericEndpoint address False = Inr \<lparr>ap_addr = a, ap_port = p\<rparr>))) \<and>
   (\<forall>cmd kind r. pc_in c = 5 # cmd # 0 # kind # r \<longrightarrow>
     (cmd \<noteq> 1 \<longrightarrow> fst (readConnect c) = ([], 7)) \<and>
     (cmd = 1 \<and> kind \<notin> {1, 4} \<longrightarrow> fst (readConnect c) = ([], 8))) \<and>
   snd (fst (readConnect c)) \<in> {0, 1, 7, 8}"
proof (intro conjI iffI allI impI)
  assume "readConnect c = ((address, 0), c')"
  from readConnect_sound [OF this] obtain a p r where
    a: "addr_wf a" "p \<noteq> 0" "\<not> IsUnspecified a" "pc_in c = request a p @ r" "c' = c\<lparr>pc_in := r\<rparr>"
      "address = print_addrport \<lparr>ap_addr = a, ap_port = p\<rparr>" by blast
  moreover have "numericEndpoint address False = Inr \<lparr>ap_addr = a, ap_port = p\<rparr>" if v4: "is_v4 a"
    using a numericEndpoint_v4 [of _ p] v4 by (cases a) (auto simp: addr_wf_def is_v4_def)
  ultimately show "\<exists>a p r. addr_wf a \<and> p \<noteq> 0 \<and> \<not> IsUnspecified a \<and> pc_in c = request a p @ r \<and>
        c' = c\<lparr>pc_in := r\<rparr> \<and> address = print_addrport \<lparr>ap_addr = a, ap_port = p\<rparr> \<and>
        (is_v4 a \<longrightarrow> numericEndpoint address False = Inr \<lparr>ap_addr = a, ap_port = p\<rparr>)" by blast
qed (use readConnect_complete readConnect_refusals readConnect_code in blast)+

theorem readConnect_numeric_only_witness:
  "\<exists>c'. readConnect (sample_conn [5, 1, 0, 1, 127, 0, 0, 1, 1, 187]) = ((''127.0.0.1:443'', 0), c') \<and>
     fst (readConnect (sample_conn [5, 1, 0, 3, 1, 97, 1, 187])) = ([], 8) \<and>
     fst (readConnect (sample_conn [5, 2, 0, 1, 127, 0, 0, 1, 1, 187])) = ([], 7)"
proof -
  let ?a = "IPv4 [127, 0, 0, 1]"
  have t: "print_addrport \<lparr>ap_addr = ?a, ap_port = 443\<rparr> = ''127.0.0.1:443''" by code_simp
  have i: "sample_conn [5, 1, 0, 1, 127, 0, 0, 1, 1, 187] = sample_conn (request ?a 443 @ [])"
    by (simp add: request_def is_v4_def port_bytes_def)
  have "numericEndpoint ''127.0.0.1:443'' False = Inr \<lparr>ap_addr = ?a, ap_port = 443\<rparr>"
    by (subst t [symmetric], rule numericEndpoint_v4) (simp_all add: IsUnspecified_def)
  then have "readConnect (sample_conn [5, 1, 0, 1, 127, 0, 0, 1, 1, 187]) =
      ((''127.0.0.1:443'', 0), sample_conn [])"
    unfolding i
    by (intro readConnect_numeric_only [THEN conjunct1, THEN iffD2] exI [of _ ?a] exI [of _ 443] exI [of _ "[]"])
      (simp add: sample_conn_def addr_wf_def IsUnspecified_def t)
  then show ?thesis
    using readConnect_numeric_only [THEN conjunct2, THEN conjunct1, rule_format] by (auto simp: sample_conn_def)
qed

section \<open>One connection\<close>

lemma evolves_pair_close: "evolves g (pair_close cr i inc out g)"
  unfolding pair_close_def using evolves_release evolves_trans by blast

lemma held_pair_close:
  "epoch_ok g i \<Longrightarrow> held (pair_close cr i inc out g) i = held g i - {inc, out}"
  unfolding pair_close_def by (simp add: held_release epoch_ok_release) blast

lemma stream_error_held:
  "epoch_ok g i \<Longrightarrow> epoch_ok (stream_error cr i err g) i \<and> held (stream_error cr i err g) i \<subseteq> held g i"
  by (simp add: stream_error_def epoch_ok_failed held_failed split: option.split)

lemma pair_close_ok: "epoch_ok g i \<Longrightarrow> epoch_ok (pair_close cr i inc out g) i"
  by (rule epoch_ok_evolves [OF evolves_pair_close])

lemma relay_held:
  assumes "epoch_ok g i"
  shows "epoch_ok (relay cr half i inc out dst errs g) i \<and>
    held (relay cr half i inc out dst errs g) i \<subseteq> held g i"
proof -
  have step: "epoch_ok (if b then pair_close cr i inc out h else h) i \<and>
      held (if b then pair_close cr i inc out h else h) i \<subseteq> held h i" if "epoch_ok h i" for b h
    using that pair_close_ok held_pair_close by auto
  show ?thesis unfolding relay_def copyOne_def Let_def
    by (meson step stream_error_held assms subset_trans)
qed

text \<open>The requests that may reach the gate.\<close>

definition admitted :: "u8 list \<Rightarrow> u8 list \<Rightarrow> pconn \<Rightarrow> string \<Rightarrow> bool" where
  "admitted user password c address \<longleftrightarrow> (\<exists>ms a p r. short ms \<and> 2 \<in> set ms \<and> addr_wf a \<and> p \<noteq> 0 \<and>
     \<not> IsUnspecified a \<and> pc_in c = hello ms @ login user password @ request a p @ r \<and>
     address = print_addrport \<lparr>ap_addr = a, ap_port = p\<rparr>)"

lemma handle_cases:
  assumes "handle cr env user password inc op c g = (c', g')"
  obtains (refused) "g' = g"
  | (dialled) address g1 e where "admitted user password c address"
      "dial cr (he_dial env address) inc op g = (Inl e, g1)" "g' = g1"
  | (closed) address g1 out where "admitted user password c address"
      "dial cr (he_dial env address) inc op g = (Inr out, g1)"
      "g' = pair_close cr (the (dial_pick g)) inc out g1"
  | (relayed) address g1 out where "admitted user password c address"
      "dial cr (he_dial env address) inc op g = (Inr out, g1)"
      "g' = pair_close cr (the (dial_pick g)) inc out
         (relay cr (he_half env) (the (dial_pick g)) inc out (he_first env) (he_copies env) g1)"
proof (cases "he_deadline env \<and> fst (proxy_authenticate user password c)")
  case False
  with assms have "g' = g"
    by (cases "proxy_authenticate user password c") (auto simp: handle_def split: if_splits bool.splits)
  then show ?thesis by (rule that(1))
next
  case True
  then obtain c1 where 1: "proxy_authenticate user password c = (True, c1)"
    by (metis prod.collapse)
  obtain address code c2 where 2: "readConnect c1 = ((address, code), c2)" by (metis surj_pair)
  show ?thesis
  proof (cases "code = 0")
    case False
    with assms True 1 2 have "g' = g" by (simp add: handle_def)
    then show ?thesis by (rule that(1))
  next
    case code: True
    have adm: "admitted user password c address"
    proof -
      obtain ms where "short ms" "2 \<in> set ms" "pc_in c = hello ms @ login user password @ pc_in c1"
        using authenticate_sound [OF 1] by blast
      moreover obtain a p r where "addr_wf a" "p \<noteq> 0" "\<not> IsUnspecified a" "pc_in c1 = request a p @ r"
          "address = print_addrport \<lparr>ap_addr = a, ap_port = p\<rparr>"
        using readConnect_sound [OF 2 [unfolded code]] by blast
      ultimately show ?thesis unfolding admitted_def by metis
    qed
    obtain res g1 where d: "dial cr (he_dial env address) inc op g = (res, g1)" by fastforce
    obtain sent c3 where r: "replySOCKS 0 c2 = (sent, c3)" by fastforce
    have h: "handle cr env user password inc op c g =
        (case res of Inl e \<Rightarrow> (snd (replySOCKS 1 c2), g1)
         | Inr out \<Rightarrow> (c3, if \<not> sent \<or> he_ctx env \<noteq> None \<or> \<not> he_clear env
             then pair_close cr (the (dial_pick g)) inc out g1
             else pair_close cr (the (dial_pick g)) inc out
               (relay cr (he_half env) (the (dial_pick g)) inc out (he_first env) (he_copies env) g1)))"
      using True 1 2 code d r by (simp add: handle_def Let_def split: sum.split)
    show ?thesis
      using that(2-4) [OF adm] d h assms
      by (cases res; cases "\<not> sent \<or> he_ctx env \<noteq> None \<or> \<not> he_clear env") auto
  qed
qed

text \<open>What the identities of the connections of one handler must satisfy: they are new.\<close>

definition new_ids :: "nat \<Rightarrow> nat \<Rightarrow> dial_env \<Rightarrow> gate \<Rightarrow> bool" where
  "new_ids inc op env g \<longleftrightarrow> distinct (inc # op # (case dl_out env of None \<Rightarrow> [] | Some c \<Rightarrow> [c])) \<and>
     (\<forall>i. gt_epoch g = Some i \<longrightarrow> unused i inc g \<and> unused i op g \<and> (\<forall>c. dl_out env = Some c \<longrightarrow> unused i c g))"

lemma epoch_up_ok: "gate_inv g \<Longrightarrow> epoch_up i g \<Longrightarrow> epoch_ok g i"
  using gate_okD(1) by (auto simp: gate_inv_def epoch_ok_def epoch_up_def split: option.splits)

lemma dial_evolves:
  assumes "dial cr env inc op g = (res, g')" "gate_inv g" "new_ids inc op env g"
  shows "evolves g g'"
proof (cases "dial_pick g")
  case None
  with assms(1) show ?thesis by (simp add: dial_def)
next
  case (Some i)
  then have i: "gt_epoch g = Some i" "epoch_up i g"
    by (auto simp: dial_pick_def split: option.splits if_splits)
  have u: "unused i inc g" "unused i op g" "inc \<noteq> op" using assms(3) i by (auto simp: new_ids_def)
  obtain x g1 where 1: "dial_enter cr i inc op (dl_before env) g = (x, g1)" by fastforce
  have ev: "evolves g g1" by (rule evolves_dial_enter [OF 1 u])
  have ok1: "epoch_ok g1 i" by (rule dial_enter_held(1) [OF 1 epoch_up_ok [OF assms(2) i(2)] u])
  show ?thesis
  proof (cases x)
    case (Some e)
    with assms(1) \<open>dial_pick g = Some i\<close> 1 ev show ?thesis by (simp add: dial_def)
  next
    case x: None
    define g2 where "g2 = (if dl_closed env then snd (epoch_close cr i g1) else g1)"
    have fin: "dial_finish cr i inc op (dl_after env) (dl_out env) (dl_err env) g2 = (res, g')"
      using assms(1) Some 1 x unfolding g2_def by (simp add: dial_def Let_def split del: if_split)
    have "evolves g1 g2" unfolding g2_def using evolves_epoch_close by (metis evolves_refl prod.collapse)
    moreover have "\<forall>c. dl_out env = Some c \<longrightarrow> unused i c g2"
      using unused_evolving_enter [OF 1 [unfolded x]] unused_epoch_close [OF ok1] assms(3) i
      by (auto simp: g2_def new_ids_def)
    ultimately show ?thesis using evolves_trans ev evolves_dial_finish [OF fin] by blast
  qed
qed

lemma dial_success:
  assumes "dial cr env inc op g = (Inr out, g')" "gate_inv g" "new_ids inc op env g"
  shows "\<exists>i. gt_epoch g = Some i \<and> dial_pick g = Some i \<and> epoch_ok g' i \<and> held g' i = {out, inc} \<union> held g i"
proof -
  have "dial_pick g \<noteq> None" using assms(1) by (cases "dial_pick g") (simp_all add: dial_def)
  moreover obtain i where i: "gt_epoch g = Some i" "epoch_up i g'" "held g' i = {out, inc} \<union> held g i"
    using dial_spec [OF assms(2,1)] assms(3) by (auto simp: new_ids_def)
  ultimately have "dial_pick g = Some i" by (auto simp: dial_pick_def split: if_splits option.splits)
  moreover from this have "epoch_up i g" by (auto simp: dial_pick_def split: if_splits option.splits)
  ultimately show ?thesis
    using i epoch_up_ok [OF assms(2)] epoch_ok_evolves [OF dial_evolves [OF assms]] by blast
qed

lemma handle_held:
  assumes "handle cr env user password inc op c g = (c', g')" "gate_inv g"
    and "\<forall>address. new_ids inc op (he_dial env address) g" "gt_epoch g = Some i"
  shows "held g' i \<subseteq> held g i"
  using assms(1)
proof (cases rule: handle_cases)
  case (dialled address g1 e)
  have "held g1 i \<subseteq> held g i"
    using dial_spec [OF assms(2) dialled(2)] assms(3,4) unfolding new_ids_def by blast
  with dialled(3) show ?thesis by simp
next
  case (closed address g1 out)
  have d: "dial_pick g = Some i" "epoch_ok g1 i" "held g1 i = {out, inc} \<union> held g i"
    using dial_success [OF closed(2) assms(2)] assms(3,4) by auto
  with closed(3) show ?thesis by (auto simp: held_pair_close)
next
  case (relayed address g1 out)
  have d: "dial_pick g = Some i" "epoch_ok g1 i" "held g1 i = {out, inc} \<union> held g i"
    using dial_success [OF relayed(2) assms(2)] assms(3,4) by auto
  with relayed(3) relay_held [OF d(2), of cr "he_half env" inc out "he_first env" "he_copies env"] show ?thesis
    by (auto simp: held_pair_close)
qed simp

text \<open>
  C11. A connection to the proxy reaches the gate only after the client has authenticated
  and sent a CONNECT request for a numeric address, and then only with that address;
  otherwise the gate, its attempt counter included, is untouched. However the connection
  ends (refusal, failed dial, lost reply, expired context, stream errors), the epoch holds
  no more connections than before.
\<close>

theorem proxy_guards_gate:
  assumes "handle cr env user password inc op c g = (c', g')" "gate_inv g"
    and "\<forall>address. new_ids inc op (he_dial env address) g"
  shows "(g' \<noteq> g \<longrightarrow> (\<exists>address. admitted user password c address)) \<and>
    (\<forall>i. gt_epoch g = Some i \<longrightarrow> held g' i \<subseteq> held g i)"
proof (intro conjI impI allI)
  assume "g' \<noteq> g"
  with assms(1) show "\<exists>address. admitted user password c address" by (cases rule: handle_cases) auto
qed (rule handle_held [OF assms])

definition sample_handle :: handle_env where
  "sample_handle = \<lparr>he_deadline = True, he_dial = (\<lambda>_. sample_dial), he_ctx = None, he_clear = True,
     he_half = True, he_first = ToOut, he_copies = (None, None)\<rparr>"

theorem proxy_guards_gate_witness:
  "held (snd (handle (\<lambda>_. None) sample_handle [7] [9] 1 2
      (sample_conn (hello [2] @ login [7] [9] @ request (IPv4 [127, 0, 0, 1]) 443)) sample_gate)) 0 = {} \<and>
   snd (handle (\<lambda>_. None) sample_handle [7] [9] 1 2 (sample_conn (hello [2] @ [1])) sample_gate) = sample_gate"
proof -
  have n: "\<forall>address. new_ids 1 2 (he_dial sample_handle address) sample_gate"
    by (simp add: new_ids_def sample_handle_def sample_dial_def sample_gate_value unused_def newScope_def)
  note t = proxy_guards_gate [OF prod.collapse [symmetric] sample_gate_inv n]
  have "held sample_gate 0 = {}" by (simp add: held_def sample_gate_value newScope_def)
  moreover have "\<not> admitted [7] [9] (sample_conn (hello [2] @ [1])) address" for address
    by (auto simp: admitted_def sample_conn_def hello_def login_def append_eq_Cons_conv)
  ultimately show ?thesis using t by (metis sample_gate_value(1) subset_empty)
qed

section \<open>The accept loop\<close>

text \<open>The invariant: at most \<open>ps_max\<close> handlers run, each on its own connection, the scope
  holds no connection without a handler, and a connection with a handler has been tracked.\<close>

definition proxy_inv :: "pserver \<Rightarrow> bool" where
  "proxy_inv p \<longleftrightarrow> scope_ok (ps_scope p) \<and> length (ps_running p) \<le> ps_max p \<and> distinct (ps_running p) \<and>
    sc_items (ps_scope p) \<subseteq> set (ps_running p) \<and> (\<forall>c \<in> set (ps_running p). sc_phase (ps_scope p) c \<noteq> RNone)"

lemma proxy_inv_start: "proxy_inv (startProxy n)"
  by (simp add: proxy_inv_def startProxy_def scope_ok_new) (simp add: newScope_def)

lemma phase_tracked:
  assumes "scope_ok s" "resource_close cr r s = (e, s')" "sc_phase s c \<noteq> RNone"
  shows "sc_phase s' c \<noteq> RNone"
  using assms(2,3) by (auto simp: resource_close_def call_close_def split: rphase.splits if_splits)

lemma items_close:
  assumes "scope_ok s" "resource_close cr r s = (e, s')"
  shows "sc_items s' = sc_items s - {r}"
  using resource_close_shape [OF assms(2)] assms(1) by (simp add: scope_ok_def call_close_def)

lemma proxy_inv_track:
  assumes "proxy_inv p" "sc_phase (ps_scope p) c = RNone" "scope_track cr c (ps_scope p) = (None, s)"
    and "length (ps_running p) < ps_max p"
  shows "proxy_inv (p\<lparr>ps_scope := s, ps_running := ps_running p @ [c]\<rparr>)"
proof -
  have ok: "scope_ok (ps_scope p)" using assms(1) by (simp add: proxy_inv_def)
  have a: "scope_add cr c (ps_scope p) = (None, s)" using assms(3) by (simp add: scope_track_def)
  have "scope_ok s" by (rule scope_ok_add [OF ok assms(2) a])
  moreover have "sc_items s = insert c (sc_items (ps_scope p))" "\<forall>r. sc_phase (ps_scope p) r \<noteq> RNone \<longrightarrow> sc_phase s r \<noteq> RNone"
    "sc_phase s c \<noteq> RNone"
    using a by (auto simp: scope_add_def call_close_def split: if_splits)
  ultimately show ?thesis using assms(1,2,4) by (auto simp: proxy_inv_def)
qed

lemma proxy_inv_late:
  assumes "proxy_inv p" "sc_phase (ps_scope p) c = RNone" "scope_track cr c (ps_scope p) = (Some e, s)"
  shows "proxy_inv (p\<lparr>ps_scope := s, ps_stopped := True\<rparr>)"
proof -
  have ok: "scope_ok (ps_scope p)" using assms(1) by (simp add: proxy_inv_def)
  have a: "scope_add cr c (ps_scope p) = (Some e, s)" using assms(3) by (simp add: scope_track_def)
  have "scope_ok s" by (rule scope_ok_add [OF ok assms(2) a])
  moreover have "sc_items s = sc_items (ps_scope p)" "\<forall>r. sc_phase (ps_scope p) r \<noteq> RNone \<longrightarrow> sc_phase s r \<noteq> RNone"
    using a by (auto simp: scope_add_def call_close_def split: if_splits)
  ultimately show ?thesis using assms(1) by (auto simp: proxy_inv_def)
qed

lemma proxy_inv_serve:
  assumes "proxy_inv p" "\<forall>c. accepted = Inr c \<longrightarrow> sc_phase (ps_scope p) c = RNone"
  shows "proxy_inv (serve_turn cr accepted p)"
proof (cases accepted)
  case (Inr c)
  then have c: "sc_phase (ps_scope p) c = RNone" using assms(2) by simp
  obtain e s where t: "scope_track cr c (ps_scope p) = (e, s)" by fastforce
  have "proxy_inv (p\<lparr>ps_refused := ps_refused p @ [c]\<rparr>)" using assms(1) by (simp add: proxy_inv_def)
  then show ?thesis
    using Inr t assms(1) proxy_inv_track [OF assms(1) c] proxy_inv_late [OF assms(1) c]
    by (cases e) (auto simp: serve_turn_def)
qed (use assms(1) in \<open>simp add: serve_turn_def proxy_inv_def\<close>)

lemma proxy_inv_handler_end:
  assumes "proxy_inv p"
  shows "proxy_inv (handler_end cr c p)"
proof -
  obtain e s where s: "resource_close cr c (ps_scope p) = (e, s)" by fastforce
  have ok: "scope_ok (ps_scope p)" using assms by (simp add: proxy_inv_def)
  have "length (remove1 c (ps_running p)) \<le> ps_max p"
    using assms by (auto simp: proxy_inv_def length_remove1)
  then show ?thesis
    using assms s scope_ok_resource_close [OF ok s] items_close [OF ok s] phase_tracked [OF ok s]
    by (auto simp: handler_end_def proxy_inv_def)
qed

lemma proxy_inv_hang_up:
  assumes "proxy_inv p"
  shows "proxy_inv (p\<lparr>ps_scope := snd (resource_close cr c (ps_scope p))\<rparr>)"
proof -
  obtain e s where s: "resource_close cr c (ps_scope p) = (e, s)" by fastforce
  have ok: "scope_ok (ps_scope p)" using assms by (simp add: proxy_inv_def)
  show ?thesis
    using assms s scope_ok_resource_close [OF ok s] items_close [OF ok s] phase_tracked [OF ok s]
    by (auto simp: proxy_inv_def)
qed

lemma tracked_iff:
  "scope_ok s \<Longrightarrow> sc_phase s c \<noteq> RNone \<longleftrightarrow> c \<in> sc_items s \<union> set (sc_log s)"
proof -
  assume "scope_ok s"
  then have "sc_phase s c = ROpen \<longleftrightarrow> c \<in> sc_items s" "sc_phase s c \<noteq> RClosing"
    "c \<in> set (sc_log s) \<longleftrightarrow> (\<exists>e. sc_phase s c = RClosed e)" by (auto simp: scope_ok_def)
  then show ?thesis by (cases "sc_phase s c") auto
qed

lemma proxy_inv_shut:
  assumes "proxy_inv p"
  shows "proxy_inv (proxy_shut cr p)" and "sc_closed (ps_scope (proxy_shut cr p))"
proof -
  have ok: "scope_ok (ps_scope p)" using assms by (simp add: proxy_inv_def)
  note s = own.shut_spec [OF ok, of cr]
  show "sc_closed (ps_scope (proxy_shut cr p))" using s by (simp add: proxy_shut_def)
  show "proxy_inv (proxy_shut cr p)"
    using assms s by (auto simp: proxy_inv_def proxy_shut_def tracked_iff)
qed

lemma proxy_inv_step: "pstep cr p q \<Longrightarrow> proxy_inv p \<Longrightarrow> proxy_inv q"
  by (induction rule: pstep.induct)
    (simp_all add: proxy_inv_serve proxy_inv_handler_end proxy_inv_hang_up proxy_inv_shut)

lemma resource_close_flag: "sc_closed (snd (resource_close cr c s)) = sc_closed s"
  by (simp add: resource_close_def call_close_def split: rphase.split)

text \<open>Once the scope is closed no handler starts any more.\<close>

lemma pstep_closed:
  assumes "pstep cr p q" "proxy_inv p" "sc_closed (ps_scope p)"
  shows "sc_closed (ps_scope q) \<and> set (ps_running q) \<subseteq> set (ps_running p) \<and> ps_max q = ps_max p"
  using assms(1)
proof cases
  case (accept accepted)
  with assms(3) show ?thesis
    by (auto simp: serve_turn_def scope_track_def scope_add_def call_close_def split: sum.splits)
next
  case (handler_done c)
  with assms(3) show ?thesis
    by (auto simp: handler_end_def resource_close_flag dest: set_remove1_subset [THEN subsetD])
next
  case (hang_up c)
  with assms(3) show ?thesis by (simp add: resource_close_flag)
next
  case shut
  with proxy_inv_shut(2) [OF assms(2)] show ?thesis by (simp add: proxy_shut_def)
qed

lemma pstep_max: "pstep cr p q \<Longrightarrow> ps_max q = ps_max p"
  by (induction rule: pstep.induct)
    (simp_all add: serve_turn_def handler_end_def proxy_shut_def split: sum.split prod.split option.split)

lemma psteps_inv:
  assumes "(pstep cr)\<^sup>*\<^sup>* p q" "proxy_inv p"
  shows "proxy_inv q \<and> ps_max q = ps_max p \<and>
    (sc_closed (ps_scope p) \<longrightarrow> sc_closed (ps_scope q) \<and> set (ps_running q) \<subseteq> set (ps_running p))"
  using assms
proof (induction rule: rtranclp_induct)
  case (step q r)
  then show ?case using proxy_inv_step [OF step.hyps(2)] pstep_max [OF step.hyps(2)] pstep_closed [OF step.hyps(2)] by fastforce
qed simp

lemma closed_holds_nothing: "proxy_inv p \<Longrightarrow> sc_closed (ps_scope p) \<Longrightarrow> sc_items (ps_scope p) = {}"
  by (simp add: proxy_inv_def scope_ok_def)

lemma handlers_drain:
  "proxy_inv p \<Longrightarrow> ps_running (fold (handler_end cr) (ps_running p) p) = []"
proof (induction "length (ps_running p)" arbitrary: p)
  case (Suc n)
  then obtain c cs where r: "ps_running p = c # cs" by (cases "ps_running p") auto
  have e: "ps_running (handler_end cr c p) = cs" using r by (simp add: handler_end_def)
  have "ps_running (fold (handler_end cr) cs (handler_end cr c p)) = []"
    using Suc.hyps(1) [of "handler_end cr c p"] Suc.hyps(2) e r proxy_inv_handler_end [OF Suc.prems] by simp
  then show ?case using r by simp
qed simp

text \<open>
  C35. The proxy's resources are bounded, and closing it ends. In every state reached from
  the start at most \<^verbatim>\<open>max\<close> handlers run and the scope holds only connections of running
  handlers. Once the scope is closed it holds nothing, and in no later state is there a
  handler that was not running then; and when the running handlers have ended none is left,
  so the final wait of \<^verbatim>\<open>Close\<close> returns.
\<close>

theorem proxy_bounded:
  assumes "(pstep cr)\<^sup>*\<^sup>* (startProxy n) p"
  shows "length (ps_running p) \<le> n \<and> sc_items (ps_scope p) \<subseteq> set (ps_running p) \<and>
    ps_running (fold (handler_end cr) (ps_running p) p) = [] \<and>
    (\<forall>q. sc_closed (ps_scope p) \<and> (pstep cr)\<^sup>*\<^sup>* p q \<longrightarrow>
       sc_closed (ps_scope q) \<and> sc_items (ps_scope q) = {} \<and> set (ps_running q) \<subseteq> set (ps_running p))"
proof -
  have p: "proxy_inv p" "ps_max p = n"
    using psteps_inv [OF assms proxy_inv_start] by (simp_all add: startProxy_def)
  then show ?thesis
    using psteps_inv [of cr p] closed_holds_nothing handlers_drain [OF p(1), of cr]
    unfolding proxy_inv_def by blast
qed

theorem proxy_bounded_witness:
  "\<exists>p q. (pstep (\<lambda>_. None))\<^sup>*\<^sup>* (startProxy 1) p \<and> ps_running p = [4] \<and> ps_refused p = [5] \<and>
     pstep (\<lambda>_. None) p q \<and> sc_items (ps_scope q) = {} \<and> ps_running q = [4]"
proof -
  let ?cr = "\<lambda>_ :: nat. None :: goerr option"
  let ?a = "serve_turn ?cr (Inr 4) (startProxy 1)"
  let ?p = "serve_turn ?cr (Inr 5) ?a"
  let ?q = "proxy_shut ?cr ?p"
  have 1: "pstep ?cr (startProxy 1) ?a" by (rule pstep.accept) (simp add: startProxy_def newScope_def)
  have 2: "pstep ?cr ?a ?p"
    by (rule pstep.accept) (simp add: serve_turn_def startProxy_def newScope_def scope_track_def scope_add_def)
  have 3: "pstep ?cr ?p ?q" by (rule pstep.shut)
  have r: "(pstep ?cr)\<^sup>*\<^sup>* (startProxy 1) ?p" "(pstep ?cr)\<^sup>*\<^sup>* (startProxy 1) ?q"
    using 1 2 3 by (meson converse_rtranclp_into_rtranclp rtranclp.rtrancl_refl)+
  have v: "ps_running ?p = [4]" "ps_refused ?p = [5]" "ps_running ?q = [4]"
    by (simp_all add: serve_turn_def startProxy_def newScope_def scope_track_def scope_add_def proxy_shut_def)
  have "sc_closed (ps_scope ?q)"
    using psteps_inv [OF r(1) proxy_inv_start] by (blast intro: proxy_inv_shut(2))
  with v show ?thesis using r 3 proxy_bounded [OF r(2)] by blast
qed

end
