(* ===== verification/Go_Base32.thy ===== *)
theory Go_Base32
  imports Go_Encoding
begin

text \<open>
  Go's \<^verbatim>\<open>encoding/base32\<close> without padding, as \<^verbatim>\<open>onionBase32\<close> uses it. The decoder skips line
  breaks, refuses characters outside the alphabet, and yields as many bytes of the last,
  incomplete group as its characters determine; a last group of one, three or six
  characters yields none, as in the library's switch over the group length. (The byte 255,
  which the library compares with its padding character, never reaches the decoder: the
  program decodes upper-cased text, which is valid UTF-8.)
\<close>

definition b32_char :: "nat \<Rightarrow> char" where
  "b32_char n = (if n < 26 then chr (65 + n) else chr (24 + n))"

definition b32_val :: "char \<Rightarrow> nat option" where
  "b32_val c =
    (if 65 \<le> byte c \<and> byte c \<le> 90 then Some (byte c - 65)
     else if 50 \<le> byte c \<and> byte c \<le> 55 then Some (byte c - 24)
     else None)"

text \<open>The quintets of up to five bytes.\<close>

fun b32_quintets :: "u8 list \<Rightarrow> nat list" where
  "b32_quintets [] = []"
| "b32_quintets [a] = [unat a div 8, unat a mod 8 * 4]"
| "b32_quintets [a, b] = [unat a div 8, unat a mod 8 * 4 + unat b div 64, unat b div 2 mod 32, unat b mod 2 * 16]"
| "b32_quintets [a, b, c] = [unat a div 8, unat a mod 8 * 4 + unat b div 64, unat b div 2 mod 32,
     unat b mod 2 * 16 + unat c div 16, unat c mod 16 * 2]"
| "b32_quintets [a, b, c, d] = [unat a div 8, unat a mod 8 * 4 + unat b div 64, unat b div 2 mod 32,
     unat b mod 2 * 16 + unat c div 16, unat c mod 16 * 2 + unat d div 128, unat d div 4 mod 32, unat d mod 4 * 8]"
| "b32_quintets (a # b # c # d # e # rest) =
     unat a div 8 # (unat a mod 8 * 4 + unat b div 64) # (unat b div 2 mod 32) #
     (unat b mod 2 * 16 + unat c div 16) # (unat c mod 16 * 2 + unat d div 128) # (unat d div 4 mod 32) #
     (unat d mod 4 * 8 + unat e div 32) # (unat e mod 32) # b32_quintets rest"

definition b32_encode :: "u8 list \<Rightarrow> string" where
  "b32_encode bs = map b32_char (b32_quintets bs)"

definition b32_byte :: "nat \<Rightarrow> nat \<Rightarrow> nat \<Rightarrow> nat \<Rightarrow> nat \<Rightarrow> nat \<Rightarrow> nat \<Rightarrow> nat \<Rightarrow> nat \<Rightarrow> u8" where
  "b32_byte i q r s t u v w x =
    of_nat (if i = 0 then q * 8 + r div 4
            else if i = 1 then r mod 4 * 64 + s * 2 + t div 16
            else if i = 2 then t mod 16 * 16 + u div 2
            else if i = 3 then u mod 2 * 128 + v * 4 + w div 8
            else w mod 8 * 32 + x)"

fun b32_groups :: "nat list \<Rightarrow> u8 list" where
  "b32_groups (q # r # s # t # u # v # w # x # rest) =
     map (\<lambda>i. b32_byte i q r s t u v w x) [0, 1, 2, 3, 4] @ b32_groups rest"
| "b32_groups [q, r, s, t, u, v, w] = map (\<lambda>i. b32_byte i q r s t u v w 0) [0, 1, 2, 3]"
| "b32_groups [q, r, s, t, u] = map (\<lambda>i. b32_byte i q r s t u 0 0 0) [0, 1, 2]"
| "b32_groups [q, r, s, t] = map (\<lambda>i. b32_byte i q r s t 0 0 0 0) [0, 1]"
| "b32_groups [q, r] = map (\<lambda>i. b32_byte i q r 0 0 0 0 0 0) [0]"
| "b32_groups _ = []"

fun b32_vals :: "string \<Rightarrow> nat list option" where
  "b32_vals [] = Some []"
| "b32_vals (c # s) =
    (case (b32_val c, b32_vals s) of (Some v, Some vs) \<Rightarrow> Some (v # vs) | _ \<Rightarrow> None)"

definition b32_decode :: "string \<Rightarrow> u8 list option" where
  "b32_decode s = map_option b32_groups (b32_vals (filter (\<lambda>c. byte c \<noteq> 10 \<and> byte c \<noteq> 13) s))"

definition b32_alphabet :: "char \<Rightarrow> bool" where
  "b32_alphabet c \<longleftrightarrow> b32_val c \<noteq> None"

lemma b32_val_char [simp]: "n < 32 \<Longrightarrow> b32_val (b32_char n) = Some n"
  by (auto simp: b32_val_def b32_char_def)

text \<open>Two adjacent parts of a number of quintets, and the parts of a byte.\<close>

lemma join_div: "y < k \<Longrightarrow> (x * k + y) div k = (x :: nat)"
  by (simp add: add.commute [of "x * k"])

lemma join_mod: "y < k \<Longrightarrow> (x * k + y) mod k = (y :: nat)"
  by simp

lemma u8_div [simp]:
  "unat (a :: u8) div 8 < 32" "unat a div 16 < 16" "unat a div 32 < 8" "unat a div 64 < 4" "unat a div 128 < 2"
  using unat_u8_less [of a] by (simp_all add: less_mult_imp_div_less)

lemma three_parts: "n div (k * m) * (k * m) + n div k mod m * k + n mod k = (n :: nat)"
proof -
  have "n div (k * m) * m + n div k mod m = n div k"
    using div_mult_mod_eq [of "n div k" m] by (simp add: div_mult2_eq)
  then have "(n div (k * m) * m + n div k mod m) * k + n mod k = n" by simp
  then show ?thesis by (simp add: algebra_simps)
qed

lemmas u8_three = three_parts [of "unat b" 2 32, simplified] for b :: u8
lemmas u8_three' = three_parts [of "unat b" 4 32, simplified] for b :: u8

lemma quintet_bounds [simp]:
  "unat (a :: u8) mod 8 * 4 + unat (b :: u8) div 64 < 32" "unat a mod 2 * 16 + unat b div 16 < 32"
  "unat a mod 16 * 2 + unat b div 128 < 32" "unat a mod 4 * 8 + unat b div 32 < 32"
  "unat a mod 8 * 4 < 32" "unat a mod 2 * 16 < 32" "unat a mod 16 * 2 < 32" "unat a mod 4 * 8 < 32"
proof -
  have m: "unat a mod 8 < 8" "unat a mod 2 < 2" "unat a mod 16 < 16" "unat a mod 4 < 4" by simp_all
  show "unat a mod 8 * 4 + unat b div 64 < 32" using m(1) u8_div(4) [of b] by linarith
  show "unat a mod 2 * 16 + unat b div 16 < 32" using m(2) u8_div(2) [of b] by linarith
  show "unat a mod 16 * 2 + unat b div 128 < 32" using m(3) u8_div(5) [of b] by linarith
  show "unat a mod 4 * 8 + unat b div 32 < 32" using m(4) u8_div(3) [of b] by linarith
  show "unat a mod 8 * 4 < 32" "unat a mod 2 * 16 < 32" "unat a mod 16 * 2 < 32" "unat a mod 4 * 8 < 32"
    using m by linarith+
qed

lemma b32_quintets_less: "list_all (\<lambda>x. x < 32) (b32_quintets bs)"
  by (induction bs rule: b32_quintets.induct) (simp_all del: unat_of_nat)

lemma b32_byte_0: "b32_byte 0 (unat a div 8) (unat a mod 8 * 4 + unat (b :: u8) div 64) s t u v w x = a"
  by (simp add: b32_byte_def join_div)

lemma b32_byte_1: "b32_byte 1 q (x * 4 + unat b div 64) (unat b div 2 mod 32) (unat b mod 2 * 16 + unat (c :: u8) div 16) u v w y = b"
  using u8_three [of b] by (simp add: b32_byte_def join_div)

lemma b32_byte_2: "b32_byte 2 q r s (x * 16 + unat c div 16) (unat c mod 16 * 2 + unat (d :: u8) div 128) v w y = c"
  by (simp add: b32_byte_def join_div)

lemma b32_byte_3: "b32_byte 3 q r s t (x * 2 + unat d div 128) (unat d div 4 mod 32) (unat d mod 4 * 8 + unat (e :: u8) div 32) y = d"
  using u8_three' [of d] by (simp add: b32_byte_def join_div)

lemma b32_byte_4: "b32_byte 4 q r s t u v (x * 8 + unat e div 32) (unat e mod 32) = e"
  by (simp add: b32_byte_def)

lemmas b32_bytes = b32_byte_0 b32_byte_1 b32_byte_2 b32_byte_3 b32_byte_4

lemmas b32_bytes_last =
  b32_byte_0 [where b = 0, unfolded unat_0 div_0 add_0_right] b32_byte_1 [where c = 0, unfolded unat_0 div_0 add_0_right]
  b32_byte_2 [where d = 0, unfolded unat_0 div_0 add_0_right] b32_byte_3 [where e = 0, unfolded unat_0 div_0 add_0_right]

lemma b32_groups_quintets: "b32_groups (b32_quintets bs) = bs"
  by (induction bs rule: b32_quintets.induct) (simp_all add: b32_bytes b32_bytes_last del: One_nat_def)

lemma b32_vals_map: "list_all (\<lambda>x. x < 32) xs \<Longrightarrow> b32_vals (map b32_char xs) = Some xs"
  by (induction xs) auto

lemma b32_char_not_newline: "x < 32 \<Longrightarrow> byte (b32_char x) \<noteq> 10 \<and> byte (b32_char x) \<noteq> 13"
  by (auto simp: b32_char_def)

lemma b32_decode_encode: "b32_decode (b32_encode bs) = Some bs"
proof -
  note less = b32_quintets_less [of bs]
  have "filter (\<lambda>c. byte c \<noteq> 10 \<and> byte c \<noteq> 13) (b32_encode bs) = b32_encode bs"
    unfolding b32_encode_def using less b32_char_not_newline by (auto simp: filter_id_conv list_all_iff)
  then show ?thesis
    using less by (simp add: b32_decode_def b32_encode_def b32_vals_map b32_groups_quintets)
qed

lemma b32_encode_chars: "set (b32_encode bs) \<subseteq> {c. b32_alphabet c}"
  using b32_quintets_less [of bs] by (auto simp: b32_encode_def b32_alphabet_def list_all_iff)

interpretation b32_codec: text_codec b32_encode b32_decode "{c. b32_alphabet c}"
  by unfold_locales (simp_all add: b32_decode_encode b32_encode_chars)

end
