(* ===== verification/Tor_Identity.thy ===== *)
theory Tor_Identity
  imports Go_Base32
begin

text \<open>
  Keys and names (identity.go): Tor's expanded Ed25519 service keys, X25519 client
  authorization keys, their text forms, and the names they are stored under. Keys are byte
  lists of the array's length. SHA-512 and the X25519 function are parameters; of the curve
  the code uses that \<^verbatim>\<open>NewPublicKey\<close> and \<^verbatim>\<open>NewPrivateKey\<close> accept exactly 32 bytes, that
  \<^verbatim>\<open>PublicKey\<close> multiplies the base point, and that \<^verbatim>\<open>ECDH\<close> refuses an all-zero result.
\<close>

section \<open>Service keys\<close>

type_synonym onion_key = "u8 list"

definition onionServiceKeySize :: nat where "onionServiceKeySize = 64"
definition clientAuthorizationKeySize :: nat where "clientAuthorizationKeySize = 32"

definition onion_valid :: "onion_key \<Rightarrow> bool" where
  "onion_valid k \<longleftrightarrow> (k ! 0) AND 7 = 0 \<and> (k ! 31) AND 0xc0 = 0x40"

definition NewOnionServiceKey :: "u8 list \<Rightarrow> onion_key res" where
  "NewOnionServiceKey expanded =
    (if length expanded \<noteq> onionServiceKeySize then Inl (Msg ''tor-driver: onion service key must contain 64 bytes'')
     else if \<not> onion_valid expanded then Inl (Msg ''tor-driver: invalid expanded Ed25519 scalar'')
     else Inr expanded)"

definition OnionServiceKeyFromEd25519Seed :: "(u8 list \<Rightarrow> u8 list) \<Rightarrow> u8 list \<Rightarrow> onion_key res" where
  "OnionServiceKeyFromEd25519Seed sha512 seed =
    (if length seed \<noteq> 32 then Inl (Msg ''tor-driver: Ed25519 seed must contain 32 bytes'')
     else let expanded = sha512 seed;
              e1 = expanded[0 := (expanded ! 0) AND 248];
              e2 = e1[31 := (e1 ! 31) AND 63];
              e3 = e2[31 := (e2 ! 31) OR 64]
          in NewOnionServiceKey e3)"

definition decodeBase64 :: "string \<Rightarrow> u8 list res" where
  "decodeBase64 s =
    (case b64_decode (TrimRight s ''='') of None \<Rightarrow> Inl (Msg ''illegal base64 data'') | Some b \<Rightarrow> Inr b)"

definition ParseOnionServiceKey :: "string \<Rightarrow> onion_key res" where
  "ParseOnionServiceKey text =
    (case decodeBase64 (TrimPrefix text ''ED25519-V3:'') of
       Inl e \<Rightarrow> Inl (Wrap ''tor-driver: invalid onion service key encoding: '' e)
     | Inr b \<Rightarrow> NewOnionServiceKey b)"

definition onion_MarshalText :: "onion_key \<Rightarrow> string res" where
  "onion_MarshalText k =
    (if \<not> onion_valid k then Inl (Msg ''tor-driver: invalid onion service key'')
     else Inr (''ED25519-V3:'' @ b64_encode k))"

text \<open>\<^verbatim>\<open>UnmarshalText\<close> returns the error and the new value of its receiver.\<close>

definition onion_UnmarshalText :: "string \<Rightarrow> onion_key \<Rightarrow> goerr option \<times> onion_key" where
  "onion_UnmarshalText text k =
    (case ParseOnionServiceKey text of Inl e \<Rightarrow> (Some e, k) | Inr parsed \<Rightarrow> (None, parsed))"

definition torBlob :: "onion_key \<Rightarrow> string" where
  "torBlob k = b64_encode k"

section \<open>Client authorization keys\<close>

text \<open>X25519 as a function of a scalar and a point.\<close>

type_synonym x25519 = "u8 list \<Rightarrow> u8 list \<Rightarrow> u8 list"

definition basepoint :: "u8 list" where
  "basepoint = 9 # replicate 31 0"

fun combine :: "u8 \<Rightarrow> u8 list \<Rightarrow> u8" where
  "combine acc [] = acc"
| "combine acc (v # b) = combine (acc OR v) b"

definition allZero :: "u8 list \<Rightarrow> bool" where
  "allZero b \<longleftrightarrow> combine 0 b = 0"

definition NewClientAuthorizationPublicKey :: "x25519 \<Rightarrow> u8 list \<Rightarrow> u8 list res" where
  "NewClientAuthorizationPublicKey curve key =
    (if length key \<noteq> clientAuthorizationKeySize
     then Inl (Msg ''tor-driver: client authorization public key must contain 32 bytes'')
     else if allZero (curve (1 # replicate 31 0) key)
     then Inl (Msg ''tor-driver: invalid client authorization public key'')
     else Inr key)"

definition NewClientAuthorizationPrivateKey :: "u8 list \<Rightarrow> u8 list res" where
  "NewClientAuthorizationPrivateKey key =
    (if length key \<noteq> clientAuthorizationKeySize
     then Inl (Msg ''tor-driver: client authorization private key must contain 32 bytes'')
     else let k1 = key[0 := (key ! 0) AND 248];
              k2 = k1[31 := (k1 ! 31) AND 127];
              k3 = k2[31 := (k2 ! 31) OR 64]
          in Inr k3)"

definition ParseClientAuthorizationPublicKey :: "casemap \<Rightarrow> x25519 \<Rightarrow> string \<Rightarrow> u8 list res" where
  "ParseClientAuthorizationPublicKey upper curve text =
    (case b32_decode (ToUpper upper (TrimSpace text)) of
       None \<Rightarrow> Inl (Wrap ''tor-driver: invalid client authorization public key encoding: '' (Msg ''illegal base32 data''))
     | Some decoded \<Rightarrow> NewClientAuthorizationPublicKey curve decoded)"

definition ParseClientAuthorizationPrivateKey :: "string \<Rightarrow> u8 list res" where
  "ParseClientAuthorizationPrivateKey text =
    (case decodeBase64 (TrimSpace text) of
       Inl e \<Rightarrow> Inl (Wrap ''tor-driver: invalid client authorization private key encoding: '' e)
     | Inr decoded \<Rightarrow> NewClientAuthorizationPrivateKey decoded)"

definition public_MarshalText :: "casemap \<Rightarrow> u8 list \<Rightarrow> string res" where
  "public_MarshalText lower k =
    (if allZero k then Inl (Msg ''tor-driver: invalid client authorization public key'')
     else Inr (ToLower lower (b32_encode k)))"

definition public_UnmarshalText :: "casemap \<Rightarrow> x25519 \<Rightarrow> string \<Rightarrow> u8 list \<Rightarrow> goerr option \<times> u8 list" where
  "public_UnmarshalText upper curve text k =
    (case ParseClientAuthorizationPublicKey upper curve text of Inl e \<Rightarrow> (Some e, k) | Inr parsed \<Rightarrow> (None, parsed))"

definition private_valid :: "u8 list \<Rightarrow> bool" where
  "private_valid k \<longleftrightarrow> \<not> allZero k \<and> (k ! 0) AND 7 = 0 \<and> (k ! 31) AND 0xc0 = 0x40"

definition private_MarshalText :: "u8 list \<Rightarrow> string res" where
  "private_MarshalText k =
    (if \<not> private_valid k then Inl (Msg ''tor-driver: invalid client authorization private key'')
     else Inr (b64_std_encode k))"

definition private_UnmarshalText :: "string \<Rightarrow> u8 list \<Rightarrow> goerr option \<times> u8 list" where
  "private_UnmarshalText text k =
    (case ParseClientAuthorizationPrivateKey text of Inl e \<Rightarrow> (Some e, k) | Inr parsed \<Rightarrow> (None, parsed))"

section \<open>Names\<close>

definition alnum :: "nat \<Rightarrow> bool" where
  "alnum c \<longleftrightarrow> 97 \<le> c \<and> c \<le> 122 \<or> 65 \<le> c \<and> c \<le> 90 \<or> 48 \<le> c \<and> c \<le> 57"

definition validClientName :: "string \<Rightarrow> bool" where
  "validClientName name \<longleftrightarrow> length name \<le> 16 \<and>
    list_all (\<lambda>c. alnum c \<or> c = 43 \<or> c = 45 \<or> c = 95) (runes name)"

definition validKeyName :: "string \<Rightarrow> bool" where
  "validKeyName name \<longleftrightarrow> name \<noteq> [] \<and> length name \<le> 128 \<and>
    list_all (\<lambda>c. alnum c \<or> c = 46 \<or> c = 45 \<or> c = 95) (runes name)"

section \<open>Credentials\<close>

record client_authorization =
  PrivateKey :: "u8 list"
  auth_Name :: string

definition auth_PublicKey :: "x25519 \<Rightarrow> client_authorization \<Rightarrow> u8 list res" where
  "auth_PublicKey curve a =
    (if \<not> private_valid (PrivateKey a) then Inl (Msg ''tor-driver: invalid client authorization private key'')
     else NewClientAuthorizationPublicKey curve (curve (PrivateKey a) basepoint))"

text \<open>\<open>generated\<close> is what \<^verbatim>\<open>ecdh.X25519().GenerateKey\<close> makes of the entropy reader, and
  \<^const>\<open>None\<close> stands for a missing reader.\<close>

definition GenerateClientAuthorization :: "u8 list res option \<Rightarrow> string \<Rightarrow> client_authorization res" where
  "GenerateClientAuthorization generated name =
    (case generated of
       None \<Rightarrow> Inl (Msg ''tor-driver: entropy reader is required'')
     | Some r \<Rightarrow>
         if \<not> validClientName name then Inl (Msg ''tor-driver: invalid client authorization name'')
         else (case r of
             Inl e \<Rightarrow> Inl e
           | Inr bytes \<Rightarrow>
               (case NewClientAuthorizationPrivateKey bytes of
                  Inl e \<Rightarrow> Inl e
                | Inr key \<Rightarrow> Inr \<lparr>PrivateKey = key, auth_Name = name\<rparr>)))"

definition validateClientAuthorization :: "x25519 \<Rightarrow> client_authorization \<Rightarrow> goerr option" where
  "validateClientAuthorization curve a =
    (if \<not> validClientName (auth_Name a) then Some (Msg ''tor-driver: invalid client authorization name'')
     else (case auth_PublicKey curve a of Inl e \<Rightarrow> Some e | Inr _ \<Rightarrow> None))"

definition joinDeleteError :: "goerr option \<Rightarrow> goerr option \<Rightarrow> goerr option" where
  "joinDeleteError operation deletion =
    (case deletion of
       None \<Rightarrow> operation
     | Some d \<Rightarrow> errors_join [operation, Some (Wrap ''tor-driver: could not delete service after failure: '' d)])"

end
