(* ===== verification/Tor_Identity_Proofs.thy ===== *)
theory Tor_Identity_Proofs
  imports Tor_Identity
begin

text \<open>Round trips of the keys' text forms, clamping, and what valid names may contain.\<close>

section \<open>Bits of the scalar\<close>

lemma and_7_248: "((x :: u8) AND 248) AND 7 = 0"
  by (simp add: and.assoc)

lemma clamp_high: "((x :: u8) AND 63 OR 64) AND 192 = 64"
  by (simp add: and.assoc bit.conj_disj_distrib2)

lemma clamp_high': "((x :: u8) AND 127 OR 64) AND 192 = 64"
proof -
  have "(x AND 127) AND 192 = x AND 64" by (simp add: and.assoc)
  moreover have "(x AND 64) OR 64 = 64" by (rule bit_word_eqI) (auto simp: bit_simps)
  ultimately show ?thesis by (simp add: bit.conj_disj_distrib2)
qed

lemma combine_zero: "combine acc b = 0 \<longleftrightarrow> acc = 0 \<and> (\<forall>v \<in> set b. v = 0)"
proof (induction b arbitrary: acc)
  case (Cons v b)
  have "acc OR v = 0 \<longleftrightarrow> acc = 0 \<and> v = 0" by (simp add: or_eq_0_iff)
  then show ?case using Cons.IH [of "acc OR v"] by auto
qed simp

lemma allZero_iff: "allZero b \<longleftrightarrow> b = replicate (length b) 0"
  by (simp add: allZero_def combine_zero) (metis in_set_replicate replicate_eqI)

section \<open>Service keys\<close>

lemma b64_not_pad: "b64_alphabet c \<Longrightarrow> c \<noteq> CHR ''='' \<and> c \<noteq> CHR '':'' \<and> 33 \<le> byte c \<and> byte c < 128"
  by (auto simp: b64_alphabet_def b64_val_def split: if_splits)

lemma b64_encode_char: "c \<in> set (b64_encode k) \<Longrightarrow> b64_alphabet c"
  using b64_codec.enc_alphabet by blast

lemma TrimRight_pads: "(\<forall>c \<in> set s. c \<noteq> p) \<Longrightarrow> TrimRight (s @ replicate n p) [p] = s"
proof -
  assume a: "\<forall>c \<in> set s. c \<noteq> p"
  have "dropWhile (\<lambda>c. c = p) (replicate n p @ rev s) = rev s"
  proof (cases s rule: rev_cases)
    case (snoc ys y)
    with a have "y \<noteq> p" by simp
    then show ?thesis using snoc by (induction n) simp_all
  qed (induction n, simp_all)
  then show ?thesis by (simp add: TrimRight_def)
qed

lemma decodeBase64_encode [simp]: "decodeBase64 (b64_encode k) = Inr k"
proof -
  have "TrimRight (b64_encode k @ replicate 0 (CHR ''='')) ''='' = b64_encode k"
    using b64_encode_char b64_not_pad by (intro TrimRight_pads) blast
  then show ?thesis by (simp add: decodeBase64_def b64_codec.dcd_enc)
qed

lemma decodeBase64_std [simp]: "decodeBase64 (b64_std_encode k) = Inr k"
proof -
  have "TrimRight (b64_std_encode k) ''='' = b64_encode k"
    unfolding b64_std_encode_def using b64_encode_char b64_not_pad by (intro TrimRight_pads) blast
  then show ?thesis by (simp add: decodeBase64_def b64_codec.dcd_enc)
qed

lemma NewOnionServiceKey_iff: "NewOnionServiceKey b = Inr k \<longleftrightarrow> k = b \<and> length k = 64 \<and> onion_valid k"
  by (auto simp: NewOnionServiceKey_def onionServiceKeySize_def)

lemma ParseOnionServiceKey_valid: "ParseOnionServiceKey text = Inr k \<Longrightarrow> length k = 64 \<and> onion_valid k"
  by (auto simp: ParseOnionServiceKey_def NewOnionServiceKey_iff split: sum.splits)

lemma ParseOnionServiceKey_text:
  "length k = 64 \<Longrightarrow> onion_valid k \<Longrightarrow> ParseOnionServiceKey (''ED25519-V3:'' @ b64_encode k) = Inr k"
  unfolding ParseOnionServiceKey_def TrimPrefix_append by (simp add: NewOnionServiceKey_iff)

lemma ParseOnionServiceKey_blob:
  assumes "length k = 64" "onion_valid k"
  shows "ParseOnionServiceKey (torBlob k) = Inr k"
proof -
  have "\<not> HasPrefix (b64_encode k) ''ED25519-V3:''"
  proof
    assume "HasPrefix (b64_encode k) ''ED25519-V3:''"
    then obtain t where "b64_encode k = ''ED25519-V3:'' @ t" by (auto simp: HasPrefix_iff)
    then have "CHR '':'' \<in> set (b64_encode k)" by simp
    with b64_encode_char b64_not_pad show False by blast
  qed
  then have "TrimPrefix (torBlob k) ''ED25519-V3:'' = b64_encode k"
    by (simp add: TrimPrefix_def torBlob_def CutPrefix_def)
  then show ?thesis using assms by (simp add: ParseOnionServiceKey_def NewOnionServiceKey_iff)
qed

lemma word_b64: "k \<noteq> [] \<Longrightarrow> word (b64_encode k)"
proof -
  assume "k \<noteq> []"
  then have "b64_encode k \<noteq> []" by (cases k rule: b64_encode.cases) auto
  then show ?thesis using b64_encode_char b64_not_pad by (auto simp: word_def list_all_iff)
qed

text \<open>
  C36. Service keys survive their text form. Whatever \<^verbatim>\<open>NewOnionServiceKey\<close> or
  \<^verbatim>\<open>ParseOnionServiceKey\<close> accepts has 64 bytes with a clamped scalar; marshalling it
  succeeds, its text is one printable word, and parsing that text, or the bare blob of the
  control protocol, yields the same key.
\<close>

theorem onion_key_roundtrip:
  assumes "NewOnionServiceKey b = Inr k \<or> ParseOnionServiceKey text = Inr k"
  shows "length k = 64 \<and> onion_valid k \<and> ParseOnionServiceKey (torBlob k) = Inr k \<and>
    (\<exists>t. onion_MarshalText k = Inr t \<and> word t \<and> ParseOnionServiceKey t = Inr k \<and>
       onion_UnmarshalText t old = (None, k))"
proof -
  have k: "length k = 64" "onion_valid k"
    using assms ParseOnionServiceKey_valid by (auto simp: NewOnionServiceKey_iff)
  then have "word (''ED25519-V3:'' @ b64_encode k)"
    using word_b64 [of k] by (force simp: word_def)
  with k show ?thesis
    by (simp add: ParseOnionServiceKey_blob ParseOnionServiceKey_text onion_MarshalText_def onion_UnmarshalText_def
        del: append_Cons)
qed

definition sample_key :: onion_key where
  "sample_key = [248] @ replicate 30 7 @ [64] @ replicate 32 9"

theorem onion_key_roundtrip_witness:
  "ParseOnionServiceKey (torBlob sample_key) = Inr sample_key"
proof -
  have "NewOnionServiceKey sample_key = Inr sample_key"
    by (simp add: NewOnionServiceKey_iff sample_key_def onion_valid_def nth_append)
  with onion_key_roundtrip [of sample_key sample_key] show ?thesis by blast
qed

text \<open>
  Every 32-byte seed gives a service key: expanding a seed with a 64-byte hash never
  fails, the result is a valid key, and it differs from the hash only in the five clamped
  bits of the scalar. A seed of another length is refused.
\<close>

theorem seed_gives_key:
  assumes "length (sha512 seed) = 64"
  shows "if length seed = 32
    then \<exists>k. OnionServiceKeyFromEd25519Seed sha512 seed = Inr k \<and> length k = 64 \<and> onion_valid k \<and>
      k ! 0 = sha512 seed ! 0 AND 248 \<and> k ! 31 = (sha512 seed ! 31 AND 63) OR 64 \<and>
      (\<forall>i < 64. i \<noteq> 0 \<and> i \<noteq> 31 \<longrightarrow> k ! i = sha512 seed ! i)
    else \<exists>e. OnionServiceKeyFromEd25519Seed sha512 seed = Inl e"
proof -
  let ?h = "sha512 seed"
  let ?k = "?h[0 := ?h ! 0 AND 248, 31 := (?h ! 31 AND 63) OR 64]"
  have n: "?k ! 0 = ?h ! 0 AND 248" "?k ! 31 = (?h ! 31 AND 63) OR 64" using assms by simp_all
  have "onion_valid ?k" unfolding onion_valid_def n by (simp only: and_7_248 clamp_high simp_thms)
  moreover have "length seed = 32 \<Longrightarrow> OnionServiceKeyFromEd25519Seed sha512 seed = NewOnionServiceKey ?k"
    using assms by (simp add: OnionServiceKeyFromEd25519Seed_def Let_def)
  ultimately show ?thesis
    using assms n by (auto simp: NewOnionServiceKey_iff OnionServiceKeyFromEd25519Seed_def)
qed

theorem seed_gives_key_witness:
  "\<exists>k. OnionServiceKeyFromEd25519Seed (\<lambda>_. replicate 64 255) (replicate 32 1) = Inr k \<and> onion_valid k"
  using seed_gives_key [of "\<lambda>_. replicate 64 255" "replicate 32 1"] by auto

section \<open>Client keys\<close>

lemma b32_ascii: "b32_alphabet c \<Longrightarrow> 50 \<le> byte c \<and> byte c < 128 \<and> upper_byte (lower_byte (byte c)) = byte c
    \<and> 50 \<le> lower_byte (byte c) \<and> lower_byte (byte c) < 128"
  by (auto simp: b32_alphabet_def b32_val_def lower_byte_def upper_byte_def split: if_splits)

lemma b32_encode_char: "c \<in> set (b32_encode k) \<Longrightarrow> b32_alphabet c"
  using b32_codec.enc_alphabet by blast

lemma byte_chr: "n < 256 \<Longrightarrow> byte (chr n) = n"
  by simp

lemma lower_b32: "ToLower L (b32_encode k) = map (\<lambda>c. chr (lower_byte (byte c))) (b32_encode k)"
  using b32_encode_char b32_ascii by (intro ToLower_ascii) (auto simp: list_all_iff)

lemma upper_lower_b32: "ToUpper U (ToLower L (b32_encode k)) = b32_encode k"
proof -
  let ?l = "map (\<lambda>c. chr (lower_byte (byte c))) (b32_encode k)"
  have "list_all (\<lambda>c. byte c < 128) ?l" using b32_encode_char b32_ascii by (fastforce simp: list_all_iff)
  then have "ToUpper U ?l = map (\<lambda>c. chr (upper_byte (byte c))) ?l" by (rule ToUpper_ascii)
  also have "\<dots> = b32_encode k"
    using b32_encode_char b32_ascii by (simp add: map_idI byte_chr) (fastforce intro: map_idI)
  finally show ?thesis by (simp add: lower_b32)
qed

lemma b32_encode_Nil: "k \<noteq> [] \<Longrightarrow> b32_encode k \<noteq> []"
  by (cases k rule: b32_quintets.cases) (auto simp: b32_encode_def)

lemma word_lower_b32: "k \<noteq> [] \<Longrightarrow> word (ToLower L (b32_encode k))"
  using b32_encode_Nil [of k] b32_encode_char b32_ascii by (fastforce simp: word_def lower_b32 list_all_iff)

lemma TrimSpace_word: "word w \<Longrightarrow> TrimSpace w = w"
  by (rule TrimSpace_printable) (auto simp: word_def list_all_iff)

lemma NewPublic_iff: "NewClientAuthorizationPublicKey curve b = Inr k \<longleftrightarrow>
    k = b \<and> length b = 32 \<and> \<not> allZero (curve (1 # replicate 31 0) b)"
  by (auto simp: NewClientAuthorizationPublicKey_def clientAuthorizationKeySize_def)

lemma NewPrivate_iff: "NewClientAuthorizationPrivateKey b = Inr k \<longleftrightarrow>
    length b = 32 \<and> k = b[0 := b ! 0 AND 248, 31 := (b ! 31 AND 127) OR 64]"
  by (auto simp: NewClientAuthorizationPrivateKey_def clientAuthorizationKeySize_def Let_def)

lemma private_clamped:
  assumes "NewClientAuthorizationPrivateKey b = Inr k"
  shows "length k = 32 \<and> private_valid k"
proof -
  have k: "length b = 32" "length k = 32" "k ! 0 = b ! 0 AND 248" "k ! 31 = (b ! 31 AND 127) OR 64"
    using assms by (auto simp: NewPrivate_iff)
  have c: "k ! 31 AND 192 = 64" unfolding k(4) by (rule clamp_high')
  have "k ! 31 \<noteq> 0" using c by auto
  moreover have "allZero k \<Longrightarrow> k ! 31 = 0"
    using k(2) nth_replicate [of 31 32 "0 :: u8"] by (simp add: allZero_iff)
  ultimately have "\<not> allZero k" by blast
  with c k(2,3) show ?thesis by (simp only: private_valid_def and_7_248 simp_thms)
qed

lemma and_split:
  fixes x m n :: u8
  assumes "m OR n = 255" "x AND n = 0"
  shows "x AND m = x"
proof -
  have "x AND (m OR n) = (x AND m) OR (x AND n)" by (rule bit.conj_disj_distrib)
  moreover have "(255 :: u8) = -1" by simp
  ultimately show ?thesis using assms by (metis and.right_neutral or.right_neutral)
qed

lemma clamp_id: "(x :: u8) AND 7 = 0 \<Longrightarrow> x AND 248 = x"
  by (rule and_split [of _ 7]) simp_all

lemma clamp_id': "(x :: u8) AND 192 = 64 \<Longrightarrow> (x AND 127) OR 64 = x"
proof -
  assume a: "x AND 192 = 64"
  have "x AND 128 = (x AND 192) AND 128" by (simp add: and.assoc)
  then have x: "x AND 127 = x" using a by (intro and_split [of _ 128]) simp_all
  have "x AND 64 = (x AND 192) AND 64" by (simp add: and.assoc)
  then have "x AND 64 = 64" using a by simp
  moreover have "x OR (x AND 64) = x" by (rule bit_word_eqI) (auto simp: bit_or_iff bit_and_iff)
  ultimately have "x OR 64 = x" by simp
  with x show ?thesis by simp
qed

lemma NewPrivate_idem:
  assumes "length k = 32" "private_valid k"
  shows "NewClientAuthorizationPrivateKey k = Inr k"
proof -
  have "k ! 0 AND 248 = k ! 0" "(k ! 31 AND 127) OR 64 = k ! 31"
    using assms(2) by (simp_all add: private_valid_def clamp_id clamp_id')
  then show ?thesis using assms(1) by (simp add: NewPrivate_iff)
qed

lemma word_b64_std: "k \<noteq> [] \<Longrightarrow> word (b64_std_encode k)"
  using word_b64 [of k] by (auto simp: word_def b64_std_encode_def list_all_iff)

text \<open>
  C37. Client authorization keys survive their text forms. A private key that was created
  or parsed is a clamped nonzero scalar; its base64 text is one word and parses back to it.
  A public key that was accepted has 32 bytes, and its lower-case base32 text is one word
  and parses back to it, whatever case table the upper- and lower-casing use beyond ASCII.
  The curve's only property used is that the all-zero point is mapped to zero.
\<close>

theorem client_key_roundtrip:
  assumes "\<forall>s. allZero (curve s (replicate 32 0))"
  shows "(NewClientAuthorizationPrivateKey b = Inr k \<or> ParseClientAuthorizationPrivateKey text = Inr k \<longrightarrow>
      length k = 32 \<and> private_valid k \<and>
      (\<exists>t. private_MarshalText k = Inr t \<and> word t \<and> ParseClientAuthorizationPrivateKey t = Inr k)) \<and>
    (NewClientAuthorizationPublicKey curve b = Inr p \<or> ParseClientAuthorizationPublicKey U curve text = Inr p \<longrightarrow>
      length p = 32 \<and>
      (\<exists>t. public_MarshalText L p = Inr t \<and> word t \<and> ParseClientAuthorizationPublicKey U curve t = Inr p))"
proof (intro conjI impI)
  assume "NewClientAuthorizationPrivateKey b = Inr k \<or> ParseClientAuthorizationPrivateKey text = Inr k"
  then obtain c where "NewClientAuthorizationPrivateKey c = Inr k"
    by (auto simp: ParseClientAuthorizationPrivateKey_def split: sum.splits)
  then have k: "length k = 32" "private_valid k" using private_clamped by blast+
  then have w: "word (b64_std_encode k)" by (intro word_b64_std) auto
  show "length k = 32" "private_valid k" by (rule k)+
  show "\<exists>t. private_MarshalText k = Inr t \<and> word t \<and> ParseClientAuthorizationPrivateKey t = Inr k"
    using k w NewPrivate_idem [OF k]
    by (simp add: private_MarshalText_def ParseClientAuthorizationPrivateKey_def TrimSpace_word)
next
  assume "NewClientAuthorizationPublicKey curve b = Inr p \<or> ParseClientAuthorizationPublicKey U curve text = Inr p"
  then have p: "length p = 32" "NewClientAuthorizationPublicKey curve p = Inr p"
    by (auto simp: ParseClientAuthorizationPublicKey_def NewPublic_iff split: option.splits)
  have nz: "\<not> allZero p"
    using assms p by (metis NewPublic_iff allZero_iff)
  have w: "word (ToLower L (b32_encode p))" using p(1) by (intro word_lower_b32) auto
  show "length p = 32" by (rule p(1))
  show "\<exists>t. public_MarshalText L p = Inr t \<and> word t \<and> ParseClientAuthorizationPublicKey U curve t = Inr p"
    using w nz p(2)
    by (simp add: public_MarshalText_def ParseClientAuthorizationPublicKey_def TrimSpace_word upper_lower_b32
        b32_codec.dcd_enc)
qed

theorem client_key_roundtrip_witness:
  "\<exists>t. private_MarshalText (replicate 31 0 @ [64]) = Inr t \<and> word t \<and>
     ParseClientAuthorizationPrivateKey t = Inr (replicate 31 0 @ [64])"
proof -
  have "NewClientAuthorizationPrivateKey (replicate 32 0) = Inr (replicate 31 0 @ [64])"
    by (simp add: NewPrivate_iff numeral_eq_Suc)
  moreover have "\<forall>s. allZero ((\<lambda>s p. p) s (replicate 32 0))" by (simp add: allZero_iff)
  ultimately show ?thesis using client_key_roundtrip [of "\<lambda>s p. p"] by blast
qed

section \<open>Names\<close>

lemma validClientName_iff:
  "validClientName name \<longleftrightarrow> length name \<le> 16 \<and>
    list_all (\<lambda>c. alnum (byte c) \<or> byte c = 43 \<or> byte c = 45 \<or> byte c = 95) name"
  unfolding validClientName_def by (subst runes_all [where b = False]) (auto simp: alnum_def)

lemma validKeyName_iff:
  "validKeyName name \<longleftrightarrow> name \<noteq> [] \<and> length name \<le> 128 \<and>
    list_all (\<lambda>c. alnum (byte c) \<or> byte c = 46 \<or> byte c = 45 \<or> byte c = 95) name"
  unfolding validKeyName_def by (subst runes_all [where b = False]) (auto simp: alnum_def)

lemma validClientName_word: "validClientName name \<Longrightarrow> name \<noteq> [] \<Longrightarrow> word name"
  by (auto simp: validClientName_iff word_def list_all_iff alnum_def)

end
