(* ===== verification/Tor_Log.thy ===== *)
theory Tor_Log
  imports Tor_Config
begin

text \<open>
  The filter between Tor's output and the logger (driver.go, \<^verbatim>\<open>torLogWriter\<close>): it collects
  lines, masks the proxy credentials, everything that identifies a bridge and the private
  keys that Tor may print, and bounds the length of a line.
\<close>

section \<open>Masking tokens\<close>

definition mask :: string where
  "mask = ''[redacted]''"

text \<open>
  \<^verbatim>\<open>redactToken\<close>: \<open>acc\<close> is the line up to the index \<^verbatim>\<open>search\<close>, \<open>rest\<close> what follows. The
  prefixes the code uses are not empty.
\<close>

definition token_char :: "char \<Rightarrow> bool" where
  "token_char c \<longleftrightarrow> c \<noteq> CHR '' '' \<and> byte c \<noteq> 9"

function redact_loop :: "string \<Rightarrow> string \<Rightarrow> string \<Rightarrow> string" where
  "redact_loop prefix acc rest =
    (if prefix = [] then acc @ rest
     else case Index rest prefix of
         None \<Rightarrow> acc @ rest
       | Some relative \<Rightarrow>
           redact_loop prefix (acc @ take relative rest @ prefix @ mask)
             (dropWhile token_char (drop (relative + length prefix) rest)))"
  by pat_completeness auto
termination
proof (relation "measure (\<lambda>(_, _, rest). length rest)")
  fix prefix acc rest :: string and relative
  assume a: "prefix \<noteq> []" "Index rest prefix = Some relative"
  have "rest \<noteq> []" using a by auto
  moreover have "length (dropWhile token_char (drop (relative + length prefix) rest)) \<le>
      length rest - (relative + length prefix)"
    by (metis length_dropWhile_le length_drop)
  ultimately show "((prefix, acc @ take relative rest @ prefix @ mask,
       dropWhile token_char (drop (relative + length prefix) rest)), prefix, acc, rest)
      \<in> measure (\<lambda>(_, _, rest). length rest)"
    using a(1) by (cases prefix; cases rest) auto
qed simp

definition redactToken :: "string \<Rightarrow> string \<Rightarrow> string" where
  "redactToken line prefix = redact_loop prefix [] line"

declare redact_loop.simps [simp del]

section \<open>Secrets\<close>

definition startupLogSecrets :: "string \<Rightarrow> string \<Rightarrow> string list" where
  "startupLogSecrets user password = [user, password]"

definition bridgeLogSecrets :: "bridge list \<Rightarrow> string list" where
  "bridgeLogSecrets bridges =
    concat (map (\<lambda>b. [Address b, Fingerprint b, Obfs4Certificate b]) bridges) @ bridgeLines bridges"

text \<open>\<open>lw_out\<close> are the lines handed to the logger, without the fixed text before them.\<close>

record log_writer =
  lw_enabled :: bool
  lw_buffer :: string
  lw_fixed :: "string list"
  lw_bridge :: "string list"
  lw_secrets :: "string list"
  lw_out :: "string list"

definition new_writer :: "bool \<Rightarrow> string list \<Rightarrow> string list \<Rightarrow> log_writer" where
  "new_writer enabled fixed bridge = \<lparr>lw_enabled = enabled, lw_buffer = [], lw_fixed = fixed, lw_bridge = bridge,
     lw_secrets = [], lw_out = []\<rparr>"

fun add_secrets :: "string list \<Rightarrow> string list \<Rightarrow> string list" where
  "add_secrets known [] = known"
| "add_secrets known (s # ss) =
    add_secrets (if s \<noteq> [] \<and> s \<notin> set known then known @ [s] else known) ss"

definition addBridgeSecrets :: "string list \<Rightarrow> log_writer \<Rightarrow> log_writer" where
  "addBridgeSecrets ss w = w\<lparr>lw_bridge := add_secrets (lw_bridge w) ss\<rparr>"

definition rememberSecrets :: "log_writer \<Rightarrow> log_writer" where
  "rememberSecrets w = w\<lparr>lw_secrets := add_secrets (lw_secrets w) (lw_bridge w)\<rparr>"

section \<open>Writing\<close>

fun redact_all :: "string list \<Rightarrow> string \<Rightarrow> string" where
  "redact_all [] line = line"
| "redact_all (s # ss) line = redact_all ss (if s \<noteq> [] then ReplaceAll line s mask else line)"

definition log_line :: "log_writer \<Rightarrow> string" where
  "log_line w =
    redactToken
      (redactToken (redact_all (lw_secrets w) (redact_all (lw_fixed w) (TrimSpace (lw_buffer w)))) ''ED25519-V3:'')
      ''descriptor:x25519:''"

definition log_emit :: "log_writer \<Rightarrow> log_writer" where
  "log_emit w = w\<lparr>lw_buffer := [], lw_secrets := [], lw_out := lw_out w @ [log_line w]\<rparr>"

fun write_loop :: "string \<Rightarrow> log_writer \<Rightarrow> log_writer" where
  "write_loop [] w = w"
| "write_loop (c # rest) w =
    (if byte c = 10 then
       write_loop rest (if rest \<noteq> [] then rememberSecrets (log_emit w) else log_emit w)
     else if length (lw_buffer w) < 8192 then write_loop rest (w\<lparr>lw_buffer := lw_buffer w @ [c]\<rparr>)
     else write_loop rest w)"

definition log_Write :: "string \<Rightarrow> log_writer \<Rightarrow> nat \<times> log_writer" where
  "log_Write b w =
    (if \<not> lw_enabled w \<or> b = [] then (length b, w) else (length b, write_loop b (rememberSecrets w)))"

end
