(* ===== verification/Tor_Log_Proofs.thy ===== *)
theory Tor_Log_Proofs
  imports Tor_Log
begin

text \<open>What the log filter guarantees: no secret and no private key passes it.\<close>

section \<open>First occurrences\<close>

lemma Index_None: "Index s p = None \<longleftrightarrow> \<not> Contains s p"
  by (induction s) auto

lemma Index_split: "Index s p = Some i \<Longrightarrow> s = take i s @ p @ drop (i + length p) s"
proof (induction s arbitrary: i)
  case (Cons c s)
  show ?case
  proof (cases "HasPrefix (c # s) p")
    case True
    with Cons.prems have "i = 0" by simp
    with True show ?thesis by (auto simp: HasPrefix_iff)
  next
    case False
    with Cons.prems obtain j where j: "Index s p = Some j" "i = Suc j" by auto
    then show ?thesis using Cons.IH [OF j(1)] by simp
  qed
qed (simp split: if_splits)

lemma Index_first: "Index s p = Some i \<Longrightarrow> s = a @ p @ b \<Longrightarrow> i \<le> length a"
proof (induction s arbitrary: i a)
  case (Cons c s)
  show ?case
  proof (cases "HasPrefix (c # s) p")
    case False
    with Cons.prems(1) obtain j where j: "Index s p = Some j" "i = Suc j" by auto
    obtain x a' where a: "a = x # a'" using Cons.prems(2) False by (cases a) (auto simp: HasPrefix_iff)
    then have "s = a' @ p @ b" using Cons.prems(2) by simp
    then show ?thesis using Cons.IH [OF j(1)] j(2) a by simp
  qed (use Cons.prems(1) in simp)
qed (simp split: if_splits)

lemma ReplaceAll_Index:
  assumes "old \<noteq> []"
  shows "ReplaceAll s old new = (case Index s old of
     None \<Rightarrow> s | Some i \<Rightarrow> take i s @ new @ ReplaceAll (drop (i + length old) s) old new)"
proof (induction s)
  case (Cons c s)
  obtain m where m: "length old = Suc m" using assms by (cases old) auto
  show ?case
  proof (cases "HasPrefix (c # s) old")
    case True
    then show ?thesis using assms m by (simp add: ReplaceAll.simps(2))
  next
    case False
    with Cons.IH show ?thesis by (auto simp: ReplaceAll.simps(2) split: option.splits)
  qed
qed (use assms in simp)

section \<open>Texts that do not overlap the mask\<close>

text \<open>Every alignment of \<open>s\<close> with \<open>m\<close> that overlaps in some position disagrees in one.\<close>

definition clear_of :: "string \<Rightarrow> string \<Rightarrow> bool" where
  "clear_of m s \<longleftrightarrow>
    list_all (\<lambda>j. list_ex (\<lambda>(x, y). x \<noteq> y) (zip s (drop j m))) [0..<length m] \<and>
    list_all (\<lambda>i. list_ex (\<lambda>(x, y). x \<noteq> y) (zip (drop i s) m)) [0..<length s]"

lemma zip_agree:
  assumes "list_ex (\<lambda>(x, y). x \<noteq> y) (zip s t)"
  shows "\<exists>k. k < length s \<and> k < length t \<and> s ! k \<noteq> t ! k"
  using assms by (auto simp: list_ex_iff set_zip)

lemma clear_of_split:
  assumes "clear_of m s" "a @ m @ b = u @ s @ v"
  shows "(\<exists>w. a = u @ s @ w \<and> v = w @ m @ b) \<or> (\<exists>w. b = w @ s @ v \<and> u = a @ m @ w)"
proof -
  have all: "(a @ m @ b) ! k = (u @ s @ v) ! k" for k using assms(2) by simp
  consider "length u + length s \<le> length a" | "length a + length m \<le> length u"
    | "length a \<le> length u" "length u < length a + length m" | "length u < length a" "length a < length u + length s"
    by linarith
  then show ?thesis
  proof cases
    case 1
    then show ?thesis using assms(2) by (auto simp: append_eq_append_conv2)
  next
    case 2
    then show ?thesis using assms(2) by (auto simp: append_eq_append_conv2)
  next
    case 3
    let ?j = "length u - length a"
    have "list_ex (\<lambda>(x, y). x \<noteq> y) (zip s (drop ?j m))"
      using assms(1) 3 by (auto simp: clear_of_def list_all_iff)
    from zip_agree [OF this] obtain k where k: "k < length s" "?j + k < length m" "s ! k \<noteq> m ! (?j + k)" by auto
    with all [of "length u + k"] 3 show ?thesis by (simp add: nth_append)
  next
    case 4
    let ?i = "length a - length u"
    have "list_ex (\<lambda>(x, y). x \<noteq> y) (zip (drop ?i s) m)"
      using assms(1) 4 by (auto simp: clear_of_def list_all_iff)
    from zip_agree [OF this] obtain k where k: "?i + k < length s" "k < length m" "s ! (?i + k) \<noteq> m ! k"
      by (auto simp: less_diff_conv add.commute)
    with all [of "length a + k"] 4 show ?thesis by (simp add: nth_append)
  qed
qed

lemma Contains_clear:
  assumes "clear_of m s" "Contains (a @ m @ b) s"
  shows "Contains a s \<or> Contains b s"
proof -
  obtain u v where "a @ m @ b = u @ s @ v" using assms(2) by (auto simp: Contains_iff)
  from clear_of_split [OF assms(1) this] show ?thesis by (auto simp: Contains_iff)
qed

lemma Contains_prefix: "Contains a s \<Longrightarrow> Contains (a @ b) s"
  by (metis Contains_iff append.assoc)

lemma Contains_suffix: "Contains b s \<Longrightarrow> Contains (a @ b) s"
  by (metis Contains_iff append.assoc)

section \<open>Masking removes secrets and brings none back\<close>

lemma ReplaceAll_hides:
  assumes "old \<noteq> []" "clear_of m s" "Contains line s \<longrightarrow> s = old"
  shows "\<not> Contains (ReplaceAll line old m) s"
  using assms(3)
proof (induction "length line" arbitrary: line rule: less_induct)
  case less
  show ?case
  proof (cases "Index line old")
    case None
    then have "\<not> Contains line old" by (simp add: Index_None)
    with less.prems None show ?thesis by (auto simp: ReplaceAll_Index [OF assms(1), of line])
  next
    case (Some i)
    let ?rest = "drop (i + length old) line"
    note ix = Index_split [OF Some]
    have i: "i + length old \<le> length line" using arg_cong [OF ix, of length] assms(1) by (cases old) auto
    have len: "length ?rest < length line" using i assms(1) by (cases old) auto
    have pre: "\<not> Contains (take i line) s"
    proof
      assume c: "Contains (take i line) s"
      then have "Contains line s" by (metis Contains_prefix append_take_drop_id)
      then have "s = old" using less.prems by blast
      with c obtain a b where ab: "take i line = a @ old @ b" by (auto simp: Contains_iff)
      then have "line = a @ old @ (b @ drop i line)" by (metis append.assoc append_take_drop_id)
      with Index_first [OF Some] have "i \<le> length a" by blast
      moreover have "length a + length old \<le> i" using arg_cong [OF ab, of length] i by simp
      ultimately show False using assms(1) by (cases old) auto
    qed
    have "Contains ?rest s \<longrightarrow> s = old" using less.prems ix by (metis Contains_suffix append.assoc)
    then have "\<not> Contains (ReplaceAll ?rest old m) s" using less.hyps len by blast
    with pre have "\<not> Contains (take i line @ m @ ReplaceAll ?rest old m) s"
      using Contains_clear [OF assms(2)] by blast
    with Some show ?thesis by (simp add: ReplaceAll_Index [OF assms(1), of line])
  qed
qed

lemma redact_all_hides:
  assumes "s \<noteq> []" "clear_of mask s" "Contains line s \<longrightarrow> s \<in> set ss"
  shows "\<not> Contains (redact_all ss line) s"
  using assms(3)
proof (induction ss arbitrary: line)
  case (Cons t ss)
  have "Contains (if t \<noteq> [] then ReplaceAll line t mask else line) s \<longrightarrow> s \<in> set ss"
    using ReplaceAll_hides [of t mask s line] assms(1,2) Cons.prems by auto
  with Cons.IH show ?case by simp
qed simp

section \<open>Masking tokens\<close>

text \<open>The text after a token: nothing, or a blank or tab.\<close>

definition token_ends :: "string \<Rightarrow> bool" where
  "token_ends s \<longleftrightarrow> s = [] \<or> hd s = CHR '' '' \<or> hd s = CHR 0x09"

lemma token_ends_dropWhile: "token_ends (dropWhile token_char s)"
proof (cases "dropWhile token_char s")
  case (Cons c t)
  then have "\<not> token_char c" using hd_dropWhile [of token_char s] by simp
  then have "c = CHR '' '' \<or> byte c = byte (CHR 0x09)" by (simp add: token_char_def)
  then show ?thesis unfolding Cons token_ends_def using of_char_eq_iff [of c "CHR 0x09", where 'a = nat] by auto
qed (simp add: token_ends_def)

text \<open>One step of the loop, and its independence of what was already masked.\<close>

lemma redact_loop_acc: "redact_loop p (b @ acc) rest = b @ redact_loop p acc rest"
proof (induction p acc rest rule: redact_loop.induct)
  case (1 p acc rest)
  show ?case
  proof (cases "p = [] \<or> Index rest p = None")
    case False
    then obtain i where i: "p \<noteq> []" "Index rest p = Some i" by auto
    from i 1 [OF i] show ?thesis
      by (simp add: redact_loop.simps [of p "b @ acc" rest] redact_loop.simps [of p acc rest])
  qed (auto simp: redact_loop.simps [of p _ rest])
qed

lemma redactToken_None: "Index line p = None \<Longrightarrow> redactToken line p = line"
  by (simp add: redactToken_def redact_loop.simps [of p "[]" line])

lemma redactToken_Some:
  assumes "p \<noteq> []" "Index line p = Some i"
  shows "redactToken line p =
    (take i line @ p) @ mask @ redactToken (dropWhile token_char (drop (i + length p) line)) p"
  using assms redact_loop_acc [of p "take i line @ p @ mask" "[]"]
  by (simp add: redactToken_def redact_loop.simps [of p "[]" line])

lemma redactToken_induct [consumes 1, case_names none some]:
  assumes "p \<noteq> []"
    and "\<And>line. \<lbrakk>Index line p = None; redactToken line p = line\<rbrakk> \<Longrightarrow> P line"
    and "\<And>a b c. \<lbrakk>Index (a @ p @ b @ c) p = Some (length a); token_ends c; P c;
        redactToken (a @ p @ b @ c) p = (a @ p) @ mask @ redactToken c p\<rbrakk> \<Longrightarrow> P (a @ p @ b @ c)"
  shows "P line"
proof (induction "length line" arbitrary: line rule: less_induct)
  case less
  show ?case
  proof (cases "Index line p")
    case None
    then show ?thesis using assms(2) redactToken_None by simp
  next
    case (Some i)
    let ?t = "drop (i + length p) line"
    have l: "line = take i line @ p @ ?t" by (rule Index_split [OF Some])
    have i: "i + length p \<le> length line" using arg_cong [OF l, of length] assms(1) by (cases p) auto
    have t: "?t = takeWhile token_char ?t @ dropWhile token_char ?t" by simp
    have lt: "line = take i line @ p @ takeWhile token_char ?t @ dropWhile token_char ?t" using l t by simp
    have "length (dropWhile token_char ?t) < length line"
      using i assms(1) length_dropWhile_le [of token_char ?t] by (cases p) auto
    then have "P (dropWhile token_char ?t)" by (rule less)
    then have "P (take i line @ p @ takeWhile token_char ?t @ dropWhile token_char ?t)"
      using Some lt i redactToken_Some [OF assms(1) Some] token_ends_dropWhile by (intro assms(3)) auto
    then show ?thesis using lt by simp
  qed
qed

lemma redactToken_hides:
  assumes "p \<noteq> []" "clear_of mask s" "\<not> Contains line s"
  shows "\<not> Contains (redactToken line p) s"
  using assms(1,3)
proof (induction line rule: redactToken_induct)
  case (some a b c)
  have "\<not> Contains (a @ p) s" "\<not> Contains c s"
    using some.prems Contains_prefix [of "a @ p" s "b @ c"] Contains_suffix [of c s "a @ p @ b"] by auto
  with some Contains_clear [OF assms(2)] show ?case by metis
qed simp

text \<open>Every occurrence of \<open>p\<close> is followed by the mask, and the mask by a blank or the end of the
  line: nothing is left of the token.\<close>

definition masked :: "string \<Rightarrow> string \<Rightarrow> bool" where
  "masked p line \<longleftrightarrow> (\<forall>a b. line = a @ p @ b \<longrightarrow> (\<exists>c. b = mask @ c \<and> token_ends c))"

lemma maskedD: "masked p (a @ p @ b) \<Longrightarrow> \<exists>c. b = mask @ c \<and> token_ends c"
  by (simp add: masked_def)

lemma masked_suffix: "masked p (a @ line) \<Longrightarrow> masked p line"
  unfolding masked_def by (metis append.assoc)

text \<open>A prefix that is looked for in tokens: not empty, without a blank at its start, and not to be
  confused with the mask.\<close>

definition key_prefix :: "string \<Rightarrow> bool" where
  "key_prefix p \<longleftrightarrow> p \<noteq> [] \<and> \<not> token_ends p \<and> clear_of mask p"

lemma redactToken_ends:
  assumes "key_prefix p" "token_ends c"
  shows "token_ends (redactToken c p)"
proof (cases "Index c p")
  case None
  then show ?thesis using assms(2) by (simp add: redactToken_None)
next
  case (Some i)
  have p: "p \<noteq> []" "\<not> token_ends p" using assms(1) by (simp_all add: key_prefix_def)
  note c = Index_split [OF Some]
  have "take i c \<noteq> []"
  proof
    assume "take i c = []"
    then have "c = p @ drop (i + length p) c" using c by (metis append_Nil)
    then show False using assms(2) p by (metis append_is_Nil_conv hd_append2 token_ends_def)
  qed
  then have "hd (take i c) = hd c" "c \<noteq> []" by auto
  then show ?thesis using assms(2) redactToken_Some [OF p(1) Some] \<open>take i c \<noteq> []\<close> by (simp add: token_ends_def)
qed

lemma redactToken_masks:
  assumes "key_prefix p"
  shows "masked p (redactToken line p)"
proof -
  have p: "p \<noteq> []" "clear_of mask p" using assms by (simp_all add: key_prefix_def)
  from p(1) show ?thesis
  proof (induction line rule: redactToken_induct)
    case (none line)
    then show ?case by (auto simp: masked_def Index_None Contains_iff)
  next
    case (some a b c)
    show ?case unfolding masked_def some.hyps(3)
    proof (intro allI impI)
      fix u v
      assume uv: "(a @ p) @ mask @ redactToken c p = u @ p @ v"
      from clear_of_split [OF p(2) uv] show "\<exists>w. v = mask @ w \<and> token_ends w"
      proof (elim disjE exE conjE)
        fix w
        assume w: "a @ p = u @ p @ w" "v = w @ mask @ redactToken c p"
        then have "a @ p @ b @ c = u @ p @ (w @ b @ c)" by (metis append.assoc)
        from Index_first [OF some.hyps(1) this] w(1) have "w = []"
          by (metis add_le_cancel_right append_same_eq append_self_conv length_append le_add1 append_eq_append_conv append.assoc add.assoc le_antisym)
        with w(2) redactToken_ends [OF assms some.hyps(2)] show ?thesis by simp
      next
        fix w
        assume "redactToken c p = w @ p @ v"
        with some.IH show ?thesis by (auto simp: masked_def)
      qed
    qed
  qed
qed

lemma masked_cut:
  assumes "key_prefix p" "a @ p = u @ w" "a @ p @ d = u @ mask @ x" "token_ends x" "token_ends z"
  shows "\<exists>y. w @ mask @ z = mask @ y \<and> token_ends y"
proof -
  have p: "p \<noteq> []" "clear_of mask p" using assms(1) by (simp_all add: key_prefix_def)
  have e: "w @ d = mask @ x" using assms(2,3) by (metis append.assoc append_same_eq same_append_eq)
  consider "w = []" | "length mask \<le> length w" | "w \<noteq> []" "length w < length mask" by linarith
  then show ?thesis
  proof cases
    case 1
    then show ?thesis using assms(5) by simp
  next
    case 2
    then have "take (length mask) w = mask" using arg_cong [OF e, of "take (length mask)"] by simp
    then obtain y where "w = mask @ y" by (metis append_take_drop_id)
    then have y: "w = mask @ y" "y @ d = x" using e by simp_all
    have "y \<noteq> []"
    proof
      assume "y = []"
      then have "u @ mask @ [] = a @ p @ []" using assms(2) y by simp
      from clear_of_split [OF p(2) this] show False using p(1) by (auto simp: mask_def)
    qed
    then show ?thesis using y assms(4) by (auto simp: token_ends_def)
  next
    case 3
    from clear_of_split [OF p(2) assms(3) [symmetric]] have False
    proof (elim disjE exE conjE)
      fix w'
      assume "u = a @ p @ w'"
      then show False using assms(2) 3(1) by (metis append.assoc append_is_Nil_conv self_append_conv)
    next
      fix w'
      assume "a = u @ mask @ w'"
      then have "length (a @ p) = length u + length mask + length w' + length p" by simp
      then show False using assms(2) 3(2) by simp
    qed
    then show ?thesis ..
  qed
qed

lemma redactToken_keeps_masked:
  assumes "key_prefix p" "clear_of mask q" "masked q line"
  shows "masked q (redactToken line p)"
proof -
  have "p \<noteq> []" using assms(1) by (simp add: key_prefix_def)
  then show ?thesis using assms(3)
  proof (induction line rule: redactToken_induct)
    case (some a b c)
    have c: "masked q (redactToken c p)"
      by (rule some.IH, rule masked_suffix [of q "a @ p @ b"]) (use some.prems in simp)
    note z = redactToken_ends [OF assms(1) some.hyps(2)]
    show ?case unfolding masked_def some.hyps(3)
    proof (intro allI impI)
      fix u v
      assume uv: "(a @ p) @ mask @ redactToken c p = u @ q @ v"
      from clear_of_split [OF assms(2) uv] show "\<exists>y. v = mask @ y \<and> token_ends y"
      proof (elim disjE exE conjE)
        fix w
        assume w: "a @ p = u @ q @ w" "v = w @ mask @ redactToken c p"
        have l: "a @ p @ b @ c = u @ q @ (w @ b @ c)" using arg_cong [OF w(1), of "\<lambda>x. x @ b @ c"] by simp
        have "masked q (u @ q @ (w @ b @ c))" using some.prems by (simp only: l)
        from maskedD [OF this] obtain x where x: "w @ b @ c = mask @ x" "token_ends x" by blast
        have "a @ p = (u @ q) @ w" "a @ p @ b @ c = (u @ q) @ mask @ x" using w(1) l x by simp_all
        from masked_cut [OF assms(1) this x(2) z] w(2) show ?thesis by simp
      next
        fix w
        assume "redactToken c p = w @ q @ v"
        with c show ?thesis unfolding masked_def by blast
      qed
    qed
  qed simp
qed

section \<open>The writer\<close>

lemma set_add_secrets: "set (add_secrets known ss) = set known \<union> {s \<in> set ss. s \<noteq> []}"
  by (induction known ss rule: add_secrets.induct) auto

lemma clear_prefixes: "clear_of mask ''ED25519-V3:''" "clear_of mask ''descriptor:x25519:''"
  by code_simp+

lemma key_prefixes: "key_prefix ''ED25519-V3:''" "key_prefix ''descriptor:x25519:''"
  by (simp_all add: key_prefix_def token_ends_def clear_prefixes)

text \<open>Generated credentials, fingerprints and certificates satisfy the side condition on secrets:
  a text of at least ten bytes without brackets does not overlap the mask.\<close>

lemma clear_of_long:
  assumes "10 \<le> length s" "CHR ''['' \<notin> set s" "CHR '']'' \<notin> set s"
  shows "clear_of mask s"
proof -
  have m: "length mask = 10" "mask ! 0 = CHR ''[''" "mask ! 9 = CHR '']''" by (simp_all add: mask_def)
  have "\<exists>k. k < length s \<and> j + k < 10 \<and> s ! k \<noteq> mask ! (j + k)" if "j < 10" for j
  proof -
    have "s ! (9 - j) \<in> set s" using assms(1) by (intro nth_mem) linarith
    then have "s ! (9 - j) \<noteq> mask ! (j + (9 - j))" using assms(3) m(3) that by auto
    then show ?thesis using assms(1) that by (intro exI [of _ "9 - j"]) auto
  qed
  moreover have "\<exists>k. i + k < length s \<and> k < 10 \<and> s ! (i + k) \<noteq> mask ! k" if "i < length s" for i
  proof -
    have "s ! i \<in> set s" using that by (rule nth_mem)
    then have "s ! i \<noteq> mask ! 0" using assms(2) m(2) by auto
    then show ?thesis using that by (intro exI [of _ 0]) auto
  qed
  ultimately show ?thesis
    unfolding clear_of_def list_all_iff list_ex_iff set_zip using m(1)
    by (fastforce simp: less_diff_conv add.commute)
qed

definition hidden :: "string set \<Rightarrow> string \<Rightarrow> bool" where
  "hidden S line \<longleftrightarrow> (\<forall>s \<in> S. s \<noteq> [] \<and> clear_of mask s \<longrightarrow> \<not> Contains line s)"

lemma log_line_hides: "hidden (set (lw_fixed w) \<union> set (lw_secrets w)) (log_line w)"
  unfolding hidden_def
proof (intro ballI impI)
  fix s
  assume s: "s \<in> set (lw_fixed w) \<union> set (lw_secrets w)" "s \<noteq> [] \<and> clear_of mask s"
  let ?l = "redact_all (lw_fixed w) (TrimSpace (lw_buffer w))"
  have "\<not> Contains (redact_all (lw_secrets w) ?l) s"
    using s redact_all_hides [of s "TrimSpace (lw_buffer w)" "lw_fixed w"] redact_all_hides [of s ?l "lw_secrets w"]
    by blast
  then show "\<not> Contains (log_line w) s"
    unfolding log_line_def using s(2) by (intro redactToken_hides) auto
qed

lemma log_line_masks: "masked ''ED25519-V3:'' (log_line w) \<and> masked ''descriptor:x25519:'' (log_line w)"
  unfolding log_line_def
  by (intro conjI redactToken_keeps_masked redactToken_masks clear_prefixes key_prefixes)

definition safe_line :: "string set \<Rightarrow> string \<Rightarrow> bool" where
  "safe_line S line \<longleftrightarrow> hidden S line \<and> masked ''ED25519-V3:'' line \<and> masked ''descriptor:x25519:'' line"

text \<open>While bytes are processed every bridge secret is among the remembered ones.\<close>

definition remembered :: "log_writer \<Rightarrow> bool" where
  "remembered w \<longleftrightarrow> {s \<in> set (lw_bridge w). s \<noteq> []} \<subseteq> set (lw_secrets w)"

lemma remembered_remember [simp]: "remembered (rememberSecrets w)"
  by (auto simp: remembered_def rememberSecrets_def set_add_secrets)

definition same_secrets :: "log_writer \<Rightarrow> log_writer \<Rightarrow> bool" where
  "same_secrets w w' \<longleftrightarrow> lw_fixed w' = lw_fixed w \<and> lw_bridge w' = lw_bridge w \<and> lw_enabled w' = lw_enabled w"

lemma log_line_safe:
  assumes "remembered w"
  shows "safe_line (set (lw_fixed w) \<union> set (lw_bridge w)) (log_line w)"
  using log_line_hides [of w] log_line_masks [of w] assms
  by (auto simp: safe_line_def hidden_def remembered_def)

lemma write_loop_safe:
  assumes "remembered w \<or> b = []" "length (lw_buffer w) \<le> 8192"
  shows "same_secrets w (write_loop b w) \<and> length (lw_buffer (write_loop b w)) \<le> 8192 \<and>
    (\<exists>new. lw_out (write_loop b w) = lw_out w @ new \<and>
      (\<forall>line \<in> set new. safe_line (set (lw_fixed w) \<union> set (lw_bridge w)) line) \<and>
      length new = length (filter (\<lambda>c. byte c = 10) b))"
  using assms
proof (induction b w rule: write_loop.induct)
  case (2 c rest w)
  have r: "remembered w" using 2(4) by simp
  consider "byte c = 10" | "byte c \<noteq> 10" "length (lw_buffer w) < 8192" | "byte c \<noteq> 10" "\<not> length (lw_buffer w) < 8192"
    by blast
  then show ?case
  proof cases
    case 1
    let ?w = "if rest \<noteq> [] then rememberSecrets (log_emit w) else log_emit w"
    have s: "lw_fixed ?w = lw_fixed w" "lw_bridge ?w = lw_bridge w" "lw_enabled ?w = lw_enabled w"
      "lw_out ?w = lw_out w @ [log_line w]" "lw_buffer ?w = []"
      by (simp_all add: rememberSecrets_def log_emit_def)
    have "remembered ?w \<or> rest = []" by simp
    with 2(1) [OF 1] s have "same_secrets ?w (write_loop rest ?w) \<and> length (lw_buffer (write_loop rest ?w)) \<le> 8192 \<and>
      (\<exists>new. lw_out (write_loop rest ?w) = lw_out ?w @ new \<and>
        (\<forall>line \<in> set new. safe_line (set (lw_fixed ?w) \<union> set (lw_bridge ?w)) line) \<and>
        length new = length (filter (\<lambda>c. byte c = 10) rest))" by simp
    then obtain new where n: "same_secrets ?w (write_loop rest ?w)" "length (lw_buffer (write_loop rest ?w)) \<le> 8192"
      "lw_out (write_loop rest ?w) = lw_out w @ log_line w # new"
      "\<forall>line \<in> set new. safe_line (set (lw_fixed w) \<union> set (lw_bridge w)) line"
      "length new = length (filter (\<lambda>c. byte c = 10) rest)" unfolding s by auto
    have "write_loop (c # rest) w = write_loop rest ?w" using 1 by simp
    then show ?thesis using n 1 log_line_safe [OF r] s
      by (auto simp: same_secrets_def)
  next
    case 2
    with "2.IH"(2) "2.prems" r show ?thesis by (simp add: remembered_def same_secrets_def)
  next
    case 3
    with "2.IH"(3) "2.prems" r show ?thesis by (simp add: remembered_def same_secrets_def)
  qed
qed (simp add: same_secrets_def)

text \<open>Histories of a writer: bytes written by Tor and secrets added by bridge changes.\<close>

datatype log_op = LWrite string | LSecrets "string list"

fun log_step :: "log_op \<Rightarrow> log_writer \<Rightarrow> log_writer" where
  "log_step (LWrite b) w = snd (log_Write b w)"
| "log_step (LSecrets ss) w = addBridgeSecrets ss w"

definition added :: "log_op list \<Rightarrow> string set" where
  "added ops = (\<Union>op \<in> set ops. case op of LWrite _ \<Rightarrow> {} | LSecrets ss \<Rightarrow> set ss)"

definition written_ok :: "bool \<Rightarrow> string list \<Rightarrow> string set \<Rightarrow> log_writer \<Rightarrow> bool" where
  "written_ok enabled fixed S w \<longleftrightarrow> lw_enabled w = enabled \<and> lw_fixed w = fixed \<and>
     set (lw_bridge w) - {[]} = S - {[]} \<and> length (lw_buffer w) \<le> 8192"

lemma log_Write_spec:
  assumes "written_ok enabled fixed S w" "log_Write b w = (n, w')"
  shows "written_ok enabled fixed S w' \<and> n = length b \<and> (\<exists>new. lw_out w' = lw_out w @ new \<and>
    (\<forall>line \<in> set new. safe_line (set fixed \<union> S) line) \<and>
    length new = (if enabled then length (filter (\<lambda>c. byte c = 10) b) else 0))"
proof (cases "\<not> lw_enabled w \<or> b = []")
  case True
  with assms show ?thesis by (auto simp: log_Write_def written_ok_def)
next
  case False
  let ?w = "rememberSecrets w"
  have w': "w' = write_loop b ?w" "n = length b" using assms(2) False by (auto simp: log_Write_def)
  have r: "lw_fixed ?w = fixed" "set (lw_bridge ?w) - {[]} = S - {[]}" "lw_enabled ?w = enabled" "lw_out ?w = lw_out w"
    "length (lw_buffer ?w) \<le> 8192" using assms(1) by (simp_all add: rememberSecrets_def written_ok_def)
  have safe: "safe_line (set fixed \<union> set (lw_bridge ?w)) line \<Longrightarrow> safe_line (set fixed \<union> S) line" for line
    using r(2) unfolding safe_line_def hidden_def by blast
  have e: "enabled" using assms(1) False by (simp add: written_ok_def)
  have "remembered ?w \<or> b = []" by simp
  note loop = write_loop_safe [OF this r(5)]
  obtain new where "lw_out w' = lw_out w @ new"
    "\<forall>line \<in> set new. safe_line (set fixed \<union> set (lw_bridge ?w)) line"
    "length new = length (filter (\<lambda>c. byte c = 10) b)"
    using loop unfolding w' r(1,4) by blast
  moreover have "written_ok enabled fixed S w'"
    using loop r unfolding w' same_secrets_def written_ok_def by simp
  ultimately show ?thesis using safe e w'(2) by auto
qed

lemma log_step_ok:
  assumes "written_ok enabled fixed S w"
  shows "written_ok enabled fixed (S \<union> added [op]) (log_step op w)"
proof (cases op)
  case (LWrite b)
  with log_Write_spec [OF assms prod.collapse [symmetric]] show ?thesis by (simp add: added_def)
next
  case (LSecrets ss)
  have "set (add_secrets (lw_bridge w) ss) - {[]} = (S \<union> set ss) - {[]}"
    using assms unfolding set_add_secrets written_ok_def by blast
  with LSecrets assms show ?thesis
    by (simp add: written_ok_def added_def addBridgeSecrets_def)
qed

lemma log_run_ok:
  "written_ok enabled fixed S w \<Longrightarrow> written_ok enabled fixed (S \<union> added ops) (fold log_step ops w)"
proof (induction ops arbitrary: S w)
  case (Cons op ops)
  have "S \<union> added [op] \<union> added ops = S \<union> added (op # ops)" by (auto simp: added_def)
  with Cons.IH [OF log_step_ok [OF Cons.prems, of op]] show ?case by simp
qed (simp add: added_def)

text \<open>
  C3. The log filter hides secrets. After any history of writes and bridge changes, every
  line that a write hands to the logger contains no proxy credential and no text of a
  bridge that was configured at the start or added before, as long as that text does not itself overlap the mask
  (no generated credential, fingerprint or certificate does, because a text of ten bytes or more
  without brackets does not); and after every service key or client key prefix in it there is the
  mask and then a blank or the end of the line, so nothing of the key is left. The write
  reports all bytes consumed, hands out one line per line break when enabled and none
  otherwise, and the collected line stays within 8192 bytes.
\<close>

theorem log_hides_secrets:
  assumes "log_Write b (fold log_step ops (new_writer enabled fixed bridge)) = (n, w')"
  shows "n = length b \<and> length (lw_buffer w') \<le> 8192 \<and>
    (\<exists>new. lw_out w' = lw_out (fold log_step ops (new_writer enabled fixed bridge)) @ new \<and>
      length new = (if enabled then length (filter (\<lambda>c. byte c = 10) b) else 0) \<and>
      (\<forall>line \<in> set new. masked ''ED25519-V3:'' line \<and> masked ''descriptor:x25519:'' line \<and>
        (\<forall>s \<in> set fixed \<union> set bridge \<union> added ops. s \<noteq> [] \<and> clear_of mask s \<longrightarrow> \<not> Contains line s)))"
proof -
  have "written_ok enabled fixed (set bridge) (new_writer enabled fixed bridge)" by (simp add: written_ok_def new_writer_def)
  from log_Write_spec [OF log_run_ok [OF this] assms] show ?thesis
    by (auto simp: safe_line_def hidden_def written_ok_def)
qed

theorem log_hides_secrets_witness:
  "\<exists>w'. log_Write (''ED25519-V3:aGVsbG8 10.0.0.1:443 up'' @ [CHR 0x0A])
      (fold log_step [LSecrets [''10.0.0.1:443'']] (new_writer True [''secret''] [])) = (35, w') \<and>
     lw_out w' = [''ED25519-V3:[redacted] [redacted] up''] \<and> masked ''ED25519-V3:'' ''ED25519-V3:[redacted] [redacted] up'' \<and>
     \<not> Contains ''ED25519-V3:[redacted] [redacted] up'' ''10.0.0.1:443''"
proof -
  let ?b = "''ED25519-V3:aGVsbG8 10.0.0.1:443 up'' @ [CHR 0x0A]"
  let ?w = "fold log_step [LSecrets [''10.0.0.1:443'']] (new_writer True [''secret''] [])"
  obtain n w' where w: "log_Write ?b ?w = (n, w')" by fastforce
  have out: "lw_out (snd (log_Write ?b ?w)) = [''ED25519-V3:[redacted] [redacted] up'']" by code_simp
  have none: "lw_out ?w = []" by code_simp
  have c: "clear_of mask ''10.0.0.1:443''" by (rule clear_of_long) simp_all
  have "''10.0.0.1:443'' \<in> set [''secret''] \<union> set [] \<union> added [LSecrets [''10.0.0.1:443'']]" by (simp add: added_def)
  with log_hides_secrets [OF w] out none c w show ?thesis by auto
qed

end
