(* ===== verification/Tor_Driver.thy ===== *)
theory Tor_Driver
  imports Tor_Proxy Tor_Log Tor_Control Tor_Identity
begin

text \<open>
  The driver (driver.go): its state, which is composed of the gate, the proxy, the scope of
  application resources, the event broker and the log filter; publishing events; commands;
  the outbound attachment; monitoring; and closing. Changing bridges is in \<open>Tor_Bridges\<close>,
  starting in \<open>Tor_Start\<close>, control events in \<open>Tor_Driver_Events\<close>. The Tor daemon behind the control connection is external: \<open>ctl\<close> answers a command, with a state of its
  own that stands for the daemon and the connection.
\<close>

section \<open>State\<close>

record driver =
  d_cfg :: config
  d_approved :: "transport_config list"
  d_active :: "transport_config list"
  d_paths :: "(string \<times> string) list"
  d_socks :: string
  d_closed :: bool
  d_gate :: gate
  d_resources :: scope
  d_proxy :: "pserver option"
  d_control :: bool
  d_proc :: bool
  d_files :: bool
  d_work :: string
  d_box :: bool
  d_logs :: log_writer
  d_events :: "driver_event broker"
  d_recent :: "driver_event list"
  d_bootstrap :: "driver_event option"
  d_descriptors :: "(string \<times> service_event) list"
  d_keyNames :: "string list"
  d_networks :: "nat list"
  d_services :: "(nat \<times> string) list"
  d_err :: "goerr option"
  d_closeErr :: "goerr option"
  d_done :: bool

text \<open>What the driver does to the outside, in order.\<close>

datatype effect =
    Command string | OutboundClose | ResourcesClose | ProxyClose | ControlClose | Kill | RemoveAll string | SandboxClose
  | WriteFile string string | StartProcess | DialControl string | Authentication | ListenerClose

type_synonym 't ctl = "string \<Rightarrow> 't \<Rightarrow> reply res \<times> 't"

record 't sys =
  sy_d :: driver
  sy_tor :: 't
  sy_effects :: "effect list"

definition on_driver :: "(driver \<Rightarrow> driver) \<Rightarrow> 't sys \<Rightarrow> 't sys" where
  "on_driver f s = s\<lparr>sy_d := f (sy_d s)\<rparr>"

definition effect :: "effect \<Rightarrow> 't sys \<Rightarrow> 't sys" where
  "effect e s = s\<lparr>sy_effects := sy_effects s @ [e]\<rparr>"

section \<open>Events\<close>

text \<open>The broker's channels are closed only by the broker, so its publication does not
  panic (see the theory of events); a panic would leave the broker as it is here.\<close>

definition recentLimit :: nat where "recentLimit = 32"

definition push_recent :: "driver_event \<Rightarrow> driver_event list \<Rightarrow> driver_event list" where
  "push_recent ev evs = (if length evs = recentLimit then tl evs @ [ev] else evs @ [ev])"

text \<open>
  \<^verbatim>\<open>publishDriverEvent\<close> has two critical sections: the event joins the recent ones under the mutex
  of the driver, and is handed to the broker after that mutex was released.
\<close>

definition remember_event :: "driver_event \<Rightarrow> driver \<Rightarrow> driver" where
  "remember_event ev d = d\<lparr>d_recent := push_recent ev (d_recent d)\<rparr>"

definition broadcast_event :: "driver_event \<Rightarrow> driver \<Rightarrow> driver" where
  "broadcast_event ev d = d\<lparr>d_events := (case publish ev (d_events d) of None \<Rightarrow> d_events d | Some b \<Rightarrow> b)\<rparr>"

definition publishDriverEvent :: "driver_event \<Rightarrow> driver \<Rightarrow> driver" where
  "publishDriverEvent ev d = broadcast_event ev (remember_event ev d)"

definition SubscribeEvents :: "int \<Rightarrow> driver \<Rightarrow> u64 res \<times> driver" where
  "SubscribeEvents buffer d =
    (if d_closed d then (Inl (Sentinel ErrClosed), d)
     else case subscribeInitial buffer (d_recent d) (d_events d) of (r, b) \<Rightarrow> (r, d\<lparr>d_events := b\<rparr>))"

text \<open>An operation of the gate; the events it hands to \<^verbatim>\<open>notify\<close> are published.\<close>

definition with_gate :: "(gate \<Rightarrow> 'r \<times> gate) \<Rightarrow> driver \<Rightarrow> 'r \<times> driver" where
  "with_gate f d =
    (case f ((d_gate d)\<lparr>gt_events := []\<rparr>) of
       (r, g) \<Rightarrow> (r, fold publishDriverEvent (gt_events g) (d\<lparr>d_gate := g\<lparr>gt_events := []\<rparr>\<rparr>)))"

section \<open>Commands\<close>

definition control_Do :: "'t ctl \<Rightarrow> string \<Rightarrow> 't sys \<Rightarrow> reply res \<times> 't sys" where
  "control_Do ctl cmd s =
    (case ctl cmd (sy_tor s) of (r, t) \<Rightarrow> (r, effect (Command cmd) (s\<lparr>sy_tor := t\<rparr>)))"

definition command :: "'t ctl \<Rightarrow> string \<Rightarrow> 't sys \<Rightarrow> reply res \<times> 't sys" where
  "command ctl cmd s =
    (if d_closed (sy_d s) then (Inl (Sentinel ErrClosed), s) else control_Do ctl cmd s)"

text \<open>The SOCKS endpoint in a reply to \<^verbatim>\<open>GETINFO net/listeners/socks\<close>.\<close>

definition socks_reply :: "reply \<Rightarrow> string res" where
  "socks_reply r =
    (case Value r ''net/listeners/socks'' of
       None \<Rightarrow> Inl (Msg ''tor-driver: Tor did not report a SOCKS listener'')
     | Some v \<Rightarrow>
         (case QuotedWords v of
            Inr [endpoint] \<Rightarrow>
              (case numericEndpoint endpoint True of Inl e \<Rightarrow> Inl e | Inr _ \<Rightarrow> Inr endpoint)
          | _ \<Rightarrow> Inl (Msg ''tor-driver: expected exactly one SOCKS endpoint'')))"

definition querySocksEndpoint :: "'t ctl \<Rightarrow> 't sys \<Rightarrow> string res \<times> 't sys" where
  "querySocksEndpoint ctl s =
    (case control_Do ctl ''GETINFO net/listeners/socks'' s of
       (Inl e, s1) \<Rightarrow> (Inl e, s1)
     | (Inr r, s1) \<Rightarrow> (socks_reply r, s1))"

definition applySocksReply :: "reply \<Rightarrow> driver \<Rightarrow> goerr option \<times> driver" where
  "applySocksReply r d =
    (case socks_reply r of Inl e \<Rightarrow> (Some e, d) | Inr endpoint \<Rightarrow> (None, d\<lparr>d_socks := endpoint\<rparr>))"

text \<open>
  \<^verbatim>\<open>WaitReady\<close>: \<open>sleeps\<close> are the results of the clock's sleeps to come; while the list lasts
  the loop continues, and the result \<^const>\<open>None\<close> means that it is still waiting.
\<close>

fun WaitReady :: "'t ctl \<Rightarrow> goerr option list \<Rightarrow> 't sys \<Rightarrow> goerr option option \<times> 't sys" where
  "WaitReady ctl sleeps s =
    (case command ctl ''GETINFO status/circuit-established'' s of
       (Inl e, s1) \<Rightarrow> (Some (Some e), s1)
     | (Inr r, s1) \<Rightarrow>
         if Value r ''status/circuit-established'' = Some ''1'' \<and> Available (gate_state (d_gate (sy_d s1)))
         then (Some None, s1)
         else (case sleeps of
             [] \<Rightarrow> (None, s1)
           | Some e # _ \<Rightarrow> (Some (Some e), s1)
           | None # sleeps' \<Rightarrow> WaitReady ctl sleeps' s1))"

declare WaitReady.simps [simp del]

section \<open>The outbound attachment\<close>

text \<open>\<open>own\<close> tells that the Network is one that this driver created.\<close>

definition SetOutbound :: "close_results \<Rightarrow> bool \<Rightarrow> attach_env option \<Rightarrow> driver \<Rightarrow> goerr option \<times> driver" where
  "SetOutbound cr own n d =
    (if d_closed d then (Some (Sentinel ErrClosed), d)
     else if own then
       (Some (Msg ''tor-driver: cannot use own Tor network as outbound''), snd (with_gate (replace cr None) d))
     else with_gate (replace cr n) d)"

section \<open>Closing\<close>

definition recordCloseError :: "shutdown_stage \<Rightarrow> goerr option \<Rightarrow> driver \<Rightarrow> driver" where
  "recordCloseError stage err d =
    (case err of
       None \<Rightarrow> d
     | Some e \<Rightarrow>
         publishDriverEvent (ShutdownEvent stage) (d\<lparr>d_closeErr := errors_join [d_closeErr d, Some e]\<rparr>))"

text \<open>
  What the environment answers while the driver closes: the results of closing the
  connections of each owner, of the control connection, whether the process ends in time
  before and after it is killed, its error, and the results of the other calls.
\<close>

record close_env =
  ce_gate :: close_results
  ce_resources :: close_results
  ce_proxy :: close_results
  ce_control :: "goerr option"
  ce_graceful :: bool
  ce_kill :: "goerr option"
  ce_forced :: bool
  ce_process :: "goerr option"
  ce_listener :: "goerr option"
  ce_remove :: "goerr option"
  ce_box :: "goerr option"

text \<open>The stages of \<^verbatim>\<open>Close\<close>. Closing the gate, the application resources and the proxy is an effect
  like the calls to the outside, so that the order of all stages is recorded.\<close>

definition gate_stage :: "close_env \<Rightarrow> driver \<Rightarrow> driver" where
  "gate_stage env d =
    (case with_gate (gate_Close (ce_gate env)) d of (err, d1) \<Rightarrow> recordCloseError ShutdownOutbound err d1)"

definition close_outbound :: "close_env \<Rightarrow> 't sys \<Rightarrow> 't sys" where
  "close_outbound env s = on_driver (gate_stage env) (effect OutboundClose s)"

definition resources_stage :: "close_env \<Rightarrow> driver \<Rightarrow> driver" where
  "resources_stage env d =
    (case scope_close (ce_resources env) (items_list (d_resources d)) (d_resources d) of
       (err, r) \<Rightarrow> recordCloseError ShutdownResources err (d\<lparr>d_resources := r\<rparr>))"

definition close_resources :: "close_env \<Rightarrow> 't sys \<Rightarrow> 't sys" where
  "close_resources env s = on_driver (resources_stage env) (effect ResourcesClose s)"

definition err_of :: "'a res \<Rightarrow> goerr option" where
  "err_of r = (case r of Inl e \<Rightarrow> Some e | Inr _ \<Rightarrow> None)"

definition close_control :: "'t ctl \<Rightarrow> close_env \<Rightarrow> 't sys \<Rightarrow> 't sys" where
  "close_control ctl env s =
    (if \<not> d_control (sy_d s) then s
     else case control_Do ctl ''SIGNAL SHUTDOWN'' s of
         (r, s1) \<Rightarrow>
           on_driver (recordCloseError ShutdownControl (ce_control env))
             (effect ControlClose (on_driver (recordCloseError ShutdownControl (err_of r)) s1)))"

text \<open>Waiting for the process; the result tells whether it was reaped.\<close>

definition close_process :: "close_env \<Rightarrow> 't sys \<Rightarrow> bool \<times> 't sys" where
  "close_process env s =
    (if \<not> d_proc (sy_d s) then (True, s)
     else if ce_graceful env then
       (True, on_driver (recordCloseError ShutdownGracefulWait (ce_process env)) s)
     else
       let s1 = on_driver (recordCloseError ShutdownGracefulWait
                  (Some (Msg ''tor-driver: graceful shutdown timed out''))) s;
           s2 = on_driver (recordCloseError ShutdownKill (ce_kill env)) (effect Kill s1)
       in if ce_forced env then (True, s2)
          else (False, on_driver (recordCloseError ShutdownForcedWait
                  (Some (Msg ''tor-driver: process did not exit after Kill''))) s2))"

definition proxy_stage :: "close_env \<Rightarrow> driver \<Rightarrow> driver" where
  "proxy_stage env d =
    (case d_proxy d of
       None \<Rightarrow> d
     | Some p \<Rightarrow>
         (case proxy_Close (ce_proxy env) (ce_listener env) p of
            (err, p') \<Rightarrow> recordCloseError ShutdownProxy err (d\<lparr>d_proxy := Some p'\<rparr>)))"

definition close_proxy :: "close_env \<Rightarrow> 't sys \<Rightarrow> 't sys" where
  "close_proxy env s =
    (if d_proxy (sy_d s) = None then s else on_driver (proxy_stage env) (effect ProxyClose s))"

definition close_files :: "close_env \<Rightarrow> bool \<Rightarrow> 't sys \<Rightarrow> 't sys" where
  "close_files env reaped s =
    (if reaped \<and> d_files (sy_d s) \<and> d_work (sy_d s) \<noteq> []
     then on_driver (recordCloseError ShutdownTemporaryFiles (ce_remove env)) (effect (RemoveAll (d_work (sy_d s))) s)
     else s)"

definition close_box :: "close_env \<Rightarrow> 't sys \<Rightarrow> 't sys" where
  "close_box env s =
    (if d_box (sy_d s)
     then on_driver (recordCloseError ShutdownSandbox (ce_box env)) (effect SandboxClose s) else s)"

definition close_final :: "driver \<Rightarrow> driver" where
  "close_final d =
    d\<lparr>d_networks := [], d_services := [], d_keyNames := [],
      d_events := (case broker_close (d_events d) of None \<Rightarrow> d_events d | Some b \<Rightarrow> b), d_done := True\<rparr>"

text \<open>The function under \<^verbatim>\<open>closeOnce\<close>; \<open>d_done\<close> tells that it ran.\<close>

definition close_run :: "'t ctl \<Rightarrow> close_env \<Rightarrow> 't sys \<Rightarrow> 't sys" where
  "close_run ctl env s =
    (let s1 = close_resources env (close_outbound env (on_driver (\<lambda>d. d\<lparr>d_closed := True\<rparr>) s));
         s2 = close_control ctl env s1
     in case close_process env s2 of
         (reaped, s3) \<Rightarrow>
           on_driver close_final (close_box env (close_files env reaped (close_proxy env s3))))"

definition driver_Close :: "'t ctl \<Rightarrow> close_env \<Rightarrow> 't sys \<Rightarrow> goerr option \<times> 't sys" where
  "driver_Close ctl env s =
    (let s' = (if d_done (sy_d s) then s else close_run ctl env s) in (d_closeErr (sy_d s'), s'))"

text \<open>\<^verbatim>\<open>monitor\<close>: what ended first, with the cause it records.\<close>

datatype stop_cause = ProcessDone "goerr option" | ControlLost | ProxyStopped | DriverDone

definition monitor :: "'t ctl \<Rightarrow> close_env \<Rightarrow> stop_cause \<Rightarrow> 't sys \<Rightarrow> 't sys" where
  "monitor ctl env why s =
    (let record_cause = (\<lambda>cause terminal.
           snd (driver_Close ctl env (on_driver (\<lambda>d. publishDriverEvent (TerminalEvent terminal)
             (if d_closed d then d else d\<lparr>d_err := cause\<rparr>)) s)))
     in case why of
         ProcessDone e \<Rightarrow>
           record_cause (errors_join [Some (Msg ''tor-driver: Tor exited unexpectedly''), e]) TerminalProcessExit
       | ControlLost \<Rightarrow> record_cause (Some (Msg ''tor-driver: control connection lost'')) TerminalControlConnection
       | ProxyStopped \<Rightarrow>
           record_cause (Some (Msg ''tor-driver: upstream proxy listener stopped'')) TerminalProxyListener
       | DriverDone \<Rightarrow> s)"

end
