(* ===== verification/Tor_Driver_Proofs.thy ===== *)
theory Tor_Driver_Proofs
  imports Tor_Driver Tor_Config_Proofs Tor_Gate_Proofs Tor_Proxy_Proofs Tor_Events_Proofs
begin

text \<open>
  The driver's history of events, and closing: every owner is closed in order, everything
  that can be reported is reported, and files are removed only when the process is gone.
\<close>

section \<open>The recent events\<close>

interpretation recent: recent_feed push_recent "\<lambda>evs. evs" "\<lambda>_. recentLimit" "\<lambda>evs. length evs \<le> recentLimit"
proof
  fix e and evs :: "driver_event list"
  assume len: "length evs \<le> recentLimit"
  show "push_recent e evs = last_n recentLimit (evs @ [e])"
  proof (cases "length evs = recentLimit")
    case True
    then show ?thesis
      using last_n_snoc_full [of evs recentLimit e] by (simp add: push_recent_def recentLimit_def)
  qed (use len in \<open>simp add: push_recent_def\<close>)
  then show "length (push_recent e evs) \<le> recentLimit" by simp
  show "0 < recentLimit \<and> length evs \<le> recentLimit" using len by (simp add: recentLimit_def)
qed simp

section \<open>What publishing leaves alone\<close>

lemma publishDriverEvent_eq:
  "publishDriverEvent ev d =
    d\<lparr>d_recent := push_recent ev (d_recent d),
      d_events := (case publish ev (d_events d) of None \<Rightarrow> d_events d | Some b \<Rightarrow> b)\<rparr>"
  by (simp add: publishDriverEvent_def broadcast_event_def remember_event_def split: option.split)

text \<open>The driver without its events and its recorded error.\<close>

definition core :: "driver \<Rightarrow> driver" where
  "core d = d\<lparr>d_recent := [], d_events := newEventBroker, d_closeErr := None\<rparr>"

lemma core_publish [simp]: "core (publishDriverEvent ev d) = core d"
  by (simp add: core_def publishDriverEvent_eq)

lemma core_publishes [simp]: "core (fold publishDriverEvent evs d) = core d"
  by (induction evs arbitrary: d) simp_all

lemma core_record [simp]: "core (recordCloseError stage err d) = core d"
proof (cases err)
  case (Some e)
  have "core (d\<lparr>d_closeErr := x\<rparr>) = core d" for x by (simp add: core_def)
  then show ?thesis by (simp add: recordCloseError_def Some)
qed (simp add: recordCloseError_def)

lemma core_sel:
  assumes "core d = core d'"
  shows "d_cfg d = d_cfg d'" "d_approved d = d_approved d'" "d_active d = d_active d'" "d_paths d = d_paths d'"
    "d_socks d = d_socks d'" "d_closed d = d_closed d'" "d_gate d = d_gate d'" "d_resources d = d_resources d'"
    "d_proxy d = d_proxy d'" "d_control d = d_control d'" "d_proc d = d_proc d'" "d_files d = d_files d'"
    "d_work d = d_work d'" "d_box d = d_box d'" "d_logs d = d_logs d'" "d_descriptors d = d_descriptors d'"
    "d_done d = d_done d'" "d_err d = d_err d'"
  using assms by (cases d; cases d'; simp add: core_def)+

lemmas core_publish_sel [simp] = core_sel [OF core_publish] core_sel [OF core_publishes] core_sel [OF core_record]

section \<open>The invariant\<close>

definition driver_inv :: "driver \<Rightarrow> bool" where
  "driver_inv d \<longleftrightarrow> gate_inv (d_gate d) \<and> scope_ok (d_resources d) \<and>
    (\<forall>p. d_proxy d = Some p \<longrightarrow> proxy_inv p) \<and> broker_inv (d_events d) \<and> length (d_recent d) \<le> recentLimit"

lemma publish_not_None: "broker_inv b \<Longrightarrow> publish ev b \<noteq> None"
  by (cases "br_closed b") (simp_all add: publish_Some, simp add: publish_def)

lemma publish_event:
  assumes "broker_inv (d_events d)"
  shows "publish ev (d_events d) = Some (d_events (publishDriverEvent ev d))"
    "broker_inv (d_events (publishDriverEvent ev d))"
    "d_recent (publishDriverEvent ev d) = push_recent ev (d_recent d)"
    "br_closed (d_events (publishDriverEvent ev d)) = br_closed (d_events d)"
proof -
  obtain b where b: "publish ev (d_events d) = Some b" using publish_not_None [OF assms] by blast
  then show "publish ev (d_events d) = Some (d_events (publishDriverEvent ev d))"
    "d_recent (publishDriverEvent ev d) = push_recent ev (d_recent d)" by (simp_all add: publishDriverEvent_eq)
  show "broker_inv (d_events (publishDriverEvent ev d))"
    using b broker_inv_publish [OF assms b] by (simp add: publishDriverEvent_eq)
  show "br_closed (d_events (publishDriverEvent ev d)) = br_closed (d_events d)"
    using b publish_Some [OF assms, of ev] by (cases "br_closed (d_events d)") (auto simp: publishDriverEvent_eq publish_def)
qed

lemma driver_inv_publish [inv_intros]: "driver_inv d \<Longrightarrow> driver_inv (publishDriverEvent ev d)"
  using publish_event [of d ev] recent.push_ok [of "d_recent d" ev] by (simp add: driver_inv_def)

lemma driver_inv_publishes [inv_intros]: "driver_inv d \<Longrightarrow> driver_inv (fold publishDriverEvent evs d)"
  by (induction evs arbitrary: d) (simp_all add: driver_inv_publish)



lemma publishes_closed:
  "broker_inv (d_events d) \<Longrightarrow> br_closed (d_events (fold publishDriverEvent evs d)) = br_closed (d_events d)"
proof (induction evs arbitrary: d)
  case (Cons ev evs)
  then show ?case using publish_event(2,4) [OF Cons.prems, of ev] by simp
qed simp

lemma driver_inv_with_gate:
  assumes "driver_inv d" "with_gate f d = (r, d')"
    and "\<And>g g' r. gate_inv g \<Longrightarrow> f g = (r, g') \<Longrightarrow> gate_inv g'"
  shows "driver_inv d'"
proof -
  obtain r g where f: "f ((d_gate d)\<lparr>gt_events := []\<rparr>) = (r, g)" by fastforce
  have ev: "gate_inv (h\<lparr>gt_events := evs\<rparr>) = gate_inv h" for h evs by (simp add: gate_inv_def gate_ok_def)
  have "gate_inv (g\<lparr>gt_events := []\<rparr>)" using assms(1) assms(3) [OF _ f] by (simp add: driver_inv_def ev)
  then have "driver_inv (d\<lparr>d_gate := g\<lparr>gt_events := []\<rparr>\<rparr>)" using assms(1) by (simp add: driver_inv_def)
  then show ?thesis using assms(2) f driver_inv_publishes by (auto simp: with_gate_def)
qed

lemma subscribe_spec:
  assumes "subscribeInitial (int n) initial b = (r, b1)" "1 \<le> n" "n \<le> 1024" "\<not> br_closed b"
  shows "r = Inr (br_next b)" "br_chans b1 (br_next b) = Some \<lparr>ch_cap = n, ch_buf = last_n n initial, ch_closed = False\<rparr>"
    "br_next b \<in> set (br_subs b1)" "\<not> br_closed b1"
  using assms by (auto simp: subscribeInitial_def Let_def split: if_splits)


text \<open>
  A subscription between the two critical sections of a publication: the event is among the
  recent ones and is then also broadcast, so the new subscriber receives it twice.
\<close>

lemma subscription_in_between:
  assumes "driver_inv d" "\<not> br_closed (d_events d)" "\<not> d_closed d" "2 \<le> n" "n \<le> 1024"
    and "SubscribeEvents (int n) (remember_event ev d) = (r, d1)"
  shows "\<exists>i ch. r = Inr i \<and> br_chans (d_events (broadcast_event ev d1)) i = Some ch \<and>
    ch_buf ch = last_n n (push_recent ev (d_recent d) @ [ev])"
proof -
  let ?i = "br_next (d_events d)"
  let ?ch = "\<lparr>ch_cap = n, ch_buf = last_n n (push_recent ev (d_recent d)), ch_closed = False\<rparr>"
  have n: "1 \<le> n" using assms(4) by simp
  have b: "broker_inv (d_events d)" using assms(1) by (simp add: driver_inv_def)
  have s: "subscribeInitial (int n) (push_recent ev (d_recent d)) (d_events d) = (r, d_events d1)"
    using assms(3,6) by (auto simp: SubscribeEvents_def remember_event_def split: prod.splits)
  note b1 = subscribe_spec [OF s n assms(5,2)]
  have inv1: "broker_inv (d_events d1)" by (rule broker_inv_subscribe [OF b s])
  then have ok: "chan_ok ?ch" using b1(2-4) by (auto simp: broker_inv_def)
  obtain bk where bk: "publish ev (d_events d1) = Some bk" using publish_not_None [OF inv1] by blast
  then have "publish_all [ev] (d_events d1) = Some bk" by simp
  from publish_all_chan [OF inv1 b1(4,3,2), of "[ev]"] this
  have "br_chans bk ?i = Some (fold (\<lambda>e ch. the (chan_publish e ch)) [ev] ?ch)" by auto
  moreover have "ch_buf (fold (\<lambda>e ch. the (chan_publish e ch)) [ev] ?ch) = last_n n (push_recent ev (d_recent d) @ [ev])"
    using sub.pushes_view [OF ok, of "[ev]"] by (simp add: last_n_last_n_append)
  ultimately show ?thesis using b1(1) bk by (simp add: broadcast_event_def)
qed

definition sample_driver :: driver where
  "sample_driver = \<lparr>d_cfg = sample_validated, d_approved = [], d_active = [], d_paths = [],
     d_socks = ''127.0.0.1:9050'', d_closed = False, d_gate = sample_gate, d_resources = newScope,
     d_proxy = Some (startProxy 4), d_control = True, d_proc = True, d_files = True, d_work = ''tor-driver-1'',
     d_box = True, d_logs = new_writer True [] [], d_events = newEventBroker, d_recent = [], d_bootstrap = None,
     d_descriptors = [], d_keyNames = [], d_networks = [], d_services = [], d_err = None, d_closeErr = None,
     d_done = False\<rparr>"

lemma sample_driver_inv: "driver_inv sample_driver"
  by (simp add: driver_inv_def sample_driver_def sample_gate_inv scope_ok_new proxy_inv_start broker_inv_new)


section \<open>Errors\<close>

definition opt_is :: "goerr option \<Rightarrow> sentinel \<Rightarrow> bool" where
  "opt_is err t \<longleftrightarrow> (\<exists>e. err = Some e \<and> errors_is e t)"

lemma opt_is_None [simp]: "\<not> opt_is None t"
  by (simp add: opt_is_def)

lemma opt_is_join: "opt_is (errors_join xs) t \<longleftrightarrow> (\<exists>x \<in> set xs. opt_is x t)"
proof (cases "errors_join xs")
  case None
  then have "\<forall>x \<in> set xs. x = None" by (simp add: errors_join_None_iff)
  then show ?thesis unfolding None by fastforce
next
  case (Some e)
  from errors_is_join [OF this] show ?thesis by (auto simp: Some opt_is_def)
qed

text \<open>\<open>reports before errs after\<close>: the recorded error holds what it held before and every one of
  \<open>errs\<close>.\<close>

definition reports :: "goerr option \<Rightarrow> goerr option list \<Rightarrow> goerr option \<Rightarrow> bool" where
  "reports e0 errs e1 \<longleftrightarrow> (e1 = None \<longleftrightarrow> e0 = None \<and> (\<forall>x \<in> set errs. x = None)) \<and>
    (\<forall>t. opt_is e1 t \<longleftrightarrow> opt_is e0 t \<or> (\<exists>x \<in> set errs. opt_is x t))"

lemma reports_refl: "reports e [] e"
  by (simp add: reports_def)

lemma reports_trans: "reports e0 xs e1 \<Longrightarrow> reports e1 ys e2 \<Longrightarrow> reports e0 (xs @ ys) e2"
  by (auto simp: reports_def)

lemma closeErr_publishes [simp]: "d_closeErr (fold publishDriverEvent evs d) = d_closeErr d"
  by (induction evs arbitrary: d) (simp_all add: publishDriverEvent_eq)

lemma reports_record: "reports (d_closeErr d) [err] (d_closeErr (recordCloseError stage err d))"
  by (cases err) (auto simp: recordCloseError_def reports_def publishDriverEvent_eq opt_is_join errors_join_None_iff
      split: option.splits)

section \<open>The stages of closing\<close>

lemma driver_inv_closeErr: "driver_inv (d\<lparr>d_closeErr := x\<rparr>) = driver_inv d"
  by (simp add: driver_inv_def)

lemma driver_inv_record [inv_intros]: "driver_inv d \<Longrightarrow> driver_inv (recordCloseError stage err d)"
  by (cases err) (simp_all add: recordCloseError_def driver_inv_publish driver_inv_closeErr)

lemma closed_record [simp]:
  "driver_inv d \<Longrightarrow> br_closed (d_events (recordCloseError stage err d)) = br_closed (d_events d)"
  by (cases err) (simp_all add: recordCloseError_def publish_event(4) driver_inv_def)

text \<open>After \<^verbatim>\<open>gate.Close\<close> no epoch holds anything.\<close>

definition gate_down :: "gate \<Rightarrow> bool" where
  "gate_down g \<longleftrightarrow> gate_inv g \<and> gt_closed g \<and> gt_epoch g = None"

lemma gate_down_empty: "gate_down g \<Longrightarrow> held g i = {}"
  using gate_inv_stale [of g] by (auto simp: gate_down_def stale_empty_def held_def split: option.splits)

lemma gate_Close_down:
  assumes "gate_inv g" "gate_Close cr g = (err, g')"
  shows "gate_down g'"
proof (cases "gt_epoch g")
  case None
  with assms show ?thesis by (auto simp: gate_down_def gate_Close_def gate_inv_def gate_ok_fields)
next
  case (Some i)
  let ?g = "g\<lparr>gt_closed := True, gt_epoch := None\<rparr>"
  have r: "retire cr i ?g = (err, g')" using assms(2) Some by (simp add: gate_Close_def)
  have "gate_ok {i} ?g" using assms(1) Some by (simp add: gate_inv_def gate_ok_fields)
  from gate_ok_retire [OF this r] have "gate_ok {} g'" by simp
  moreover have "evolves ?g g'" by (rule evolves_retire [OF r])
  ultimately show ?thesis by (simp add: gate_down_def gate_inv_def evolves_def)
qed

text \<open>One stage: it keeps the invariant, leaves the broker open, reports its errors and has
  certain effects.\<close>

definition dstage :: "goerr option list \<Rightarrow> driver \<Rightarrow> driver \<Rightarrow> bool" where
  "dstage errs d d' \<longleftrightarrow> (driver_inv d \<longrightarrow> driver_inv d' \<and> br_closed (d_events d') = br_closed (d_events d)) \<and>
    reports (d_closeErr d) errs (d_closeErr d')"

definition stage :: "goerr option list \<Rightarrow> effect list \<Rightarrow> 't sys \<Rightarrow> 't sys \<Rightarrow> bool" where
  "stage errs effs s s' \<longleftrightarrow> dstage errs (sy_d s) (sy_d s') \<and> sy_effects s' = sy_effects s @ effs"

lemma dstage_trans: "dstage xs d d1 \<Longrightarrow> dstage ys d1 d2 \<Longrightarrow> dstage (xs @ ys) d d2"
  unfolding dstage_def using reports_trans by blast

lemma stage_refl: "stage [] [] s s"
  by (simp add: stage_def dstage_def reports_refl)

lemma stage_trans: "stage xs es s s1 \<Longrightarrow> stage ys fs s1 s2 \<Longrightarrow> stage (xs @ ys) (es @ fs) s s2"
  by (auto simp: stage_def intro: dstage_trans)

lemma dstage_record: "dstage [err] d (recordCloseError st err d)"
  by (simp add: dstage_def driver_inv_record reports_record)

lemma stage_record: "stage [err] [] s (on_driver (recordCloseError st err) s)"
  by (simp add: stage_def on_driver_def dstage_record)

lemma stage_effect: "stage [] [e] s (effect e s)"
  by (simp add: stage_def effect_def dstage_def reports_refl)

lemma stage_driver: "dstage errs (sy_d s) (f (sy_d s)) \<Longrightarrow> stage errs [] s (on_driver f s)"
  by (simp add: stage_def on_driver_def)

lemma stage_control_Do: "control_Do ctl cmd s = (r, s') \<Longrightarrow> stage [] [Command cmd] s s' \<and> sy_d s' = sy_d s"
  by (auto simp: control_Do_def effect_def stage_def dstage_def reports_refl split: prod.splits)

lemma dstage_outbound:
  "dstage [fst (gate_Close (ce_gate env) ((d_gate d)\<lparr>gt_events := []\<rparr>))] d (gate_stage env d)"
proof -
  obtain err d1 where w: "with_gate (gate_Close (ce_gate env)) d = (err, d1)" by fastforce
  have err: "err = fst (gate_Close (ce_gate env) ((d_gate d)\<lparr>gt_events := []\<rparr>))"
    using w by (auto simp: with_gate_def split: prod.splits)
  obtain e g where g: "gate_Close (ce_gate env) ((d_gate d)\<lparr>gt_events := []\<rparr>) = (e, g)" by fastforce
  have d1: "d1 = fold publishDriverEvent (gt_events g) (d\<lparr>d_gate := g\<lparr>gt_events := []\<rparr>\<rparr>)"
    using w g by (simp add: with_gate_def)
  have "driver_inv d \<Longrightarrow> driver_inv d1"
    using gate_Close_down by (intro driver_inv_with_gate [OF _ w]) (auto simp: gate_down_def)
  moreover have "driver_inv d \<Longrightarrow> br_closed (d_events d1) = br_closed (d_events d)"
    using publishes_closed [of "d\<lparr>d_gate := g\<lparr>gt_events := []\<rparr>\<rparr>"] by (simp add: d1 driver_inv_def)
  ultimately have "dstage [] d d1" by (simp add: dstage_def d1 reports_refl)
  from dstage_trans [OF this dstage_record [of err]] show ?thesis
    using w err by (simp add: gate_stage_def)
qed

lemma outbound_down:
  assumes "driver_inv d"
  shows "gate_down (d_gate (gate_stage env d))"
proof -
  obtain e g where g: "gate_Close (ce_gate env) ((d_gate d)\<lparr>gt_events := []\<rparr>) = (e, g)" by fastforce
  have ev: "gate_down (h\<lparr>gt_events := evs\<rparr>) = gate_down h" "gate_inv (h\<lparr>gt_events := evs\<rparr>) = gate_inv h" for h evs
    by (simp_all add: gate_down_def gate_inv_def gate_ok_def)
  have "gate_down g" using gate_Close_down [OF _ g] assms by (simp add: ev driver_inv_def)
  then show ?thesis using g by (simp add: gate_stage_def with_gate_def ev)
qed

lemma core_outbound: "core (gate_stage env d) = core (d\<lparr>d_gate := d_gate (gate_stage env d)\<rparr>)"
proof -
  obtain e g where g: "gate_Close (ce_gate env) ((d_gate d)\<lparr>gt_events := []\<rparr>) = (e, g)" by fastforce
  then show ?thesis by (simp add: gate_stage_def with_gate_def)
qed

lemma dstage_resources:
  "dstage [fst (scope_close (ce_resources env) (items_list (d_resources d)) (d_resources d))] d (resources_stage env d)"
proof -
  obtain e r where r: "scope_close (ce_resources env) (items_list (d_resources d)) (d_resources d) = (e, r)" by fastforce
  have "driver_inv d \<Longrightarrow> driver_inv (d\<lparr>d_resources := r\<rparr>)"
    using own.shut_spec [of "d_resources d" "ce_resources env"] r by (simp add: driver_inv_def)
  then have "dstage [] d (d\<lparr>d_resources := r\<rparr>)" by (simp add: dstage_def reports_refl)
  from dstage_trans [OF this dstage_record [of e]] show ?thesis using r by (simp add: resources_stage_def)
qed

lemma resources_closed:
  assumes "driver_inv d"
  shows "sc_closed (d_resources (resources_stage env d)) \<and> sc_items (d_resources (resources_stage env d)) = {}"
  using own.shut_spec [of "d_resources d" "ce_resources env"] assms
  by (simp add: resources_stage_def driver_inv_def case_prod_beta)

lemma core_resources: "core (resources_stage env d) = core (d\<lparr>d_resources := d_resources (resources_stage env d)\<rparr>)"
  by (simp add: resources_stage_def split: prod.split)

text \<open>The errors of the later stages, and their effects.\<close>

definition control_errs :: "'t ctl \<Rightarrow> close_env \<Rightarrow> 't sys \<Rightarrow> goerr option list" where
  "control_errs ctl env s =
    (if d_control (sy_d s) then [err_of (fst (ctl ''SIGNAL SHUTDOWN'' (sy_tor s))), ce_control env] else [])"

definition control_effects :: "driver \<Rightarrow> effect list" where
  "control_effects d = (if d_control d then [Command ''SIGNAL SHUTDOWN'', ControlClose] else [])"

lemma stage_control:
  "stage (control_errs ctl env s) (control_effects (sy_d s)) s (close_control ctl env s) \<and>
   core (sy_d (close_control ctl env s)) = core (sy_d s)"
proof (cases "d_control (sy_d s)")
  case True
  obtain r s1 where 1: "control_Do ctl ''SIGNAL SHUTDOWN'' s = (r, s1)" by fastforce
  have r: "r = fst (ctl ''SIGNAL SHUTDOWN'' (sy_tor s))" using 1 by (auto simp: control_Do_def split: prod.splits)
  let ?s2 = "on_driver (recordCloseError ShutdownControl (err_of r)) s1"
  have 2: "close_control ctl env s =
      on_driver (recordCloseError ShutdownControl (ce_control env)) (effect ControlClose ?s2)"
    using True 1 by (simp add: close_control_def)
  have "stage [err_of r, ce_control env] [Command ''SIGNAL SHUTDOWN'', ControlClose] s (close_control ctl env s)"
    unfolding 2
    using stage_trans [OF stage_trans [OF stage_trans [OF conjunct1 [OF stage_control_Do [OF 1]] stage_record] stage_effect]
        stage_record] by simp
  moreover have "core (sy_d (close_control ctl env s)) = core (sy_d s)"
    using stage_control_Do [OF 1] by (simp add: 2 on_driver_def effect_def)
  ultimately show ?thesis using True r by (simp add: control_errs_def control_effects_def)
qed (simp add: close_control_def control_errs_def control_effects_def stage_refl)

definition reaped :: "close_env \<Rightarrow> driver \<Rightarrow> bool" where
  "reaped env d \<longleftrightarrow> \<not> d_proc d \<or> ce_graceful env \<or> ce_forced env"

definition process_errs :: "close_env \<Rightarrow> driver \<Rightarrow> goerr option list" where
  "process_errs env d =
    (if \<not> d_proc d then []
     else if ce_graceful env then [ce_process env]
     else [Some (Msg ''tor-driver: graceful shutdown timed out''), ce_kill env] @
       (if ce_forced env then [] else [Some (Msg ''tor-driver: process did not exit after Kill'')]))"

definition process_effects :: "close_env \<Rightarrow> driver \<Rightarrow> effect list" where
  "process_effects env d = (if d_proc d \<and> \<not> ce_graceful env then [Kill] else [])"

lemma stage_process:
  assumes "close_process env s = (b, s')"
  shows "b = reaped env (sy_d s)" "core (sy_d s') = core (sy_d s)"
    "stage (process_errs env (sy_d s)) (process_effects env (sy_d s)) s s'"
proof -
  show "b = reaped env (sy_d s)" "core (sy_d s') = core (sy_d s)"
    using assms by (auto simp: close_process_def reaped_def on_driver_def effect_def Let_def split: if_splits)
  let ?s1 = "on_driver (recordCloseError ShutdownGracefulWait (Some (Msg ''tor-driver: graceful shutdown timed out''))) s"
  let ?s2 = "on_driver (recordCloseError ShutdownKill (ce_kill env)) (effect Kill ?s1)"
  have k: "stage [Some (Msg ''tor-driver: graceful shutdown timed out''), ce_kill env] [Kill] s ?s2"
    using stage_trans [OF stage_trans [OF stage_record stage_effect] stage_record] by simp
  have f: "stage [Some (Msg ''tor-driver: graceful shutdown timed out''), ce_kill env,
       Some (Msg ''tor-driver: process did not exit after Kill'')] [Kill] s
      (on_driver (recordCloseError ShutdownForcedWait (Some (Msg ''tor-driver: process did not exit after Kill''))) ?s2)"
    using stage_trans [OF k stage_record] by simp
  consider "\<not> d_proc (sy_d s)" | "d_proc (sy_d s)" "ce_graceful env"
    | "d_proc (sy_d s)" "\<not> ce_graceful env" "ce_forced env" | "d_proc (sy_d s)" "\<not> ce_graceful env" "\<not> ce_forced env"
    by blast
  then show "stage (process_errs env (sy_d s)) (process_effects env (sy_d s)) s s'"
  proof cases
    case 1
    then show ?thesis using assms stage_refl by (auto simp: close_process_def process_errs_def process_effects_def)
  next
    case 2
    then show ?thesis using assms stage_record by (auto simp: close_process_def process_errs_def process_effects_def)
  next
    case 3
    then show ?thesis using assms k by (auto simp: close_process_def process_errs_def process_effects_def Let_def)
  next
    case 4
    then show ?thesis using assms f by (auto simp: close_process_def process_errs_def process_effects_def Let_def)
  qed
qed

definition proxy_errs :: "close_env \<Rightarrow> driver \<Rightarrow> goerr option list" where
  "proxy_errs env d =
    (case d_proxy d of None \<Rightarrow> [] | Some p \<Rightarrow> [fst (proxy_Close (ce_proxy env) (ce_listener env) p)])"

lemma dstage_proxy: "dstage (proxy_errs env d) d (proxy_stage env d)"
proof (cases "d_proxy d")
  case None
  then show ?thesis by (simp add: proxy_stage_def proxy_errs_def dstage_def reports_refl)
next
  case (Some p)
  have "driver_inv d \<Longrightarrow> driver_inv (d\<lparr>d_proxy := Some (proxy_shut (ce_proxy env) p)\<rparr>)"
    using Some proxy_inv_shut(1) by (auto simp: driver_inv_def)
  then have "dstage [] d (d\<lparr>d_proxy := Some (proxy_shut (ce_proxy env) p)\<rparr>)" by (simp add: dstage_def reports_refl)
  from dstage_trans [OF this dstage_record] Some show ?thesis
    by (simp add: proxy_stage_def proxy_errs_def proxy_Close_def)
qed

lemma core_proxy: "core (proxy_stage env d) = core (d\<lparr>d_proxy := map_option (proxy_shut (ce_proxy env)) (d_proxy d)\<rparr>)"
proof (cases "d_proxy d")
  case None
  then have eq: "d\<lparr>d_proxy := None\<rparr> = d" by (cases d) simp
  show ?thesis by (simp only: proxy_stage_def None option.case option.map eq)
qed (simp add: proxy_stage_def proxy_Close_def)

definition proxy_effects :: "driver \<Rightarrow> effect list" where
  "proxy_effects d = (if d_proxy d = None then [] else [ProxyClose])"

lemma proxy_stage_sys: "sy_d (close_proxy env s) = proxy_stage env (sy_d s)"
  by (simp add: close_proxy_def on_driver_def effect_def proxy_stage_def split: option.split)

lemma stage_proxy: "stage (proxy_errs env (sy_d s)) (proxy_effects (sy_d s)) s (close_proxy env s)"
proof -
  have "sy_effects (close_proxy env s) = sy_effects s @ proxy_effects (sy_d s)"
    by (simp add: close_proxy_def proxy_effects_def on_driver_def effect_def)
  then show ?thesis by (simp add: stage_def proxy_stage_sys dstage_proxy)
qed

definition files_effects :: "close_env \<Rightarrow> driver \<Rightarrow> effect list" where
  "files_effects env d = (if reaped env d \<and> d_files d \<and> d_work d \<noteq> [] then [RemoveAll (d_work d)] else [])"

lemma stage_effect_record: "stage [err] [e] s (on_driver (recordCloseError st err) (effect e s))"
  using stage_trans [OF stage_effect stage_record] by simp

lemma stage_files:
  "stage (if b \<and> d_files (sy_d s) \<and> d_work (sy_d s) \<noteq> [] then [ce_remove env] else [])
     (if b \<and> d_files (sy_d s) \<and> d_work (sy_d s) \<noteq> [] then [RemoveAll (d_work (sy_d s))] else []) s (close_files env b s) \<and>
   core (sy_d (close_files env b s)) = core (sy_d s)"
  using stage_effect_record [of "ce_remove env"] stage_refl [of s]
  by (auto simp: close_files_def on_driver_def effect_def)

lemma stage_box:
  "stage (if d_box (sy_d s) then [ce_box env] else []) (if d_box (sy_d s) then [SandboxClose] else []) s (close_box env s) \<and>
   core (sy_d (close_box env s)) = core (sy_d s)"
  using stage_effect_record [of "ce_box env"] stage_refl [of s]
  by (auto simp: close_box_def on_driver_def effect_def)

section \<open>Closing as a whole\<close>

text \<open>All errors that a run of \<^verbatim>\<open>Close\<close> observes, in order, and its effects.\<close>

definition close_errs :: "'t ctl \<Rightarrow> close_env \<Rightarrow> 't sys \<Rightarrow> goerr option list" where
  "close_errs ctl env s =
    [fst (gate_Close (ce_gate env) ((d_gate (sy_d s))\<lparr>gt_events := []\<rparr>)),
     fst (scope_close (ce_resources env) (items_list (d_resources (sy_d s))) (d_resources (sy_d s)))] @
    control_errs ctl env s @ process_errs env (sy_d s) @ proxy_errs env (sy_d s) @
    (if files_effects env (sy_d s) \<noteq> [] then [ce_remove env] else []) @
    (if d_box (sy_d s) then [ce_box env] else [])"

definition close_effects :: "close_env \<Rightarrow> driver \<Rightarrow> effect list" where
  "close_effects env d = [OutboundClose, ResourcesClose] @ control_effects d @ process_effects env d @ proxy_effects d @
    files_effects env d @ (if d_box d then [SandboxClose] else [])"

definition shut_down :: "driver \<Rightarrow> bool" where
  "shut_down d \<longleftrightarrow> d_closed d \<and> d_done d \<and> gate_down (d_gate d) \<and> sc_closed (d_resources d) \<and>
    sc_items (d_resources d) = {} \<and> (\<forall>p. d_proxy d = Some p \<longrightarrow> sc_closed (ps_scope p) \<and> sc_items (ps_scope p) = {}) \<and>
    br_closed (d_events d)"

lemma start_sys:
  "sy_d (close_resources env (close_outbound env (on_driver (\<lambda>d. d\<lparr>d_closed := True\<rparr>) s))) =
    resources_stage env (gate_stage env ((sy_d s)\<lparr>d_closed := True\<rparr>))"
  "sy_effects (close_resources env (close_outbound env (on_driver (\<lambda>d. d\<lparr>d_closed := True\<rparr>) s))) =
    sy_effects s @ [OutboundClose, ResourcesClose]"
  "sy_tor (close_resources env (close_outbound env (on_driver (\<lambda>d. d\<lparr>d_closed := True\<rparr>) s))) = sy_tor s"
  by (simp_all add: close_resources_def close_outbound_def on_driver_def effect_def)

lemma stage_start:
  "stage [fst (gate_Close (ce_gate env) ((d_gate (sy_d s))\<lparr>gt_events := []\<rparr>)),
     fst (scope_close (ce_resources env) (items_list (d_resources (sy_d s))) (d_resources (sy_d s)))] [OutboundClose, ResourcesClose] s
     (close_resources env (close_outbound env (on_driver (\<lambda>d. d\<lparr>d_closed := True\<rparr>) s)))"
proof -
  let ?d = "(sy_d s)\<lparr>d_closed := True\<rparr>"
  have c: "dstage [] (sy_d s) ?d" by (simp add: dstage_def reports_refl driver_inv_def)
  have r: "d_resources (gate_stage env ?d) = d_resources (sy_d s)" using core_sel(8) [OF core_outbound [of env ?d]] by simp
  from dstage_trans [OF dstage_trans [OF c dstage_outbound [of env ?d]] dstage_resources [of env "gate_stage env ?d"]]
  show ?thesis unfolding stage_def start_sys by (simp add: r)
qed

lemma core_start:
  assumes "driver_inv d" "d' = resources_stage env (gate_stage env (d\<lparr>d_closed := True\<rparr>))"
  shows "d_closed d'" "gate_down (d_gate d')" "sc_closed (d_resources d')" "sc_items (d_resources d') = {}"
    "d_control d' = d_control d" "d_proc d' = d_proc d" "d_files d' = d_files d" "d_work d' = d_work d"
    "d_box d' = d_box d" "d_proxy d' = d_proxy d" "d_done d' = d_done d"
proof -
  let ?d = "d\<lparr>d_closed := True\<rparr>"
  have inv: "driver_inv ?d" using assms(1) by (simp add: driver_inv_def)
  then have inv1: "driver_inv (gate_stage env ?d)" using dstage_outbound [of env ?d] by (simp add: dstage_def)
  note c1 = core_sel [OF core_outbound [of env ?d]] and c2 = core_sel [OF core_resources [of env "gate_stage env ?d"]]
  show "d_closed d'" "d_control d' = d_control d" "d_proc d' = d_proc d" "d_files d' = d_files d" "d_work d' = d_work d"
    "d_box d' = d_box d" "d_proxy d' = d_proxy d" "d_done d' = d_done d" using c1 c2 by (simp_all add: assms(2))
  show "gate_down (d_gate d')" using outbound_down [OF inv] c2 by (simp add: assms(2))
  show "sc_closed (d_resources d')" "sc_items (d_resources d') = {}"
    using resources_closed [OF inv1] by (simp_all add: assms(2))
qed

lemma broker_closes: "broker_inv b \<Longrightarrow> \<exists>bk. broker_close b = Some bk \<and> broker_inv bk \<and> br_closed bk"
proof -
  assume b: "broker_inv b"
  have "broker_close b \<noteq> None" using broker_close_Some [OF b] by (cases "br_closed b") (simp_all add: broker_close_def)
  then show ?thesis using broker_inv_close [OF b] by blast
qed

lemma close_run_spec:
  assumes "driver_inv (sy_d s)" "s' = close_run ctl env s"
  shows "shut_down (sy_d s')" "driver_inv (sy_d s')" "sy_effects s' = sy_effects s @ close_effects env (sy_d s)"
    "reports (d_closeErr (sy_d s)) (close_errs ctl env s) (d_closeErr (sy_d s'))"
proof -
  define s1 where "s1 = close_resources env (close_outbound env (on_driver (\<lambda>d. d\<lparr>d_closed := True\<rparr>) s))"
  define s2 where "s2 = close_control ctl env s1"
  obtain b s3 where p: "close_process env s2 = (b, s3)" by fastforce
  define s4 where "s4 = close_proxy env s3"
  define s5 where "s5 = close_files env b s4"
  define s6 where "s6 = close_box env s5"
  have s': "s' = on_driver close_final s6"
    using assms(2) p by (simp add: close_run_def s1_def s2_def s4_def s5_def s6_def)
  note c1 = core_start [OF assms(1) refl, of env]
  have d1: "sy_d s1 = resources_stage env (gate_stage env ((sy_d s)\<lparr>d_closed := True\<rparr>))" unfolding s1_def by (rule start_sys)
  have t1: "sy_tor s1 = sy_tor s" unfolding s1_def by (rule start_sys)
  have c2: "core (sy_d s2) = core (sy_d s1)" unfolding s2_def using stage_control by blast
  have c3: "core (sy_d s3) = core (sy_d s1)" using stage_process(2) [OF p] c2 by simp
  have c4: "core (sy_d s4) = core ((sy_d s3)\<lparr>d_proxy := map_option (proxy_shut (ce_proxy env)) (d_proxy (sy_d s3))\<rparr>)"
    by (simp add: s4_def proxy_stage_sys core_proxy)
  have c5: "core (sy_d s5) = core (sy_d s4)" unfolding s5_def using stage_files by blast
  have c6: "core (sy_d s6) = core (sy_d s4)" unfolding s6_def using stage_box c5 by metis
  note sel = core_sel [OF c2] core_sel [OF c3] core_sel [OF c4] core_sel [OF c5] core_sel [OF c6]
  have b: "b = reaped env (sy_d s)" using stage_process(1) [OF p] by (simp add: reaped_def sel c1 d1)
  have errs: "control_errs ctl env s1 = control_errs ctl env s" "process_errs env (sy_d s2) = process_errs env (sy_d s)"
    "proxy_errs env (sy_d s3) = proxy_errs env (sy_d s)" "control_effects (sy_d s1) = control_effects (sy_d s)"
    "process_effects env (sy_d s2) = process_effects env (sy_d s)" "proxy_effects (sy_d s3) = proxy_effects (sy_d s)"
    by (simp_all add: proxy_effects_def control_errs_def process_errs_def proxy_errs_def control_effects_def process_effects_def sel c1 t1 d1)
  have pr: "stage (proxy_errs env (sy_d s3)) (proxy_effects (sy_d s3)) s3 s4" unfolding s4_def by (rule stage_proxy)
  have files: "(if b \<and> d_files (sy_d s4) \<and> d_work (sy_d s4) \<noteq> [] then [RemoveAll (d_work (sy_d s4))] else []) =
      files_effects env (sy_d s)"
    "(if b \<and> d_files (sy_d s4) \<and> d_work (sy_d s4) \<noteq> [] then [ce_remove env] else []) =
      (if files_effects env (sy_d s) \<noteq> [] then [ce_remove env] else [])"
    by (simp_all add: files_effects_def b d1 sel c1)
  have box: "d_box (sy_d s5) = d_box (sy_d s)" by (simp add: d1 sel c1)
  note st12 = stage_trans [OF stage_start [of env s, folded s1_def] conjunct1 [OF stage_control [of ctl env s1, folded s2_def]]]
  note st14 = stage_trans [OF stage_trans [OF st12 stage_process(3) [OF p]] pr]
  note st16 = stage_trans [OF stage_trans [OF st14 conjunct1 [OF stage_files [of b s4 env, folded s5_def]]]
    conjunct1 [OF stage_box [of s5 env, folded s6_def]]]
  have st: "stage (close_errs ctl env s) (close_effects env (sy_d s)) s s6"
    using st16 unfolding errs files box close_errs_def close_effects_def by (simp only: append_assoc append_Nil append_Nil2)
  have inv6: "driver_inv (sy_d s6)" using st assms(1) by (simp add: stage_def dstage_def)
  then obtain bk where bk: "broker_close (d_events (sy_d s6)) = Some bk" "broker_inv bk" "br_closed bk"
    using broker_closes by (auto simp: driver_inv_def)
  have f: "sy_d s' = (sy_d s6)\<lparr>d_networks := [], d_services := [], d_keyNames := [], d_events := bk, d_done := True\<rparr>"
    by (simp add: s' on_driver_def close_final_def bk)
  show "driver_inv (sy_d s')" using inv6 bk by (simp add: f driver_inv_def)
  show "sy_effects s' = sy_effects s @ close_effects env (sy_d s)"
    using st by (simp add: s' on_driver_def stage_def)
  show "reports (d_closeErr (sy_d s)) (close_errs ctl env s) (d_closeErr (sy_d s'))"
    using st by (simp add: f stage_def dstage_def)
  have "sc_closed (ps_scope p') \<and> sc_items (ps_scope p') = {}" if pp: "d_proxy (sy_d s6) = Some p'" for p'
  proof -
    obtain p0 where p0: "d_proxy (sy_d s) = Some p0" "p' = proxy_shut (ce_proxy env) p0"
      using pp by (auto simp: d1 sel c1)
    then have "proxy_inv p0" using assms(1) by (simp add: driver_inv_def)
    from proxy_inv_shut [OF this] show ?thesis using closed_holds_nothing p0(2) by blast
  qed
  then show "shut_down (sy_d s')" using bk by (simp add: shut_down_def f d1 sel c1)
qed

text \<open>
  C8. Closing the driver is complete, ordered and idempotent. After the first \<^verbatim>\<open>Close\<close> the
  gate is closed and holds no connection, the application resources, the proxy's
  connections and the subscribers' channels are closed. The stages come in exactly the
  documented order: the outbound gate first, then the application resources, then the request to shut
  down and the control connection, then the kill of a process that does not end in time, the
  proxy, the temporary files and the sandbox; and the temporary files are removed exactly
  when there was no process or it was reaped. The returned error
  is nil exactly when no stage failed, and otherwise contains the error of every stage that
  failed. A second \<^verbatim>\<open>Close\<close> does nothing and returns the same error.
\<close>

theorem Close_complete:
  assumes "driver_inv (sy_d s)" "\<not> d_done (sy_d s)" "driver_Close ctl env s = (err, s')"
  shows "shut_down (sy_d s') \<and> (\<forall>i. held (d_gate (sy_d s')) i = {}) \<and>
    sy_effects s' = sy_effects s @ [OutboundClose, ResourcesClose] @
      (if d_control (sy_d s) then [Command ''SIGNAL SHUTDOWN'', ControlClose] else []) @
      (if d_proc (sy_d s) \<and> \<not> ce_graceful env then [Kill] else []) @
      (if d_proxy (sy_d s) = None then [] else [ProxyClose]) @
      (if (d_proc (sy_d s) \<longrightarrow> ce_graceful env \<or> ce_forced env) \<and> d_files (sy_d s) \<and> d_work (sy_d s) \<noteq> []
       then [RemoveAll (d_work (sy_d s))] else []) @
      (if d_box (sy_d s) then [SandboxClose] else []) \<and>
    (err = None \<longleftrightarrow> d_closeErr (sy_d s) = None \<and> (\<forall>x \<in> set (close_errs ctl env s). x = None)) \<and>
    (\<forall>t. (\<exists>x \<in> set (close_errs ctl env s). opt_is x t) \<longrightarrow> opt_is err t) \<and>
    driver_Close ctl env' s' = (err, s')"
proof -
  have s': "s' = close_run ctl env s" "err = d_closeErr (sy_d s')"
    using assms(2,3) by (auto simp: driver_Close_def Let_def)
  note r = close_run_spec [OF assms(1) s'(1)]
  have "d_done (sy_d s')" "gate_down (d_gate (sy_d s'))" using r(1) by (simp_all add: shut_down_def)
  then show ?thesis
    using r(1,4) gate_down_empty s'(2) r(3) [unfolded close_effects_def control_effects_def process_effects_def
        proxy_effects_def files_effects_def reaped_def]
    by (auto simp: reports_def driver_Close_def Let_def)
qed

definition sample_sys :: "unit sys" where
  "sample_sys = \<lparr>sy_d = sample_driver, sy_tor = (), sy_effects = []\<rparr>"

definition sample_ctl :: "unit ctl" where
  "sample_ctl cmd t = (Inr \<lparr>Code = 250, Lines = [''OK'']\<rparr>, t)"

definition sample_close :: close_env where
  "sample_close = \<lparr>ce_gate = (\<lambda>_. None), ce_resources = (\<lambda>_. None), ce_proxy = (\<lambda>_. None), ce_control = None,
     ce_graceful = False, ce_kill = None, ce_forced = True, ce_process = None, ce_listener = None,
     ce_remove = None, ce_box = None\<rparr>"

theorem Close_complete_witness:
  "\<exists>err s'. driver_Close sample_ctl sample_close sample_sys = (err, s') \<and> err \<noteq> None \<and> shut_down (sy_d s') \<and>
     sy_effects s' = [OutboundClose, ResourcesClose, Command ''SIGNAL SHUTDOWN'', ControlClose, Kill, ProxyClose,
       RemoveAll ''tor-driver-1'', SandboxClose]"
proof -
  obtain err s' where c: "driver_Close sample_ctl sample_close sample_sys = (err, s')" by fastforce
  have i: "driver_inv (sy_d sample_sys)" "\<not> d_done (sy_d sample_sys)"
    using sample_driver_inv by (simp_all add: sample_sys_def sample_driver_def)
  have "Some (Msg ''tor-driver: graceful shutdown timed out'') \<in> set (close_errs sample_ctl sample_close sample_sys)"
    by (simp add: close_errs_def process_errs_def sample_sys_def sample_driver_def sample_close_def)
  then have ne: "\<not> (\<forall>x \<in> set (close_errs sample_ctl sample_close sample_sys). x = None)" by blast
  have e: "sy_effects sample_sys = []" "d_control (sy_d sample_sys)" "d_proc (sy_d sample_sys)" "d_proxy (sy_d sample_sys) \<noteq> None"
    "d_files (sy_d sample_sys)" "d_work (sy_d sample_sys) = ''tor-driver-1''" "d_box (sy_d sample_sys)"
    "\<not> ce_graceful sample_close" "ce_forced sample_close"
    by (simp_all add: sample_sys_def sample_driver_def sample_close_def)
  have "err \<noteq> None" "shut_down (sy_d s')" using Close_complete [OF i c] ne by blast+
  moreover have "sy_effects s' = [OutboundClose, ResourcesClose, Command ''SIGNAL SHUTDOWN'', ControlClose, Kill, ProxyClose,
       RemoveAll ''tor-driver-1'', SandboxClose]" using Close_complete [OF i c] by (simp add: e)
  ultimately show ?thesis using c by blast
qed

end
