(* ===== verification/Tor_Bridges.thy ===== *)
theory Tor_Bridges
  imports Tor_Driver
begin

text \<open>
  Changing the bridge configuration of a running Tor (driver.go, \<^verbatim>\<open>SetBridges\<close> and its
  helpers): networking is disabled, the complete bridge configuration is set in one
  command, networking is enabled again and the SOCKS listener is looked up; every failure
  is followed by a rollback or leaves networking disabled.
\<close>

definition bridgeSetCommand :: "(string \<times> string) list \<Rightarrow> bridge_config \<Rightarrow> string" where
  "bridgeSetCommand paths cfg =
    Join '' ''
      ([''SETCONF'', ''UseBridges='' @ Itoa (bit (bc_UseBridges cfg))] @
       (if bc_Transports cfg = [] then [''ClientTransportPlugin'']
        else map (\<lambda>t. ''ClientTransportPlugin='' @
          quote (''obfs4 exec '' @ quote (case map_of paths (Program t) of None \<Rightarrow> [] | Some p \<Rightarrow> p)))
          (bc_Transports cfg)) @
       (if bridgeLines (bc_Bridges cfg) = [] then [''Bridge'']
        else map (\<lambda>b. ''Bridge='' @ quote b) (bridgeLines (bc_Bridges cfg))))"

definition setActiveTransports :: "transport_config list \<Rightarrow> driver \<Rightarrow> driver" where
  "setActiveTransports ts d = d\<lparr>d_active := ts\<rparr>"

definition wrapRollbackError :: "goerr option \<Rightarrow> goerr option" where
  "wrapRollbackError err =
    map_option (Wrap ''tor-driver: bridge rollback failed; networking remains disabled: '') err"

definition set_bridge_cfg :: "bridge_config \<Rightarrow> driver \<Rightarrow> driver" where
  "set_bridge_cfg bc d = d\<lparr>d_cfg := (d_cfg d)\<lparr>UseBridges := bc_UseBridges bc, Bridges := bc_Bridges bc,
     Transports := bc_Transports bc\<rparr>\<rparr>"

definition bridge_cfg :: "driver \<Rightarrow> bridge_config" where
  "bridge_cfg d = \<lparr>bc_UseBridges = UseBridges (d_cfg d), bc_Bridges = Bridges (d_cfg d),
     bc_Transports = Transports (d_cfg d)\<rparr>"

definition rollbackBridges ::
  "'t ctl \<Rightarrow> bridge_config \<Rightarrow> bridge_config \<Rightarrow> 't sys \<Rightarrow> goerr option \<times> 't sys" where
  "rollbackBridges ctl old desired s =
    (case control_Do ctl (bridgeSetCommand (d_paths (sy_d s)) old) s of
       (Inl e, s1) \<Rightarrow>
         (wrapRollbackError (Some e),
          on_driver (\<lambda>d. setActiveTransports (bc_Transports desired) (set_bridge_cfg desired d)) s1)
     | (Inr _, s1) \<Rightarrow> (wrapRollbackError None, on_driver (setActiveTransports (bc_Transports old)) s1))"

text \<open>The three parts of \<^verbatim>\<open>SetBridges\<close> after the configuration was accepted: the lookup of the
  listener with its rollback, the enabling of the network, the change itself.\<close>

definition refresh_socks ::
  "'t ctl \<Rightarrow> close_env \<Rightarrow> bridge_config \<Rightarrow> bridge_config \<Rightarrow> 't sys \<Rightarrow> goerr option \<times> 't sys" where
  "refresh_socks ctl env old desired s =
    (case command ctl ''GETINFO net/listeners/socks'' s of
       (r, s1) \<Rightarrow>
         (case (case r of Inl e \<Rightarrow> (Some e, sy_d s1) | Inr rep \<Rightarrow> applySocksReply rep (sy_d s1)) of
            (None, d) \<Rightarrow> (None, s1\<lparr>sy_d := set_bridge_cfg desired d\<rparr>)
          | (Some endpointErr, d) \<Rightarrow>
              (case control_Do ctl ''SETCONF DisableNetwork=1'' (s1\<lparr>sy_d := d\<rparr>) of
                 (dis, s2) \<Rightarrow>
                   (case rollbackBridges ctl old desired s2 of
                      (rollbackErr, s3) \<Rightarrow>
                        (case (case dis of
                             Inr _ \<Rightarrow> (None, s3)
                           | Inl e \<Rightarrow>
                               (case driver_Close ctl env s3 of
                                  (cerr, s4) \<Rightarrow>
                                    (errors_join [Some (Wrap ''tor-driver: disable networking after SOCKS listener failure: '' e),
                                       cerr], s4))) of
                           (disableErr, s4) \<Rightarrow>
                             (errors_join [Some (Wrap ''tor-driver: refresh SOCKS listener after bridge change: '' endpointErr),
                                disableErr, rollbackErr], s4))))))"

definition enable_network ::
  "'t ctl \<Rightarrow> close_env \<Rightarrow> bridge_config \<Rightarrow> bridge_config \<Rightarrow> 't sys \<Rightarrow> goerr option \<times> 't sys" where
  "enable_network ctl env old desired s =
    (case command ctl ''SETCONF DisableNetwork=0'' s of
       (Inl e, s1) \<Rightarrow>
         (case rollbackBridges ctl old desired s1 of
            (rerr, s2) \<Rightarrow>
              (errors_join [Some (Wrap ''tor-driver: enable networking after bridge change: '' e), rerr], s2))
     | (Inr _, s1) \<Rightarrow> refresh_socks ctl env old desired s1)"

definition change_bridges ::
  "'t ctl \<Rightarrow> close_env \<Rightarrow> bridge_config \<Rightarrow> bridge_config \<Rightarrow> 't sys \<Rightarrow> goerr option \<times> 't sys" where
  "change_bridges ctl env old desired s =
    (case command ctl ''SETCONF DisableNetwork=1'' s of
       (Inl e, s1) \<Rightarrow>
         let disableErr = Wrap ''tor-driver: disable networking before bridge change: '' e
         in if bc_UseBridges desired \<and> \<not> bc_UseBridges old
            then (case driver_Close ctl env s1 of (cerr, s2) \<Rightarrow> (errors_join [Some disableErr, cerr], s2))
            else (Some disableErr, s1)
     | (Inr _, s1) \<Rightarrow>
         let s2 = on_driver (\<lambda>d. d\<lparr>d_logs := addBridgeSecrets
                (bridgeLogSecrets (bc_Bridges old) @ bridgeLogSecrets (bc_Bridges desired)) (d_logs d)\<rparr>) s1
         in (case command ctl (bridgeSetCommand (d_paths (sy_d s2)) desired) s2 of
               (Inl e, s3) \<Rightarrow>
                 (Some (Wrap ''tor-driver: bridge change rejected; networking remains disabled: '' e), s3)
             | (Inr _, s3) \<Rightarrow>
                 enable_network ctl env old desired (on_driver (setActiveTransports (bc_Transports desired)) s3)))"

definition SetBridges ::
  "(string \<Rightarrow> goerr option) \<Rightarrow> 't ctl \<Rightarrow> close_env \<Rightarrow> bridge_config \<Rightarrow> 't sys \<Rightarrow> goerr option \<times> 't sys" where
  "SetBridges vn ctl env cfg s =
    (case validateBridgeConfig vn (bc_UseBridges cfg) (bc_Bridges cfg) (bc_Transports cfg) (Sandbox (d_cfg (sy_d s))) of
       Inl e \<Rightarrow> (Some e, s)
     | Inr (bridges, transports, _) \<Rightarrow>
         if \<exists>t \<in> set transports. t \<notin> set (d_approved (sy_d s))
         then (Some (Msg ''tor-driver: runtime transport was not approved at Start''), s)
         else change_bridges ctl env (bridge_cfg (sy_d s))
                \<lparr>bc_UseBridges = bc_UseBridges cfg, bc_Bridges = bridges, bc_Transports = transports\<rparr> s)"

end
