(* ===== verification/Tor_Command_Text.thy ===== *)
theory Tor_Command_Text
  imports Tor_Client Tor_Render_Proofs Tor_Identity_Proofs
begin

text \<open>
  Texts that the control client does not reject as an injection: what the commands of the
  driver and of onion services are built from has no line break and no NUL byte. The rules
  of \<open>clean_rules\<close> take a command apart.
\<close>

lemma injection_bytes: "\<not> injection s \<longleftrightarrow> (\<forall>c \<in> set s. byte c \<noteq> 13 \<and> byte c \<noteq> 10 \<and> byte c \<noteq> 0)"
proof -
  have "c \<in> {CR, LF, CHR 0x00} \<longleftrightarrow> byte c = 13 \<or> byte c = 10 \<or> byte c = 0" for c
    using inj_onD [OF inj_of_char, of c CR] inj_onD [OF inj_of_char, of c LF] inj_onD [OF inj_of_char, of c "CHR 0x00"] by auto
  then show ?thesis by (auto simp: injection_def ContainsAny_def list_ex_iff)
qed

named_theorems clean_rules \<open>texts without line breaks and NUL bytes\<close>

lemma clean_Nil [clean_rules]: "\<not> injection []"
  by (simp add: injection_bytes)

lemma clean_Cons [clean_rules]: "injection (c # s) \<longleftrightarrow> byte c = 13 \<or> byte c = 10 \<or> byte c = 0 \<or> injection s"
  using injection_bytes [of "c # s"] injection_bytes [of s] by auto

lemma clean_append [clean_rules]: "injection (a @ b) \<longleftrightarrow> injection a \<or> injection b"
  by (simp add: injection_def ContainsAny_def)

lemma clean_quote [clean_rules]: "injection (quote s) \<longleftrightarrow> injection s"
proof -
  have "c \<in> set s \<Longrightarrow> c \<in> set (quote s)" for c by (auto simp: quote_def quote_char_def)
  then show ?thesis using set_quote [of s] injection_bytes [of s] injection_bytes [of "quote s"] by fastforce
qed

lemma clean_Join: "\<not> injection sep \<Longrightarrow> \<forall>x \<in> set xs. \<not> injection x \<Longrightarrow> \<not> injection (Join sep xs)"
  using set_Join [of sep xs] unfolding injection_bytes by blast

lemma clean_chars: "list_all P s \<Longrightarrow> (\<And>c. P c \<Longrightarrow> 32 \<le> byte c) \<Longrightarrow> \<not> injection s"
  unfolding injection_bytes list_all_iff by fastforce

lemma clean_Itoa [clean_rules]: "\<not> injection (Itoa i)"
  unfolding injection_bytes using Itoa_no_byte [of _ i] by (fastforce simp: is_digit_def)

lemma clean_word: "word w \<Longrightarrow> \<not> injection w"
  unfolding word_def using clean_chars [of "\<lambda>c. 33 \<le> byte c \<and> byte c < 128" w] by auto

lemma word_no_space: "word w \<Longrightarrow> CHR '' '' \<notin> set w"
  by (auto simp: word_def list_all_iff)

end
