(* ===== verification/Tor_Bridges_Proofs.thy ===== *)
theory Tor_Bridges_Proofs
  imports Tor_Bridges Tor_Driver_Proofs Tor_Command_Text
begin

text \<open>
  Changing bridges fails closed: whatever the daemon answers, a change that fails leaves
  networking disabled or the driver closed, unless networking could not be disabled in the
  first place, in which case the old configuration stays in force.
\<close>

section \<open>What is used of the daemon\<close>

text \<open>
  \<open>net t\<close> tells that the daemon's networking is enabled. Disabling takes effect when it is
  acknowledged; only the command that enables networking enables it, and only when it is
  acknowledged: a command that is refused has no effect, and after a lost connection the
  daemon exits with its owning controller.
\<close>

definition tor_network :: "'t ctl \<Rightarrow> ('t \<Rightarrow> bool) \<Rightarrow> bool" where
  "tor_network ctl net \<longleftrightarrow>
    (\<forall>t r t'. ctl ''SETCONF DisableNetwork=1'' t = (Inr r, t') \<longrightarrow> \<not> net t') \<and>
    (\<forall>cmd t r t'. ctl cmd t = (r, t') \<and> net t' \<and> \<not> net t \<longrightarrow>
       cmd = ''SETCONF DisableNetwork=0'' \<and> (\<exists>rep. r = Inr rep))"

lemma tor_networkD:
  assumes "tor_network ctl net"
  shows "control_Do ctl ''SETCONF DisableNetwork=1'' s = (Inr r, s') \<Longrightarrow> \<not> net (sy_tor s')"
    and "control_Do ctl cmd s = (r', s') \<Longrightarrow> cmd \<noteq> ''SETCONF DisableNetwork=0'' \<Longrightarrow> \<not> net (sy_tor s) \<Longrightarrow> \<not> net (sy_tor s')"
    and "control_Do ctl cmd s = (Inl e, s') \<Longrightarrow> \<not> net (sy_tor s) \<Longrightarrow> \<not> net (sy_tor s')"
proof -
  have a: "ctl cmd t = (r, t') \<Longrightarrow> net t' \<Longrightarrow> \<not> net t \<Longrightarrow> cmd = ''SETCONF DisableNetwork=0'' \<and> (\<exists>rep. r = Inr rep)"
    for cmd t r t' using assms unfolding tor_network_def by blast
  have t: "control_Do ctl cmd s = (r, s') \<Longrightarrow> ctl cmd (sy_tor s) = (r, sy_tor s')" for cmd r
    by (auto simp: control_Do_def effect_def split: prod.splits)
  show "control_Do ctl ''SETCONF DisableNetwork=1'' s = (Inr r, s') \<Longrightarrow> \<not> net (sy_tor s')"
    using t assms unfolding tor_network_def by blast
  show "control_Do ctl cmd s = (r', s') \<Longrightarrow> cmd \<noteq> ''SETCONF DisableNetwork=0'' \<Longrightarrow> \<not> net (sy_tor s) \<Longrightarrow> \<not> net (sy_tor s')"
    "control_Do ctl cmd s = (Inl e, s') \<Longrightarrow> \<not> net (sy_tor s) \<Longrightarrow> \<not> net (sy_tor s')"
    using t a by blast+
qed

lemma control_Do_sys:
  "control_Do ctl cmd s = (r, s') \<Longrightarrow> sy_d s' = sy_d s \<and> sy_effects s' = sy_effects s @ [Command cmd]"
  by (auto simp: control_Do_def effect_def split: prod.splits)

lemma command_cases:
  assumes "command ctl cmd s = (r, s')"
  obtains (closed) "d_closed (sy_d s)" "r = Inl (Sentinel ErrClosed)" "s' = s"
  | (sent) "\<not> d_closed (sy_d s)" "control_Do ctl cmd s = (r, s')"
  using assms by (auto simp: command_def split: if_splits)

lemma Join_head: "\<exists>r. Join sep (x # xs) = x @ r"
  by (cases xs) auto

lemma bridgeSet_other: "bridgeSetCommand paths cfg \<noteq> ''SETCONF DisableNetwork=0''"
proof -
  obtain xs where "bridgeSetCommand paths cfg =
      Join '' '' (''SETCONF'' # (''UseBridges='' @ Itoa (bit (bc_UseBridges cfg))) # xs)"
    unfolding bridgeSetCommand_def by (simp only: append_Cons append_Nil)
  moreover obtain r where "Join '' '' ((''UseBridges='' @ Itoa (bit (bc_UseBridges cfg))) # xs) =
      (''UseBridges='' @ Itoa (bit (bc_UseBridges cfg))) @ r" using Join_head by blast
  ultimately show ?thesis by simp
qed

section \<open>Closing and rolling back do not enable networking\<close>

lemma tor_on_driver [simp]: "sy_tor (on_driver f s) = sy_tor s" "sy_tor (effect e s) = sy_tor s"
  by (simp_all add: on_driver_def effect_def)

lemma close_process_tor: "close_process env s = (b, s') \<Longrightarrow> sy_tor s' = sy_tor s"
  by (auto simp: close_process_def Let_def split: if_splits)

lemma close_run_net:
  assumes "tor_network ctl net" "\<not> net (sy_tor s)"
  shows "\<not> net (sy_tor (close_run ctl env s))"
proof -
  let ?s1 = "close_resources env (close_outbound env (on_driver (\<lambda>d. d\<lparr>d_closed := True\<rparr>) s))"
  obtain b s3 where p: "close_process env (close_control ctl env ?s1) = (b, s3)" by fastforce
  have "\<not> net (sy_tor (close_control ctl env ?s1))"
  proof (cases "d_control (sy_d ?s1)")
    case True
    obtain r s2 where c: "control_Do ctl ''SIGNAL SHUTDOWN'' ?s1 = (r, s2)" by fastforce
    have "\<not> net (sy_tor s2)" by (rule tor_networkD(2) [OF assms(1) c]) (simp_all add: assms(2) start_sys)
    with True c show ?thesis by (simp add: close_control_def)
  qed (use assms(2) in \<open>simp add: close_control_def start_sys\<close>)
  with close_process_tor [OF p] have "\<not> net (sy_tor s3)" by simp
  then show ?thesis using p by (simp add: close_run_def close_files_def close_box_def close_proxy_def)
qed

lemma driver_Close_done: "driver_Close ctl env s = (err, s') \<Longrightarrow> d_done (sy_d s')"
  by (auto simp: driver_Close_def Let_def close_run_def on_driver_def close_final_def split: if_splits prod.splits)

lemma driver_Close_net:
  "tor_network ctl net \<Longrightarrow> driver_Close ctl env s = (err, s') \<Longrightarrow> \<not> net (sy_tor s) \<Longrightarrow> \<not> net (sy_tor s')"
  using close_run_net by (auto simp: driver_Close_def Let_def split: if_splits)

lemma bridge_cfg_simps [simp]:
  "bridge_cfg (setActiveTransports ts d) = bridge_cfg d" "bridge_cfg (set_bridge_cfg bc d) = bc"
  "bridge_cfg (d\<lparr>d_logs := w\<rparr>) = bridge_cfg d" "bridge_cfg (d\<lparr>d_socks := e\<rparr>) = bridge_cfg d"
  by (simp_all add: bridge_cfg_def setActiveTransports_def set_bridge_cfg_def)

lemma rollback_spec:
  assumes "tor_network ctl net" "rollbackBridges ctl old desired s = (err, s')"
  shows "\<not> net (sy_tor s) \<longrightarrow> \<not> net (sy_tor s')"
    "bridge_cfg (sy_d s') \<in> {bridge_cfg (sy_d s), desired}" "d_done (sy_d s') = d_done (sy_d s)"
proof -
  obtain r s1 where c: "control_Do ctl (bridgeSetCommand (d_paths (sy_d s)) old) s = (r, s1)" by fastforce
  show "\<not> net (sy_tor s) \<longrightarrow> \<not> net (sy_tor s')"
    using tor_networkD(2) [OF assms(1) c bridgeSet_other] assms(2) c
    by (auto simp: rollbackBridges_def split: sum.splits)
  show "bridge_cfg (sy_d s') \<in> {bridge_cfg (sy_d s), desired}" "d_done (sy_d s') = d_done (sy_d s)"
    using assms(2) c control_Do_sys [OF c]
    by (auto simp: rollbackBridges_def on_driver_def setActiveTransports_def set_bridge_cfg_def split: sum.splits)
      (simp_all add: bridge_cfg_def)
qed

section \<open>The outcome of a change\<close>

text \<open>An outcome that is safe: networking is off or the driver is closed, and the recorded
  configuration is one of the two.\<close>

definition blocked :: "('t \<Rightarrow> bool) \<Rightarrow> bridge_config \<Rightarrow> bridge_config \<Rightarrow> 't sys \<Rightarrow> bool" where
  "blocked net old desired s \<longleftrightarrow> (\<not> net (sy_tor s) \<or> d_done (sy_d s)) \<and> bridge_cfg (sy_d s) \<in> {old, desired}"

lemma cfg_stages:
  "d_cfg (gate_stage env d) = d_cfg d" "d_cfg (resources_stage env d) = d_cfg d" "d_cfg (sy_d (close_proxy env s)) = d_cfg (sy_d s)"
  "d_cfg (sy_d (close_control ctl env s)) = d_cfg (sy_d s)" "d_cfg (sy_d (close_files env b s)) = d_cfg (sy_d s)"
  "d_cfg (sy_d (close_box env s)) = d_cfg (sy_d s)" "d_cfg (close_final d) = d_cfg d"
  "d_cfg (sy_d (snd (close_process env s))) = d_cfg (sy_d s)"
  using core_sel(1) [OF core_outbound [of env d]] core_sel(1) [OF core_resources [of env d]]
    core_sel(1) [OF core_proxy [of env "sy_d s"]] core_sel(1) [OF conjunct2 [OF stage_control [of ctl env s]]]
    core_sel(1) [OF conjunct2 [OF stage_files [of b s env]]] core_sel(1) [OF conjunct2 [OF stage_box [of s env]]]
    core_sel(1) [OF stage_process(2) [OF prod.collapse [symmetric], of env s]]
  by (simp_all add: close_final_def proxy_stage_sys)

lemma driver_Close_cfg:
  assumes "driver_Close ctl env s = (err, s')"
  shows "bridge_cfg (sy_d s') = bridge_cfg (sy_d s)"
proof -
  have o: "d_cfg (sy_d (on_driver f t)) = d_cfg (f (sy_d t))" for f and t :: "'a sys" by (simp add: on_driver_def)
  have "d_cfg (sy_d (close_run ctl env s)) = d_cfg (sy_d s)"
    unfolding close_run_def Let_def case_prod_beta by (simp only: o cfg_stages start_sys) simp
  then show ?thesis using assms by (auto simp: driver_Close_def Let_def bridge_cfg_def split: if_splits)
qed

lemma refresh_blocked:
  assumes "tor_network ctl net" "refresh_socks ctl env old desired s = (Some e, s')" "bridge_cfg (sy_d s) = old"
  shows "blocked net old desired s'"
proof -
  obtain r s1 where 1: "command ctl ''GETINFO net/listeners/socks'' s = (r, s1)" by fastforce
  have d1: "sy_d s1 = sy_d s" using 1 by (cases rule: command_cases) (auto dest: control_Do_sys)
  obtain er d where 2: "(case r of Inl e \<Rightarrow> (Some e, sy_d s1) | Inr rep \<Rightarrow> applySocksReply rep (sy_d s1)) = (er, d)" by fastforce
  have d: "bridge_cfg d = old"
    using 2 d1 assms(3) by (auto simp: applySocksReply_def split: sum.splits)
  obtain ee where ee: "er = Some ee"
    using assms(2) 1 2 by (cases er) (auto simp: refresh_socks_def errors_join_def split: prod.splits)
  obtain dis s2 where 3: "control_Do ctl ''SETCONF DisableNetwork=1'' (s1\<lparr>sy_d := d\<rparr>) = (dis, s2)" by fastforce
  obtain rerr s3 where 4: "rollbackBridges ctl old desired s2 = (rerr, s3)" by fastforce
  have c3: "bridge_cfg (sy_d s3) \<in> {old, desired}"
    using rollback_spec(2) [OF assms(1) 4] control_Do_sys [OF 3] d by simp
  show ?thesis
  proof (cases dis)
    case (Inr rep)
    then have "\<not> net (sy_tor s2)" using tor_networkD(1) [OF assms(1)] 3 by blast
    then have "\<not> net (sy_tor s3)" using rollback_spec(1) [OF assms(1) 4] by blast
    moreover have "s' = s3" using assms(2) 1 2 ee 3 4 Inr by (simp add: refresh_socks_def)
    ultimately show ?thesis using c3 by (simp add: blocked_def)
  next
    case (Inl f)
    obtain cerr s4 where 5: "driver_Close ctl env s3 = (cerr, s4)" by fastforce
    have "s' = s4" using assms(2) 1 2 ee 3 4 5 Inl by (simp add: refresh_socks_def)
    then show ?thesis using driver_Close_done [OF 5] driver_Close_cfg [OF 5] c3 by (simp add: blocked_def)
  qed
qed

lemma enable_blocked:
  assumes "tor_network ctl net" "enable_network ctl env old desired s = (Some e, s')" "bridge_cfg (sy_d s) = old"
    and "\<not> net (sy_tor s)"
  shows "blocked net old desired s'"
proof -
  obtain r s1 where 1: "command ctl ''SETCONF DisableNetwork=0'' s = (r, s1)" by fastforce
  have d1: "sy_d s1 = sy_d s" using 1 by (cases rule: command_cases) (auto dest: control_Do_sys)
  show ?thesis
  proof (cases r)
    case (Inl f)
    have n1: "\<not> net (sy_tor s1)"
      using 1 [unfolded Inl] assms(4) tor_networkD(3) [OF assms(1)] by (cases rule: command_cases) auto
    obtain rerr s2 where 2: "rollbackBridges ctl old desired s1 = (rerr, s2)" by fastforce
    have "s' = s2" using assms(2) 1 2 Inl by (simp add: enable_network_def)
    then show ?thesis using rollback_spec [OF assms(1) 2] n1 d1 assms(3) by (simp add: blocked_def)
  next
    case (Inr rep)
    then have "refresh_socks ctl env old desired s1 = (Some e, s')" using assms(2) 1 by (simp add: enable_network_def)
    from refresh_blocked [OF assms(1) this] d1 assms(3) show ?thesis by simp
  qed
qed

lemma socks_reply_numeric: "socks_reply r = Inr endpoint \<Longrightarrow> \<exists>a. numericEndpoint endpoint True = Inr a"
  by (auto simp: socks_reply_def split: option.splits sum.splits list.splits)

lemma command_ok: "command ctl cmd s = (Inr r, s') \<Longrightarrow> sy_d s' = sy_d s \<and> sy_effects s' = sy_effects s @ [Command cmd]"
  by (erule command_cases) (auto dest: control_Do_sys)

definition changed :: "bridge_config \<Rightarrow> driver \<Rightarrow> bool" where
  "changed desired d \<longleftrightarrow> bridge_cfg d = desired \<and> d_active d = bc_Transports desired \<and>
    (\<exists>a. numericEndpoint (d_socks d) True = Inr a)"

lemma refresh_ok:
  assumes "refresh_socks ctl env old desired s = (None, s')" "d_active (sy_d s) = bc_Transports desired"
  shows "changed desired (sy_d s')" "sy_effects s' = sy_effects s @ [Command ''GETINFO net/listeners/socks'']"
proof -
  obtain r s1 where 1: "command ctl ''GETINFO net/listeners/socks'' s = (r, s1)" by fastforce
  obtain er d where 2: "(case r of Inl e \<Rightarrow> (Some e, sy_d s1) | Inr rep \<Rightarrow> applySocksReply rep (sy_d s1)) = (er, d)" by fastforce
  have er: "er = None" using assms(1) 1 2 by (cases er) (auto simp: refresh_socks_def split: prod.splits sum.splits)
  then obtain rep where rep: "r = Inr rep" "applySocksReply rep (sy_d s1) = (None, d)" using 2 by (cases r) auto
  then obtain endpoint where e: "socks_reply rep = Inr endpoint" "d = (sy_d s1)\<lparr>d_socks := endpoint\<rparr>"
    by (auto simp: applySocksReply_def split: sum.splits)
  have s': "s' = s1\<lparr>sy_d := set_bridge_cfg desired d\<rparr>" using assms(1) 1 2 er by (simp add: refresh_socks_def)
  note c = command_ok [OF 1 [unfolded rep(1)]]
  have "d_active (set_bridge_cfg desired d) = d_active (sy_d s)" "d_socks (set_bridge_cfg desired d) = endpoint"
    using c by (simp_all add: set_bridge_cfg_def e(2))
  then show "changed desired (sy_d s')" using socks_reply_numeric [OF e(1)] assms(2) by (simp add: s' changed_def)
  show "sy_effects s' = sy_effects s @ [Command ''GETINFO net/listeners/socks'']" using c by (simp add: s')
qed

lemma change_spec:
  assumes "change_bridges ctl env (bridge_cfg (sy_d s)) desired s = (err, s')"
  shows "err = None \<Longrightarrow> changed desired (sy_d s') \<and> sy_effects s' = sy_effects s @ map Command
      [''SETCONF DisableNetwork=1'', bridgeSetCommand (d_paths (sy_d s)) desired, ''SETCONF DisableNetwork=0'',
       ''GETINFO net/listeners/socks'']"
    and "\<lbrakk>tor_network ctl net; err \<noteq> None\<rbrakk> \<Longrightarrow> s' = s \<or> blocked net (bridge_cfg (sy_d s)) desired s' \<or>
      (sy_effects s' = sy_effects s @ [Command ''SETCONF DisableNetwork=1''] \<and> sy_d s' = sy_d s \<and>
       \<not> (bc_UseBridges desired \<and> \<not> bc_UseBridges (bridge_cfg (sy_d s))))"
proof -
  let ?old = "bridge_cfg (sy_d s)"
  obtain r s1 where 1: "command ctl ''SETCONF DisableNetwork=1'' s = (r, s1)" by fastforce
  let ?s2 = "on_driver (\<lambda>d. d\<lparr>d_logs := addBridgeSecrets
      (bridgeLogSecrets (bc_Bridges ?old) @ bridgeLogSecrets (bc_Bridges desired)) (d_logs d)\<rparr>) s1"
  obtain r3 s3 where 3: "command ctl (bridgeSetCommand (d_paths (sy_d ?s2)) desired) ?s2 = (r3, s3)" by fastforce
  let ?s4 = "on_driver (setActiveTransports (bc_Transports desired)) s3"
  have def: "(err, s') = (case r of
       Inl e \<Rightarrow> if bc_UseBridges desired \<and> \<not> bc_UseBridges ?old
          then (case driver_Close ctl env s1 of (cerr, s2) \<Rightarrow>
            (errors_join [Some (Wrap ''tor-driver: disable networking before bridge change: '' e), cerr], s2))
          else (Some (Wrap ''tor-driver: disable networking before bridge change: '' e), s1)
     | Inr _ \<Rightarrow> (case r3 of
          Inl e \<Rightarrow> (Some (Wrap ''tor-driver: bridge change rejected; networking remains disabled: '' e), s3)
        | Inr _ \<Rightarrow> enable_network ctl env ?old desired ?s4))"
    using assms 1 3 by (cases r; cases r3) (simp_all add: change_bridges_def Let_def)
  show "changed desired (sy_d s') \<and> sy_effects s' = sy_effects s @ map Command
      [''SETCONF DisableNetwork=1'', bridgeSetCommand (d_paths (sy_d s)) desired, ''SETCONF DisableNetwork=0'',
       ''GETINFO net/listeners/socks'']" if none: "err = None"
  proof -
    obtain x y where rr: "r = Inr x" "r3 = Inr y"
      using def none by (cases r; cases r3) (auto split: if_splits prod.splits)
    with def none have en: "enable_network ctl env ?old desired ?s4 = (None, s')" by simp
    obtain r5 s5 where 5: "command ctl ''SETCONF DisableNetwork=0'' ?s4 = (r5, s5)" by fastforce
    then obtain z where z: "r5 = Inr z" using en by (cases r5) (auto simp: enable_network_def split: prod.splits)
    have rf: "refresh_socks ctl env ?old desired s5 = (None, s')" using en 5 z by (simp add: enable_network_def)
    note c1 = command_ok [OF 1 [unfolded rr]] and c3 = command_ok [OF 3 [unfolded rr]] and c5 = command_ok [OF 5 [unfolded z]]
    have "d_active (sy_d s5) = bc_Transports desired" using c5 by (simp add: on_driver_def setActiveTransports_def)
    from refresh_ok [OF rf this] c1 c3 c5 show ?thesis by (simp add: on_driver_def)
  qed
  show "s' = s \<or> blocked net ?old desired s' \<or>
      (sy_effects s' = sy_effects s @ [Command ''SETCONF DisableNetwork=1''] \<and> sy_d s' = sy_d s \<and>
       \<not> (bc_UseBridges desired \<and> \<not> bc_UseBridges ?old))" if tn: "tor_network ctl net" and ne: "err \<noteq> None"
  proof (cases r)
    case (Inl e)
    have d1: "s1 = s \<or> sy_effects s1 = sy_effects s @ [Command ''SETCONF DisableNetwork=1'']" "sy_d s1 = sy_d s"
      using 1 by (cases rule: command_cases, auto dest: control_Do_sys)+
    show ?thesis
    proof (cases "bc_UseBridges desired \<and> \<not> bc_UseBridges ?old")
      case True
      obtain cerr s2 where c: "driver_Close ctl env s1 = (cerr, s2)" by fastforce
      then have "s' = s2" using def Inl True by simp
      then show ?thesis using driver_Close_done [OF c] driver_Close_cfg [OF c] d1(2) by (simp add: blocked_def)
    next
      case False
      then have "s' = s1" using def Inl by auto
      then show ?thesis using d1 False by blast
    qed
  next
    case (Inr x)
    have sent: "control_Do ctl ''SETCONF DisableNetwork=1'' s = (Inr x, s1)"
      using 1 [unfolded Inr] by (cases rule: command_cases) auto
    have n: "\<not> net (sy_tor ?s2)" using tor_networkD(1) [OF tn sent] by simp
    have n3: "\<not> net (sy_tor s3)"
      using 3 n tor_networkD(2) [OF tn _ bridgeSet_other] by (cases rule: command_cases) auto
    have d3: "bridge_cfg (sy_d s3) = ?old"
      using 3 by (cases rule: command_cases) (auto simp: on_driver_def command_ok [OF 1 [unfolded Inr]] dest: control_Do_sys)
    show ?thesis
    proof (cases r3)
      case (Inl e)
      then have "s' = s3" using def Inr by simp
      then show ?thesis using n3 d3 by (simp add: blocked_def)
    next
      case (Inr y)
      obtain e where e: "err = Some e" using ne by blast
      have "enable_network ctl env ?old desired ?s4 = (Some e, s')" using def [symmetric] \<open>r = Inr x\<close> Inr e by simp
      from enable_blocked [OF tn this] n3 d3 show ?thesis by (simp add: on_driver_def)
    qed
  qed
qed

text \<open>
  C7. A bridge change either takes effect as a whole or fails closed. When \<^verbatim>\<open>SetBridges\<close>
  returns nil, the daemon was sent exactly four commands (disable networking, the one
  \<^verbatim>\<open>SETCONF\<close> with the complete configuration, enable networking, query the listener), the
  recorded configuration and the active transports are the accepted ones, and the SOCKS
  endpoint is a loopback address. When it returns an error, one of the following holds: the
  state is unchanged; the daemon's networking is disabled or the driver is closed, with the
  old or the new configuration recorded; or only the command to disable networking was
  sent, it failed, nothing was changed, and the change was not one from direct connections
  to bridges.
\<close>

theorem SetBridges_fails_closed:
  assumes "tor_network ctl net" "SetBridges vn ctl env cfg s = (err, s')"
  shows "(err = None \<longrightarrow> (\<exists>bridges warn. let desired = cfg\<lparr>bc_Bridges := bridges\<rparr> in
      validateBridgeConfig vn (bc_UseBridges cfg) (bc_Bridges cfg) (bc_Transports cfg) (Sandbox (d_cfg (sy_d s))) =
        Inr (bridges, bc_Transports cfg, warn) \<and>
      set (bc_Transports cfg) \<subseteq> set (d_approved (sy_d s)) \<and> changed desired (sy_d s') \<and>
      sy_effects s' = sy_effects s @ map Command
        [''SETCONF DisableNetwork=1'', bridgeSetCommand (d_paths (sy_d s)) desired, ''SETCONF DisableNetwork=0'',
         ''GETINFO net/listeners/socks''])) \<and>
    (err \<noteq> None \<longrightarrow> s' = s \<or> (\<exists>desired. blocked net (bridge_cfg (sy_d s)) desired s') \<or>
      (sy_effects s' = sy_effects s @ [Command ''SETCONF DisableNetwork=1''] \<and> sy_d s' = sy_d s \<and>
       \<not> (bc_UseBridges cfg \<and> \<not> UseBridges (d_cfg (sy_d s)))))"
proof (cases "validateBridgeConfig vn (bc_UseBridges cfg) (bc_Bridges cfg) (bc_Transports cfg) (Sandbox (d_cfg (sy_d s)))")
  case (Inl e)
  with assms(2) show ?thesis by (auto simp: SetBridges_def)
next
  case (Inr x)
  obtain bridges ts warn where x: "x = (bridges, ts, warn)" by (cases x)
  have ts: "ts = bc_Transports cfg" using validateBridgeConfig_valid [OF Inr [unfolded x]] by simp
  let ?d = "cfg\<lparr>bc_Bridges := bridges\<rparr>"
  have des: "\<lparr>bc_UseBridges = bc_UseBridges cfg, bc_Bridges = bridges, bc_Transports = ts\<rparr> = ?d"
    by (cases cfg) (simp add: ts)
  show ?thesis
  proof (cases "set ts \<subseteq> set (d_approved (sy_d s))")
    case False
    then have "\<exists>t \<in> set ts. t \<notin> set (d_approved (sy_d s))" by blast
    with assms(2) Inr x have "err \<noteq> None \<and> s' = s" by (auto simp: SetBridges_def)
    then show ?thesis by blast
  next
    case True
    then have "\<not> (\<exists>t \<in> set ts. t \<notin> set (d_approved (sy_d s)))" by blast
    then have "change_bridges ctl env (bridge_cfg (sy_d s)) ?d s = (err, s')"
      using assms(2) Inr x by (simp add: SetBridges_def des)
    note c = change_spec [OF this]
    have b: "bc_UseBridges (bridge_cfg (sy_d s)) = UseBridges (d_cfg (sy_d s))" "bc_UseBridges ?d = bc_UseBridges cfg"
      by (simp_all add: bridge_cfg_def)
    show ?thesis using c(1) c(2) [OF assms(1)] Inr x True ts unfolding Let_def b by blast
  qed
qed

text \<open>A daemon with one switch, for a run of a successful change.\<close>

definition switch_ctl :: "bool ctl" where
  "switch_ctl cmd t =
    (if cmd = ''SETCONF DisableNetwork=1'' then (Inr \<lparr>Code = 250, Lines = [''OK'']\<rparr>, False)
     else if cmd = ''SETCONF DisableNetwork=0'' then (Inr \<lparr>Code = 250, Lines = [''OK'']\<rparr>, True)
     else (Inl (ControlError 552), t))"

lemma switch_network: "tor_network switch_ctl (\<lambda>t. t)"
  by (auto simp: tor_network_def switch_ctl_def split: if_splits)

theorem SetBridges_fails_closed_witness:
  "\<exists>err s'. SetBridges (\<lambda>_. None) switch_ctl sample_close \<lparr>bc_UseBridges = False, bc_Bridges = [], bc_Transports = []\<rparr>
      \<lparr>sy_d = sample_driver, sy_tor = True, sy_effects = []\<rparr> = (err, s') \<and> err \<noteq> None \<and>
      (\<exists>desired. blocked (\<lambda>t. t) (bridge_cfg sample_driver) desired s') \<and> \<not> sy_tor s'"
proof -
  let ?cfg = "\<lparr>bc_UseBridges = False, bc_Bridges = [], bc_Transports = []\<rparr>"
  let ?s = "\<lparr>sy_d = sample_driver, sy_tor = True, sy_effects = []\<rparr>"
  obtain err s' where r: "SetBridges (\<lambda>_. None) switch_ctl sample_close ?cfg ?s = (err, s')" by fastforce
  have "bridgeSetCommand [] ?cfg = ''SETCONF UseBridges=0 ClientTransportPlugin Bridge''" by code_simp
  then have e: "err \<noteq> None" "\<not> sy_tor s'" "sy_effects s' = [Command ''SETCONF DisableNetwork=1'',
      Command ''SETCONF UseBridges=0 ClientTransportPlugin Bridge'']"
    using r by (auto simp: SetBridges_def validateBridgeConfig_def change_bridges_def command_def control_Do_def
        switch_ctl_def effect_def on_driver_def Let_def sample_driver_def)
  with SetBridges_fails_closed [OF switch_network r] r show ?thesis by auto
qed

section \<open>The command\<close>

lemma clean_bridgeLine:
  assumes "valid_bridge r b"
  shows "\<not> injection (bridgeLine b)"
proof -
  obtain a where "numericEndpoint (Address b) False = Inr a" using assms by (auto simp: valid_bridge_def)
  then have "\<not> injection (Address b)"
    by (intro clean_chars [OF numericEndpoint_chars]) (auto simp: addr_char_def hex_char_range)
  moreover have "validFingerprint f \<Longrightarrow> \<not> injection f" for f
    by (rule clean_chars [OF validFingerprint_chars]) (auto simp: hex_char_range)
  moreover have "\<not> injection (b64_encode cert)" for cert
    unfolding injection_bytes using b64_codec.enc_alphabet [of cert]
    by (fastforce simp: b64_alphabet_def b64_val_def split: if_splits)
  ultimately show ?thesis
    using assms by (auto simp: bridgeLine_def valid_bridge_def clean_rules)
qed

text \<open>
  The command that sets the bridges is always one command line: for a validated bridge
  configuration, and program paths without line breaks and NUL bytes, the control client
  does not reject it as an injection.
\<close>

theorem bridge_command_one_line:
  assumes "validateBridgeConfig vn use bs ts sb = Inr (bridges, transports, warn)"
    and "\<forall>p path. map_of paths p = Some path \<longrightarrow> \<not> injection path"
  shows "\<not> injection (bridgeSetCommand paths
    \<lparr>bc_UseBridges = use, bc_Bridges = bridges, bc_Transports = transports\<rparr>)"
proof -
  have "\<forall>b \<in> set bridges. \<not> injection (bridgeLine b)"
    using validateBridgeConfig_valid [OF assms(1)] clean_bridgeLine by (auto simp: valid_bridging_def)
  then show ?thesis
    using assms(2) unfolding bridgeSetCommand_def
    by (intro clean_Join) (auto simp: clean_rules bridgeLines_def split: option.splits)
qed

theorem bridge_command_one_line_witness:
  "\<not> injection (bridgeSetCommand [(''obfs4'', ''/bin/obfs4'')]
    \<lparr>bc_UseBridges = False, bc_Bridges = [], bc_Transports = [\<lparr>Kind = Obfs4, Program = ''obfs4''\<rparr>]\<rparr>)"
proof -
  have v: "validateBridgeConfig (\<lambda>_. None) False [] [\<lparr>Kind = Obfs4, Program = ''obfs4''\<rparr>] 0 =
      Inr ([], [\<lparr>Kind = Obfs4, Program = ''obfs4''\<rparr>], [])" by code_simp
  have p: "\<forall>p path. map_of [(''obfs4'', ''/bin/obfs4'')] p = Some path \<longrightarrow> \<not> injection path"
    by (simp add: clean_rules)
  from bridge_command_one_line [OF v p] show ?thesis .
qed

end
