(* ===== verification/Tor_Driver_Events.thy ===== *)
theory Tor_Driver_Events
  imports Tor_Driver "HOL-Library.AList"
begin

text \<open>
  What the driver makes of Tor's asynchronous control events (driver_events.go), and the
  client side of protected onion services (client_auth.go). A handler returns the driver
  and, for a descriptor event, the service that has to be told, by its number.
\<close>

section \<open>Status events\<close>

text \<open>\<^verbatim>\<open>args[key]\<close>: a missing key reads as the empty string.\<close>

definition arg :: "(string \<Rightarrow> string option) \<Rightarrow> string \<Rightarrow> string" where
  "arg args key = (case args key of None \<Rightarrow> [] | Some v \<Rightarrow> v)"

definition activeTransports :: "driver \<Rightarrow> transport_config list" where
  "activeTransports d = d_active d"

definition publishTransport :: "string \<Rightarrow> transport_state \<Rightarrow> event_severity \<Rightarrow> driver \<Rightarrow> driver" where
  "publishTransport name state severity d =
    (if name = Obfs4 then publishDriverEvent (TransportEvent name state severity) d
     else case activeTransports d of
         [t] \<Rightarrow> publishDriverEvent (TransportEvent (Kind t) state severity) d
       | _ \<Rightarrow> d)"

text \<open>The bootstrap event of a \<^verbatim>\<open>STATUS_CLIENT\<close> line, if it is well formed.\<close>

definition bootstrap_event :: "casemap \<Rightarrow> string list \<Rightarrow> driver_event option" where
  "bootstrap_event U words =
    (if length words < 3 \<or> words ! 2 \<noteq> ''BOOTSTRAP'' then None
     else case eventSeverity U (words ! 1) of
         (severity, ok) \<Rightarrow>
           if \<not> ok then None
           else let args = eventArguments (drop 3 words)
             in (case ParseUint 8 (arg args ''PROGRESS'') of
                   None \<Rightarrow> None
                 | Some progress \<Rightarrow>
                     if 100 < progress \<or> \<not> safeEventToken (arg args ''TAG'') then None
                     else Some (BootstrapEvent (of_nat progress) (arg args ''TAG'') severity
                       (if safeEventToken (arg args ''REASON'') then arg args ''REASON'' else []))))"

definition handleStatusClient :: "casemap \<Rightarrow> string list \<Rightarrow> driver \<Rightarrow> driver" where
  "handleStatusClient U words d =
    (case bootstrap_event U words of
       None \<Rightarrow> d
     | Some event \<Rightarrow>
         let d1 = publishDriverEvent event (d\<lparr>d_bootstrap := Some event\<rparr>)
         in if ev_severity event \<noteq> EventNotice \<and> Contains (ToUpper U (ev_problem event)) ''PT''
            then publishTransport [] TransportFailed (ev_severity event) d1 else d1)"

section \<open>Descriptor events\<close>

definition validServiceID :: "string \<Rightarrow> bool" where
  "validServiceID i \<longleftrightarrow> length i = 56 \<and> Trim i ''abcdefghijklmnopqrstuvwxyz234567'' = []"

definition descriptorLimit :: nat where "descriptorLimit = 256"

definition publication_event :: "string list \<Rightarrow> service_event option" where
  "publication_event words =
    (if words ! 1 = ''CREATED'' \<or> words ! 1 = ''UPLOAD'' then Some (PublicationEvent PublicationPending [])
     else if words ! 1 = ''UPLOADED'' then Some (PublicationEvent PublicationPublished [])
     else if words ! 1 = ''FAILED'' then
       (let reason = arg (eventArguments (drop 3 words)) ''REASON''
        in Some (PublicationEvent PublicationFailed (if safeEventToken reason then reason else [])))
     else None)"

definition record_descriptor :: "string \<Rightarrow> service_event \<Rightarrow> driver \<Rightarrow> driver" where
  "record_descriptor i event d =
    (if length (d_descriptors d) < descriptorLimit
     then d\<lparr>d_descriptors := AList.update i event (d_descriptors d)\<rparr> else d)"

definition handleDescriptorEvent :: "string list \<Rightarrow> driver \<Rightarrow> (nat \<times> service_event) option \<times> driver" where
  "handleDescriptorEvent words d =
    (if length words < 3 \<or> \<not> validServiceID (words ! 2) then (None, d)
     else case publication_event words of
         None \<Rightarrow> (None, d)
       | Some event \<Rightarrow>
           (map_option (\<lambda>(s, _). (s, event)) (find (\<lambda>(_, i). i = words ! 2) (d_services d)),
            record_descriptor (words ! 2) event d))"

section \<open>The dispatcher\<close>

text \<open>
  The loop over the arguments of a \<^verbatim>\<open>PT_STATUS\<close> event. Its result does not depend on the
  order of Go's map iteration; the keys of the map are among those of the words.
\<close>

definition arg_keys :: "string list \<Rightarrow> string list" where
  "arg_keys ws = cat_options (map (\<lambda>w. map_option fst (Cut (CHR ''='') w)) ws)"

definition pt_failed :: "casemap \<Rightarrow> string list \<Rightarrow> bool" where
  "pt_failed U ws \<longleftrightarrow>
    list_ex (\<lambda>key. key \<noteq> ''PT'' \<and> key \<noteq> ''TRANSPORT'' \<and>
      (case eventArguments ws key of
         None \<Rightarrow> False
       | Some v \<Rightarrow> Contains (ToUpper U v) ''FAIL'' \<or> Contains (ToUpper U v) ''ERROR'')) (arg_keys ws)"

definition handleControlEvent ::
  "casemap \<Rightarrow> event \<Rightarrow> driver \<Rightarrow> (nat \<times> service_event) option \<times> driver" where
  "handleControlEvent U event d =
    (if event = [] then (None, d)
     else case controlWords (event ! 0) of
         Inl _ \<Rightarrow> (None, d)
       | Inr [] \<Rightarrow> (None, d)
       | Inr (kind # ws) \<Rightarrow>
           if kind = ''STATUS_CLIENT'' then (None, handleStatusClient U (kind # ws) d)
           else if kind = ''HS_DESC'' then handleDescriptorEvent (kind # ws) d
           else if kind = ''TRANSPORT_LAUNCHED'' then
             (None, if 2 \<le> length ws \<and> ws ! 0 = ''client''
                    then publishTransport (ws ! 1) TransportReady EventNotice d else d)
           else if kind = ''PT_LOG'' then
             (None, case eventSeverity U (arg (eventArguments ws) ''SEVERITY'') of
                 (severity, ok) \<Rightarrow>
                   if ok \<and> severity = EventError then publishTransport [] TransportFailed severity d else d)
           else if kind = ''PT_STATUS'' then
             (None, if pt_failed U ws
                    then publishTransport (arg (eventArguments ws) ''TRANSPORT'') TransportFailed EventError d
                    else publishTransport (arg (eventArguments ws) ''TRANSPORT'') TransportReady EventNotice d)
           else (None, d))"

text \<open>\<^verbatim>\<open>controlEventLoop\<close> on the events that arrive before the connection or the driver ends.\<close>

fun controlEventLoop :: "casemap \<Rightarrow> event list \<Rightarrow> driver \<Rightarrow> (nat \<times> service_event) list \<times> driver" where
  "controlEventLoop U [] d = ([], d)"
| "controlEventLoop U (e # es) d =
    (case handleControlEvent U e d of
       (told, d1) \<Rightarrow>
         (case controlEventLoop U es d1 of (rest, d2) \<Rightarrow> (cat_options [told] @ rest, d2)))"

section \<open>Client authorization\<close>

definition driver_GenerateClientAuthorization ::
  "u8 list res option \<Rightarrow> string \<Rightarrow> driver \<Rightarrow> client_authorization res" where
  "driver_GenerateClientAuthorization generated name d =
    (if d_closed d then Inl (Sentinel ErrClosed) else GenerateClientAuthorization generated name)"

definition normalizeOnionAddress :: "casemap \<Rightarrow> string \<Rightarrow> string res" where
  "normalizeOnionAddress L address =
    (let i = ToLower L (TrimSuffix address ''.onion'')
     in if validServiceID i then Inr i else Inl (Msg ''tor-driver: invalid v3 onion address''))"

definition auth_add_command :: "string \<Rightarrow> string \<Rightarrow> string \<Rightarrow> string" where
  "auth_add_command i private name =
    ''ONION_CLIENT_AUTH_ADD '' @ i @ '' x25519:'' @ private @
    (if name \<noteq> [] then '' ClientName='' @ name else [])"

text \<open>The error of a command, unless the reply has one of the codes that mean success.\<close>

definition accept_codes :: "int list \<Rightarrow> reply res \<Rightarrow> goerr option" where
  "accept_codes codes r =
    (case r of
       Inr _ \<Rightarrow> None
     | Inl e \<Rightarrow>
         (case errors_as_control e of
            Some c \<Rightarrow> if c \<in> set codes then None else Some e
          | None \<Rightarrow> Some e))"

definition AddClientAuthorization ::
  "casemap \<Rightarrow> x25519 \<Rightarrow> 't ctl \<Rightarrow> string \<Rightarrow> client_authorization \<Rightarrow> 't sys \<Rightarrow> goerr option \<times> 't sys" where
  "AddClientAuthorization L curve ctl address a s =
    (case normalizeOnionAddress L address of
       Inl e \<Rightarrow> (Some e, s)
     | Inr i \<Rightarrow>
         (case validateClientAuthorization curve a of
            Some e \<Rightarrow> (Some e, s)
          | None \<Rightarrow>
              (case private_MarshalText (PrivateKey a) of
                 Inl e \<Rightarrow> (Some e, s)
               | Inr private \<Rightarrow>
                   (case command ctl (auth_add_command i private (auth_Name a)) s of
                      (r, s1) \<Rightarrow> (accept_codes [251, 252] r, s1)))))"

definition RemoveClientAuthorization ::
  "casemap \<Rightarrow> 't ctl \<Rightarrow> string \<Rightarrow> 't sys \<Rightarrow> goerr option \<times> 't sys" where
  "RemoveClientAuthorization L ctl address s =
    (case normalizeOnionAddress L address of
       Inl e \<Rightarrow> (Some e, s)
     | Inr i \<Rightarrow>
         (case command ctl (''ONION_CLIENT_AUTH_REMOVE '' @ i) s of
            (r, s1) \<Rightarrow> (accept_codes [251] r, s1)))"

end
