(* ===== verification/Tor_Driver_Events_Proofs.thy ===== *)
theory Tor_Driver_Events_Proofs
  imports Tor_Driver_Events Tor_Driver_Proofs Tor_Command_Text
begin

text \<open>
  Whatever Tor sends, the driver only records and publishes checked values; a bootstrap
  line as Tor prints it is recorded exactly; and client authorization commands carry the
  credential they were given, on one line.
\<close>

section \<open>What is published\<close>

text \<open>A text of an event that may be empty.\<close>

definition token_or_empty :: "string \<Rightarrow> bool" where
  "token_or_empty s \<longleftrightarrow> s = [] \<or> safeEventToken s"

fun event_safe :: "string list \<Rightarrow> driver_event \<Rightarrow> bool" where
  "event_safe kinds (BootstrapEvent progress tag severity problem) \<longleftrightarrow>
    unat progress \<le> 100 \<and> safeEventToken tag \<and> token_or_empty problem"
| "event_safe kinds (TransportEvent kind state severity) \<longleftrightarrow> kind = Obfs4 \<or> kind \<in> set kinds"
| "event_safe kinds _ \<longleftrightarrow> False"

fun publication_safe :: "service_event \<Rightarrow> bool" where
  "publication_safe (PublicationEvent state problem) \<longleftrightarrow> token_or_empty problem"

text \<open>The transports that the driver runs.\<close>

definition kinds :: "driver \<Rightarrow> string list" where
  "kinds d = map Kind (d_active d)"

definition descriptors_ok :: "driver \<Rightarrow> bool" where
  "descriptors_ok d \<longleftrightarrow> distinct (map fst (d_descriptors d)) \<and> length (d_descriptors d) \<le> descriptorLimit \<and>
    (\<forall>(i, ev) \<in> set (d_descriptors d). validServiceID i \<and> publication_safe ev)"

text \<open>The driver without what control events may change.\<close>

definition frame :: "driver \<Rightarrow> driver" where
  "frame d = core (d\<lparr>d_bootstrap := None, d_descriptors := []\<rparr>)"

definition bootstrap_ok :: "driver \<Rightarrow> bool" where
  "bootstrap_ok d \<longleftrightarrow> (\<forall>ev. d_bootstrap d = Some ev \<longrightarrow> event_safe (kinds d) ev)"

text \<open>The relation between the driver before and after events that were handled safely.\<close>

definition handled :: "driver \<Rightarrow> driver \<Rightarrow> bool" where
  "handled d d' \<longleftrightarrow> (driver_inv d \<longrightarrow> driver_inv d') \<and> (descriptors_ok d \<longrightarrow> descriptors_ok d') \<and>
    (bootstrap_ok d \<longrightarrow> bootstrap_ok d') \<and>
    (\<exists>evs. list_all (event_safe (kinds d)) evs \<and> d_recent d' = fold push_recent evs (d_recent d)) \<and>
    frame d' = frame d"

lemma frame_sel:
  assumes "frame d = frame d'"
  shows "d_active d = d_active d'" "d_services d = d_services d'" "d_closed d = d_closed d'" "d_gate d = d_gate d'"
    "d_cfg d = d_cfg d'" "d_socks d = d_socks d'" "d_done d = d_done d'"
  using assms by (cases d; cases d'; simp add: frame_def core_def)+

lemma handled_refl [simp]: "handled d d"
  unfolding handled_def by (auto intro: exI [of _ "[]"])

lemma handled_trans:
  assumes "handled d d1" "handled d1 d2"
  shows "handled d d2"
proof -
  obtain es es' where "list_all (event_safe (kinds d)) es" "d_recent d1 = fold push_recent es (d_recent d)"
    "list_all (event_safe (kinds d1)) es'" "d_recent d2 = fold push_recent es' (d_recent d1)"
    using assms unfolding handled_def by blast
  moreover have "kinds d1 = kinds d"
    using assms(1) frame_sel(1) [of d1 d] by (simp add: handled_def kinds_def)
  ultimately have "list_all (event_safe (kinds d)) (es @ es') \<and> d_recent d2 = fold push_recent (es @ es') (d_recent d)"
    by simp
  then show ?thesis using assms unfolding handled_def by metis
qed

lemma frame_publish: "frame (publishDriverEvent ev d) = frame d"
  by (simp add: frame_def core_def publishDriverEvent_eq)

lemma kinds_publish [simp]: "kinds (publishDriverEvent ev d) = kinds d"
  by (simp add: kinds_def)

lemma bootstrap_publish [simp]: "d_bootstrap (publishDriverEvent ev d) = d_bootstrap d"
  by (simp add: publishDriverEvent_eq)

lemma handled_publish:
  assumes "event_safe (kinds d) ev"
  shows "handled d (publishDriverEvent ev d)"
proof -
  have "d_recent (publishDriverEvent ev d) = fold push_recent [ev] (d_recent d)"
    by (simp add: publishDriverEvent_eq)
  moreover have "list_all (event_safe (kinds d)) [ev]" using assms by simp
  moreover have "descriptors_ok d \<longrightarrow> descriptors_ok (publishDriverEvent ev d)"
    by (simp add: descriptors_ok_def)
  moreover have "bootstrap_ok d \<longrightarrow> bootstrap_ok (publishDriverEvent ev d)"
    by (simp add: bootstrap_ok_def)
  ultimately show ?thesis
    unfolding handled_def using driver_inv_publish frame_publish by blast
qed

lemma handled_transport: "handled d (publishTransport name state severity d)"
  by (auto simp: publishTransport_def activeTransports_def kinds_def split: list.splits intro!: handled_publish)

lemma handled_bootstrap:
  assumes "event_safe (kinds d) ev"
  shows "handled d (d\<lparr>d_bootstrap := Some ev\<rparr>)"
proof -
  have "driver_inv d \<longrightarrow> driver_inv (d\<lparr>d_bootstrap := Some ev\<rparr>)" by (simp add: driver_inv_def)
  moreover have "bootstrap_ok (d\<lparr>d_bootstrap := Some ev\<rparr>)" using assms by (simp add: bootstrap_ok_def kinds_def)
  moreover have "frame (d\<lparr>d_bootstrap := Some ev\<rparr>) = frame d" by (simp add: frame_def core_def)
  ultimately show ?thesis
    by (auto simp: handled_def descriptors_ok_def intro: exI [of _ "[]"])
qed

lemma bootstrap_event_safe:
  assumes "bootstrap_event U ws = Some ev"
  shows "event_safe ks ev"
proof -
  obtain n tag sev p where ev: "ev = BootstrapEvent (of_nat n) tag sev p" "n \<le> 100"
      "safeEventToken tag" "token_or_empty p"
    using assms by (auto simp: bootstrap_event_def Let_def token_or_empty_def split: if_splits prod.splits option.splits)
  then show ?thesis by (simp add: unat_of_nat)
qed

lemma handled_status: "handled d (handleStatusClient U ws d)"
proof (cases "bootstrap_event U ws")
  case (Some ev)
  let ?d1 = "d\<lparr>d_bootstrap := Some ev\<rparr>"
  have safe: "event_safe ks ev" for ks by (rule bootstrap_event_safe [OF Some])
  have "handled d (publishDriverEvent ev ?d1)"
    by (rule handled_trans [OF handled_bootstrap [OF safe] handled_publish [OF safe]])
  then show ?thesis
    using handled_trans [OF _ handled_transport] by (auto simp: handleStatusClient_def Some Let_def)
qed (simp add: handleStatusClient_def)

lemma publication_event_safe: "publication_event ws = Some ev \<Longrightarrow> publication_safe ev"
  by (auto simp: publication_event_def token_or_empty_def Let_def split: if_splits)

lemma descriptors_record:
  assumes "descriptors_ok d" "validServiceID i" "publication_safe ev"
  shows "descriptors_ok (record_descriptor i ev d)"
proof (cases "length (d_descriptors d) < descriptorLimit")
  case True
  let ?xs = "d_descriptors d"
  have "length (AList.update i ev xs) \<le> Suc (length xs)" for xs by (induction xs) auto
  from order_trans [OF this] True have len: "length (AList.update i ev ?xs) \<le> descriptorLimit" by simp
  have "x \<in> set (AList.update i ev xs) \<Longrightarrow> x = (i, ev) \<or> x \<in> set xs" for x xs
    by (induction xs) (auto split: if_splits)
  then have "\<forall>(j, x) \<in> set (AList.update i ev ?xs). validServiceID j \<and> publication_safe x"
    using assms by (fastforce simp: descriptors_ok_def)
  then show ?thesis
    using assms(1) len True by (simp add: descriptors_ok_def record_descriptor_def distinct_update)
qed (use assms in \<open>simp add: record_descriptor_def\<close>)

lemma handled_descriptor:
  assumes "handleDescriptorEvent ws d = (told, d')"
  shows "handled d d' \<and> (\<forall>s ev. told = Some (s, ev) \<longrightarrow> s \<in> fst ` set (d_services d) \<and> publication_safe ev)"
proof (cases "length ws < 3 \<or> \<not> validServiceID (ws ! 2) \<or> publication_event ws = None")
  case True
  with assms show ?thesis by (auto simp: handleDescriptorEvent_def split: if_splits)
next
  case False
  then obtain ev where ev: "publication_event ws = Some ev" "validServiceID (ws ! 2)" by blast
  have d': "d' = record_descriptor (ws ! 2) ev d"
    and told: "told = map_option (\<lambda>(s, _). (s, ev)) (find (\<lambda>(_, i). i = ws ! 2) (d_services d))"
    using assms False ev by (auto simp: handleDescriptorEvent_def)
  have safe: "publication_safe ev" by (rule publication_event_safe [OF ev(1)])
  have "driver_inv d \<longrightarrow> driver_inv d'" by (simp add: d' driver_inv_def record_descriptor_def)
  moreover have "frame d' = frame d" "d_recent d' = d_recent d" "bootstrap_ok d \<longrightarrow> bootstrap_ok d'"
    by (simp_all add: d' record_descriptor_def frame_def core_def bootstrap_ok_def kinds_def)
  ultimately have "handled d d'"
    using descriptors_record [OF _ ev(2) safe] d' by (auto simp: handled_def intro: exI [of _ "[]"])
  moreover have "s \<in> fst ` set (d_services d)" if t: "told = Some (s, x)" for s x
    using t unfolding told by (auto simp: find_Some_iff image_iff) (metis fst_conv nth_mem)
  ultimately show ?thesis using told safe by auto
qed

lemma handled_event:
  assumes "handleControlEvent U e d = (told, d')"
  shows "handled d d' \<and> (\<forall>s ev. told = Some (s, ev) \<longrightarrow> s \<in> fst ` set (d_services d) \<and> publication_safe ev)"
proof (cases "e \<noteq> [] \<and> (\<exists>ws. controlWords (e ! 0) = Inr (''HS_DESC'' # ws))")
  case True
  then show ?thesis using handled_descriptor assms by (auto simp: handleControlEvent_def)
next
  case False
  then have "told = None \<and> (d' = d \<or> (\<exists>ws. d' = handleStatusClient U ws d) \<or>
      (\<exists>n st sv. d' = publishTransport n st sv d))"
    using assms unfolding handleControlEvent_def
    by (auto split: if_splits sum.splits list.splits prod.splits)
  then show ?thesis using handled_status handled_transport by auto
qed

lemma loop_handled:
  assumes "controlEventLoop U es d = (told, d')"
  shows "handled d d' \<and> (\<forall>(s, ev) \<in> set told. s \<in> fst ` set (d_services d) \<and> publication_safe ev)"
  using assms
proof (induction es arbitrary: d told)
  case (Cons e es)
  obtain t d1 where h: "handleControlEvent U e d = (t, d1)" by fastforce
  obtain more' d2 where l: "controlEventLoop U es d1 = (more', d2)" by fastforce
  have d2: "d' = d2" "told = cat_options [t] @ more'" using Cons.prems h l by auto
  from handled_event [OF h] have 1: "handled d d1" and
    t: "\<forall>s ev. t = Some (s, ev) \<longrightarrow> s \<in> fst ` set (d_services d) \<and> publication_safe ev" by blast+
  have "d_services d1 = d_services d" using 1 frame_sel(2) [of d1 d] by (simp add: handled_def)
  with Cons.IH [of d1 more'] l d2(1) have 2: "handled d1 d'"
    "\<forall>(s, ev) \<in> set more'. s \<in> fst ` set (d_services d) \<and> publication_safe ev" by auto
  show ?case using handled_trans [OF 1 2(1)] 2(2) t d2(2) by (auto simp: set_cat_options)
qed simp

text \<open>
  C17. Whatever Tor sends, the driver stays sound and passes only checked values on. For
  every sequence of asynchronous events, of any text, the loop keeps the driver's invariant
  and at most 256 cached descriptors, of valid service identifiers; it publishes only
  bootstrap events with a progress of at most 100 and token texts, and transport events of
  obfs4 or of the one transport that runs; it tells only registered services, with checked
  texts; and it changes nothing else of the driver.
\<close>

theorem control_events_safe:
  assumes "controlEventLoop U es d = (told, d')" "driver_inv d" "descriptors_ok d" "bootstrap_ok d"
  shows "driver_inv d' \<and> descriptors_ok d' \<and> bootstrap_ok d' \<and> frame d' = frame d \<and>
    (\<exists>evs. list_all (event_safe (kinds d)) evs \<and> d_recent d' = last_n recentLimit (d_recent d @ evs)) \<and>
    (\<forall>(s, ev) \<in> set told. s \<in> fst ` set (d_services d) \<and> publication_safe ev)"
proof -
  note loop_handled [OF assms(1)]
  moreover have "fold push_recent evs (d_recent d) = last_n recentLimit (d_recent d @ evs)" for evs
    using recent.pushes_view [of "d_recent d" evs] assms(2) by (simp add: driver_inv_def)
  ultimately show ?thesis using assms(2-4) unfolding handled_def by auto
qed

theorem control_events_safe_witness:
  "\<exists>told d'. controlEventLoop (\<lambda>n. n) [[''STATUS_CLIENT NOTICE BOOTSTRAP PROGRESS=5 TAG=conn'']] sample_driver = (told, d') \<and>
    driver_inv d' \<and> bootstrap_ok d'"
proof -
  obtain told d' where l: "controlEventLoop (\<lambda>n. n)
      [[''STATUS_CLIENT NOTICE BOOTSTRAP PROGRESS=5 TAG=conn'']] sample_driver = (told, d')" by fastforce
  have "descriptors_ok sample_driver" "bootstrap_ok sample_driver"
    by (simp_all add: sample_driver_def descriptors_ok_def bootstrap_ok_def descriptorLimit_def)
  from control_events_safe [OF l sample_driver_inv this] l show ?thesis by blast
qed

section \<open>Bootstrap lines\<close>

text \<open>Tor prints the arguments of a status event either as \<open>KEY=token\<close> or as \<open>KEY="text"\<close>.\<close>

fun status_arg :: "bool \<times> string \<times> string \<Rightarrow> string" where
  "status_arg (quoted, k, v) = (if quoted then print_arg (k, v) else k @ CHR ''='' # v)"

fun status_arg_ok :: "bool \<times> string \<times> string \<Rightarrow> bool" where
  "status_arg_ok (quoted, k, v) \<longleftrightarrow> (if quoted then arg_ok (k, v) else safeEventToken k \<and> safeEventToken v)"

lemma token_plain: "safeEventToken k \<Longrightarrow> list_all (\<lambda>c. c \<noteq> CHR '' '' \<and> c \<noteq> CHR 0x22) k"
  by (auto simp: safeEventToken_bytes list_all_iff token_rune_def)

lemma plain_whole_word:
  assumes "list_all (\<lambda>c. c \<noteq> CHR '' '' \<and> c \<noteq> CHR 0x22) w" "w \<noteq> []"
  shows "whole_word w"
proof -
  have "word_scan False False acc (w @ s) = (acc @ w, s, False)" if "s = [] \<or> hd s = CHR '' ''" for acc s
    using word_scan_plain [OF assms(1), of acc s] word_scan_stop [OF that] by simp
  then show ?thesis using assms by (cases w) (auto simp: whole_word_def)
qed

lemma status_arg_word:
  assumes "status_arg_ok a"
  shows "whole_word (status_arg a)"
proof (cases a)
  case (fields quoted k v)
  show ?thesis
  proof (cases quoted)
    case False
    then have "list_all (\<lambda>c. c \<noteq> CHR '' '' \<and> c \<noteq> CHR 0x22) (k @ CHR ''='' # v)"
      using assms fields token_plain [of k] token_plain [of v] by simp
    with plain_whole_word [OF this] show ?thesis using False fields by simp
  qed (use assms fields print_arg_word [of "(k, v)"] in simp)
qed

lemma status_args:
  "list_all status_arg_ok as \<Longrightarrow> eventArguments_from m (map status_arg as) = m ++ map_of (rev (map snd as))"
proof (induction as arbitrary: m)
  case (Cons a as)
  obtain quoted k v where a: "a = (quoted, k, v)" by (cases a) auto
  have rest: "eventArguments_from m' (map status_arg as) = m' ++ map_of (rev (map snd as))" for m'
    using Cons by simp
  have "eventArguments_from m (status_arg a # ws) = eventArguments_from (m(k \<mapsto> v)) ws" for ws
  proof (cases quoted)
    case True
    with Cons.prems eventArguments_step [of k v m ws] show ?thesis by (simp add: a del: eventArguments_from.simps)
  next
    case False
    with Cons.prems have k: "safeEventToken k" "safeEventToken v" by (simp_all add: a)
    then have "CHR ''='' \<notin> set k" "\<not> HasPrefix v [CHR 0x22]"
      by (auto simp: safeEventToken_bytes list_all_iff token_rune_def HasPrefix_iff)
    then show ?thesis using k(1) False by (simp add: a Cut_append)
  qed
  then show ?case using rest by (simp add: a)
qed simp

text \<open>The transport event that follows a bootstrap problem of a pluggable transport.\<close>

definition transport_problem :: "casemap \<Rightarrow> event_severity \<Rightarrow> string \<Rightarrow> driver \<Rightarrow> driver_event list" where
  "transport_problem U severity problem d =
    (if severity \<noteq> EventNotice \<and> Contains (ToUpper U problem) ''PT'' \<and> length (d_active d) = 1
     then [TransportEvent (Kind (hd (d_active d))) TransportFailed severity] else [])"

text \<open>
  A bootstrap line as Tor prints it is recorded and published exactly: for a
  \<^verbatim>\<open>STATUS_CLIENT\<close> event with a known severity and arguments in any order, quoted or plain,
  among them a progress of at most 100 and a token tag, the driver's bootstrap state and the
  published event carry this progress, tag and severity, and the reason if it is a token; a
  problem of a pluggable transport is published as a failure of the one running transport
  too. Nothing else happens.
\<close>

theorem bootstrap_line_recorded:
  assumes "text_line = Join '' '' ([''STATUS_CLIENT'', sev, ''BOOTSTRAP''] @ map status_arg as)"
    and "list_all status_arg_ok as" "list_all token_rune (map byte sev)"
    and "eventSeverity U sev = (severity, True)"
    and "map_of (rev (map snd as)) ''PROGRESS'' = Some (dec n)" "n \<le> 100"
    and "map_of (rev (map snd as)) ''TAG'' = Some tag" "safeEventToken tag"
    and "problem = (case map_of (rev (map snd as)) ''REASON'' of
          Some r \<Rightarrow> if safeEventToken r then r else [] | None \<Rightarrow> [])"
  shows "handleControlEvent U [text_line] d = (None, fold publishDriverEvent
    (BootstrapEvent (of_nat n) tag severity problem # transport_problem U severity problem d)
    (d\<lparr>d_bootstrap := Some (BootstrapEvent (of_nat n) tag severity problem)\<rparr>))"
proof -
  let ?args = "map_of (rev (map snd as))"
  let ?ev = "BootstrapEvent (of_nat n) tag severity problem"
  have sev: "sev \<noteq> []" using assms(4) by (auto simp: eventSeverity_def Let_def ToUpper_def)
  have "list_all (\<lambda>c. c \<noteq> CHR '' '' \<and> c \<noteq> CHR 0x22) sev"
    using assms(3) by (auto simp: list_all_iff token_rune_def)
  then have "list_all whole_word ([''STATUS_CLIENT'', sev, ''BOOTSTRAP''] @ map status_arg as)"
    using assms(2) sev by (auto simp: plain_whole_word list_all_iff status_arg_word)
  then have words: "controlWords text_line = Inr ([''STATUS_CLIENT'', sev, ''BOOTSTRAP''] @ map status_arg as)"
    using controlWords_from_Join [of _ "[]"] by (simp only: controlWords_def assms(1) append_Nil)
  have args: "eventArguments (map status_arg as) = ?args"
    using status_args [OF assms(2), of Map.empty] by (simp add: eventArguments_def)
  have "ParseUint 8 (dec n) = Some n" using assms(6) by (intro ParseUint_dec) simp
  moreover have "problem = (if safeEventToken (arg ?args ''REASON'') then arg ?args ''REASON'' else [])"
    using assms(9) by (auto simp: arg_def split: option.splits)
  ultimately have ev: "bootstrap_event U (''STATUS_CLIENT'' # sev # ''BOOTSTRAP'' # map status_arg as) = Some ?ev"
    using assms(4-8) by (simp add: bootstrap_event_def args arg_def)
  let ?d1 = "publishDriverEvent ?ev (d\<lparr>d_bootstrap := Some ?ev\<rparr>)"
  have "publishTransport [] TransportFailed severity ?d1 =
      (if length (d_active d) = 1 then publishDriverEvent (TransportEvent (Kind (hd (d_active d))) TransportFailed severity) ?d1
       else ?d1)"
    by (auto simp: publishTransport_def activeTransports_def length_Suc_conv split: list.splits)
  then have "handleStatusClient U (''STATUS_CLIENT'' # sev # ''BOOTSTRAP'' # map status_arg as) d =
      fold publishDriverEvent (transport_problem U severity problem d) ?d1"
    by (auto simp: handleStatusClient_def ev transport_problem_def Let_def)
  then show ?thesis using words by (simp add: handleControlEvent_def)
qed

theorem bootstrap_line_recorded_witness:
  "d_bootstrap (snd (handleControlEvent (\<lambda>n. n)
      [''STATUS_CLIENT NOTICE BOOTSTRAP PROGRESS=50 TAG=conn_dir'' @ '' SUMMARY='' @ quote ''Connecting to a relay''] sample_driver)) =
    Some (BootstrapEvent 50 ''conn_dir'' EventNotice [])"
proof -
  let ?as = "[(False, ''PROGRESS'', ''50''), (False, ''TAG'', ''conn_dir''), (True, ''SUMMARY'', ''Connecting to a relay'')]"
  have d: "dec 50 = ''50''" by code_simp
  have ok: "list_all status_arg_ok ?as" by (simp add: arg_ok_def safeEventToken_bytes token_rune_def)
  have sev: "eventSeverity (\<lambda>n. n) ''NOTICE'' = (EventNotice, True)" by code_simp
  have tr: "transport_problem (\<lambda>n. n) EventNotice [] sample_driver = []" by (simp add: transport_problem_def)
  have "handleControlEvent (\<lambda>n. n) [Join '' '' ([''STATUS_CLIENT'', ''NOTICE'', ''BOOTSTRAP''] @ map status_arg ?as)]
      sample_driver = (None, fold publishDriverEvent
        (BootstrapEvent (of_nat 50) ''conn_dir'' EventNotice [] # transport_problem (\<lambda>n. n) EventNotice [] sample_driver)
        (sample_driver\<lparr>d_bootstrap := Some (BootstrapEvent (of_nat 50) ''conn_dir'' EventNotice [])\<rparr>))"
    by (rule bootstrap_line_recorded [OF refl ok _ sev])
      (simp_all add: d token_rune_def safeEventToken_bytes)
  then show ?thesis by (simp add: tr print_arg_def)
qed

section \<open>Client authorization\<close>

definition base32_lower :: string where
  "base32_lower = ''abcdefghijklmnopqrstuvwxyz234567''"

lemma validServiceID_iff: "validServiceID i \<longleftrightarrow> length i = 56 \<and> set i \<subseteq> set base32_lower"
  by (simp add: validServiceID_def Trim_Nil_iff base32_lower_def)

lemma base32_lower_byte: "c \<in> set base32_lower \<Longrightarrow> 50 \<le> byte c \<and> byte c \<le> 122 \<and> \<not> (65 \<le> byte c \<and> byte c \<le> 90)"
  by (auto simp: base32_lower_def)

lemma word_serviceID: "validServiceID i \<Longrightarrow> word i"
  unfolding validServiceID_iff word_def list_all_iff using base32_lower_byte by fastforce

lemma validServiceID_ToLower: "validServiceID i \<Longrightarrow> ToLower L i = i"
proof -
  assume v: "validServiceID i"
  then have c: "c \<in> set i \<Longrightarrow> 50 \<le> byte c \<and> byte c \<le> 122 \<and> \<not> (65 \<le> byte c \<and> byte c \<le> 90)" for c
    using base32_lower_byte by (auto simp: validServiceID_iff)
  then have "list_all (\<lambda>c. byte c < 128) i" by (fastforce simp: list_all_iff)
  moreover have "chr (lower_byte (byte c)) = c" if "c \<in> set i" for c
    using c [OF that] by (auto simp: lower_byte_def)
  ultimately show ?thesis by (simp add: ToLower_ascii map_idI)
qed

text \<open>The name of a service is read with and without its suffix.\<close>

lemma normalize_address:
  assumes "validServiceID i"
  shows "normalizeOnionAddress L (i @ ''.onion'') = Inr i" "normalizeOnionAddress L i = Inr i"
proof -
  have "CHR ''.'' \<notin> set i" using assms by (auto simp: validServiceID_iff base32_lower_def)
  then have "\<not> HasSuffix i ''.onion''" by (auto simp: HasSuffix_iff)
  then have "TrimSuffix i ''.onion'' = i" by (simp add: TrimSuffix_def)
  then show "normalizeOnionAddress L i = Inr i" "normalizeOnionAddress L (i @ ''.onion'') = Inr i"
    using assms validServiceID_ToLower [OF assms] TrimSuffix_append [of i "''.onion''"]
    by (simp_all add: normalizeOnionAddress_def)
qed

lemma validate_auth:
  assumes "validateClientAuthorization curve a = None"
  shows "validClientName (auth_Name a)" "private_valid (PrivateKey a)"
  using assms by (auto simp: validateClientAuthorization_def auth_PublicKey_def split: if_splits sum.splits)

text \<open>The words of the command, as Tor splits it.\<close>

definition auth_words :: "string \<Rightarrow> client_authorization \<Rightarrow> string list" where
  "auth_words i a = [''ONION_CLIENT_AUTH_ADD'', i, ''x25519:'' @ b64_std_encode (PrivateKey a)] @
    (if auth_Name a = [] then [] else [''ClientName='' @ auth_Name a])"

lemma auth_command_words:
  assumes "validServiceID i" "validClientName (auth_Name a)" "PrivateKey a \<noteq> []"
  shows "Split (CHR '' '') (auth_add_command i (b64_std_encode (PrivateKey a)) (auth_Name a)) = auth_words i a"
    "\<not> injection (auth_add_command i (b64_std_encode (PrivateKey a)) (auth_Name a))"
proof -
  have w: "word i" "word (b64_std_encode (PrivateKey a))" "auth_Name a \<noteq> [] \<Longrightarrow> word (auth_Name a)"
    using assms by (simp_all add: word_serviceID word_b64_std validClientName_word)
  have cmd: "auth_add_command i (b64_std_encode (PrivateKey a)) (auth_Name a) = Join [CHR '' ''] (auth_words i a)"
    by (simp add: auth_add_command_def auth_words_def)
  have ne: "auth_words i a \<noteq> []" by (simp add: auth_words_def)
  show "Split (CHR '' '') (auth_add_command i (b64_std_encode (PrivateKey a)) (auth_Name a)) = auth_words i a"
    unfolding cmd using w by (intro Split_Join [OF ne]) (auto simp: auth_words_def word_no_space split: if_splits)
  show "\<not> injection (auth_add_command i (b64_std_encode (PrivateKey a)) (auth_Name a))"
    unfolding auth_add_command_def using w by (simp add: clean_rules clean_word)
qed

text \<open>
  Adding a client authorization sends nothing or exactly one command that carries the
  credential. For an address that is not a v3 onion name, in either case and with or without
  its suffix, or a credential that does not validate, there is an error and nothing is sent.
  Otherwise an open driver sends one command of one line whose words are the service, the
  private key, which reads back as the one given, and the client's name; the result is an
  error exactly if Tor's answer is one that does not mean that the credential is in place.
\<close>

theorem client_authorization_command:
  assumes "AddClientAuthorization L curve ctl address a s = (err, s')" "length (PrivateKey a) = 32"
    and "\<not> d_closed (sy_d s)"
  shows "case (normalizeOnionAddress L address, validateClientAuthorization curve a) of
      (Inr i, None) \<Rightarrow> (\<exists>cmd key r t.
        ctl cmd (sy_tor s) = (r, t) \<and> s' = s\<lparr>sy_tor := t, sy_effects := sy_effects s @ [Command cmd]\<rparr> \<and>
        \<not> injection cmd \<and> validServiceID i \<and>
        Split (CHR '' '') cmd = [''ONION_CLIENT_AUTH_ADD'', i, ''x25519:'' @ key] @
          (if auth_Name a = [] then [] else [''ClientName='' @ auth_Name a]) \<and>
        ParseClientAuthorizationPrivateKey key = Inr (PrivateKey a) \<and>
        (err = None \<longleftrightarrow> (\<forall>e. r = Inl e \<longrightarrow> errors_as_control e \<in> {Some 251, Some 252})))
    | _ \<Rightarrow> err \<noteq> None \<and> s' = s"
proof (cases "normalizeOnionAddress L address")
  case (Inl e)
  with assms(1) show ?thesis by (auto simp: AddClientAuthorization_def)
next
  case (Inr i)
  show ?thesis
  proof (cases "validateClientAuthorization curve a")
    case (Some e)
    then have "err = Some e" "s' = s" using assms(1) Inr by (simp_all add: AddClientAuthorization_def)
    with Inr Some show ?thesis by simp
  next
    case None
    from validate_auth [OF None] have v: "validClientName (auth_Name a)" "private_valid (PrivateKey a)" .
    have i: "validServiceID i" using Inr by (auto simp: normalizeOnionAddress_def Let_def split: if_splits)
    let ?key = "b64_std_encode (PrivateKey a)"
    let ?cmd = "auth_add_command i ?key (auth_Name a)"
    have ne: "PrivateKey a \<noteq> []" using assms(2) by auto
    obtain r t where ctl: "ctl ?cmd (sy_tor s) = (r, t)" by fastforce
    have "err = accept_codes [251, 252] r \<and> s' = s\<lparr>sy_tor := t, sy_effects := sy_effects s @ [Command ?cmd]\<rparr>"
      using assms(1,3) Inr None v(2) ctl
      by (simp add: AddClientAuthorization_def private_MarshalText_def command_def control_Do_def effect_def)
    moreover have "ParseClientAuthorizationPrivateKey ?key = Inr (PrivateKey a)"
      using NewPrivate_idem [OF assms(2) v(2)] ne
      by (simp add: ParseClientAuthorizationPrivateKey_def TrimSpace_word word_b64_std)
    moreover have "accept_codes [251, 252] r = None \<longleftrightarrow> (\<forall>e. r = Inl e \<longrightarrow> errors_as_control e \<in> {Some 251, Some 252})"
      by (auto simp: accept_codes_def split: sum.splits option.splits)
    ultimately have "ctl ?cmd (sy_tor s) = (r, t) \<and> s' = s\<lparr>sy_tor := t, sy_effects := sy_effects s @ [Command ?cmd]\<rparr> \<and>
        \<not> injection ?cmd \<and> validServiceID i \<and> Split (CHR '' '') ?cmd = auth_words i a \<and>
        ParseClientAuthorizationPrivateKey ?key = Inr (PrivateKey a) \<and>
        (err = None \<longleftrightarrow> (\<forall>e. r = Inl e \<longrightarrow> errors_as_control e \<in> {Some 251, Some 252}))"
      using ctl auth_command_words [OF i v(1) ne] i by simp
    then show ?thesis unfolding Inr None auth_words_def prod.case sum.case option.case by blast
  qed
qed

definition sample_onion :: string where
  "sample_onion = concat (replicate 14 ''abcd'')"

lemma sample_onion_valid: "validServiceID sample_onion"
  unfolding sample_onion_def by code_simp

theorem client_authorization_command_witness:
  "let a = \<lparr>PrivateKey = replicate 31 0 @ [64], auth_Name = ''bob''\<rparr>;
     s = \<lparr>sy_d = sample_driver, sy_tor = (), sy_effects = []\<rparr>
   in fst (AddClientAuthorization (\<lambda>n. n) (\<lambda>s p. 1 # replicate 31 0) (\<lambda>cmd t. (Inl (ControlError 251), t))
        (sample_onion @ ''.onion'') a s) = None"
proof -
  let ?a = "\<lparr>PrivateKey = replicate 31 0 @ [64], auth_Name = ''bob''\<rparr>"
  let ?s = "\<lparr>sy_d = sample_driver, sy_tor = (), sy_effects = []\<rparr>"
  let ?ctl = "\<lambda>cmd t. (Inl (ControlError 251), t)"
  let ?curve = "\<lambda>s p. 1 # replicate 31 0"
  obtain err s' where r: "AddClientAuthorization (\<lambda>n. n) ?curve ?ctl (sample_onion @ ''.onion'') ?a ?s = (err, s')"
    by fastforce
  have v: "validateClientAuthorization ?curve ?a = None" by code_simp
  have "err = None"
    using client_authorization_command [OF r] normalize_address(1) [OF sample_onion_valid] v
    by (auto simp: sample_driver_def)
  with r show ?thesis by simp
qed

end
