(* ===== verification/Tor_Start.thy ===== *)
theory Tor_Start
  imports Tor_Driver_Events
begin

text \<open>
  Starting the driver (driver.go, \<^verbatim>\<open>Start\<close>, \<^verbatim>\<open>token\<close>, \<^verbatim>\<open>waitFile\<close>). The function is a sequence
  of fifteen stages, each of which can fail; a failure closes what was built so far and is
  returned with its stage. One definition models each stage. The sandbox, its files and
  processes are external: \<open>start_env\<close> holds the results of the calls to them. \<open>ctl\<close> answers
  control commands and \<open>auth\<close> is the control client's authentication.
\<close>

section \<open>Paths\<close>

text \<open>\<^verbatim>\<open>path.Clean\<close> and \<^verbatim>\<open>path.Join\<close>: the segments read so far are kept in reverse.\<close>

fun clean_segments :: "bool \<Rightarrow> string list \<Rightarrow> string list \<Rightarrow> string list" where
  "clean_segments rooted acc [] = rev acc"
| "clean_segments rooted acc (x # xs) =
    (if x = [] \<or> x = ''.'' then clean_segments rooted acc xs
     else if x = ''..'' then
       (case acc of
          [] \<Rightarrow> clean_segments rooted (if rooted then [] else [x]) xs
        | a # as \<Rightarrow> clean_segments rooted (if a = ''..'' then x # acc else as) xs)
     else clean_segments rooted (x # acc) xs)"

definition path_Clean :: "string \<Rightarrow> string" where
  "path_Clean p =
    (let rooted = HasPrefix p ''/''; out = Join ''/'' (clean_segments rooted [] (Split (CHR ''/'') p))
     in if rooted then ''/'' @ out else if out = [] then ''.'' else out)"

definition path_Join :: "string \<Rightarrow> string \<Rightarrow> string" where
  "path_Join a b =
    (case filter (\<lambda>x. x \<noteq> []) [a, b] of [] \<Rightarrow> [] | xs \<Rightarrow> path_Clean (Join ''/'' xs))"

section \<open>Entropy and files\<close>

text \<open>\<^verbatim>\<open>token\<close>, with what \<^verbatim>\<open>io.ReadFull\<close> returns for 32 bytes.\<close>

definition token :: "u8 list res \<Rightarrow> string res" where
  "token random = (case random of Inl e \<Rightarrow> Inl e | Inr b \<Rightarrow> Inr (hex_encode b))"

text \<open>The build for systems other than Windows.\<close>

definition retryableFileReadError :: "goerr \<Rightarrow> bool" where
  "retryableFileReadError e = False"

text \<open>
  \<^verbatim>\<open>waitFile\<close>: a turn of the loop has the result of the read, the error of the process if it
  has ended, and the result of the sleep. The context of the start ends by its timeout, so
  the turns are finitely many: after them the sleep fails.
\<close>

type_synonym 'b turn = "'b list res \<times> goerr option option \<times> goerr option"

fun wait_loop :: "'b turn list \<Rightarrow> 'b list res" where
  "wait_loop [] = Inl (Sentinel ContextDeadlineExceeded)"
| "wait_loop ((r, ended, sleep) # ts) =
    (case r of
       Inr (b # bs) \<Rightarrow> Inr (b # bs)
     | _ \<Rightarrow>
         if (case r of Inl e \<Rightarrow> \<not> errors_is e FsErrNotExist \<and> \<not> retryableFileReadError e | Inr _ \<Rightarrow> False)
         then r
         else (case ended of
             Some e \<Rightarrow>
               Inl (the (errors_join [Some (Msg ''tor-driver: Tor exited during startup''), e]))
           | None \<Rightarrow> (case sleep of Some e \<Rightarrow> Inl e | None \<Rightarrow> wait_loop ts)))"

definition waitFile :: "goerr option \<Rightarrow> 'b turn list \<Rightarrow> 'b list res" where
  "waitFile fs ts = (case fs of Some e \<Rightarrow> Inl e | None \<Rightarrow> wait_loop ts)"

text \<open>The control endpoint in the port file: the last line that names one.\<close>

fun port_scan :: "string \<Rightarrow> string list \<Rightarrow> string" where
  "port_scan port [] = port"
| "port_scan port (l # ls) =
    port_scan (case CutPrefix (TrimSpace l) ''PORT='' of Some p \<Rightarrow> p | None \<Rightarrow> port) ls"

definition control_port :: "string \<Rightarrow> string" where
  "control_port file = port_scan [] (Split LF file)"

section \<open>The stages\<close>

record start_env =
  se_acquire :: "goerr option"
  se_files :: "goerr option"
  se_work :: "string res"
  se_stateFiles :: "goerr option"
  se_mkdir :: "goerr option"
  se_outbound :: "attach_env option"
  se_retire :: close_results
  se_user :: "u8 list res"
  se_password :: "u8 list res"
  se_listen :: "string res"
  se_defaults :: "goerr option"
  se_child :: "gpath \<Rightarrow> string res"
  se_program :: "string \<Rightarrow> string res"
  se_pid :: int
  se_torrc :: "goerr option"
  se_command :: "goerr option"
  se_stdout :: "goerr option"
  se_stderr :: "goerr option"
  se_start :: "goerr option"
  se_portFS :: "goerr option"
  se_port :: "char turn list"
  se_dial :: "goerr option"
  se_cookieFS :: "goerr option"
  se_cookie :: "u8 turn list"
  se_events :: "event list"

type_synonym ('a, 't) op = "'t sys \<Rightarrow> 'a res \<times> 't sys"

definition check :: "goerr option \<Rightarrow> (unit, 't) op" where
  "check err s = (case err of Some e \<Rightarrow> (Inl e, s) | None \<Rightarrow> (Inr (), s))"

definition lift :: "'a res \<Rightarrow> ('a, 't) op" where
  "lift r s = (r, s)"

definition modify :: "('t sys \<Rightarrow> 't sys) \<Rightarrow> (unit, 't) op" where
  "modify f s = (Inr (), f s)"

definition bind :: "('a, 't) op \<Rightarrow> ('a \<Rightarrow> ('b, 't) op) \<Rightarrow> ('b, 't) op" where
  "bind m k s = (case m s of (Inl e, s1) \<Rightarrow> (Inl e, s1) | (Inr x, s1) \<Rightarrow> k x s1)"

definition start_driver :: "config \<Rightarrow> driver" where
  "start_driver cfg = \<lparr>d_cfg = cfg, d_approved = Transports cfg, d_active = Transports cfg, d_paths = [],
     d_socks = [], d_closed = False, d_gate = new_gate (OutboundFailures cfg) True, d_resources = newScope,
     d_proxy = None, d_control = False, d_proc = False, d_files = False, d_work = [], d_box = False,
     d_logs = new_writer False [] [], d_events = newEventBroker, d_recent = [], d_bootstrap = None,
     d_descriptors = [], d_keyNames = [], d_networks = [], d_services = [], d_err = None, d_closeErr = None,
     d_done = False\<rparr>"

definition start_working :: "start_env \<Rightarrow> (string, 't) op" where
  "start_working env =
    bind (check (se_acquire env)) (\<lambda>_.
    bind (modify (on_driver (\<lambda>d. d\<lparr>d_box := True\<rparr>))) (\<lambda>_.
    bind (check (se_files env)) (\<lambda>_.
    bind (modify (on_driver (\<lambda>d. d\<lparr>d_files := True\<rparr>))) (\<lambda>_.
    bind (lift (se_work env)) (\<lambda>work.
    bind (modify (on_driver (\<lambda>d. d\<lparr>d_work := work\<rparr>))) (\<lambda>_. lift (Inr work)))))))"

definition state_path :: "config \<Rightarrow> string \<Rightarrow> gpath" where
  "state_path cfg work =
    (if Rel (StateDirectory cfg) = [] then \<lparr>Root = Temporary, Rel = path_Join work ''state''\<rparr>
     else StateDirectory cfg)"

text \<open>A dead initial network is only logged: the gate stays without one.\<close>

definition start_state :: "start_env \<Rightarrow> (unit, 't) op" where
  "start_state env =
    bind (check (se_stateFiles env)) (\<lambda>_.
    bind (check (se_mkdir env)) (\<lambda>_.
      modify (on_driver (\<lambda>d. snd (with_gate (replace (se_retire env) (se_outbound env)) d)))))"

definition start_credentials :: "start_env \<Rightarrow> (string \<times> string, 't) op" where
  "start_credentials env =
    bind (lift (token (se_user env))) (\<lambda>user.
    bind (lift (token (se_password env))) (\<lambda>password. lift (Inr (user, password))))"

definition start_listener :: "config \<Rightarrow> start_env \<Rightarrow> (string, 't) op" where
  "start_listener cfg env =
    bind (lift (se_listen env)) (\<lambda>address s.
      case numericEndpoint address True of
        Inl e \<Rightarrow> (Inl e, effect ListenerClose s)
      | Inr _ \<Rightarrow>
          (Inr address, on_driver (\<lambda>d. d\<lparr>d_proxy := Some (startProxy (nat (MaxProxyConnections cfg)))\<rparr>) s))"

fun program_paths :: "(string \<Rightarrow> string res) \<Rightarrow> transport_config list \<Rightarrow> (string \<times> string) list res" where
  "program_paths path [] = Inr []"
| "program_paths path (t # ts) =
    (case path (Program t) of
       Inl e \<Rightarrow> Inl e
     | Inr p \<Rightarrow>
         (case program_paths path ts of
            Inl e \<Rightarrow> Inl e
          | Inr ps \<Rightarrow> Inr (if Program t \<in> fst ` set ps then ps else (Program t, p) # ps)))"

definition work_file :: "string \<Rightarrow> string \<Rightarrow> gpath" where
  "work_file work name = \<lparr>Root = Temporary, Rel = path_Join work name\<rparr>"

text \<open>The text of the torrc; \<^verbatim>\<open>renderConfig\<close> panics on an enumeration that was not validated.\<close>

definition torrc_text ::
  "casemap \<Rightarrow> config \<Rightarrow> start_env \<Rightarrow> string \<Rightarrow> string \<Rightarrow> string \<Rightarrow> string \<Rightarrow>
    ((string \<times> string) list \<times> string) res" where
  "torrc_text U cfg env work address user password =
    (case se_child env (state_path cfg work) of Inl e \<Rightarrow> Inl e | Inr state \<Rightarrow>
     (case se_child env (work_file work ''control-port'') of Inl e \<Rightarrow> Inl e | Inr port \<Rightarrow>
     (case se_child env (work_file work ''control-cookie'') of Inl e \<Rightarrow> Inl e | Inr cookie \<Rightarrow>
     (case program_paths (se_program env) (Transports cfg) of Inl e \<Rightarrow> Inl e | Inr paths \<Rightarrow>
     (case renderConfig U cfg state port cookie address user password (se_pid env) (map_of paths) of
        None \<Rightarrow> Inl (Msg ''panic: index out of range'')
      | Some text \<Rightarrow> Inr (paths, text))))))"

definition start_config ::
  "casemap \<Rightarrow> config \<Rightarrow> start_env \<Rightarrow> string \<Rightarrow> string \<Rightarrow> string \<Rightarrow> string \<Rightarrow> (string, 't) op" where
  "start_config U cfg env work address user password =
    bind (modify (effect (WriteFile (path_Join work ''defaults-torrc'') []))) (\<lambda>_.
    bind (check (se_defaults env)) (\<lambda>_.
    bind (lift (torrc_text U cfg env work address user password)) (\<lambda>(paths, text).
    bind (modify (on_driver (\<lambda>d. d\<lparr>d_paths := paths\<rparr>))) (\<lambda>_.
    bind (modify (effect (WriteFile (path_Join work ''torrc'') text))) (\<lambda>_.
    bind (check (se_torrc env)) (\<lambda>_.
    bind (modify (on_driver (\<lambda>d. d\<lparr>d_logs :=
        new_writer (ForwardTorLogs cfg) (startupLogSecrets user password @ map snd paths)
          (bridgeLogSecrets (Bridges cfg))\<rparr>))) (\<lambda>_. lift (Inr text))))))))"

text \<open>The process is owned from the moment it has started.\<close>

definition start_process :: "start_env \<Rightarrow> (unit, 't) op" where
  "start_process env =
    bind (check (se_command env)) (\<lambda>_.
    bind (check (se_stdout env)) (\<lambda>_.
    bind (check (se_stderr env)) (\<lambda>_.
    bind (modify (effect StartProcess)) (\<lambda>_.
    bind (check (se_start env)) (\<lambda>_.
      modify (on_driver (\<lambda>d. d\<lparr>d_proc := True\<rparr>)))))))"

definition start_endpoint :: "start_env \<Rightarrow> (string, 't) op" where
  "start_endpoint env =
    bind (lift (waitFile (se_portFS env) (se_port env))) (\<lambda>file.
      lift (case numericEndpoint (control_port file) True of
          Inl _ \<Rightarrow> Inl (Msg ''tor-driver: invalid control endpoint'')
        | Inr _ \<Rightarrow> Inr (control_port file)))"

definition start_connection :: "start_env \<Rightarrow> string \<Rightarrow> (unit, 't) op" where
  "start_connection env port =
    bind (modify (effect (DialControl port))) (\<lambda>_.
    bind (check (se_dial env)) (\<lambda>_. modify (on_driver (\<lambda>d. d\<lparr>d_control := True\<rparr>))))"

type_synonym 't auth = "u8 list \<Rightarrow> 't \<Rightarrow> goerr option \<times> 't"

definition start_authentication :: "'t auth \<Rightarrow> start_env \<Rightarrow> (unit, 't) op" where
  "start_authentication auth env =
    bind (lift (waitFile (se_cookieFS env) (se_cookie env))) (\<lambda>cookie s.
      case auth cookie (sy_tor s) of
        (err, t) \<Rightarrow> check err (effect Authentication (s\<lparr>sy_tor := t\<rparr>)))"

definition start_ownership :: "'t ctl \<Rightarrow> (unit, 't) op" where
  "start_ownership ctl =
    bind (control_Do ctl ''TAKEOWNERSHIP'') (\<lambda>_.
    bind (control_Do ctl ''RESETCONF __OwningControllerProcess'') (\<lambda>_. lift (Inr ())))"

definition wrap_err :: "string \<Rightarrow> ('a, 't) op \<Rightarrow> ('a, 't) op" where
  "wrap_err msg m s = (case m s of (Inl e, s1) \<Rightarrow> (Inl (Wrap msg e), s1) | (Inr x, s1) \<Rightarrow> (Inr x, s1))"

definition selected_events :: "string list \<Rightarrow> string list" where
  "selected_events supported =
    filter (\<lambda>name. name \<in> set supported) [''STATUS_CLIENT'', ''HS_DESC'', ''TRANSPORT_LAUNCHED'', ''PT_LOG'', ''PT_STATUS'']"

definition event_selection :: "reply \<Rightarrow> string list res" where
  "event_selection r =
    (case Value r ''events/names'' of
       None \<Rightarrow> Inl (Msg ''tor-driver: Tor did not report supported control events'')
     | Some names \<Rightarrow>
         let supported = Fields names
         in if ''STATUS_CLIENT'' \<notin> set supported
            then Inl (Msg ''tor-driver: Tor does not support typed bootstrap events'')
            else if ''HS_DESC'' \<notin> set supported
            then Inl (Msg ''tor-driver: Tor does not support descriptor publication events'')
            else Inr (selected_events supported))"

text \<open>
  The events that the event loop, which runs from here on, receives while the driver
  starts are handled after the subscription; their handlers do not touch what the start
  itself reads (see the theory of control events).
\<close>

definition start_events :: "casemap \<Rightarrow> 't ctl \<Rightarrow> start_env \<Rightarrow> (string list, 't) op" where
  "start_events U ctl env =
    bind (wrap_err ''tor-driver: enable typed control events: ''
      (control_Do ctl ''USEFEATURE EXTENDED_EVENTS VERBOSE_NAMES'')) (\<lambda>_.
    bind (wrap_err ''tor-driver: query control events: '' (control_Do ctl ''GETINFO events/names'')) (\<lambda>r.
    bind (lift (event_selection r)) (\<lambda>selected.
    bind (wrap_err ''tor-driver: subscribe to typed control events: ''
      (control_Do ctl (''SETEVENTS '' @ Join '' '' selected))) (\<lambda>_.
    bind (modify (on_driver (\<lambda>d. snd (controlEventLoop U (se_events env) d)))) (\<lambda>_.
    bind (control_Do ctl ''GETINFO status/bootstrap-phase'') (\<lambda>r.
    bind (modify (on_driver (\<lambda>d.
        case Value r ''status/bootstrap-phase'' of
          None \<Rightarrow> d
        | Some phase \<Rightarrow> snd (handleControlEvent U [''STATUS_CLIENT '' @ phase] d)))) (\<lambda>_.
      lift (Inr selected))))))))"

definition start_verification :: "'t ctl \<Rightarrow> string \<Rightarrow> (unit, 't) op" where
  "start_verification ctl address =
    bind (control_Do ctl ''GETCONF Socks5Proxy'') (\<lambda>r.
      if Value r ''Socks5Proxy'' \<noteq> Some address
      then lift (Inl (Msg ''tor-driver: Tor did not retain the mandatory upstream proxy''))
      else lift (Inr ()))"

definition start_network :: "'t ctl \<Rightarrow> (unit, 't) op" where
  "start_network ctl = bind (control_Do ctl ''SETCONF DisableNetwork=0'') (\<lambda>_. lift (Inr ()))"

definition start_socks :: "'t ctl \<Rightarrow> (unit, 't) op" where
  "start_socks ctl =
    bind (querySocksEndpoint ctl) (\<lambda>endpoint. modify (on_driver (\<lambda>d. d\<lparr>d_socks := endpoint\<rparr>)))"

section \<open>Start\<close>

text \<open>A stage of the start: its error is returned with the number of the stage.\<close>

type_synonym ('a, 't) staged = "'t sys \<Rightarrow> ((u8 \<times> goerr) + 'a) \<times> 't sys"

definition at_stage :: "u8 \<Rightarrow> ('a, 't) op \<Rightarrow> ('a \<Rightarrow> ('b, 't) staged) \<Rightarrow> ('b, 't) staged" where
  "at_stage n m k s = (case m s of (Inl e, s1) \<Rightarrow> (Inl (n, e), s1) | (Inr x, s1) \<Rightarrow> k x s1)"

record launch =
  la_work :: string
  la_text :: string
  la_address :: string
  la_port :: string
  la_events :: "string list"

text \<open>Everything before the network is enabled.\<close>

definition start_launch ::
  "casemap \<Rightarrow> 't ctl \<Rightarrow> 't auth \<Rightarrow> config \<Rightarrow> start_env \<Rightarrow> (launch, 't) staged" where
  "start_launch U ctl auth cfg env =
    at_stage 1 (start_working env) (\<lambda>work.
    at_stage 2 (start_state env) (\<lambda>_.
    at_stage 3 (start_credentials env) (\<lambda>cred.
    at_stage 4 (start_listener cfg env) (\<lambda>address.
    at_stage 5 (start_config U cfg env work address (fst cred) (snd cred)) (\<lambda>text.
    at_stage 6 (start_process env) (\<lambda>_.
    at_stage 7 (start_endpoint env) (\<lambda>port.
    at_stage 8 (start_connection env port) (\<lambda>_.
    at_stage 9 (start_authentication auth env) (\<lambda>_.
    at_stage 10 (start_ownership ctl) (\<lambda>_.
    at_stage 11 (start_events U ctl env) (\<lambda>events.
    at_stage 12 (start_verification ctl address) (\<lambda>_ s.
      (Inr \<lparr>la_work = work, la_text = text, la_address = address, la_port = port, la_events = events\<rparr>, s)))))))))))))"

definition start_open :: "'t ctl \<Rightarrow> (unit, 't) staged" where
  "start_open ctl =
    at_stage 13 (start_network ctl) (\<lambda>_. at_stage 14 (start_socks ctl) (\<lambda>_ s. (Inr (), s)))"

definition start_run ::
  "casemap \<Rightarrow> 't ctl \<Rightarrow> 't auth \<Rightarrow> config \<Rightarrow> start_env \<Rightarrow> (unit, 't) staged" where
  "start_run U ctl auth cfg env s =
    (case start_launch U ctl auth cfg env s of
       (Inl e, s1) \<Rightarrow> (Inl e, s1)
     | (Inr _, s1) \<Rightarrow> start_open ctl s1)"

text \<open>
  \<^verbatim>\<open>Start\<close>: the error, and the system, which does not exist when the configuration is
  invalid. A failure closes the driver, whose error is joined.
\<close>

definition Start ::
  "casemap \<Rightarrow> (string \<Rightarrow> goerr option) \<Rightarrow> (gpath \<Rightarrow> goerr option) \<Rightarrow> 't ctl \<Rightarrow> 't auth \<Rightarrow> close_env \<Rightarrow>
    config \<Rightarrow> dependencies \<Rightarrow> start_env \<Rightarrow> 't \<Rightarrow> goerr option \<times> 't sys option" where
  "Start U vn vp ctl auth cenv cfg deps env t =
    (case validate vn vp cfg deps of
       Inl e \<Rightarrow> (newStartupError 0 (Some e), None)
     | Inr (cfg', _) \<Rightarrow>
         (case start_run U ctl auth cfg' env \<lparr>sy_d = start_driver cfg', sy_tor = t, sy_effects = []\<rparr> of
            (Inr _, s) \<Rightarrow> (None, Some s)
          | (Inl (n, e), s) \<Rightarrow>
              (case driver_Close ctl cenv s of
                 (cerr, s') \<Rightarrow> (newStartupError n (errors_join [Some e, cerr]), Some s'))))"

end
