(* ===== verification/Tor_Start_Proofs.thy ===== *)
theory Tor_Start_Proofs
  imports Tor_Start Tor_Driver_Events_Proofs Tor_Bridges_Proofs "HOL-Library.Sublist"
begin

text \<open>
  Starting is safe: the calls to the outside are a prefix of one fixed sequence, in which
  the network is enabled only after Tor's configuration was written, the session was
  authenticated and Tor confirmed the proxy; a failure leaves a closed driver. Every
  operation of the start is given rules of two kinds, for the state and for the effects.
\<close>

section \<open>The state\<close>

definition live :: "'t sys \<Rightarrow> bool" where
  "live s \<longleftrightarrow> driver_inv (sy_d s) \<and> \<not> d_closed (sy_d s) \<and> \<not> d_done (sy_d s) \<and> \<not> gt_closed (d_gate (sy_d s))"

definition keeps_live :: "('t sys \<Rightarrow> 'r \<times> 't sys) \<Rightarrow> bool" where
  "keeps_live m \<longleftrightarrow> (\<forall>s. live s \<longrightarrow> live (snd (m s)))"

named_theorems live_intros \<open>operations of the start that keep the driver live\<close>

lemma live_bind [live_intros]: "keeps_live m \<Longrightarrow> (\<And>x. keeps_live (k x)) \<Longrightarrow> keeps_live (bind m k)"
  unfolding keeps_live_def bind_def by (force split: prod.splits sum.splits)

lemma live_stage [live_intros]: "keeps_live m \<Longrightarrow> (\<And>x. keeps_live (k x)) \<Longrightarrow> keeps_live (at_stage n m k)"
  unfolding keeps_live_def at_stage_def by (force split: prod.splits sum.splits)

lemma live_check [live_intros]: "keeps_live (check err)"
  by (simp add: keeps_live_def check_def split: option.split)

lemma live_lift [live_intros]: "keeps_live (lift r)" "keeps_live (\<lambda>s. (r', s))"
  by (simp_all add: keeps_live_def lift_def)

lemma live_effect [live_intros]: "keeps_live (modify (effect e))"
  by (simp add: keeps_live_def modify_def effect_def live_def)

lemma live_control_Do [live_intros]: "keeps_live (control_Do ctl cmd)"
  by (simp add: keeps_live_def control_Do_def effect_def live_def split: prod.split)

lemma live_wrap [live_intros]: "keeps_live m \<Longrightarrow> keeps_live (wrap_err msg m)"
  unfolding keeps_live_def wrap_err_def by (force split: prod.splits sum.splits)

lemma live_driver:
  assumes "\<And>d. driver_inv d \<Longrightarrow> \<not> gt_closed (d_gate d) \<Longrightarrow> driver_inv (f d) \<and> \<not> gt_closed (d_gate (f d))"
    and "\<And>d. d_closed (f d) = d_closed d" "\<And>d. d_done (f d) = d_done d"
  shows "keeps_live (modify (on_driver f))"
  using assms by (simp add: keeps_live_def modify_def on_driver_def live_def)

lemma handled_live:
  assumes "handled d d'"
  shows "driver_inv d \<Longrightarrow> driver_inv d'" "d_gate d' = d_gate d" "d_closed d' = d_closed d" "d_done d' = d_done d"
  using assms frame_sel [of d' d] by (simp_all add: handled_def)

lemma live_handled: "(\<And>d. handled d (f d)) \<Longrightarrow> keeps_live (modify (on_driver f))"
  by (rule live_driver) (metis handled_live)+

lemma live_gate:
  "keeps_live (modify (on_driver (\<lambda>d. snd (with_gate (replace cr n) d))))"
proof (rule live_driver)
  fix d
  assume inv: "driver_inv d" and opn: "\<not> gt_closed (d_gate d)"
  obtain r g where g: "replace cr n ((d_gate d)\<lparr>gt_events := []\<rparr>) = (r, g)" by fastforce
  have gi: "gate_inv (h\<lparr>gt_events := evs\<rparr>) = gate_inv h" for h evs by (simp add: gate_inv_def gate_ok_def)
  have "gate_inv g \<and> \<not> gt_closed g"
    using replace_spec [OF _ _ g] inv opn by (simp add: gi driver_inv_def)
  then have "driver_inv (d\<lparr>d_gate := g\<lparr>gt_events := []\<rparr>\<rparr>) \<and> \<not> gt_closed (g\<lparr>gt_events := []\<rparr>)"
    using inv by (simp add: gi driver_inv_def)
  then show "driver_inv (snd (with_gate (replace cr n) d)) \<and> \<not> gt_closed (d_gate (snd (with_gate (replace cr n) d)))"
    using g by (simp add: with_gate_def driver_inv_publishes)
qed (simp_all add: with_gate_def split: prod.split)

lemma live_field [live_intros]:
  "keeps_live (modify (on_driver (\<lambda>d. d\<lparr>d_box := x1\<rparr>)))" "keeps_live (modify (on_driver (\<lambda>d. d\<lparr>d_files := x1\<rparr>)))"
  "keeps_live (modify (on_driver (\<lambda>d. d\<lparr>d_work := x2\<rparr>)))" "keeps_live (modify (on_driver (\<lambda>d. d\<lparr>d_paths := x3\<rparr>)))"
  "keeps_live (modify (on_driver (\<lambda>d. d\<lparr>d_logs := x4\<rparr>)))" "keeps_live (modify (on_driver (\<lambda>d. d\<lparr>d_proc := x1\<rparr>)))"
  "keeps_live (modify (on_driver (\<lambda>d. d\<lparr>d_control := x1\<rparr>)))" "keeps_live (modify (on_driver (\<lambda>d. d\<lparr>d_socks := x2\<rparr>)))"
  by (rule live_driver; simp add: driver_inv_def)+

lemma live_listener: "keeps_live (start_listener cfg env)"
  unfolding start_listener_def keeps_live_def bind_def lift_def
  by (auto simp: live_def effect_def on_driver_def driver_inv_def proxy_inv_start split: sum.splits)

lemma live_authentication: "keeps_live (start_authentication auth env)"
  unfolding start_authentication_def keeps_live_def bind_def lift_def check_def
  by (auto simp: live_def effect_def split: sum.splits prod.splits option.splits)

lemma live_events: "keeps_live (start_events U ctl env)"
proof -
  have "handled d (snd (controlEventLoop U es d))" for es d
    using loop_handled [of U es d] by (metis prod.collapse)
  moreover have "handled d (snd (handleControlEvent U e d))" for e d
    using handled_event [of U e d] by (metis prod.collapse)
  then have "handled d (case v of None \<Rightarrow> d | Some x \<Rightarrow> snd (handleControlEvent U [''STATUS_CLIENT '' @ x] d))" for v d
    by (simp split: option.split)
  ultimately show ?thesis unfolding start_events_def by (intro live_intros live_handled) auto
qed

lemma live_socks: "keeps_live (start_socks ctl)"
proof -
  have "keeps_live (querySocksEndpoint ctl)"
    using live_control_Do [of ctl "''GETINFO net/listeners/socks''"]
    unfolding querySocksEndpoint_def keeps_live_def by (force split: prod.splits sum.splits)
  then show ?thesis unfolding start_socks_def by (intro live_intros)
qed

lemma live_launch: "keeps_live (start_launch U ctl auth cfg env)"
proof -
  have "keeps_live (start_config U cfg env work address user password)" for work address user password
    unfolding start_config_def by (intro live_intros) (auto split: prod.splits intro!: live_intros)
  moreover have "keeps_live (start_verification ctl address)" for address
    unfolding start_verification_def by (intro live_intros) (auto intro: live_intros)
  moreover have "keeps_live (start_working env)" "keeps_live (start_credentials env)" "keeps_live (start_process env)"
    "keeps_live (start_endpoint env)" "keeps_live (start_connection env port)" "keeps_live (start_ownership ctl)" for port
    unfolding start_working_def start_credentials_def start_process_def start_endpoint_def start_connection_def
      start_ownership_def by (intro live_intros)+
  moreover have "keeps_live (start_state env)" unfolding start_state_def by (intro live_intros live_gate)
  ultimately show ?thesis
    unfolding start_launch_def
    by (intro live_intros live_listener live_authentication live_events) (auto split: prod.splits intro!: live_intros live_listener live_authentication live_events)
qed

lemma live_open: "keeps_live (start_open ctl)"
  unfolding start_open_def start_network_def by (intro live_intros live_socks)

lemma live_start: "live \<lparr>sy_d = start_driver cfg, sy_tor = t, sy_effects = []\<rparr>"
  by (simp add: live_def start_driver_def driver_inv_def gate_inv_new scope_ok_new broker_inv_new) (simp add: new_gate_def)

section \<open>The effects\<close>

text \<open>The effects without the closing of a listener whose address is refused.\<close>

definition acts :: "'t sys \<Rightarrow> effect list" where
  "acts s = filter (\<lambda>e. e \<noteq> ListenerClose) (sy_effects s)"

lemma acts_simps [simp]:
  "acts (s\<lparr>sy_d := d\<rparr>) = acts s" "acts (s\<lparr>sy_tor := t\<rparr>) = acts s" "acts (on_driver f s) = acts s"
  "acts (effect e s) = acts s @ (if e = ListenerClose then [] else [e])"
  by (simp_all add: acts_def on_driver_def effect_def)

text \<open>An operation emits \<open>F x\<close> if it returns \<open>x\<close>, and a prefix of one of these if it fails.\<close>

definition emits :: "('a \<Rightarrow> effect list) \<Rightarrow> ('a, 't) op \<Rightarrow> bool" where
  "emits F m \<longleftrightarrow> (\<forall>s r s'. m s = (r, s') \<longrightarrow>
    (case r of
       Inr x \<Rightarrow> acts s' = acts s @ F x
     | Inl _ \<Rightarrow> \<exists>x es. prefix es (F x) \<and> acts s' = acts s @ es))"

text \<open>\<open>follows F es m\<close>: after the effects \<open>es\<close>, the stages of \<open>m\<close> complete the sequence \<open>F\<close> of
  their result, or stop within one.\<close>

definition follows :: "('a \<Rightarrow> effect list) \<Rightarrow> effect list \<Rightarrow> ('a, 't) staged \<Rightarrow> bool" where
  "follows F es m \<longleftrightarrow> (\<forall>s r s'. acts s = es \<longrightarrow> m s = (r, s') \<longrightarrow>
    (case r of Inr x \<Rightarrow> acts s' = F x | Inl _ \<Rightarrow> \<exists>x. prefix (acts s') (F x)))"

named_theorems emit_intros \<open>the effects of the operations of the start\<close>

lemma emits_bind:
  assumes "emits (\<lambda>_. es) m" "\<And>x. emits G (k x)"
  shows "emits (\<lambda>y. es @ G y) (bind m k)"
  unfolding emits_def
proof (intro allI impI)
  fix s r s'
  assume b: "bind m k s = (r, s')"
  obtain r1 s1 where m: "m s = (r1, s1)" by fastforce
  show "case r of Inr x \<Rightarrow> acts s' = acts s @ es @ G x
    | Inl _ \<Rightarrow> \<exists>x es'. prefix es' (es @ G x) \<and> acts s' = acts s @ es'"
  proof (cases r1)
    case (Inl e)
    with b m have r: "r = Inl e" "s' = s1" by (simp_all add: bind_def)
    obtain es' where "prefix es' es" "acts s1 = acts s @ es'"
      using assms(1) m Inl by (fastforce simp: emits_def)
    then show ?thesis using r by (auto simp: prefix_append)
  next
    case (Inr x)
    with b m have k: "k x s1 = (r, s')" by (simp add: bind_def)
    have s1: "acts s1 = acts s @ es" using assms(1) m Inr by (fastforce simp: emits_def)
    have "case r of Inr y \<Rightarrow> acts s' = acts s1 @ G y
        | Inl _ \<Rightarrow> \<exists>x es'. prefix es' (G x) \<and> acts s' = acts s1 @ es'"
      using assms(2) [of x] k unfolding emits_def by blast
    then show ?thesis using s1 by (cases r) auto
  qed
qed

lemma emits_quiet [emit_intros]: "emits (\<lambda>_. []) m \<Longrightarrow> (\<And>x. emits G (k x)) \<Longrightarrow> emits G (bind m k)"
  using emits_bind [of "[]" m G k] by simp

lemma emits_check [emit_intros]: "emits (\<lambda>_. []) (check err)"
  by (auto simp: emits_def check_def split: option.splits)

lemma emits_lift [emit_intros]: "emits (\<lambda>_. []) (lift r)"
  by (auto simp: emits_def lift_def split: sum.splits)

lemma emits_driver [emit_intros]: "emits (\<lambda>_. []) (modify (on_driver f))"
  by (auto simp: emits_def modify_def)

lemma emits_effect: "e \<noteq> ListenerClose \<Longrightarrow> emits (\<lambda>_. [e]) (modify (effect e))"
  by (auto simp: emits_def modify_def)

lemma emits_calls:
  "emits (\<lambda>_. [WriteFile f x]) (modify (effect (WriteFile f x)))"
  "emits (\<lambda>_. [StartProcess]) (modify (effect StartProcess))"
  "emits (\<lambda>_. [DialControl p]) (modify (effect (DialControl p)))"
  by (simp_all add: emits_effect)

lemma emits_control_Do [emit_intros]: "emits (\<lambda>_. [Command cmd]) (control_Do ctl cmd)"
  by (auto simp: emits_def control_Do_def split: prod.splits sum.splits)

lemma emits_wrap [emit_intros]: "emits F m \<Longrightarrow> emits F (wrap_err msg m)"
  unfolding emits_def wrap_err_def by (fastforce split: prod.splits sum.splits)

text \<open>An operation that can only return \<open>y\<close>.\<close>

definition returns :: "'a \<Rightarrow> ('a, 't) op \<Rightarrow> bool" where
  "returns y m \<longleftrightarrow> (\<forall>s x s'. m s = (Inr x, s') \<longrightarrow> x = y)"

lemma returns_bind: "(\<And>x. returns y (k x)) \<Longrightarrow> returns y (bind m k)"
  unfolding returns_def bind_def by (fastforce split: prod.splits sum.splits)

lemma returns_lift: "returns y (lift (Inr y))"
  by (simp add: returns_def lift_def)

lemma emits_returns: "emits (\<lambda>_. F y) m \<Longrightarrow> returns y m \<Longrightarrow> emits F m"
  unfolding emits_def returns_def by (fastforce split: sum.splits)

lemma follows_stage:
  assumes "emits E m" "\<And>x. follows F (es @ E x) (k x)" "\<And>x. \<exists>y. prefix (es @ E x) (F y)"
  shows "follows F es (at_stage n m k)"
  unfolding follows_def
proof (intro allI impI)
  fix s r s'
  assume es: "acts s = es" and b: "at_stage n m k s = (r, s')"
  obtain r1 s1 where m: "m s = (r1, s1)" by fastforce
  show "case r of Inr x \<Rightarrow> acts s' = F x | Inl _ \<Rightarrow> \<exists>x. prefix (acts s') (F x)"
  proof (cases r1)
    case (Inl e)
    with b m have r: "r = Inl (n, e)" "s' = s1" by (simp_all add: at_stage_def)
    obtain x es' where "prefix es' (E x)" "acts s1 = es @ es'"
      using assms(1) m Inl es by (fastforce simp: emits_def)
    then have "prefix (acts s1) (es @ E x)" by simp
    with assms(3) [of x] r show ?thesis by (auto intro: prefix_order.trans)
  next
    case (Inr x)
    then have "k x s1 = (r, s')" "acts s1 = es @ E x"
      using b m assms(1) es by (auto simp: at_stage_def emits_def split: sum.splits)
    then show ?thesis using assms(2) [of x] unfolding follows_def by blast
  qed
qed

section \<open>The sequence of a start\<close>

text \<open>What a start does to the outside, up to the verification of the proxy and after it.\<close>

definition launch_script :: "launch \<Rightarrow> effect list" where
  "launch_script la =
    [WriteFile (path_Join (la_work la) ''defaults-torrc'') [], WriteFile (path_Join (la_work la) ''torrc'') (la_text la),
     StartProcess, DialControl (la_port la), Authentication, Command ''TAKEOWNERSHIP'',
     Command ''RESETCONF __OwningControllerProcess'', Command ''USEFEATURE EXTENDED_EVENTS VERBOSE_NAMES'',
     Command ''GETINFO events/names'', Command (''SETEVENTS '' @ Join '' '' (la_events la)),
     Command ''GETINFO status/bootstrap-phase'', Command ''GETCONF Socks5Proxy'']"

definition open_script :: "effect list" where
  "open_script = [Command ''SETCONF DisableNetwork=0'', Command ''GETINFO net/listeners/socks'']"

lemma emits_config:
  "emits (\<lambda>text. [WriteFile (path_Join work ''defaults-torrc'') [], WriteFile (path_Join work ''torrc'') text])
    (start_config U cfg env work address user password)"
proof -
  have "emits (\<lambda>text. [WriteFile (path_Join work ''torrc'') text])
      (case pt of (paths, text) \<Rightarrow>
        bind (modify (on_driver (\<lambda>d. d\<lparr>d_paths := paths\<rparr>))) (\<lambda>_.
        bind (modify (effect (WriteFile (path_Join work ''torrc'') text))) (\<lambda>_.
        bind (check (se_torrc env)) (\<lambda>_.
        bind (modify (on_driver (\<lambda>d. d\<lparr>d_logs := l paths\<rparr>))) (\<lambda>_. lift (Inr text))))))" for pt l
  proof (cases pt)
    case (Pair paths body)
    have "emits (\<lambda>_. [WriteFile (path_Join work ''torrc'') body])
      (bind (modify (on_driver (\<lambda>d. d\<lparr>d_paths := paths\<rparr>))) (\<lambda>_.
        bind (modify (effect (WriteFile (path_Join work ''torrc'') body))) (\<lambda>_.
        bind (check (se_torrc env)) (\<lambda>_.
        bind (modify (on_driver (\<lambda>d. d\<lparr>d_logs := l paths\<rparr>))) (\<lambda>_. lift (Inr body))))))"
      using emits_quiet [OF emits_driver emits_bind [OF emits_calls(1)
        emits_quiet [OF emits_check emits_quiet [OF emits_driver emits_lift]]]] by simp
    then show ?thesis unfolding Pair prod.case
      by (rule emits_returns [where y = body]) (intro returns_bind returns_lift)
  qed
  from emits_bind [OF emits_calls(1) emits_quiet [OF emits_check emits_quiet [OF emits_lift
    this [of "\<lambda>paths. new_writer (ForwardTorLogs cfg) (startupLogSecrets user password @ map snd paths)
      (bridgeLogSecrets (Bridges cfg))"]]]]
  show ?thesis unfolding start_config_def by simp
qed

lemma emits_events:
  "emits (\<lambda>events. [Command ''USEFEATURE EXTENDED_EVENTS VERBOSE_NAMES'', Command ''GETINFO events/names'',
     Command (''SETEVENTS '' @ Join '' '' events), Command ''GETINFO status/bootstrap-phase''])
    (start_events U ctl env)"
proof -
  let ?sel = "\<lambda>selected. bind (wrap_err ''tor-driver: subscribe to typed control events: ''
      (control_Do ctl (''SETEVENTS '' @ Join '' '' selected))) (\<lambda>_.
    bind (modify (on_driver (\<lambda>d. snd (controlEventLoop U (se_events env) d)))) (\<lambda>_.
    bind (control_Do ctl ''GETINFO status/bootstrap-phase'') (\<lambda>r.
    bind (modify (on_driver (\<lambda>d.
        case Value r ''status/bootstrap-phase'' of
          None \<Rightarrow> d
        | Some phase \<Rightarrow> snd (handleControlEvent U [''STATUS_CLIENT '' @ phase] d)))) (\<lambda>_.
      lift (Inr selected)))))"
  have "emits (\<lambda>events. [Command (''SETEVENTS '' @ Join '' '' events), Command ''GETINFO status/bootstrap-phase''])
      (?sel selected)" for selected
  proof (rule emits_returns [where y = selected])
    show "emits (\<lambda>_. [Command (''SETEVENTS '' @ Join '' '' selected), Command ''GETINFO status/bootstrap-phase'']) (?sel selected)"
      using emits_bind [OF emits_wrap [OF emits_control_Do] emits_quiet [OF emits_driver
        emits_bind [OF emits_control_Do emits_quiet [OF emits_driver emits_lift]]]] by simp
  qed (intro returns_bind returns_lift)
  from emits_bind [OF emits_wrap [OF emits_control_Do] emits_bind [OF emits_wrap [OF emits_control_Do]
    emits_quiet [OF emits_lift this]]]
  show ?thesis unfolding start_events_def by simp
qed

lemma emits_listener: "emits (\<lambda>_. []) (start_listener cfg env)"
  by (auto simp: emits_def start_listener_def bind_def lift_def split: sum.splits)

lemma emits_authentication: "emits (\<lambda>_. [Authentication]) (start_authentication auth env)"
proof -
  have "emits (\<lambda>_. [Authentication]) (\<lambda>s. case auth cookie (sy_tor s) of
      (err, t) \<Rightarrow> check err (effect Authentication (s\<lparr>sy_tor := t\<rparr>)))" for cookie
    by (auto simp: emits_def check_def split: prod.splits option.splits)
  then show ?thesis unfolding start_authentication_def by (intro emits_quiet [OF emits_lift])
qed

lemmas stage_defs = start_working_def start_state_def start_credentials_def start_endpoint_def

lemma emits_early:
  "emits (\<lambda>_. []) (start_working env)" "emits (\<lambda>_. []) (start_state env)"
  "emits (\<lambda>_. []) (start_credentials env)" "emits (\<lambda>_. []) (start_endpoint env)"
  unfolding stage_defs by (intro emit_intros)+

lemma emits_process: "emits (\<lambda>_. [StartProcess]) (start_process env)"
  using emits_quiet [OF emits_check emits_quiet [OF emits_check emits_quiet [OF emits_check
    emits_bind [OF emits_calls(2) emits_quiet [OF emits_check emits_driver]]]]]
  unfolding start_process_def by simp

lemma emits_connection: "emits (\<lambda>_. [DialControl port]) (start_connection env port)"
  using emits_bind [OF emits_calls(3) emits_quiet [OF emits_check emits_driver]]
  unfolding start_connection_def by simp

lemma emits_ownership:
  "emits (\<lambda>_. [Command ''TAKEOWNERSHIP'', Command ''RESETCONF __OwningControllerProcess'']) (start_ownership ctl)"
  using emits_bind [OF emits_control_Do emits_bind [OF emits_control_Do emits_lift]]
  unfolding start_ownership_def by simp

lemma emits_verification: "emits (\<lambda>_. [Command ''GETCONF Socks5Proxy'']) (start_verification ctl address)"
proof -
  have "emits (\<lambda>_. []) (if b then lift x else lift y)" for b x y by (simp add: emits_lift)
  from emits_bind [OF emits_control_Do this] show ?thesis unfolding start_verification_def by simp
qed

lemma emits_open:
  "emits (\<lambda>_. [Command ''SETCONF DisableNetwork=0'']) (start_network ctl)"
  "emits (\<lambda>_. [Command ''GETINFO net/listeners/socks'']) (start_socks ctl)"
proof -
  have "emits (\<lambda>_. [Command ''GETINFO net/listeners/socks'']) (querySocksEndpoint ctl)"
    by (auto simp: emits_def querySocksEndpoint_def control_Do_def split: prod.splits sum.splits)
  from emits_bind [OF this emits_driver]
  show "emits (\<lambda>_. [Command ''GETINFO net/listeners/socks'']) (start_socks ctl)" unfolding start_socks_def by simp
  show "emits (\<lambda>_. [Command ''SETCONF DisableNetwork=0'']) (start_network ctl)"
    using emits_bind [OF emits_control_Do emits_lift] unfolding start_network_def by simp
qed

lemma follows_return: "F x = es \<Longrightarrow> follows F es (\<lambda>s. (Inr x, s))"
  by (simp add: follows_def)

text \<open>The sequences after each stage are prefixes of the whole.\<close>

lemma script_part:
  assumes "prefix es (launch_script \<lparr>la_work = w, la_text = body, la_address = a, la_port = port, la_events = evs\<rparr>)"
  shows "\<exists>la. prefix es (launch_script la)"
  using assms by blast

lemmas script_partI = script_part [unfolded launch_script_def launch.simps, folded launch_script_def, unfolded append.simps]

lemma prefix_step: "prefix xs ys \<Longrightarrow> prefix (x # xs) (x # ys)"
  by simp

lemma follows_launch: "follows launch_script [] (start_launch U ctl auth cfg env)"
  unfolding start_launch_def
  apply (rule follows_stage [OF emits_early(1)], rule follows_stage [OF emits_early(2)],
      rule follows_stage [OF emits_early(3)], rule follows_stage [OF emits_listener],
      rule follows_stage [OF emits_config], rule follows_stage [OF emits_process],
      rule follows_stage [OF emits_early(4)], rule follows_stage [OF emits_connection],
      rule follows_stage [OF emits_authentication], rule follows_stage [OF emits_ownership],
      rule follows_stage [OF emits_events], rule follows_stage [OF emits_verification], rule follows_return)
  apply (simp add: launch_script_def)
  apply (simp_all only: append.simps)
  apply (rule script_partI, ((rule prefix_step)+)?, rule Nil_prefix)+
  done

lemma follows_open: "follows (\<lambda>_. es @ open_script) es (start_open ctl)"
  unfolding start_open_def
  by (rule follows_stage [OF emits_open(1)], rule follows_stage [OF emits_open(2)], rule follows_return)
    (simp_all add: open_script_def)

section \<open>What success means\<close>

lemma at_stage_Inr: "at_stage n m k s = (Inr y, s') \<longleftrightarrow> (\<exists>x s1. m s = (Inr x, s1) \<and> k x s1 = (Inr y, s'))"
  by (auto simp: at_stage_def split: prod.splits sum.splits)

lemma at_stageE:
  assumes "at_stage n m k s = (Inr y, s')"
  obtains x s1 where "m s = (Inr x, s1)" "k x s1 = (Inr y, s')"
  using assms unfolding at_stage_Inr by blast

lemma bind_Inr: "bind m k s = (Inr y, s') \<longleftrightarrow> (\<exists>x s1. m s = (Inr x, s1) \<and> k x s1 = (Inr y, s'))"
  by (auto simp: bind_def split: prod.splits sum.splits)

lemma lift_Inr: "lift r s = (Inr y, s') \<longleftrightarrow> r = Inr y \<and> s' = s"
  by (auto simp: lift_def)

text \<open>
  What is established before the network is enabled: the proxy listens on a numeric
  loopback address, Tor runs with the torrc rendered from the validated configuration for
  this address, the session was authenticated, and Tor answered that it uses this proxy.
\<close>

definition verified ::
  "casemap \<Rightarrow> 't ctl \<Rightarrow> 't auth \<Rightarrow> config \<Rightarrow> start_env \<Rightarrow> launch \<Rightarrow> bool" where
  "verified U ctl auth cfg env la \<longleftrightarrow>
    se_work env = Inr (la_work la) \<and> se_listen env = Inr (la_address la) \<and>
    (\<exists>a. numericEndpoint (la_address la) True = Inr a) \<and>
    (\<exists>user password paths. token (se_user env) = Inr user \<and> token (se_password env) = Inr password \<and>
       torrc_text U cfg env (la_work la) (la_address la) user password = Inr (paths, la_text la)) \<and>
    (\<exists>cookie t t'. waitFile (se_cookieFS env) (se_cookie env) = Inr cookie \<and> auth cookie t = (None, t')) \<and>
    (\<exists>r t t'. ctl ''GETCONF Socks5Proxy'' t = (Inr r, t') \<and> Value r ''Socks5Proxy'' = Some (la_address la))"

lemma working_Inr: "start_working env s = (Inr w, s') \<Longrightarrow> se_work env = Inr w"
  by (auto simp: start_working_def bind_Inr lift_Inr)

lemma credentials_Inr:
  "start_credentials env s = (Inr c, s') \<Longrightarrow> token (se_user env) = Inr (fst c) \<and> token (se_password env) = Inr (snd c)"
  by (auto simp: start_credentials_def bind_Inr lift_Inr)

lemma listener_Inr:
  "start_listener cfg env s = (Inr a, s') \<Longrightarrow> se_listen env = Inr a \<and> (\<exists>x. numericEndpoint a True = Inr x)"
  by (cases "numericEndpoint (projr (se_listen env)) True") (auto simp: start_listener_def bind_Inr lift_Inr)

lemma config_Inr:
  "start_config U cfg env w a u p s = (Inr body, s') \<Longrightarrow> \<exists>paths. torrc_text U cfg env w a u p = Inr (paths, body)"
  by (auto simp: start_config_def bind_Inr lift_Inr)

lemma authentication_Inr:
  assumes "start_authentication auth env s = (Inr x, s')"
  shows "\<exists>cookie t t'. waitFile (se_cookieFS env) (se_cookie env) = Inr cookie \<and> auth cookie t = (None, t')"
proof -
  from assms obtain cookie where c: "waitFile (se_cookieFS env) (se_cookie env) = Inr cookie"
    and a: "(case auth cookie (sy_tor s) of
        (err, t) \<Rightarrow> check err (effect Authentication (s\<lparr>sy_tor := t\<rparr>))) = (Inr x, s')"
    unfolding start_authentication_def bind_Inr lift_Inr by blast
  obtain err t where t: "auth cookie (sy_tor s) = (err, t)" by fastforce
  with a have "err = None" by (cases err) (simp_all add: check_def)
  with c t show ?thesis by blast
qed

lemma control_Do_reply: "control_Do ctl cmd s = (r, s') \<Longrightarrow> \<exists>t'. ctl cmd (sy_tor s) = (r, t')"
  by (auto simp: control_Do_def split: prod.splits)

lemma verification_Inr:
  assumes "start_verification ctl a s = (Inr x, s')"
  shows "\<exists>r t t'. ctl ''GETCONF Socks5Proxy'' t = (Inr r, t') \<and> Value r ''Socks5Proxy'' = Some a"
proof -
  from assms obtain r s1 where r: "control_Do ctl ''GETCONF Socks5Proxy'' s = (Inr r, s1)"
    and v: "(if Value r ''Socks5Proxy'' \<noteq> Some a
       then lift (Inl (Msg ''tor-driver: Tor did not retain the mandatory upstream proxy'')) else lift (Inr ())) s1 = (Inr x, s')"
    unfolding start_verification_def bind_Inr by blast
  from v have "Value r ''Socks5Proxy'' = Some a"
    by (cases "Value r ''Socks5Proxy'' = Some a") (simp_all only: if_True if_False lift_Inr not_True_eq_False sum.distinct simp_thms)
  with control_Do_reply [OF r] show ?thesis by blast
qed

lemma launch_verified:
  assumes "start_launch U ctl auth cfg env s = (Inr la, s')"
  shows "verified U ctl auth cfg env la"
  using assms unfolding start_launch_def
  apply (elim at_stageE)
  apply (drule working_Inr, drule credentials_Inr, drule listener_Inr, drule config_Inr, drule authentication_Inr,
      drule verification_Inr)
  apply (clarsimp simp only: Pair_inject sum.inject)
  apply (simp only: verified_def launch.select_convs)
  apply blast
  done

lemma query_Inr: "querySocksEndpoint ctl s = (Inr x, s') \<longleftrightarrow>
    (\<exists>r. control_Do ctl ''GETINFO net/listeners/socks'' s = (Inr r, s') \<and> socks_reply r = Inr x)"
  by (auto simp: querySocksEndpoint_def split: prod.splits sum.splits)

lemma open_socks:
  assumes "start_open ctl s = (Inr u, s')"
  shows "\<exists>a. numericEndpoint (d_socks (sy_d s')) True = Inr a"
proof -
  from assms have "\<exists>x r t. s' = on_driver (\<lambda>d. d\<lparr>d_socks := x\<rparr>) t \<and> socks_reply r = Inr x"
    by (auto simp: start_open_def start_socks_def at_stage_Inr bind_Inr modify_def query_Inr)
  then show ?thesis using socks_reply_numeric by (auto simp: on_driver_def)
qed

section \<open>The theorem\<close>

definition closing_effect :: "effect \<Rightarrow> bool" where
  "closing_effect e \<longleftrightarrow> e \<in> {OutboundClose, ResourcesClose, Command ''SIGNAL SHUTDOWN'', ControlClose, Kill, ProxyClose, SandboxClose} \<or>
     (\<exists>w. e = RemoveAll w)"

lemma close_effects_closing: "list_all closing_effect (close_effects env d)"
  by (auto simp: close_effects_def control_effects_def process_effects_def proxy_effects_def files_effects_def closing_effect_def list_all_iff)

lemma closing_filter: "list_all closing_effect es \<Longrightarrow> filter (\<lambda>e. e \<noteq> ListenerClose) es = es"
  by (induction es) (auto simp: closing_effect_def)

lemma newStartupError_join:
  "\<exists>e' n'. newStartupError n (errors_join [Some e, c]) = Some e' \<and> errors_as_startup e' = Some n'"
proof -
  obtain j where j: "errors_join [Some e, c] = Some j" by simp
  have "newStartupError n (Some j) \<noteq> None" by (simp add: newStartupError_def)
  then obtain e' where "newStartupError n (Some j) = Some e'" by blast
  with newStartupError_stage [OF this] j show ?thesis by simp
qed

lemma run_cases:
  assumes "start_run U ctl auth cfg env s = (r, s')" "acts s = []" "live s"
  shows "live s' \<and> (\<exists>la es. acts s' = es \<and> prefix es (launch_script la @ open_script) \<and>
      (Command ''SETCONF DisableNetwork=0'' \<in> set es \<longrightarrow> verified U ctl auth cfg env la) \<and>
      (\<forall>u. r = Inr u \<longrightarrow> es = launch_script la @ open_script \<and> (\<exists>a. numericEndpoint (d_socks (sy_d s')) True = Inr a)))"
proof -
  obtain r1 s1 where l: "start_launch U ctl auth cfg env s = (r1, s1)" by fastforce
  have live1: "live s1" using live_launch assms(3) l unfolding keeps_live_def by (metis snd_conv)
  have f: "case r1 of Inr la \<Rightarrow> acts s1 = launch_script la | Inl _ \<Rightarrow> \<exists>la. prefix (acts s1) (launch_script la)"
    using follows_launch l assms(2) unfolding follows_def by blast
  show ?thesis
  proof (cases r1)
    case (Inl e)
    with f obtain la where la: "prefix (acts s1) (launch_script la)" by auto
    have "Command ''SETCONF DisableNetwork=0'' \<notin> set (launch_script la)" by (simp add: launch_script_def)
    then have "Command ''SETCONF DisableNetwork=0'' \<notin> set (acts s1)" using set_mono_prefix [OF la] by blast
    moreover have "r = Inl e" "s' = s1" using assms(1) l Inl by (simp_all add: start_run_def)
    moreover have "prefix (acts s1) (launch_script la @ open_script)" using la by (rule prefix_prefix)
    ultimately show ?thesis using live1 by auto
  next
    case (Inr la)
    have o: "start_open ctl s1 = (r, s')" using assms(1) l Inr by (simp add: start_run_def)
    have "live s'" using live_open live1 o unfolding keeps_live_def by (metis snd_conv)
    moreover have "acts s1 = launch_script la" using f Inr by simp
    then have "case r of Inr u \<Rightarrow> acts s' = launch_script la @ open_script
        | Inl _ \<Rightarrow> \<exists>u :: unit. prefix (acts s') (launch_script la @ open_script)"
      using follows_open [of "launch_script la" ctl] o unfolding follows_def by blast
    moreover have "verified U ctl auth cfg env la" using launch_verified l Inr by blast
    ultimately show ?thesis using open_socks [of ctl s1 _ s'] o by (auto split: sum.splits)
  qed
qed

text \<open>A failed start closes the driver, which adds only closing effects.\<close>

lemma start_closed:
  assumes "live s1" "driver_Close ctl cenv s1 = (cerr, s2)"
  shows "shut_down (sy_d s2)" "acts s2 = acts s1 @ close_effects cenv (sy_d s1)"
    "list_all closing_effect (close_effects cenv (sy_d s1))"
proof -
  have "s2 = close_run ctl cenv s1" using assms by (simp add: driver_Close_def live_def Let_def)
  from close_run_spec [OF _ this] assms(1) have sd: "shut_down (sy_d s2)"
    "sy_effects s2 = sy_effects s1 @ close_effects cenv (sy_d s1)" by (simp_all add: live_def)
  show cl: "list_all closing_effect (close_effects cenv (sy_d s1))" by (rule close_effects_closing)
  show "shut_down (sy_d s2)" by (rule sd(1))
  show "acts s2 = acts s1 @ close_effects cenv (sy_d s1)"
    using sd(2) closing_filter [OF cl] by (simp only: acts_def filter_append)
qed

text \<open>
  C2. Starting fails closed, and the network is enabled last. When the configuration is
  valid, what a start does to the outside is, up to the closing of a refused listener, a
  prefix of one fixed sequence (write the torrc, start Tor, connect, authenticate, take
  ownership, subscribe to events, query the proxy, enable the network, query the SOCKS
  listener), followed by closing calls if it failed. The network is enabled only after the
  proxy listens on a loopback address, Tor was given the torrc rendered for it, the session
  was authenticated and Tor confirmed that it uses this proxy. A start that succeeds returns a live
  driver with a loopback SOCKS endpoint after the whole sequence; one that fails leaves a
  driver that is shut down and returns a startup error. An invalid configuration has no
  effect at all.
\<close>

theorem Start_safe:
  assumes "Start U vn vp ctl auth cenv cfg deps env t = (err, so)"
  shows "case so of
      None \<Rightarrow> \<exists>e. validate vn vp cfg deps = Inl e \<and> err = newStartupError 0 (Some e)
    | Some s \<Rightarrow> \<exists>cfg' w la es closing. validate vn vp cfg deps = Inr (cfg', w) \<and>
        acts s = es @ closing \<and> prefix es (launch_script la @ open_script) \<and> list_all closing_effect closing \<and>
        (Command ''SETCONF DisableNetwork=0'' \<in> set es \<longrightarrow> verified U ctl auth cfg' env la) \<and>
        (if err = None
         then live s \<and> es = launch_script la @ open_script \<and> closing = [] \<and>
           (\<exists>a. numericEndpoint (d_socks (sy_d s)) True = Inr a)
         else shut_down (sy_d s) \<and> (\<exists>e n. err = Some e \<and> errors_as_startup e = Some n))"
proof (cases "validate vn vp cfg deps")
  case (Inl e)
  with assms have "so = None" "err = newStartupError 0 (Some e)" by (auto simp: Start_def)
  with Inl show ?thesis by simp
next
  case (Inr cw)
  obtain cfg' w where cw: "cw = (cfg', w)" by fastforce
  let ?s0 = "\<lparr>sy_d = start_driver cfg', sy_tor = t, sy_effects = []\<rparr>"
  obtain r s1 where run: "start_run U ctl auth cfg' env ?s0 = (r, s1)" by fastforce
  from run_cases [OF run _ live_start] obtain la where
    la: "live s1" "prefix (acts s1) (launch_script la @ open_script)"
      "Command ''SETCONF DisableNetwork=0'' \<in> set (acts s1) \<longrightarrow> verified U ctl auth cfg' env la"
      "\<And>u. r = Inr u \<Longrightarrow> acts s1 = launch_script la @ open_script \<and> (\<exists>a. numericEndpoint (d_socks (sy_d s1)) True = Inr a)"
    by (auto simp: acts_def)
  show ?thesis
  proof (cases r)
    case ok: (Inr u)
    then have r: "so = Some s1" "err = None" using assms Inr cw run by (simp_all add: Start_def)
    have all: "acts s1 = acts s1 @ [] \<and> prefix (acts s1) (launch_script la @ open_script) \<and> list_all closing_effect [] \<and>
        (Command ''SETCONF DisableNetwork=0'' \<in> set (acts s1) \<longrightarrow> verified U ctl auth cfg' env la) \<and>
        live s1 \<and> acts s1 = launch_script la @ open_script \<and> (\<exists>a. numericEndpoint (d_socks (sy_d s1)) True = Inr a)"
      using la(1,2,3) la(4) [OF ok] by (simp only: append_Nil2 list.pred_inject(1) simp_thms)
    show ?thesis unfolding r Inr cw option.case
      by (rule exI [of _ cfg'], rule exI [of _ w], rule exI [of _ la], rule exI [of _ "acts s1"],
        rule exI [of _ "[]"], simp only: refl if_True simp_thms) (rule all)
  next
    case (Inl ne)
    obtain n e where ne: "ne = (n, e)" by fastforce
    obtain cerr s2 where c: "driver_Close ctl cenv s1 = (cerr, s2)" by fastforce
    have r: "so = Some s2" "err = newStartupError n (errors_join [Some e, cerr])"
      using assms Inr cw run Inl ne c by (simp_all add: Start_def)
    let ?cl = "close_effects cenv (sy_d s1)"
    note sd = start_closed [OF la(1) c]
    from newStartupError_join [of n e cerr] r(2)
    have "err \<noteq> None" "\<exists>e n. err = Some e \<and> errors_as_startup e = Some n" by auto
    then have all: "acts s2 = acts s1 @ ?cl \<and> prefix (acts s1) (launch_script la @ open_script) \<and>
        list_all closing_effect ?cl \<and>
        (Command ''SETCONF DisableNetwork=0'' \<in> set (acts s1) \<longrightarrow> verified U ctl auth cfg' env la) \<and>
        shut_down (sy_d s2) \<and> (\<exists>e n. err = Some e \<and> errors_as_startup e = Some n)" "err \<noteq> None"
      using sd la(2,3) by blast+
    show ?thesis unfolding r(1) Inr cw option.case if_not_P [OF all(2)]
      by (rule exI [of _ cfg'], rule exI [of _ w], rule exI [of _ la], rule exI [of _ "acts s1"],
        rule exI [of _ ?cl], simp only: simp_thms) (rule all(1))
  qed
qed

text \<open>A start on a quiet system: the daemon answers every query as expected.\<close>

definition sample_env :: start_env where
  "sample_env = \<lparr>se_acquire = None, se_files = None, se_work = Inr ''w'', se_stateFiles = None, se_mkdir = None,
     se_outbound = None, se_retire = (\<lambda>_. None), se_user = Inr [1], se_password = Inr [2],
     se_listen = Inr ''127.0.0.1:9'', se_defaults = None, se_child = (\<lambda>p. Inr (''/b/'' @ Rel p)),
     se_program = (\<lambda>p. Inr p), se_pid = 7, se_torrc = None, se_command = None, se_stdout = None, se_stderr = None,
     se_start = None, se_portFS = None,
     se_port = [(Inl (Sentinel FsErrNotExist), None, None), (Inr ''PORT=127.0.0.1:8'', None, None)], se_dial = None,
     se_cookieFS = None, se_cookie = [(Inr [3], None, None)], se_events = []\<rparr>"

definition socks_line :: string where
  "socks_line = ''net/listeners/socks='' @ quote ''127.0.0.1:6''"

definition start_ctl :: "nat ctl" where
  "start_ctl cmd t =
    (Inr \<lparr>Code = 250, Lines =
       (if cmd = ''GETINFO events/names'' then [''events/names=STATUS_CLIENT HS_DESC'']
        else if cmd = ''GETCONF Socks5Proxy'' then [''Socks5Proxy=127.0.0.1:9'']
        else if cmd = ''GETINFO net/listeners/socks'' then [socks_line]
        else [''OK''])\<rparr>, Suc t)"

definition start_auth :: "nat auth" where
  "start_auth cookie t = (if cookie = [3] then None else Some (Msg ''cookie''), t)"

lemma sample_ports:
  "numericEndpoint ''127.0.0.1:9'' True = Inr \<lparr>ap_addr = IPv4 [127, 0, 0, 1], ap_port = 9\<rparr>"
  "numericEndpoint ''127.0.0.1:8'' True = Inr \<lparr>ap_addr = IPv4 [127, 0, 0, 1], ap_port = 8\<rparr>"
  "numericEndpoint ''127.0.0.1:6'' True = Inr \<lparr>ap_addr = IPv4 [127, 0, 0, 1], ap_port = 6\<rparr>"
  by (simp_all add: numericEndpoint_def ParseAddrPort_def cut_last_colon_def ParseUint_def ParseAddr_def
      parse_ipv4_def is_digit_def dec_val_def is_v4_def zone_of_def IsUnspecified_def IsLoopback_def Unmap_def)

lemma sample_queries:
  "control_port ''PORT=127.0.0.1:8'' = ''127.0.0.1:8''"
  "event_selection \<lparr>Code = 250, Lines = [''events/names=STATUS_CLIENT HS_DESC'']\<rparr> = Inr [''STATUS_CLIENT'', ''HS_DESC'']"
  by code_simp+

lemma sample_values:
  "Value \<lparr>Code = 250, Lines = [''Socks5Proxy=127.0.0.1:9'']\<rparr> ''Socks5Proxy'' = Some ''127.0.0.1:9''"
  "Value \<lparr>Code = 250, Lines = [''OK'']\<rparr> ''status/bootstrap-phase'' = None"
  "Value \<lparr>Code = 250, Lines = [socks_line]\<rparr> ''net/listeners/socks'' = Some (quote ''127.0.0.1:6'')"
  by (simp_all add: Value_def HasPrefix_def CutPrefix_def socks_line_def)

lemma sample_socks: "socks_reply \<lparr>Code = 250, Lines = [socks_line]\<rparr> = Inr ''127.0.0.1:6''"
proof -
  have "QuotedWords (quote ''127.0.0.1:6'') = Inr [''127.0.0.1:6'']" by code_simp
  then show ?thesis by (simp add: socks_reply_def sample_values sample_ports)
qed

lemma sample_torrc:
  obtains body where "torrc_text (\<lambda>n. n) sample_validated sample_env w a u p = Inr ([], body)"
proof -
  have "\<exists>body. renderConfig (\<lambda>n. n) sample_validated s x y a u p 7 m = Some body" for s x y m
    by (simp add: renderConfig_def render_options_def sample_validated_def sample_config_def index_def)
  then obtain body where "renderConfig (\<lambda>n. n) sample_validated (''/b/'' @ Rel (state_path sample_validated w))
      (''/b/'' @ Rel (work_file w ''control-port'')) (''/b/'' @ Rel (work_file w ''control-cookie'')) a u p 7 Map.empty = Some body"
    by blast
  then show ?thesis using that by (simp add: torrc_text_def sample_env_def sample_validated_def sample_config_def)
qed

lemma sample_runs:
  "\<exists>u s. start_run (\<lambda>n. n) start_ctl start_auth sample_validated sample_env
     \<lparr>sy_d = start_driver sample_validated, sy_tor = 0, sy_effects = []\<rparr> = (Inr u, s)"
proof -
  obtain u p where t: "token (Inr [1]) = Inr u" "token (Inr [2]) = Inr p" by (simp add: token_def)
  obtain body where b: "torrc_text (\<lambda>n. n) sample_validated sample_env ''w'' ''127.0.0.1:9'' u p = Inr ([], body)"
    by (rule sample_torrc)
  have e: "se_acquire sample_env = None" "se_files sample_env = None" "se_work sample_env = Inr ''w''"
    "se_stateFiles sample_env = None" "se_mkdir sample_env = None"
    "se_user sample_env = Inr [1]" "se_password sample_env = Inr [2]" "se_listen sample_env = Inr ''127.0.0.1:9''"
    "se_defaults sample_env = None" "se_torrc sample_env = None" "se_command sample_env = None" "se_stdout sample_env = None"
    "se_stderr sample_env = None" "se_start sample_env = None" "se_portFS sample_env = None" "se_dial sample_env = None"
    "se_port sample_env = [(Inl (Sentinel FsErrNotExist), None, None), (Inr ''PORT=127.0.0.1:8'', None, None)]"
    "se_cookieFS sample_env = None" "se_cookie sample_env = [(Inr [3], None, None)]" "se_events sample_env = []"
    by (simp_all add: sample_env_def)
  have w: "waitFile None [(Inl (Sentinel FsErrNotExist), None, None), (Inr ''PORT=127.0.0.1:8'', None, None)] = Inr ''PORT=127.0.0.1:8''"
    by (simp add: waitFile_def)
  show ?thesis
    by (simp add: start_run_def start_launch_def start_open_def at_stage_def start_working_def start_state_def
      start_credentials_def start_listener_def start_config_def start_process_def start_endpoint_def
      start_connection_def start_authentication_def start_ownership_def start_events_def start_verification_def
      start_network_def start_socks_def querySocksEndpoint_def wrap_err_def bind_def check_def lift_def modify_def
      t e w b waitFile_def start_auth_def start_ctl_def control_Do_def effect_def on_driver_def
      sample_ports sample_queries sample_values sample_socks)
qed

theorem Start_safe_witness:
  "\<exists>s la. Start (\<lambda>n. n) (\<lambda>_. None) (\<lambda>_. None) start_ctl start_auth sample_close sample_config all_deps sample_env 0 =
     (None, Some s) \<and> live s \<and> acts s = launch_script la @ open_script \<and>
     verified (\<lambda>n. n) start_ctl start_auth sample_validated sample_env la"
proof -
  obtain s where r: "Start (\<lambda>n. n) (\<lambda>_. None) (\<lambda>_. None) start_ctl start_auth sample_close sample_config all_deps
      sample_env 0 = (None, Some s)"
    using sample_runs sample_validates by (auto simp: Start_def)
  have "Command ''SETCONF DisableNetwork=0'' \<in> set (launch_script la @ open_script)" for la by (simp add: open_script_def)
  with Start_safe [OF r] r sample_validates show ?thesis by fastforce
qed

end
