(* ===== verification/Tor_Torrc.thy ===== *)
theory Tor_Torrc
  imports Tor_Start_Proofs Tor_Render_Proofs
begin

text \<open>
  The torrc that a start hands to Tor. Apart from the empty file of defaults, a start writes
  only the text rendered from the validated configuration, for the address the proxy really
  listens on and the credentials it drew itself; from this follows which of its lines can
  contain foreign text.
\<close>

section \<open>The files a start writes\<close>

definition files :: "'t sys \<Rightarrow> string set" where
  "files s = {x. \<exists>p. WriteFile p x \<in> set (sy_effects s)}"

text \<open>\<open>writes A m\<close>: the contents of every file that \<open>m\<close> writes are in \<open>A\<close>.\<close>

definition writes :: "string set \<Rightarrow> ('t sys \<Rightarrow> 'r \<times> 't sys) \<Rightarrow> bool" where
  "writes A m \<longleftrightarrow> (\<forall>s. files (snd (m s)) \<subseteq> files s \<union> A)"

named_theorems write_intros \<open>the files that the operations of the start write\<close>

lemma files_simps [simp]:
  "files (s\<lparr>sy_tor := t\<rparr>) = files s" "files (on_driver f s) = files s"
  "files (effect e s) = files s \<union> {x. \<exists>p. e = WriteFile p x}"
  by (auto simp: files_def on_driver_def effect_def)

lemma writes_bind:
  assumes "writes A m" "\<And>x s s'. m s = (Inr x, s') \<Longrightarrow> writes A (k x)"
  shows "writes A (bind m k)"
  unfolding writes_def
proof
  fix s
  obtain r s1 where m: "m s = (r, s1)" by fastforce
  have one: "files s1 \<subseteq> files s \<union> A" using assms(1) m unfolding writes_def by (metis snd_conv)
  show "files (snd (bind m k s)) \<subseteq> files s \<union> A"
  proof (cases r)
    case (Inr x)
    then have "files (snd (k x s1)) \<subseteq> files s1 \<union> A" using assms(2) m unfolding writes_def by blast
    with one have "files (snd (k x s1)) \<subseteq> files s \<union> A" by blast
    with m Inr show ?thesis by (simp add: bind_def)
  qed (use m one in \<open>simp add: bind_def\<close>)
qed

lemma writes_stage:
  assumes "writes A m" "\<And>x s s'. m s = (Inr x, s') \<Longrightarrow> writes A (k x)"
  shows "writes A (at_stage n m k)"
  unfolding writes_def
proof
  fix s
  obtain r s1 where m: "m s = (r, s1)" by fastforce
  have one: "files s1 \<subseteq> files s \<union> A" using assms(1) m unfolding writes_def by (metis snd_conv)
  show "files (snd (at_stage n m k s)) \<subseteq> files s \<union> A"
  proof (cases r)
    case (Inr x)
    then have "files (snd (k x s1)) \<subseteq> files s1 \<union> A" using assms(2) m unfolding writes_def by blast
    with one have "files (snd (k x s1)) \<subseteq> files s \<union> A" by blast
    with m Inr show ?thesis by (simp add: at_stage_def)
  qed (use m one in \<open>simp add: at_stage_def\<close>)
qed

lemma writes_bind_any [write_intros]: "writes A m \<Longrightarrow> (\<And>x. writes A (k x)) \<Longrightarrow> writes A (bind m k)"
  by (rule writes_bind)

lemma writes_basic [write_intros]:
  "writes A (check err)" "writes A (lift r)" "writes A (\<lambda>s. (r', s))" "writes A (modify (on_driver f))"
  "writes A (control_Do ctl cmd)"
  by (auto simp: writes_def check_def lift_def modify_def control_Do_def split: option.split prod.split)

lemma writes_effect [write_intros]:
  "(\<And>p x. e = WriteFile p x \<Longrightarrow> x \<in> A) \<Longrightarrow> writes A (modify (effect e))"
  by (auto simp: writes_def modify_def)

lemma writes_wrap [write_intros]: "writes A m \<Longrightarrow> writes A (wrap_err msg m)"
  unfolding writes_def wrap_err_def by (force split: prod.splits sum.splits)

lemma writes_stages:
  "writes A (start_working env)" "writes A (start_state env)" "writes A (start_credentials env)"
  "writes A (start_process env)" "writes A (start_endpoint env)" "writes A (start_connection env port)"
  "writes A (start_ownership ctl)" "writes A (start_network ctl)"
  unfolding start_working_def start_state_def start_credentials_def start_process_def start_endpoint_def
    start_connection_def start_ownership_def start_network_def
  by (intro write_intros; simp)+

lemma writes_listener: "writes A (start_listener cfg env)"
  by (auto simp: writes_def start_listener_def bind_def lift_def split: sum.split)

lemma writes_authentication: "writes A (start_authentication auth env)"
  by (auto simp: writes_def start_authentication_def bind_def lift_def check_def split: sum.split prod.split option.split)

lemma writes_events: "writes A (start_events U ctl env)"
  unfolding start_events_def by (intro write_intros)

lemma writes_verification: "writes A (start_verification ctl address)"
  unfolding start_verification_def by (intro write_intros) (auto intro: write_intros)

lemma writes_socks: "writes A (start_socks ctl)"
proof -
  have "writes A (querySocksEndpoint ctl)"
    by (auto simp: writes_def querySocksEndpoint_def control_Do_def split: prod.splits sum.splits)
  then show ?thesis unfolding start_socks_def by (intro write_intros)
qed

text \<open>The texts that may be written as a torrc, and the empty defaults.\<close>

definition rendered :: "casemap \<Rightarrow> config \<Rightarrow> start_env \<Rightarrow> string set" where
  "rendered U cfg env = insert [] {text. \<exists>work address user password paths a.
     se_work env = Inr work \<and> se_listen env = Inr address \<and> numericEndpoint address True = Inr a \<and>
     token (se_user env) = Inr user \<and> token (se_password env) = Inr password \<and>
     torrc_text U cfg env work address user password = Inr (paths, text)}"

lemma writes_config:
  assumes "[] \<in> A" "\<And>paths text. torrc_text U cfg env work address user password = Inr (paths, text) \<Longrightarrow> text \<in> A"
  shows "writes A (start_config U cfg env work address user password)"
  unfolding start_config_def
  by (intro write_intros writes_bind [of A "lift r" for r])
    (use assms in \<open>auto simp: lift_Inr intro!: write_intros\<close>)

lemma writes_launch: "writes (rendered U cfg env) (start_launch U ctl auth cfg env)"
  unfolding start_launch_def
proof (intro writes_stage writes_stages writes_listener writes_authentication writes_events writes_verification
    writes_basic writes_config)
  fix work cred address paths x s s' u1 s1 s1' s2 s2' s3 s3'
  assume "start_working env s = (Inr work, s')" "start_credentials env s2 = (Inr cred, s2')"
    "start_listener cfg env s3 = (Inr address, s3')"
    "torrc_text U cfg env work address (fst cred) (snd cred) = Inr (paths, x)"
  then show "x \<in> rendered U cfg env"
    using working_Inr [of env s work s'] credentials_Inr [of env s2 cred s2'] listener_Inr [of cfg env s3 address s3']
    unfolding rendered_def by blast
qed (simp add: rendered_def)

lemma writes_open: "writes A (start_open ctl)"
  unfolding start_open_def by (intro writes_stage writes_stages writes_socks writes_basic)

lemma start_writes:
  assumes "validate vn vp c0 deps = Inr (c, w)" "Start U vn vp ctl auth cenv c0 deps env t = (err, Some s)"
  shows "files s \<subseteq> rendered U c env"
proof -
  let ?s0 = "\<lparr>sy_d = start_driver c, sy_tor = t, sy_effects = []\<rparr>"
  obtain r s1 where run: "start_run U ctl auth c env ?s0 = (r, s1)" by fastforce
  have l: "files (snd (start_launch U ctl auth c env ?s0)) \<subseteq> rendered U c env"
    using spec [OF writes_launch [of U c env ctl auth, unfolded writes_def], of ?s0] by (simp add: files_def)
  have o: "files (snd (start_open ctl s')) \<subseteq> files s'" for s'
    using writes_open [of "{}" ctl] by (simp add: writes_def)
  have one: "files s1 \<subseteq> rendered U c env"
    using run l o by (fastforce simp: start_run_def split: prod.splits sum.splits)
  have "live s1" using run_cases [OF run _ live_start] by (simp add: acts_def)
  show ?thesis
  proof (cases r)
    case (Inr u)
    with assms run have "s = s1" by (simp add: Start_def)
    with one show ?thesis by simp
  next
    case (Inl ne)
    obtain cerr s2 where c: "driver_Close ctl cenv s1 = (cerr, s2)" by fastforce
    with assms run Inl have s: "s = s2" by (cases ne) (simp add: Start_def)
    note sc = start_closed [OF \<open>live s1\<close> c]
    have "WriteFile p x \<in> set (sy_effects s') \<longleftrightarrow> WriteFile p x \<in> set (acts s')" for p x and s' :: "'a sys"
      by (simp add: acts_def)
    moreover have "WriteFile p x \<notin> set (close_effects cenv (sy_d s1))" for p x
      using sc(3) by (auto simp: list_all_iff closing_effect_def)
    ultimately have "files s2 \<subseteq> files s1" unfolding files_def using sc(2) by auto
    with one s show ?thesis by blast
  qed
qed

section \<open>The lines of the torrc\<close>

lemma no_nl_token: "token r = Inr x \<Longrightarrow> no_nl x"
  unfolding token_def no_nl_def
  using hex_codec.enc_excludes [of nl] by (auto simp: hex_char_range split: sum.splits)

lemma no_nl_endpoint: "numericEndpoint x lo = Inr a \<Longrightarrow> no_nl x"
  by (rule no_nl_chars [OF numericEndpoint_chars]) (auto simp: addr_char_def hex_char_range)

lemma torrc_text_Inr:
  assumes "torrc_text U c env work address user password = Inr (paths, text)"
  shows "\<exists>state cport ccookie. se_child env (state_path c work) = Inr state \<and>
    se_child env (work_file work ''control-port'') = Inr cport \<and>
    se_child env (work_file work ''control-cookie'') = Inr ccookie \<and>
    program_paths (se_program env) (Transports c) = Inr paths \<and>
    renderConfig U c state cport ccookie address user password (se_pid env) (map_of paths) = Some text"
  using assms unfolding torrc_text_def by (auto split: sum.splits option.splits)

text \<open>The paths of the host in a torrc, all of which the sandbox chooses.\<close>

definition host_paths :: "string \<Rightarrow> string \<Rightarrow> string \<Rightarrow> (string \<times> string) list \<Rightarrow> string list" where
  "host_paths state cport ccookie paths = [state, cport, ccookie] @ map snd paths"

text \<open>
  C9. Nothing but a path of the host can inject into the torrc. Whatever a start, successful or
  not, writes to a file is empty or the text of a list of options, one line for each. These are
  the options rendered from the validated configuration with the paths that the sandbox gave
  for the state directory, the two control files and the transport programs, the address on
  which the proxy listens, which was checked to be numeric, and the two drawn credentials; no
  condition on the latter three is assumed. No option but the four that hold a path of the
  host contains a line feed or a blank in its name. If these paths have no line feed, which
  neither the rendering nor the start checks, then the lines of the file are exactly
  the options, and each of the settings that confine Tor (the mandatory proxy, the disabled
  network, client only, no OR port, no exit, the owning process, the cookie) has exactly one
  line, with its fixed value.
\<close>

theorem torrc_no_injection:
  assumes "validate vn vp c0 deps = Inr (c, w)" "Start U vn vp ctl auth cenv c0 deps env t = (err, Some s)"
    and "WriteFile file text \<in> set (sy_effects s)" "text \<noteq> []"
  shows "\<exists>work state cport ccookie paths address user password kvs.
    se_work env = Inr work \<and> se_listen env = Inr address \<and>
    token (se_user env) = Inr user \<and> token (se_password env) = Inr password \<and>
    se_child env (state_path c work) = Inr state \<and>
    se_child env (work_file work ''control-port'') = Inr cport \<and>
    se_child env (work_file work ''control-cookie'') = Inr ccookie \<and>
    program_paths (se_program env) (Transports c) = Inr paths \<and>
    render_options U c state cport ccookie address user password (se_pid env) (map_of paths) = Some kvs \<and>
    text = concat (map (\<lambda>(key, v). key @ '' '' @ v @ [nl]) kvs) \<and>
    (\<forall>(key, v)\<in>set kvs.
       key \<notin> {''DataDirectory'', ''ControlPortWriteToFile'', ''CookieAuthFile'', ''ClientTransportPlugin''} \<longrightarrow>
       nl \<notin> set key \<and> CHR '' '' \<notin> set key \<and> nl \<notin> set v) \<and>
    ((\<forall>path\<in>set (host_paths state cport ccookie paths). nl \<notin> set path) \<longrightarrow>
       Split nl text = map (\<lambda>(key, v). key @ '' '' @ v) kvs @ [[]] \<and>
       option_lines ''Socks5Proxy'' text = [''Socks5Proxy '' @ address] \<and>
       option_lines ''DisableNetwork'' text = [''DisableNetwork 1''] \<and>
       option_lines ''ClientOnly'' text = [''ClientOnly 1''] \<and>
       option_lines ''ORPort'' text = [''ORPort 0''] \<and> option_lines ''ExitRelay'' text = [''ExitRelay 0''] \<and>
       option_lines ''__OwningControllerProcess'' text = [''__OwningControllerProcess '' @ Itoa (se_pid env)] \<and>
       option_lines ''CookieAuthentication'' text = [''CookieAuthentication 1''])"
proof -
  from assms(3) have "text \<in> files s" by (auto simp: files_def)
  with start_writes [OF assms(1,2)] assms(4) obtain work address user password paths a where
    e: "se_work env = Inr work" "se_listen env = Inr address" "numericEndpoint address True = Inr a"
      "token (se_user env) = Inr user" "token (se_password env) = Inr password"
      and tt: "torrc_text U c env work address user password = Inr (paths, text)"
    unfolding rendered_def by blast
  from torrc_text_Inr [OF tt] obtain state cport ccookie where
    h: "se_child env (state_path c work) = Inr state" "se_child env (work_file work ''control-port'') = Inr cport"
      "se_child env (work_file work ''control-cookie'') = Inr ccookie"
      "program_paths (se_program env) (Transports c) = Inr paths"
    and rc: "renderConfig U c state cport ccookie address user password (se_pid env) (map_of paths) = Some text"
    by blast
  from rendered_lines [OF assms(1) no_nl_endpoint [OF e(3)] no_nl_token [OF e(4)] no_nl_token [OF e(5)],
      of U state cport ccookie "se_pid env" "map_of paths"] rc
  obtain kvs where k: "render_options U c state cport ccookie address user password (se_pid env) (map_of paths) = Some kvs"
      "text = concat (map line_text kvs)" "\<forall>kv\<in>set kvs. fst kv \<notin> path_keys \<longrightarrow> no_nl_option kv"
    and ln: "no_nl state \<and> no_nl cport \<and> no_nl ccookie \<and> (\<forall>q path. map_of paths q = Some path \<longrightarrow> no_nl path) \<longrightarrow>
      Split nl text = map (\<lambda>kv. fst kv @ '' '' @ snd kv) kvs @ [[]] \<and>
      (\<forall>key\<in>set fixed_keys. option_lines key text = [key @ '' '' @ fixed_value address (se_pid env) key])"
    by auto
  have "text = concat (map (\<lambda>(key, v). key @ '' '' @ v @ [nl]) kvs)"
    using k(2) by (simp add: line_text_def case_prod_beta cong: map_cong)
  moreover have "\<forall>(key, v)\<in>set kvs.
       key \<notin> {''DataDirectory'', ''ControlPortWriteToFile'', ''CookieAuthFile'', ''ClientTransportPlugin''} \<longrightarrow>
       nl \<notin> set key \<and> CHR '' '' \<notin> set key \<and> nl \<notin> set v"
    using k(3) unfolding path_keys_def no_nl_option_def no_nl_def by fastforce
  moreover have "Split nl text = map (\<lambda>(key, v). key @ '' '' @ v) kvs @ [[]] \<and>
      (\<forall>key\<in>set fixed_keys. option_lines key text = [key @ '' '' @ fixed_value address (se_pid env) key])"
    if "\<forall>path\<in>set (host_paths state cport ccookie paths). nl \<notin> set path"
  proof -
    have "\<forall>q path. map_of paths q = Some path \<longrightarrow> no_nl path"
      using that map_of_SomeD [of paths] by (fastforce simp: host_paths_def no_nl_def)
    with ln that show ?thesis by (simp add: host_paths_def no_nl_def case_prod_beta)
  qed
  then have "(\<forall>path\<in>set (host_paths state cport ccookie paths). nl \<notin> set path) \<longrightarrow>
      Split nl text = map (\<lambda>(key, v). key @ '' '' @ v) kvs @ [[]] \<and>
      option_lines ''Socks5Proxy'' text = [''Socks5Proxy '' @ address] \<and>
      option_lines ''DisableNetwork'' text = [''DisableNetwork 1''] \<and>
      option_lines ''ClientOnly'' text = [''ClientOnly 1''] \<and>
      option_lines ''ORPort'' text = [''ORPort 0''] \<and> option_lines ''ExitRelay'' text = [''ExitRelay 0''] \<and>
      option_lines ''__OwningControllerProcess'' text = [''__OwningControllerProcess '' @ Itoa (se_pid env)] \<and>
      option_lines ''CookieAuthentication'' text = [''CookieAuthentication 1'']"
    unfolding fixed_keys_Ball by (simp add: fixed_value_def)
  ultimately show ?thesis using e h k(1) by blast
qed

text \<open>A rendered text has at least the line of the state directory.\<close>

lemma renderConfig_not_empty: "renderConfig U c state cport ccookie address user password pid tp \<noteq> Some []"
  by (auto simp: renderConfig_def render_options_def render_head_def line_text_def split: option.splits)

lemma sample_paths:
  "se_child sample_env (state_path sample_validated ''w'') = Inr ''/b/w/state''"
  "se_child sample_env (work_file ''w'' ''control-port'') = Inr ''/b/w/control-port''"
  "se_child sample_env (work_file ''w'' ''control-cookie'') = Inr ''/b/w/control-cookie''"
  "program_paths (se_program sample_env) (Transports sample_validated) = Inr []"
  by code_simp+

lemma sample_written:
  "\<exists>s text. Start (\<lambda>n. n) (\<lambda>_. None) (\<lambda>_. None) start_ctl start_auth sample_close sample_config all_deps sample_env 0 =
     (None, Some s) \<and> WriteFile (path_Join ''w'' ''torrc'') text \<in> set (sy_effects s) \<and> text \<noteq> []"
proof -
  from sample_runs obtain u s where run: "start_run (\<lambda>n. n) start_ctl start_auth sample_validated sample_env
     \<lparr>sy_d = start_driver sample_validated, sy_tor = 0, sy_effects = []\<rparr> = (Inr u, s)" by blast
  then have st: "Start (\<lambda>n. n) (\<lambda>_. None) (\<lambda>_. None) start_ctl start_auth sample_close sample_config all_deps
      sample_env 0 = (None, Some s)"
    using sample_validates by (auto simp: Start_def)
  have "acts \<lparr>sy_d = start_driver sample_validated, sy_tor = 0 :: nat, sy_effects = []\<rparr> = []" by (simp add: acts_def)
  from run_cases [OF run this live_start] obtain la where la: "acts s = launch_script la @ open_script"
    and v: "Command ''SETCONF DisableNetwork=0'' \<in> set (acts s) \<longrightarrow>
      verified (\<lambda>n. n) start_ctl start_auth sample_validated sample_env la"
    by blast
  from la v have ver: "verified (\<lambda>n. n) start_ctl start_auth sample_validated sample_env la"
    by (simp add: open_script_def)
  then have "la_work la = ''w''" by (simp add: verified_def sample_env_def)
  moreover from ver have "la_text la \<noteq> []"
    unfolding verified_def by (metis torrc_text_Inr renderConfig_not_empty)
  moreover have "WriteFile (path_Join (la_work la) ''torrc'') (la_text la) \<in> set (acts s)"
    by (simp add: la launch_script_def)
  ultimately show ?thesis using st by (auto simp: acts_def)
qed

theorem torrc_no_injection_witness:
  "\<exists>s text kvs. Start (\<lambda>n. n) (\<lambda>_. None) (\<lambda>_. None) start_ctl start_auth sample_close sample_config all_deps sample_env 0 =
     (None, Some s) \<and> WriteFile (path_Join ''w'' ''torrc'') text \<in> set (sy_effects s) \<and> text \<noteq> [] \<and>
     render_options (\<lambda>n. n) sample_validated ''/b/w/state'' ''/b/w/control-port'' ''/b/w/control-cookie'' ''127.0.0.1:9''
       ''01'' ''02'' 7 Map.empty = Some kvs \<and>
     Split nl text = map (\<lambda>(key, v). key @ '' '' @ v) kvs @ [[]] \<and>
     option_lines ''Socks5Proxy'' text = [''Socks5Proxy 127.0.0.1:9''] \<and>
     option_lines ''DisableNetwork'' text = [''DisableNetwork 1'']"
proof -
  from sample_written obtain s body where
    st: "Start (\<lambda>n. n) (\<lambda>_. None) (\<lambda>_. None) start_ctl start_auth sample_close sample_config all_deps sample_env 0 =
     (None, Some s)" and w: "WriteFile (path_Join ''w'' ''torrc'') body \<in> set (sy_effects s)" "body \<noteq> []" by blast
  have env: "se_work sample_env = Inr ''w''" "se_listen sample_env = Inr ''127.0.0.1:9''" "se_pid sample_env = 7"
    by (simp_all add: sample_env_def)
  have tok: "token (se_user sample_env) = Inr ''01''" "token (se_password sample_env) = Inr ''02''" by code_simp+
  have "\<forall>path\<in>set (host_paths ''/b/w/state'' ''/b/w/control-port'' ''/b/w/control-cookie'' []). nl \<notin> set path"
    by (simp add: host_paths_def)
  with torrc_no_injection [OF sample_validates st w, unfolded env tok] show ?thesis
    using st w by (force simp: sample_paths)
qed

text \<open>
  The condition on the paths of the host is needed: quoting leaves a line feed as it is, so a
  state directory whose path has one gives the file a line of its own, here a second one that
  begins as a proxy setting.
\<close>

lemma path_line_feed:
  "map_option (option_lines ''Socks5Proxy'')
     (renderConfig (\<lambda>n. n) sample_validated (''/b'' @ nl # ''Socks5Proxy 192.0.2.1:6'') ''/p'' ''/c'' ''127.0.0.1:9'' ''01'' ''02'' 7 Map.empty) =
   Some [''Socks5Proxy 192.0.2.1:6'' @ [CHR 0x22], ''Socks5Proxy 127.0.0.1:9'']"
  by code_simp

end
