(* ===== verification/Tor_Network.thy ===== *)
theory Tor_Network
  imports Tor_Start
begin

text \<open>
  Client networks (network.go): creating a network with its circuit policy, the SOCKS
  operation that every call runs in, dialing and DNS lookups through Tor. The SOCKS client
  library is external: \<open>ne_client\<close> says which connections it asks its dialer for and what it
  returns, as a function of the proxy address, the isolation name and the request. SHA-256
  is a parameter. Connections are numbered as the resources of the network's scope.
\<close>

section \<open>The standard library\<close>

text \<open>\<^verbatim>\<open>net.SplitHostPort\<close>; \<^const>\<open>None\<close> is any of its errors.\<close>

definition index_of :: "char \<Rightarrow> string \<Rightarrow> nat option" where
  "index_of c s = (if c \<in> set s then Some (length (takeWhile (\<lambda>x. x \<noteq> c) s)) else None)"

definition last_index_of :: "char \<Rightarrow> string \<Rightarrow> nat option" where
  "last_index_of c s = map_option (\<lambda>i. length s - 1 - i) (index_of c (rev s))"

definition split_tail :: "string \<Rightarrow> nat \<Rightarrow> nat \<Rightarrow> nat \<Rightarrow> string \<Rightarrow> (string \<times> string) option" where
  "split_tail s i j k host =
    (if CHR ''['' \<in> set (drop j s) \<or> CHR '']'' \<in> set (drop k s) then None else Some (host, drop (Suc i) s))"

definition SplitHostPort :: "string \<Rightarrow> (string \<times> string) option" where
  "SplitHostPort s =
    (case last_index_of (CHR '':'') s of
       None \<Rightarrow> None
     | Some i \<Rightarrow>
         if HasPrefix s ''['' then
           (case index_of (CHR '']'') s of
              None \<Rightarrow> None
            | Some en \<Rightarrow> if en + 1 = i then split_tail s i 1 (en + 1) (drop 1 (take en s)) else None)
         else if CHR '':'' \<in> set (take i s) then None
         else split_tail s i 0 0 (take i s))"

text \<open>\<^verbatim>\<open>net.IP\<close> values are byte strings of 4 or 16 bytes.\<close>

definition To4 :: "u8 list \<Rightarrow> u8 list option" where
  "To4 ip =
    (if length ip = 4 then Some ip
     else if length ip = 16 \<and> take 12 ip = replicate 10 0 @ [255, 255] then Some (drop 12 ip) else None)"

definition AddrFromSlice :: "u8 list \<Rightarrow> ipaddr option" where
  "AddrFromSlice ip =
    (if length ip = 4 then Some (IPv4 ip) else if length ip = 16 then Some (IPv6 ip []) else None)"

definition IP_String :: "u8 list \<Rightarrow> string" where
  "IP_String ip =
    (if ip = [] then ''<nil>''
     else case To4 ip of
         Some v4 \<Rightarrow> print_ipv4 v4
       | None \<Rightarrow> if length ip = 16 then print_addr (IPv6 ip []) else CHR ''?'' # hex_encode ip)"

section \<open>Networks\<close>

text \<open>\<open>nw_dialed\<close> are the addresses asked from the sandbox, \<open>nw_dropped\<close> the connections that
  were closed without being registered.\<close>

record network =
  nw_cfg :: network_config
  nw_id :: string
  nw_scope :: scope
  nw_reg :: nat
  nw_dialed :: "string list"
  nw_dropped :: "nat list"

definition bad_policy :: "network_config \<Rightarrow> bool" where
  "bad_policy cfg \<longleftrightarrow> IsolateEachConnection < Circuits cfg \<or>
    (Isolation cfg) AND (NOT (IsolateDestinationAddress OR IsolateDestinationPort)) \<noteq> 0"

text \<open>\<open>r\<close> is the number of the new registration; closing a new scope has no error.\<close>

definition NewNetwork :: "u8 list res \<Rightarrow> nat \<Rightarrow> network_config \<Rightarrow> driver \<Rightarrow> network res \<times> driver" where
  "NewNetwork random r cfg d =
    (if bad_policy cfg then (Inl (Msg ''tor-driver: invalid circuit policy''), d)
     else case token random of
         Inl e \<Rightarrow> (Inl e, d)
       | Inr i \<Rightarrow>
           if d_closed d then (Inl (Sentinel ErrClosed), d)
           else (case scope_add (\<lambda>_. None) r (d_resources d) of
               (Some e, rs) \<Rightarrow> (Inl e, d\<lparr>d_resources := rs\<rparr>)
             | (None, rs) \<Rightarrow>
                 (Inr \<lparr>nw_cfg = cfg, nw_id = i, nw_scope = newScope, nw_reg = r, nw_dialed = [], nw_dropped = []\<rparr>,
                  d\<lparr>d_resources := rs, d_networks := r # d_networks d\<rparr>)))"

text \<open>Closing the registration closes the network's scope, the first time.\<close>

definition network_Close ::
  "close_results \<Rightarrow> network \<Rightarrow> driver \<Rightarrow> goerr option \<times> network \<times> driver" where
  "network_Close cr n d =
    (case scope_close cr (items_list (nw_scope n)) (nw_scope n) of
       (cerr, sc) \<Rightarrow>
         (case resource_close (\<lambda>_. cerr) (nw_reg n) (d_resources d) of
            (err, rs) \<Rightarrow>
              (err, if sc_phase (d_resources d) (nw_reg n) = ROpen then n\<lparr>nw_scope := sc\<rparr> else n,
               d\<lparr>d_resources := rs, d_networks := removeAll (nw_reg n) (d_networks d)\<rparr>)))"

text \<open>\<^verbatim>\<open>SubscribeCloser\<close>, and the function it returns: the registration is dropped and the closer
  is not called.\<close>

definition network_SubscribeCloser :: "close_results \<Rightarrow> nat \<Rightarrow> network \<Rightarrow> nat res \<times> network" where
  "network_SubscribeCloser cr r n =
    (case scope_add cr r (nw_scope n) of
       (Some e, sc) \<Rightarrow> (Inl e, n\<lparr>nw_scope := sc\<rparr>)
     | (None, sc) \<Rightarrow> (Inr r, n\<lparr>nw_scope := sc\<rparr>))"

definition scope_forget :: "nat \<Rightarrow> scope \<Rightarrow> scope" where
  "scope_forget r s =
    (if r \<in> sc_items s then s\<lparr>sc_items := sc_items s - {r}, sc_phase := (sc_phase s)(r := RNone)\<rparr> else s)"

section \<open>SOCKS operations\<close>

record sop =
  so_ended :: bool
  so_endpoint :: string
  so_id :: string
  so_ctx :: nat
  so_conns :: "nat list"

text \<open>A call of the sandbox's dialer: network and address, the connection and the error.\<close>

type_synonym dial_call = "string \<times> string \<times> nat option \<times> goerr option"

record 'r client_run =
  cl_dials :: "dial_call list"
  cl_result :: 'r
  cl_late :: "dial_call list"

record net_env =
  ne_random :: "u8 list res"
  ne_endpoint :: string
  ne_op :: nat
  ne_close :: close_results
  ne_ctx :: "goerr option"
  ne_deadline :: "goerr option"
  ne_client :: "string \<Rightarrow> string \<Rightarrow> string \<Rightarrow> string \<Rightarrow> (nat option \<times> goerr option) client_run"
  ne_lookupIP :: "string \<Rightarrow> string \<Rightarrow> string \<Rightarrow> string \<Rightarrow> (u8 list list res) client_run"
  ne_lookupAddr :: "string \<Rightarrow> string \<Rightarrow> string \<Rightarrow> (string list res) client_run"

text \<open>The name that isolates the streams of an operation.\<close>

definition isolation_text :: "casemap \<Rightarrow> network_config \<Rightarrow> string \<Rightarrow> string \<Rightarrow> string \<Rightarrow> string" where
  "isolation_text L cfg i address port =
    i @ (if (Isolation cfg) AND IsolateDestinationAddress \<noteq> 0
         then CHR 0x00 # ''address'' @ CHR 0x00 # ToLower L address else []) @
    (if (Isolation cfg) AND IsolateDestinationPort \<noteq> 0 then CHR 0x00 # ''port'' @ CHR 0x00 # port else [])"

definition isolation_id ::
  "(string \<Rightarrow> u8 list) \<Rightarrow> casemap \<Rightarrow> u8 list res \<Rightarrow> network_config \<Rightarrow> string \<Rightarrow> string \<Rightarrow> string \<Rightarrow> string res" where
  "isolation_id sha L random cfg i address port =
    (if Circuits cfg = IsolateEachConnection then token random
     else if Isolation cfg \<noteq> 0 then Inr (hex_encode (sha (isolation_text L cfg i address port)))
     else Inr i)"

definition operation ::
  "(string \<Rightarrow> u8 list) \<Rightarrow> casemap \<Rightarrow> net_env \<Rightarrow> string \<Rightarrow> string \<Rightarrow> network \<Rightarrow> sop res \<times> network" where
  "operation sha L env address port n =
    (if scope_ctx_err (nw_scope n) \<noteq> None then (Inl (Sentinel ErrClosed), n)
     else case scope_operation (ne_op env) (nw_scope n) of
         (_, sc) \<Rightarrow>
           (case isolation_id sha L (ne_random env) (nw_cfg n) (nw_id n) address port of
              Inl e \<Rightarrow> (Inl e, n\<lparr>nw_scope := snd (resource_close (\<lambda>_. None) (ne_op env) sc)\<rparr>)
            | Inr i \<Rightarrow>
                (Inr \<lparr>so_ended = False, so_endpoint = ne_endpoint env, so_id = i, so_ctx = ne_op env, so_conns = []\<rparr>,
                 n\<lparr>nw_scope := sc\<rparr>)))"

definition tcpNetwork :: "string \<Rightarrow> bool" where
  "tcpNetwork n \<longleftrightarrow> n = ''tcp'' \<or> n = ''tcp4'' \<or> n = ''tcp6''"

definition conn_close :: "close_results \<Rightarrow> nat \<Rightarrow> network \<Rightarrow> network" where
  "conn_close cr c n = n\<lparr>nw_scope := snd (resource_close cr c (nw_scope n))\<rparr>"

text \<open>The dialer of an operation's SOCKS client.\<close>

fun socks_dialer :: "close_results \<Rightarrow> dial_call \<Rightarrow> sop \<times> network \<Rightarrow> nat res \<times> sop \<times> network" where
  "socks_dialer cr (nt, address, raw, err) (p, n) =
    (if address \<noteq> so_endpoint p \<or> \<not> tcpNetwork nt then (Inl (Sentinel ErrUnsupported), p, n)
     else
       let n1 = n\<lparr>nw_dialed := nw_dialed n @ [address]\<rparr>
       in case (err, raw) of
           (Some e, Some c) \<Rightarrow> (Inl e, p, n1\<lparr>nw_dropped := nw_dropped n1 @ [c]\<rparr>)
         | (Some e, None) \<Rightarrow> (Inl e, p, n1)
         | (None, None) \<Rightarrow> (Inl (Msg ''tor-driver: local dial returned nil connection''), p, n1)
         | (None, Some c) \<Rightarrow>
             (case scope_track cr c (nw_scope n1) of
                (Some e, sc) \<Rightarrow> (Inl e, p, n1\<lparr>nw_scope := sc\<rparr>)
              | (None, sc) \<Rightarrow>
                  if so_ended p then (Inl (Sentinel ErrClosed), p, conn_close cr c (n1\<lparr>nw_scope := sc\<rparr>))
                  else (Inr c, p\<lparr>so_conns := so_conns p @ [c]\<rparr>, n1\<lparr>nw_scope := sc\<rparr>)))"

definition run_dials :: "close_results \<Rightarrow> dial_call list \<Rightarrow> sop \<times> network \<Rightarrow> sop \<times> network" where
  "run_dials cr calls on = fold (\<lambda>call on. snd (socks_dialer cr call on)) calls on"

definition op_end :: "close_results \<Rightarrow> bool \<Rightarrow> sop \<times> network \<Rightarrow> sop \<times> network" where
  "op_end cr success on =
    (case on of
       (p, n) \<Rightarrow>
         let n1 = (if success then n else fold (conn_close cr) (so_conns p) n)
         in (p\<lparr>so_ended := True\<rparr>, conn_close (\<lambda>_. None) (so_ctx p) n1))"

text \<open>The end of a call: dials of the client that come too late follow it.\<close>

definition finish_call :: "net_env \<Rightarrow> bool \<Rightarrow> dial_call list \<Rightarrow> sop \<times> network \<Rightarrow> network" where
  "finish_call env success late on = snd (run_dials (ne_close env) late (op_end (ne_close env) success on))"

section \<open>Calls\<close>

definition family_mismatch :: "string \<Rightarrow> string \<Rightarrow> bool" where
  "family_mismatch nt host =
    (case ParseAddr host of
       None \<Rightarrow> False
     | Some ip \<Rightarrow> nt = ''tcp4'' \<and> \<not> is_v4 (Unmap ip) \<or> nt = ''tcp6'' \<and> is_v4 ip)"

definition dial_verdict :: "net_env \<Rightarrow> nat option \<times> goerr option \<Rightarrow> goerr option" where
  "dial_verdict env r =
    (case r of
       (_, Some e) \<Rightarrow> Some e
     | (conn, None) \<Rightarrow>
         (case ne_ctx env of
            Some e \<Rightarrow> Some e
          | None \<Rightarrow> if conn = None then Some (Msg ''tor-driver: SOCKS returned nil connection'') else ne_deadline env))"

definition Dial ::
  "(string \<Rightarrow> u8 list) \<Rightarrow> casemap \<Rightarrow> net_env \<Rightarrow> string \<Rightarrow> string \<Rightarrow> network \<Rightarrow> nat res \<times> network" where
  "Dial sha L env nt address n =
    (if \<not> tcpNetwork nt then (Inl (Sentinel ErrUnsupported), n)
     else case SplitHostPort address of
         None \<Rightarrow> (Inl (Msg ''tor-driver: invalid target''), n)
       | Some (host, port) \<Rightarrow>
           if host = [] \<or> port = [] \<or> \<not> safeText address then (Inl (Msg ''tor-driver: invalid target''), n)
           else if family_mismatch nt host then (Inl (Msg ''tor-driver: address family mismatch''), n)
           else (case operation sha L env host port n of
               (Inl e, n1) \<Rightarrow> (Inl e, n1)
             | (Inr p, n1) \<Rightarrow>
                 let run = ne_client env (so_endpoint p) (so_id p) nt address;
                     on = run_dials (ne_close env) (cl_dials run) (p, n1);
                     err = dial_verdict env (cl_result run);
                     on' = (case (err, fst (cl_result run)) of
                         (Some _, Some c) \<Rightarrow> (fst on, conn_close (ne_close env) c (snd on))
                       | _ \<Rightarrow> on)
                 in (case (err, fst (cl_result run)) of (None, Some c) \<Rightarrow> Inr c | (Some e, _) \<Rightarrow> Inl e
                      | (None, None) \<Rightarrow> Inl (Msg ''unreachable''),
                     finish_call env (err = None) (cl_late run) on')))"

definition DialTCP ::
  "(string \<Rightarrow> u8 list) \<Rightarrow> casemap \<Rightarrow> net_env \<Rightarrow> string \<Rightarrow> string \<Rightarrow> string \<Rightarrow> network \<Rightarrow> nat res \<times> network" where
  "DialTCP sha L env nt laddr raddr n =
    (if laddr \<noteq> [] then (Inl (Sentinel ErrUnsupported), n) else Dial sha L env nt raddr n)"

definition with_ctx :: "net_env \<Rightarrow> 'a res \<Rightarrow> 'a res" where
  "with_ctx env r = (case r of Inl e \<Rightarrow> Inl e | Inr x \<Rightarrow> (case ne_ctx env of Some e \<Rightarrow> Inl e | None \<Rightarrow> Inr x))"

definition filter_ips :: "string \<Rightarrow> u8 list list \<Rightarrow> u8 list list" where
  "filter_ips nt ips =
    filter (\<lambda>ip. nt = ''ip'' \<or> nt = ''ip4'' \<and> To4 ip \<noteq> None \<or> nt = ''ip6'' \<and> To4 ip = None) ips"

definition LookupIP ::
  "(string \<Rightarrow> u8 list) \<Rightarrow> casemap \<Rightarrow> net_env \<Rightarrow> string \<Rightarrow> string \<Rightarrow> network \<Rightarrow> u8 list list res \<times> network" where
  "LookupIP sha L env nt host n =
    (if nt \<noteq> ''ip'' \<and> nt \<noteq> ''ip4'' \<and> nt \<noteq> ''ip6'' then (Inl (Sentinel ErrUnsupported), n)
     else if HasSuffix (ToLower L host) ''.onion''
     then (Inl (Msg ''tor-driver: onion names have no DNS address; Dial the name directly''), n)
     else case operation sha L env host [] n of
         (Inl e, n1) \<Rightarrow> (Inl e, n1)
       | (Inr p, n1) \<Rightarrow>
           let run = ne_lookupIP env (so_endpoint p) (so_id p) nt host
           in ((case with_ctx env (cl_result run) of
                  Inl e \<Rightarrow> Inl e
                | Inr ips \<Rightarrow>
                    if filter_ips nt ips = [] then Inl (Msg ''no matching address'') else Inr (filter_ips nt ips)),
               finish_call env False (cl_late run) (run_dials (ne_close env) (cl_dials run) (p, n1))))"

definition LookupAddr ::
  "(string \<Rightarrow> u8 list) \<Rightarrow> casemap \<Rightarrow> net_env \<Rightarrow> string \<Rightarrow> network \<Rightarrow> string list res \<times> network" where
  "LookupAddr sha L env address n =
    (case ParseAddr address of
       None \<Rightarrow> (Inl (Msg ''ParseAddr''), n)
     | Some _ \<Rightarrow>
         (case operation sha L env address [] n of
            (Inl e, n1) \<Rightarrow> (Inl e, n1)
          | (Inr p, n1) \<Rightarrow>
              let run = ne_lookupAddr env (so_endpoint p) (so_id p) address
              in (with_ctx env (cl_result run),
                  finish_call env False (cl_late run) (run_dials (ne_close env) (cl_dials run) (p, n1)))))"

definition LookupHost ::
  "(string \<Rightarrow> u8 list) \<Rightarrow> casemap \<Rightarrow> net_env \<Rightarrow> string \<Rightarrow> network \<Rightarrow> string list res \<times> network" where
  "LookupHost sha L env host n =
    (case LookupIP sha L env ''ip'' host n of (r, n1) \<Rightarrow> (map_sum id (map IP_String) r, n1))"

definition LookupIPAddr ::
  "(string \<Rightarrow> u8 list) \<Rightarrow> casemap \<Rightarrow> net_env \<Rightarrow> string \<Rightarrow> network \<Rightarrow> u8 list list res \<times> network" where
  "LookupIPAddr sha L env host n = LookupIP sha L env ''ip'' host n"

definition LookupNetIP ::
  "(string \<Rightarrow> u8 list) \<Rightarrow> casemap \<Rightarrow> net_env \<Rightarrow> string \<Rightarrow> string \<Rightarrow> network \<Rightarrow> ipaddr list res \<times> network" where
  "LookupNetIP sha L env nt host n =
    (case LookupIP sha L env nt host n of
       (r, n1) \<Rightarrow> (map_sum id (\<lambda>ips. map Unmap (cat_options (map AddrFromSlice ips))) r, n1))"

text \<open>\<open>offline\<close> is the library's table of services, \<open>ctx\<close> the error of the caller's context.\<close>

definition LookupPort ::
  "(string \<Rightarrow> string \<Rightarrow> int res) \<Rightarrow> goerr option \<Rightarrow> string \<Rightarrow> string \<Rightarrow> network \<Rightarrow> int res" where
  "LookupPort offline ctx nt service n =
    (if scope_ctx_err (nw_scope n) \<noteq> None then Inl (Sentinel ErrClosed)
     else case ctx of Some e \<Rightarrow> Inl e | None \<Rightarrow> offline nt service)"

end
