(* ===== verification/Tor_Network_Proofs.thy ===== *)
theory Tor_Network_Proofs
  imports Tor_Network Tor_Start_Proofs
begin

text \<open>
  Networks isolate streams exactly as their policy says, reach the outside only through
  Tor's SOCKS listener, and own every connection until it is released.
\<close>

section \<open>Isolation\<close>

lemma hex_encode_inject: "hex_encode a = hex_encode b \<longleftrightarrow> a = b"
  by (metis hex_decode_encode option.inject)

lemma split_at_zero:
  "\<lbrakk>CHR 0x00 \<notin> set a; CHR 0x00 \<notin> set b; a @ CHR 0x00 # x = b @ CHR 0x00 # y\<rbrakk> \<Longrightarrow> a = b \<and> x = y"
  by (auto simp: append_eq_append_conv2 append_eq_Cons_conv Cons_eq_append_conv)

lemma split_zero_iff:
  "CHR 0x00 \<notin> set a \<Longrightarrow> CHR 0x00 \<notin> set b \<Longrightarrow> a @ CHR 0x00 # x = b @ CHR 0x00 # y \<longleftrightarrow> a = b \<and> x = y"
  using split_at_zero by blast

lemma tagged_inject:
  assumes "length i = length j" "CHR 0x00 \<notin> set x" "CHR 0x00 \<notin> set y"
  shows "i @ (if A then CHR 0x00 # ''address'' @ CHR 0x00 # x else []) @ (if P then CHR 0x00 # ''port'' @ CHR 0x00 # p else []) =
    j @ (if A then CHR 0x00 # ''address'' @ CHR 0x00 # y else []) @ (if P then CHR 0x00 # ''port'' @ CHR 0x00 # q else []) \<longleftrightarrow>
    i = j \<and> (A \<longrightarrow> x = y) \<and> (P \<longrightarrow> p = q)"
  using assms by (cases A; cases P) (simp_all add: append_eq_append_conv split_zero_iff)

lemma isolation_text_inject:
  assumes "length i = length j" "CHR 0x00 \<notin> set (ToLower L a)" "CHR 0x00 \<notin> set (ToLower L b)"
  shows "isolation_text L cfg i a p = isolation_text L cfg j b q \<longleftrightarrow>
    i = j \<and> ((Isolation cfg) AND IsolateDestinationAddress \<noteq> 0 \<longrightarrow> ToLower L a = ToLower L b) \<and>
    ((Isolation cfg) AND IsolateDestinationPort \<noteq> 0 \<longrightarrow> p = q)"
  unfolding isolation_text_def by (rule tagged_inject [OF assms])

text \<open>
  C20. Streams share an isolation name exactly as the policy says. Take two operations on
  networks of the same policy and with names of the same length, as all have. With session
  circuits the two get the same name exactly when they belong to the same network and agree
  on what the policy isolates: on the destination's address up to case, on its port, on
  both or on nothing. SHA-256 enters only with the hypothesis that these two inputs do not
  collide. With a circuit for each connection they get the same name only from the same
  random bytes.
\<close>

theorem isolation_exact:
  assumes "length i = length j" "CHR 0x00 \<notin> set (ToLower L a)" "CHR 0x00 \<notin> set (ToLower L b)"
    and "inj_on sha {isolation_text L cfg i a p, isolation_text L cfg j b q}"
    and "isolation_id sha L r cfg i a p = Inr x" "isolation_id sha L r' cfg j b q = Inr y"
  shows "(Circuits cfg \<noteq> IsolateEachConnection \<longrightarrow>
      (x = y \<longleftrightarrow> i = j \<and>
        ((Isolation cfg) AND IsolateDestinationAddress \<noteq> 0 \<longrightarrow> ToLower L a = ToLower L b) \<and>
        ((Isolation cfg) AND IsolateDestinationPort \<noteq> 0 \<longrightarrow> p = q))) \<and>
    (Circuits cfg = IsolateEachConnection \<longrightarrow> (x = y \<longleftrightarrow> r = r'))"
proof (cases "Circuits cfg = IsolateEachConnection")
  case True
  then have "token r = Inr x" "token r' = Inr y" using assms(5,6) by (simp_all add: isolation_id_def)
  then have "x = y \<longleftrightarrow> r = r'"
    by (cases r; cases r') (simp_all add: token_def hex_encode_inject [symmetric] del: hex_encode.simps)
  with True show ?thesis by simp
next
  case False
  show ?thesis
  proof (cases "Isolation cfg = 0")
    case True
    then have "x = i" "y = j" using False assms(5,6) by (simp_all add: isolation_id_def)
    then show ?thesis using False True by (simp only: and_zero_eq zero_and_eq simp_thms)
  next
    case iso: False
    have "x = hex_encode (sha (isolation_text L cfg i a p))" "y = hex_encode (sha (isolation_text L cfg j b q))"
      using assms(5,6) False iso by (simp_all add: isolation_id_def)
    then have "x = y \<longleftrightarrow> sha (isolation_text L cfg i a p) = sha (isolation_text L cfg j b q)"
      by (simp only: hex_encode_inject)
    also have "\<dots> \<longleftrightarrow> isolation_text L cfg i a p = isolation_text L cfg j b q"
      by (rule inj_on_eq_iff [OF assms(4)]) simp_all
    finally show ?thesis using False isolation_text_inject [OF assms(1-3)] by (simp only: simp_thms)
  qed
qed

theorem isolation_exact_witness:
  "let cfg = \<lparr>Circuits = SessionCircuits, Isolation = IsolateDestinationAddress\<rparr>;
     sha = (\<lambda>s. map (\<lambda>c. of_nat (byte c)) s);
     iso = (\<lambda>a p. isolation_id sha (\<lambda>n. n) (Inl (Sentinel IoEOF)) cfg ''n1'' a p)
   in iso ''a.com'' ''80'' = iso ''A.com'' ''443'' \<and> iso ''a.com'' ''80'' \<noteq> iso ''b.com'' ''80''"
proof -
  let ?cfg = "\<lparr>Circuits = SessionCircuits, Isolation = IsolateDestinationAddress\<rparr>"
  let ?sha = "\<lambda>s. map (\<lambda>c. of_nat (byte c)) s :: u8 list"
  let ?iso = "\<lambda>a p. isolation_id ?sha (\<lambda>n. n) (Inl (Sentinel IoEOF)) ?cfg ''n1'' a p"
  have "c = d" if "of_nat (byte c) = (of_nat (byte d) :: u8)" for c d
    using arg_cong [OF that, of unat] by (simp add: unat_of_nat)
  then have "inj_on (\<lambda>c. of_nat (byte c) :: u8) T" for T by (blast intro: inj_onI)
  then have inj: "inj_on ?sha S" for S using map_inj_on by (blast intro: inj_onI)
  obtain x y z where r: "?iso ''a.com'' ''80'' = Inr x" "?iso ''A.com'' ''443'' = Inr y" "?iso ''b.com'' ''80'' = Inr z"
    by (simp add: isolation_id_def)
  have l: "ToLower (\<lambda>n. n) ''a.com'' = ''a.com''" "ToLower (\<lambda>n. n) ''A.com'' = ''a.com''" "ToLower (\<lambda>n. n) ''b.com'' = ''b.com''"
    by code_simp+
  have "x = y" using isolation_exact [OF refl _ _ inj r(1,2)] l by simp
  moreover have "x \<noteq> z" using isolation_exact [OF refl _ _ inj r(1,3)] l by simp
  ultimately show ?thesis using r by (simp add: Let_def)
qed

section \<open>Ownership\<close>

text \<open>Releasing one resource.\<close>

lemma release_spec:
  assumes "scope_ok s"
  shows "scope_ok (snd (resource_close cr r s))" "sc_items (snd (resource_close cr r s)) = sc_items s - {r}"
    "sc_closed (snd (resource_close cr r s)) = sc_closed s"
    "sc_phase s q = RNone \<Longrightarrow> sc_phase (snd (resource_close cr r s)) q = RNone"
proof -
  obtain e s' where c: "resource_close cr r s = (e, s')" by fastforce
  have p: "\<forall>r. sc_phase s r = ROpen \<longleftrightarrow> r \<in> sc_items s" using assms by (simp add: scope_ok_def)
  show "scope_ok (snd (resource_close cr r s))" using scope_ok_resource_close [OF assms c] c by simp
  from resource_close_shape [OF c p] p
  show "sc_items (snd (resource_close cr r s)) = sc_items s - {r}"
    "sc_closed (snd (resource_close cr r s)) = sc_closed s"
    "sc_phase s q = RNone \<Longrightarrow> sc_phase (snd (resource_close cr r s)) q = RNone"
    by (auto simp: c call_close_def) (metis rphase.distinct(1))
qed

text \<open>What one step of a call does to a network: the scope stays sound and open or closed as
  it was, and the sandbox is asked for nothing but the SOCKS listener.\<close>

definition net_ok :: "string \<Rightarrow> network \<Rightarrow> network \<Rightarrow> bool" where
  "net_ok ep n n' \<longleftrightarrow> scope_ok (nw_scope n') \<and> sc_closed (nw_scope n') = sc_closed (nw_scope n) \<and>
    set (nw_dialed n') \<subseteq> insert ep (set (nw_dialed n))"

definition unused :: "nat list \<Rightarrow> network \<Rightarrow> bool" where
  "unused rs n \<longleftrightarrow> (\<forall>r \<in> set rs. sc_phase (nw_scope n) r = RNone)"

abbreviation held_by :: "network \<Rightarrow> nat set" where
  "held_by n \<equiv> sc_items (nw_scope n)"

lemma net_ok_refl: "scope_ok (nw_scope n) \<Longrightarrow> net_ok ep n n"
  by (auto simp: net_ok_def)

lemma net_ok_trans: "net_ok ep n n1 \<Longrightarrow> net_ok ep n1 n2 \<Longrightarrow> net_ok ep n n2"
  by (auto simp: net_ok_def)

lemma conn_close_spec:
  assumes "scope_ok (nw_scope n)"
  shows "net_ok ep n (conn_close cr c n)" "held_by (conn_close cr c n) = held_by n - {c}"
    "unused rs n \<Longrightarrow> unused rs (conn_close cr c n)"
  using release_spec [OF assms] by (auto simp: conn_close_def net_ok_def unused_def)

lemma conns_close_spec:
  "scope_ok (nw_scope n) \<Longrightarrow> net_ok ep n (fold (conn_close cr) cs n) \<and>
    held_by (fold (conn_close cr) cs n) = held_by n - set cs \<and> (unused rs n \<longrightarrow> unused rs (fold (conn_close cr) cs n))"
proof (induction cs arbitrary: n)
  case (Cons c cs)
  note c = conn_close_spec(1) [OF Cons.prems, of ep cr c] conn_close_spec(2,3) [OF Cons.prems, where cr = cr and c = c]
  then have "scope_ok (nw_scope (conn_close cr c n))" by (simp add: net_ok_def)
  from Cons.IH [OF this] c show ?case by (auto intro: net_ok_trans)
qed (simp add: net_ok_refl)

text \<open>The connections of a list of calls.\<close>

definition raws :: "dial_call list \<Rightarrow> nat list" where
  "raws calls = cat_options (map (\<lambda>(_, _, raw, _). raw) calls)"

definition handed :: "string \<Rightarrow> dial_call list \<Rightarrow> nat list" where
  "handed ep calls = raws (filter (\<lambda>(nt, a, raw, err). a = ep \<and> tcpNetwork nt \<and> err = None) calls)"

lemma track_spec:
  assumes "scope_ok s" "sc_phase s c = RNone" "\<not> sc_closed s"
  obtains sc where "scope_track cr c s = (None, sc)" "scope_ok sc" "sc_items sc = insert c (sc_items s)" "\<not> sc_closed sc"
    "\<forall>q. q \<noteq> c \<longrightarrow> sc_phase s q = RNone \<longrightarrow> sc_phase sc q = RNone"
proof -
  obtain e sc where a: "scope_add cr c s = (e, sc)" by fastforce
  from own.acquire_open [OF assms a] own.acquire_ok [OF assms(1,2) a] own.acquire_fresh [OF assms(1) _ _ a] a
  show ?thesis by (intro that [of sc]) (auto simp: scope_track_def)
qed

lemma dialer_open:
  assumes "scope_ok (nw_scope n)" "\<not> sc_closed (nw_scope n)" "unused (raws (call # calls)) n"
    and "distinct (raws (call # calls))"
    and "socks_dialer cr call (p, n) = (r, p', n')"
  shows "net_ok (so_endpoint p) n n' \<and> unused (raws calls) n' \<and> so_ended p' = so_ended p \<and> so_ctx p' = so_ctx p \<and>
    so_endpoint p' = so_endpoint p \<and>
    (so_ended p \<longrightarrow> held_by n' = held_by n \<and> so_conns p' = so_conns p) \<and>
    (\<not> so_ended p \<longrightarrow> held_by n' = held_by n \<union> set (handed (so_endpoint p) [call]) \<and>
       so_conns p' = so_conns p @ handed (so_endpoint p) [call])"
proof -
  obtain nt a raw err where call: "call = (nt, a, raw, err)" by (cases call) auto
  have rest: "unused (raws calls) n" using assms(3) by (cases raw) (auto simp: call raws_def unused_def)
  consider "a \<noteq> so_endpoint p \<or> \<not> tcpNetwork nt" | "a = so_endpoint p" "tcpNetwork nt" "err \<noteq> None \<or> raw = None"
    | c where "a = so_endpoint p" "tcpNetwork nt" "err = None" "raw = Some c" by fastforce
  then show ?thesis
  proof cases
    case 1
    then have "n' = n" "p' = p" "handed (so_endpoint p) [call] = []"
      using assms(5) by (auto simp: call handed_def raws_def)
    then show ?thesis using rest assms(1) by (auto intro: net_ok_refl)
  next
    case 2
    have "nw_scope n' = nw_scope n" "set (nw_dialed n') = insert (so_endpoint p) (set (nw_dialed n))" "p' = p"
      using assms(5) 2 by (auto simp: call Let_def split: option.splits)
    moreover have "handed (so_endpoint p) [call] = []" using 2(3) by (auto simp: call handed_def raws_def)
    ultimately show ?thesis using rest assms(1) by (auto simp: net_ok_def unused_def)
  next
    case 3
    then have c: "sc_phase (nw_scope n) c = RNone" "c \<notin> set (raws calls)" "handed (so_endpoint p) [call] = [c]"
      using assms(3,4) by (auto simp: call raws_def unused_def handed_def)
    obtain sc where sc: "scope_track cr c (nw_scope n) = (None, sc)" "scope_ok sc" "sc_items sc = insert c (held_by n)"
      "\<not> sc_closed sc" "\<forall>q. q \<noteq> c \<longrightarrow> sc_phase (nw_scope n) q = RNone \<longrightarrow> sc_phase sc q = RNone"
      by (rule track_spec [OF assms(1) c(1) assms(2), of cr])
    let ?n1 = "n\<lparr>nw_dialed := nw_dialed n @ [a], nw_scope := sc\<rparr>"
    have n1: "net_ok (so_endpoint p) n ?n1" "unused (raws calls) ?n1"
      using sc rest c(2) 3(1) assms(2) by (auto simp: net_ok_def unused_def)
    have "c \<notin> held_by n" using c(1) assms(1) by (metis scope_ok_def rphase.distinct(1))
    moreover note conn_close_spec(1) [of ?n1 "so_endpoint p" cr c] conn_close_spec(2,3) [where n = ?n1 and cr = cr and c = c]
    ultimately show ?thesis
      using assms(5) 3 sc(1,2,3) n1 c(3)
      by (cases "so_ended p") (auto simp: call Let_def intro: net_ok_trans)
  qed
qed

lemma raws_append: "raws (a @ b) = raws a @ raws b"
  by (simp add: raws_def)

lemma handed_append: "handed ep (a @ b) = handed ep a @ handed ep b"
  by (simp only: handed_def filter_append raws_append)

lemma handed_Cons: "handed ep (call # calls) = handed ep [call] @ handed ep calls"
  using handed_append [of ep "[call]" calls] by simp

lemma handed_raws: "set (handed ep calls) \<subseteq> set (raws calls)"
  by (force simp: handed_def raws_def)

lemma run_open:
  "\<lbrakk>scope_ok (nw_scope n); \<not> sc_closed (nw_scope n); unused (raws (calls @ later)) n; distinct (raws (calls @ later));
    run_dials cr calls (p, n) = (p', n')\<rbrakk> \<Longrightarrow>
    net_ok (so_endpoint p) n n' \<and> unused (raws later) n' \<and> so_ended p' = so_ended p \<and> so_ctx p' = so_ctx p \<and>
    so_endpoint p' = so_endpoint p \<and>
    (so_ended p \<longrightarrow> held_by n' = held_by n) \<and>
    (\<not> so_ended p \<longrightarrow> held_by n' = held_by n \<union> set (handed (so_endpoint p) calls) \<and>
       so_conns p' = so_conns p @ handed (so_endpoint p) calls)"
proof (induction calls arbitrary: p n)
  case Nil
  then show ?case by (auto simp: run_dials_def handed_def raws_def net_ok_def)
next
  case (Cons call calls)
  obtain r p1 n1 where d: "socks_dialer cr call (p, n) = (r, p1, n1)" by (metis prod_cases3)
  have r: "run_dials cr calls (p1, n1) = (p', n')" using Cons.prems(5) d by (simp add: run_dials_def)
  have s: "net_ok (so_endpoint p) n n1" "unused (raws (calls @ later)) n1" "so_ended p1 = so_ended p" "so_ctx p1 = so_ctx p"
      "so_endpoint p1 = so_endpoint p" "so_ended p \<longrightarrow> held_by n1 = held_by n"
      "\<not> so_ended p \<longrightarrow> held_by n1 = held_by n \<union> set (handed (so_endpoint p) [call]) \<and>
        so_conns p1 = so_conns p @ handed (so_endpoint p) [call]"
    using dialer_open [OF Cons.prems(1,2) _ _ d, of "calls @ later"] Cons.prems(3,4) by simp_all
  have "distinct (raws (calls @ later))"
    using Cons.prems(4) raws_append [of "[call]" "calls @ later"] by simp
  from Cons.IH [OF _ _ s(2) this r] s Cons.prems(2)
  have "net_ok (so_endpoint p) n1 n' \<and> unused (raws later) n' \<and> so_ended p' = so_ended p \<and> so_ctx p' = so_ctx p \<and>
      so_endpoint p' = so_endpoint p \<and> (so_ended p \<longrightarrow> held_by n' = held_by n1) \<and>
      (\<not> so_ended p \<longrightarrow> held_by n' = held_by n1 \<union> set (handed (so_endpoint p) calls) \<and>
        so_conns p' = so_conns p1 @ handed (so_endpoint p) calls)" by (simp add: net_ok_def)
  then show ?case
    using s net_ok_trans [OF s(1)] handed_Cons [of "so_endpoint p" call calls] by (simp add: Un_assoc)
qed

lemma operation_spec:
  assumes "scope_ok (nw_scope n)" "unused (ne_op env # rs) n" "ne_op env \<notin> set rs"
    and "operation sha L env a p n = (r, n1)"
  shows "net_ok (ne_endpoint env) n n1 \<and> unused rs n1 \<and>
    (case r of
       Inl e \<Rightarrow> held_by n1 = held_by n \<and> (sc_closed (nw_scope n) \<longrightarrow> n1 = n)
     | Inr q \<Rightarrow> \<not> sc_closed (nw_scope n) \<and> \<not> so_ended q \<and> so_conns q = [] \<and> so_ctx q = ne_op env \<and>
         so_endpoint q = ne_endpoint env \<and> held_by n1 = insert (ne_op env) (held_by n))"
proof (cases "sc_closed (nw_scope n)")
  case True
  then have "r = Inl (Sentinel ErrClosed)" "n1 = n" using assms(4) by (simp_all add: operation_def scope_ctx_err_def)
  then show ?thesis using assms by (auto simp: net_ok_def unused_def)
next
  case False
  have f: "sc_phase (nw_scope n) (ne_op env) = RNone" using assms(2) by (simp add: unused_def)
  obtain sc where sc: "scope_track (\<lambda>_. None) (ne_op env) (nw_scope n) = (None, sc)" "scope_ok sc"
    "sc_items sc = insert (ne_op env) (held_by n)" "\<not> sc_closed sc"
    "\<forall>q. q \<noteq> ne_op env \<longrightarrow> sc_phase (nw_scope n) q = RNone \<longrightarrow> sc_phase sc q = RNone"
    by (rule track_spec [OF assms(1) f False, of "\<lambda>_. None"])
  have un: "unused rs (n\<lparr>nw_scope := sc\<rparr>)" using sc(5) assms(2,3) unfolding unused_def by (simp, metis)
  have nh: "ne_op env \<notin> held_by n" using f assms(1) by (metis scope_ok_def rphase.distinct(1))
  have op: "scope_operation (ne_op env) (nw_scope n) = (True, sc)"
    using sc(1) by (simp add: scope_operation_def scope_track_def)
  show ?thesis
  proof (cases "isolation_id sha L (ne_random env) (nw_cfg n) (nw_id n) a p")
    case (Inl e)
    then have "r = Inl e" "n1 = conn_close (\<lambda>_. None) (ne_op env) (n\<lparr>nw_scope := sc\<rparr>)"
      using assms(4) False op by (simp_all add: operation_def scope_ctx_err_def conn_close_def)
    then show ?thesis
      using conn_close_spec(1) [of "n\<lparr>nw_scope := sc\<rparr>" "ne_endpoint env" "\<lambda>_. None" "ne_op env"]
        conn_close_spec(2) [where n = "n\<lparr>nw_scope := sc\<rparr>" and cr = "\<lambda>_. None" and c = "ne_op env"]
        conn_close_spec(3) [where n = "n\<lparr>nw_scope := sc\<rparr>" and cr = "\<lambda>_. None" and c = "ne_op env" and rs = rs]
        sc False un nh by (auto simp: net_ok_def)
  next
    case (Inr i)
    then have "n1 = n\<lparr>nw_scope := sc\<rparr>" "\<exists>q. r = Inr q \<and> \<not> so_ended q \<and> so_conns q = [] \<and> so_ctx q = ne_op env \<and>
        so_endpoint q = ne_endpoint env"
      using assms(4) False op by (auto simp: operation_def scope_ctx_err_def)
    then show ?thesis using sc False un by (auto simp: net_ok_def)
  qed
qed

lemma finish_spec:
  assumes "scope_ok (nw_scope n)" "\<not> sc_closed (nw_scope n)" "unused (raws late) n" "distinct (raws late)"
  shows "net_ok (so_endpoint p) n (finish_call env success late (p, n))"
    "held_by (finish_call env success late (p, n)) = held_by n - {so_ctx p} - (if success then {} else set (so_conns p))"
proof -
  let ?cr = "ne_close env"
  define n1 where "n1 = (if success then n else fold (conn_close ?cr) (so_conns p) n)"
  define n2 where "n2 = conn_close (\<lambda>_. None) (so_ctx p) n1"
  let ?p = "p\<lparr>so_ended := True\<rparr>"
  obtain p' n' where r: "run_dials ?cr late (?p, n2) = (p', n')" by fastforce
  have f: "finish_call env success late (p, n) = n'"
    using r by (simp add: finish_call_def op_end_def n1_def n2_def Let_def)
  have 1: "net_ok (so_endpoint p) n n1" "held_by n1 = held_by n - (if success then {} else set (so_conns p))"
    "unused (raws late) n1"
    using conns_close_spec [OF assms(1), of "so_endpoint p" ?cr "so_conns p" "raws late"] assms(1,3)
    by (auto simp: n1_def net_ok_refl)
  then have ok1: "scope_ok (nw_scope n1)" by (simp add: net_ok_def)
  have 2: "net_ok (so_endpoint p) n1 n2" "held_by n2 = held_by n1 - {so_ctx p}" "unused (raws late) n2"
    unfolding n2_def using conn_close_spec [OF ok1] 1(3) by blast+
  have "scope_ok (nw_scope n2)" "\<not> sc_closed (nw_scope n2)" using 1(1) 2(1) assms(2) by (simp_all add: net_ok_def)
  from run_open [OF this, of late "[]" ?cr ?p p' n'] 2(3) assms(4) r
  have "net_ok (so_endpoint p) n2 n'" "held_by n' = held_by n2" by simp_all
  with 1 2 f show "net_ok (so_endpoint p) n (finish_call env success late (p, n))"
    "held_by (finish_call env success late (p, n)) = held_by n - {so_ctx p} - (if success then {} else set (so_conns p))"
    by (auto intro: net_ok_trans)
qed

text \<open>
  The SOCKS library returns a connection only if it obtained it from its dialer, and the
  numbers of the connections and of the operation are new.
\<close>

definition call_fresh :: "net_env \<Rightarrow> 'r client_run \<Rightarrow> network \<Rightarrow> bool" where
  "call_fresh env run n \<longleftrightarrow> unused (ne_op env # raws (cl_dials run @ cl_late run)) n \<and>
    distinct (ne_op env # raws (cl_dials run @ cl_late run))"

definition client_ok :: "string \<Rightarrow> (nat option \<times> goerr option) client_run \<Rightarrow> bool" where
  "client_ok ep run \<longleftrightarrow> (\<forall>c. fst (cl_result run) = Some c \<longrightarrow> c \<in> set (handed ep (cl_dials run)))"

lemma dial_unused_free: "scope_ok (nw_scope n) \<Longrightarrow> unused rs n \<Longrightarrow> q \<in> set rs \<Longrightarrow> q \<notin> held_by n"
  by (metis scope_ok_def unused_def rphase.distinct(1))

lemma dial_call_spec:
  assumes "scope_ok (nw_scope n1)" "\<not> sc_closed (nw_scope n1)" "unused (raws (cl_dials run @ cl_late run)) n1"
    and "distinct (raws (cl_dials run @ cl_late run))" "client_ok (so_endpoint p) run" "so_conns p = []" "\<not> so_ended p"
    and "on = run_dials (ne_close env) (cl_dials run) (p, n1)" "err = dial_verdict env (cl_result run)"
    and "on' = (case (err, fst (cl_result run)) of
          (Some _, Some c) \<Rightarrow> (fst on, conn_close (ne_close env) c (snd on)) | _ \<Rightarrow> on)"
  shows "net_ok (so_endpoint p) n1 (finish_call env (err = None) (cl_late run) on') \<and>
    held_by (finish_call env (err = None) (cl_late run) on') =
      (if err = None then (held_by n1 \<union> set (handed (so_endpoint p) (cl_dials run))) - {so_ctx p}
       else held_by n1 - set (handed (so_endpoint p) (cl_dials run)) - {so_ctx p})"
proof -
  obtain p2 n2 where on: "on = (p2, n2)" by fastforce
  let ?h = "set (handed (so_endpoint p) (cl_dials run))"
  have r: "net_ok (so_endpoint p) n1 n2" "unused (raws (cl_late run)) n2" "so_ctx p2 = so_ctx p"
      "so_endpoint p2 = so_endpoint p" "held_by n2 = held_by n1 \<union> ?h" "set (so_conns p2) = ?h"
    using run_open [OF assms(1-4), of "ne_close env" p p2 n2] assms(6-8) on by simp_all
  define n3 where "n3 = (case (err, fst (cl_result run)) of (Some _, Some c) \<Rightarrow> conn_close (ne_close env) c n2 | _ \<Rightarrow> n2)"
  have on': "on' = (p2, n3)" using assms(10) on by (auto simp: n3_def split: option.splits)
  have ok2: "scope_ok (nw_scope n2)" "\<not> sc_closed (nw_scope n2)" using r(1) assms(2) by (simp_all add: net_ok_def)
  have n3: "net_ok (so_endpoint p) n2 n3" "unused (raws (cl_late run)) n3"
      "err = None \<Longrightarrow> n3 = n2" "held_by n2 - ?h \<subseteq> held_by n3" "held_by n3 \<subseteq> held_by n2"
    using conn_close_spec [OF ok2(1)] ok2(1) r(2) assms(5)
    by (auto simp: n3_def net_ok_refl client_ok_def split: option.splits)
  have ok3: "scope_ok (nw_scope n3)" "\<not> sc_closed (nw_scope n3)" using n3(1) ok2 by (simp_all add: net_ok_def)
  have dl: "distinct (raws (cl_late run))" using assms(4) by (simp add: raws_append)
  note fin = finish_spec [OF ok3 n3(2) dl, where p = p2 and env = env and success = "err = None"]
  have "net_ok (so_endpoint p) n1 (finish_call env (err = None) (cl_late run) on')"
    using net_ok_trans [OF net_ok_trans [OF r(1) n3(1)]] fin(1) r(4) on' by simp
  moreover have "held_by (finish_call env (err = None) (cl_late run) on') =
      (if err = None then (held_by n1 \<union> ?h) - {so_ctx p} else held_by n1 - ?h - {so_ctx p})"
    using fin(2) r(3,5,6) n3(3-5) on' by auto
  ultimately show ?thesis by blast
qed

definition target_ok :: "string \<Rightarrow> string \<Rightarrow> string \<Rightarrow> string \<Rightarrow> bool" where
  "target_ok nt address host port \<longleftrightarrow> tcpNetwork nt \<and> SplitHostPort address = Some (host, port) \<and>
    \<not> (host = [] \<or> port = [] \<or> \<not> safeText address) \<and> \<not> family_mismatch nt host"

text \<open>Dialing, once the operation was entered.\<close>

lemma dial_entered:
  assumes "Dial sha L env nt address n = (r, n')" "scope_ok (nw_scope n)"
    and "\<forall>i. client_ok (ne_endpoint env) (ne_client env (ne_endpoint env) i nt address) \<and>
      call_fresh env (ne_client env (ne_endpoint env) i nt address) n"
    and "target_ok nt address host port" "operation sha L env host port n = (Inr p, n1)"
  shows "scope_ok (nw_scope n') \<and> set (nw_dialed n') \<subseteq> insert (ne_endpoint env) (set (nw_dialed n)) \<and> \<not> sc_closed (nw_scope n) \<and>
    (case r of
       Inl e \<Rightarrow> held_by n' = held_by n
     | Inr c \<Rightarrow> (\<exists>i. c \<in> set (handed (ne_endpoint env) (cl_dials (ne_client env (ne_endpoint env) i nt address))) \<and>
         held_by n' = held_by n \<union> set (handed (ne_endpoint env) (cl_dials (ne_client env (ne_endpoint env) i nt address)))))"
proof -
  let ?run = "\<lambda>i. ne_client env (ne_endpoint env) i nt address"
  have fresh: "unused (ne_op env # raws (cl_dials (?run i) @ cl_late (?run i))) n"
    "ne_op env \<notin> set (raws (cl_dials (?run i) @ cl_late (?run i)))"
    "distinct (raws (cl_dials (?run i) @ cl_late (?run i)))" for i
    using assms(3) by (simp_all add: call_fresh_def)
  let ?i = "so_id p"
  have p: "so_endpoint p = ne_endpoint env" "\<not> so_ended p" "so_conns p = []" "so_ctx p = ne_op env"
      "\<not> sc_closed (nw_scope n)" "held_by n1 = insert (ne_op env) (held_by n)" "net_ok (ne_endpoint env) n n1"
      "unused (raws (cl_dials (?run ?i) @ cl_late (?run ?i))) n1"
    using operation_spec [OF assms(2) fresh(1,2) assms(5), of ?i] by auto
  define on where "on = run_dials (ne_close env) (cl_dials (?run ?i)) (p, n1)"
  define err where "err = dial_verdict env (cl_result (?run ?i))"
  define on' where "on' = (case (err, fst (cl_result (?run ?i))) of
        (Some _, Some c) \<Rightarrow> (fst on, conn_close (ne_close env) c (snd on)) | _ \<Rightarrow> on)"
  have "Dial sha L env nt address n = (case (err, fst (cl_result (?run ?i))) of (None, Some c) \<Rightarrow> Inr c
      | (Some e, _) \<Rightarrow> Inl e | (None, None) \<Rightarrow> Inl (Msg ''unreachable''),
      finish_call env (err = None) (cl_late (?run ?i)) on')"
    unfolding on'_def err_def on_def using assms(4,5) p(1) by (simp add: Dial_def Let_def target_ok_def)
  with assms(1) have res: "n' = finish_call env (err = None) (cl_late (?run ?i)) on'"
    "r = (case (err, fst (cl_result (?run ?i))) of (None, Some c) \<Rightarrow> Inr c | (Some e, _) \<Rightarrow> Inl e
      | (None, None) \<Rightarrow> Inl (Msg ''unreachable''))" by (simp_all only: prod.inject)
  have ok1: "scope_ok (nw_scope n1)" "\<not> sc_closed (nw_scope n1)" using p(5,7) by (simp_all add: net_ok_def)
  have cl: "client_ok (so_endpoint p) (?run ?i)" using assms(3) p(1) by simp
  let ?h = "set (handed (ne_endpoint env) (cl_dials (?run ?i)))"
  from dial_call_spec [OF ok1 p(8) fresh(3) cl p(3,2) on_def err_def on'_def]
  have n': "net_ok (ne_endpoint env) n1 n'"
    "held_by n' = (if err = None then (held_by n1 \<union> ?h) - {ne_op env} else held_by n1 - ?h - {ne_op env})"
    using res(1) p(1,4) by simp_all
  have "?h \<subseteq> set (raws (cl_dials (?run ?i) @ cl_late (?run ?i)))"
    using handed_raws [of "ne_endpoint env" "cl_dials (?run ?i)"] by (auto simp: raws_append)
  then have new: "q \<notin> held_by n" if "q \<in> insert (ne_op env) ?h" for q
    using that dial_unused_free [OF assms(2) fresh(1) [of ?i], of q] by auto
  have "ne_op env \<notin> ?h" using fresh(2) [of ?i] handed_raws [of "ne_endpoint env" "cl_dials (?run ?i)"]
    by (auto simp: raws_append)
  with new have "held_by n \<inter> insert (ne_op env) ?h = {}" "ne_op env \<notin> ?h" by blast+
  then have held: "held_by n' = (if err = None then held_by n \<union> ?h else held_by n)"
    unfolding n'(2) p(6) by (cases "err = None") auto
  have "err = None \<Longrightarrow> fst (cl_result (?run ?i)) \<noteq> None"
    by (auto simp: err_def dial_verdict_def split: prod.splits option.splits if_splits)
  then have "case r of Inl e \<Rightarrow> held_by n' = held_by n | Inr c \<Rightarrow> c \<in> ?h \<and> held_by n' = held_by n \<union> ?h"
    using res(2) held cl p(1) by (cases err; cases "fst (cl_result (?run ?i))") (simp_all add: client_ok_def)
  moreover have "scope_ok (nw_scope n')" "set (nw_dialed n') \<subseteq> insert (ne_endpoint env) (set (nw_dialed n))"
    using n'(1) p(7) by (auto simp: net_ok_def)
  ultimately show ?thesis using p(5) by (cases r) auto
qed

text \<open>A connection that the sandbox gave to a dial of the library which fails is closed, also when it
  came with an error.\<close>

lemma socks_dialer_closes:
  assumes "socks_dialer cr (nt, address, Some c, err) (p, n) = (Inl e, p', n')" "address = so_endpoint p" "tcpNetwork nt"
  shows "if err = None then c \<in> set (sc_log (nw_scope n')) else nw_dropped n' = nw_dropped n @ [c]"
  using assms by (auto simp: Let_def scope_track_def scope_add_def conn_close_def resource_close_def call_close_def
      split: option.splits if_splits prod.splits rphase.splits)

text \<open>
  C5. Dialing goes through Tor only and never leaks a connection. For every behaviour of
  the SOCKS library and of the sandbox, the only address that is dialed is Tor's SOCKS
  listener. On success the returned connection is registered in the network's scope, which
  holds besides only connections that the library asked for; on every error, whether of the
  target, the entropy, the library, the context or the deadline, and also when the library
  dials after the call has ended, the scope holds exactly what it held before. A closed
  network refuses the call and nothing is dialed.
\<close>

theorem Dial_safe:
  assumes "Dial sha L env nt address n = (r, n')" "scope_ok (nw_scope n)"
    and "\<forall>i. client_ok (ne_endpoint env) (ne_client env (ne_endpoint env) i nt address) \<and>
      call_fresh env (ne_client env (ne_endpoint env) i nt address) n"
  shows "scope_ok (nw_scope n') \<and> set (nw_dialed n') \<subseteq> insert (ne_endpoint env) (set (nw_dialed n)) \<and>
    (sc_closed (nw_scope n) \<longrightarrow> (\<exists>e. r = Inl e) \<and> n' = n) \<and>
    (case r of
       Inl e \<Rightarrow> held_by n' = held_by n
     | Inr c \<Rightarrow> (\<exists>i. c \<in> set (handed (ne_endpoint env) (cl_dials (ne_client env (ne_endpoint env) i nt address))) \<and>
         held_by n' = held_by n \<union> set (handed (ne_endpoint env) (cl_dials (ne_client env (ne_endpoint env) i nt address)))))"
proof (cases "\<exists>e. r = Inl e \<and> n' = n")
  case True
  then show ?thesis using assms(2) by auto
next
  case refused: False
  obtain host port where hp: "target_ok nt address host port"
    using refused assms(1) by (cases "SplitHostPort address") (auto simp: Dial_def target_ok_def split: if_splits)
  obtain ro n1 where op: "operation sha L env host port n = (ro, n1)" by fastforce
  show ?thesis
  proof (cases ro)
    case (Inl e)
    let ?run = "ne_client env (ne_endpoint env) [] nt address"
    have "call_fresh env ?run n" using assms(3) by blast
    then have fresh: "unused (ne_op env # raws (cl_dials ?run @ cl_late ?run)) n" "ne_op env \<notin> set (raws (cl_dials ?run @ cl_late ?run))"
      by (simp_all add: call_fresh_def)
    have "r = Inl e" "n' = n1" using assms(1) hp op Inl by (simp_all add: Dial_def target_ok_def)
    then show ?thesis using operation_spec [OF assms(2) fresh op] Inl by (auto simp: net_ok_def)
  next
    case (Inr p)
    from dial_entered [OF assms hp op [unfolded Inr]] show ?thesis by auto
  qed
qed

definition sample_network :: network where
  "sample_network = \<lparr>nw_cfg = \<lparr>Circuits = SessionCircuits, Isolation = 0\<rparr>, nw_id = ''n1'', nw_scope = newScope,
     nw_reg = 0, nw_dialed = [], nw_dropped = []\<rparr>"

definition sample_net_env :: net_env where
  "sample_net_env = \<lparr>ne_random = Inl (Sentinel IoEOF), ne_endpoint = ''127.0.0.1:9050'', ne_op = 1, ne_close = (\<lambda>_. None),
     ne_ctx = None, ne_deadline = None,
     ne_client = (\<lambda>ep i nt a. \<lparr>cl_dials = [(''tcp'', ''9.9.9.9:53'', Some 3, None), (''tcp'', ep, Some 2, None)],
       cl_result = (Some 2, None), cl_late = [(''tcp'', ep, Some 4, None)]\<rparr>),
     ne_lookupIP = (\<lambda>ep i nt h. \<lparr>cl_dials = [], cl_result = Inr [], cl_late = []\<rparr>),
     ne_lookupAddr = (\<lambda>ep i a. \<lparr>cl_dials = [], cl_result = Inr [], cl_late = []\<rparr>)\<rparr>"

theorem Dial_safe_witness:
  "\<exists>n'. Dial (\<lambda>_. []) (\<lambda>n. n) sample_net_env ''tcp'' ''a.com:80'' sample_network = (Inr 2, n') \<and> held_by n' = {2} \<and>
     set (nw_dialed n') \<subseteq> {''127.0.0.1:9050''}"
proof -
  obtain r n' where d: "Dial (\<lambda>_. []) (\<lambda>n. n) sample_net_env ''tcp'' ''a.com:80'' sample_network = (r, n')" by fastforce
  have hp: "SplitHostPort ''a.com:80'' = Some (''a.com'', ''80'')" "safeText ''a.com:80''" by code_simp+
  have fam: "family_mismatch ''tcp'' h \<longleftrightarrow> False" for h by (simp add: family_mismatch_def split: option.split)
  have r: "r = Inr 2"
    using d hp fam by (auto simp: Dial_def tcpNetwork_def operation_def sample_network_def sample_net_env_def scope_ctx_err_def
        newScope_def scope_operation_def scope_add_def isolation_id_def dial_verdict_def Let_def split: if_splits)
  have h: "handed ''127.0.0.1:9050'' [(''tcp'', ''9.9.9.9:53'', Some 3, None), (''tcp'', ''127.0.0.1:9050'', Some 2, None)] = [2]"
    by (simp add: handed_def raws_def tcpNetwork_def)
  have "\<forall>i. client_ok (ne_endpoint sample_net_env) (ne_client sample_net_env (ne_endpoint sample_net_env) i ''tcp'' ''a.com:80'') \<and>
      call_fresh sample_net_env (ne_client sample_net_env (ne_endpoint sample_net_env) i ''tcp'' ''a.com:80'') sample_network"
    using h by (simp add: sample_net_env_def sample_network_def client_ok_def call_fresh_def unused_def raws_def newScope_def)
  from Dial_safe [OF d _ this] d r h show ?thesis
    by (auto simp: sample_network_def scope_ok_new sample_net_env_def) (simp_all add: newScope_def)
qed

end
