(* ===== verification/Tor_Service.thy ===== *)
theory Tor_Service
  imports Tor_Network
begin

text \<open>
  Onion services (service.go): creating a service, its \<^verbatim>\<open>ADD_ONION\<close> command, opening and
  removing virtual ports by replacing the mapping that Tor holds, descriptor publication,
  accepting connections, closing and draining. A service lives inside a driver, so the
  state of its operations is a world: the driver's system and the service.

  Closing the driver closes the scope of the service, and one closer of that scope takes the
  mutex of the service. The operations that hold that mutex and close the driver because
  Tor failed them therefore wait for themselves: the result of such an operation is an
  option, and \<^const>\<open>None\<close> means that it does not return.
\<close>

section \<open>State\<close>

record service_config =
  Ports :: "u16 list"
  MaxStreams :: u16
  MaxStreamsPolicy :: u8
  KeyName :: string
  AuthorizedClients :: "u8 list list"

text \<open>A listener is given by its address; \<^const>\<open>None\<close> is nil.\<close>

record service_port =
  sp_listener :: "string option"
  sp_resource :: "nat option"
  sp_claimed :: bool
  sp_generation :: u64

definition empty_port :: service_port where
  "empty_port = \<lparr>sp_listener = None, sp_resource = None, sp_claimed = False, sp_generation = 0\<rparr>"

text \<open>
  \<open>sv_done\<close> tells that the function under \<^verbatim>\<open>once\<close> ran; \<open>sv_dropped\<close> are the connections that
  were closed without being registered. The channels that only wake the waiters have no
  state of their own; \<^verbatim>\<open>closingCh\<close> is closed with \<open>sv_closing\<close>. The registration is the number
  of the service's scope among the resources of the driver.
\<close>

record service =
  sv_id :: string
  sv_key :: onion_key
  sv_keyName :: string
  sv_cfg :: service_config
  sv_scope :: scope
  sv_registration :: nat
  sv_events :: "service_event broker"
  sv_ports :: "(u16 \<times> service_port) list"
  sv_active :: bool
  sv_closing :: bool
  sv_done :: bool
  sv_err :: "goerr option"
  sv_publication :: service_event
  sv_accepted :: "nat list"
  sv_accepting :: int
  sv_stopping :: bool
  sv_dropped :: "nat list"

record 't world =
  w_sys :: "'t sys"
  w_sv :: service

definition on_service :: "(service \<Rightarrow> service) \<Rightarrow> 't world \<Rightarrow> 't world" where
  "on_service f w = w\<lparr>w_sv := f (w_sv w)\<rparr>"

definition on_sys :: "('t sys \<Rightarrow> 't sys) \<Rightarrow> 't world \<Rightarrow> 't world" where
  "on_sys f w = w\<lparr>w_sys := f (w_sys w)\<rparr>"

text \<open>The resources of a service's scope that are not listeners or connections.\<close>

definition events_closer :: nat where "events_closer = 0"
definition operation_closer :: nat where "operation_closer = 1"
definition key_closer :: nat where "key_closer = 2"

definition zero_key :: onion_key where
  "zero_key = replicate onionServiceKeySize 0"

definition new_service :: "nat \<Rightarrow> service_config \<Rightarrow> service" where
  "new_service reg cfg = \<lparr>sv_id = [], sv_key = zero_key, sv_keyName = KeyName cfg, sv_cfg = cfg,
     sv_scope = newScope, sv_registration = reg, sv_events = newEventBroker, sv_ports = [],
     sv_active = False, sv_closing = False, sv_done = False, sv_err = None,
     sv_publication = PublicationEvent PublicationPending [], sv_accepted = [], sv_accepting = 0,
     sv_stopping = False, sv_dropped = []\<rparr>"

text \<open>
  What the environment answers during a call: to closing the driver, to the closers of the
  service's scope, the error of the caller's context, and the sandbox's listener, with the
  number of its resource.
\<close>

record service_env =
  ve_driver :: close_env
  ve_close :: close_results
  ve_ctx :: "goerr option"
  ve_listen :: "nat \<times> string res"

section \<open>Closing the scope and the driver\<close>

definition clearKey :: "service \<Rightarrow> service" where
  "clearKey v = v\<lparr>sv_key := replicate (length (sv_key v)) 0\<rparr>"

text \<open>\<^verbatim>\<open>serviceConn.closeRaw\<close>, after the connection itself was closed.\<close>

definition closeRaw :: "nat \<Rightarrow> service \<Rightarrow> service" where
  "closeRaw c v = v\<lparr>sv_accepted := removeAll c (sv_accepted v)\<rparr>"

text \<open>What the closer of a resource does to the service.\<close>

definition closer_effect :: "nat \<Rightarrow> service \<Rightarrow> service" where
  "closer_effect r v =
    (if r = events_closer
     then v\<lparr>sv_events := (case broker_close (sv_events v) of None \<Rightarrow> sv_events v | Some b \<Rightarrow> b)\<rparr>
     else if r = key_closer then clearKey v
     else closeRaw r v)"

definition scope_shut :: "close_results \<Rightarrow> service \<Rightarrow> goerr option \<times> service" where
  "scope_shut cr v =
    (let rs = items_list (sv_scope v)
     in case scope_close cr rs (sv_scope v) of
         (err, sc) \<Rightarrow> (err, fold closer_effect rs (v\<lparr>sv_scope := sc\<rparr>)))"

definition registered :: "'t world \<Rightarrow> bool" where
  "registered w \<longleftrightarrow> sc_phase (d_resources (sy_d (w_sys w))) (sv_registration (w_sv w)) = ROpen"

text \<open>\<^verbatim>\<open>Driver.Close\<close>, with what it does to this service.\<close>

definition close_driver :: "'t ctl \<Rightarrow> service_env \<Rightarrow> 't world \<Rightarrow> 't world" where
  "close_driver ctl env w =
    (if d_done (sy_d (w_sys w)) then w
     else if \<not> registered w then on_sys (\<lambda>s. snd (driver_Close ctl (ve_driver env) s)) w
     else case scope_shut (ve_close env) (w_sv w) of
         (err, v) \<Rightarrow>
           let cenv = ve_driver env;
               cenv' = cenv\<lparr>ce_resources := (ce_resources cenv)(sv_registration v := err)\<rparr>
           in \<lparr>w_sys = snd (driver_Close ctl cenv' (w_sys w)), w_sv = v\<rparr>)"

text \<open>Closing the driver while the mutex of the service is held: the closer that clears the
  key waits for that mutex.\<close>

definition self_wait :: "'t world \<Rightarrow> bool" where
  "self_wait w \<longleftrightarrow> \<not> d_done (sy_d (w_sys w)) \<and> registered w \<and> key_closer \<in> sc_items (sv_scope (w_sv w))"

definition close_driver_locked :: "'t ctl \<Rightarrow> service_env \<Rightarrow> 't world \<Rightarrow> 't world option" where
  "close_driver_locked ctl env w = (if self_wait w then None else Some (close_driver ctl env w))"

definition registration_close :: "service_env \<Rightarrow> 't world \<Rightarrow> goerr option \<times> 't world" where
  "registration_close env w =
    (let (err, v) = (if registered w then scope_shut (ve_close env) (w_sv w) else (None, w_sv w));
         d = sy_d (w_sys w)
     in case resource_close (\<lambda>_. err) (sv_registration v) (d_resources d) of
         (e, rs) \<Rightarrow> (e, \<lparr>w_sys = on_driver (\<lambda>d. d\<lparr>d_resources := rs\<rparr>) (w_sys w), w_sv = v\<rparr>))"

section \<open>Commands\<close>

definition sv_command :: "'t ctl \<Rightarrow> string \<Rightarrow> 't world \<Rightarrow> reply res \<times> 't world" where
  "sv_command ctl cmd w = (case command ctl cmd (w_sys w) of (r, s) \<Rightarrow> (r, w\<lparr>w_sys := s\<rparr>))"

text \<open>A mapping gives the address of the backing listener of a virtual port.\<close>

type_synonym mappings = "(u16 \<times> string) list"

definition currentMappingsLocked :: "service \<Rightarrow> mappings" where
  "currentMappingsLocked v =
    cat_options (map (\<lambda>(port, b). map_option (Pair port) (sp_listener b)) (sv_ports v))"

definition port_words :: "mappings \<Rightarrow> string" where
  "port_words m =
    concat (map (\<lambda>value. '' Port='' @ Itoa (int value) @ '','' @
        (case map_of m (of_nat value) of None \<Rightarrow> [] | Some address \<Rightarrow> address))
      (sort (map (\<lambda>(port, _). unat port) m)))"

definition onion_flags :: "service_config \<Rightarrow> string list" where
  "onion_flags cfg =
    (if AuthorizedClients cfg \<noteq> [] then [''V3Auth''] else []) @
    (if MaxStreamsPolicy cfg = CloseRendezvousCircuit then [''MaxStreamsCloseCircuit''] else [])"

definition client_words :: "casemap \<Rightarrow> service_config \<Rightarrow> string" where
  "client_words L cfg =
    concat (map (\<lambda>client. '' ClientAuthV3='' @
        (case public_MarshalText L client of Inl _ \<Rightarrow> [] | Inr encoded \<Rightarrow> encoded))
      (AuthorizedClients cfg))"

definition addOnion_command :: "casemap \<Rightarrow> bool \<Rightarrow> mappings \<Rightarrow> service \<Rightarrow> string" where
  "addOnion_command L generated m v =
    ''ADD_ONION '' @ (if generated then ''NEW:ED25519-V3'' else ''ED25519-V3:'' @ torBlob (sv_key v)) @
    (if onion_flags (sv_cfg v) \<noteq> [] then '' Flags='' @ Join '','' (onion_flags (sv_cfg v)) else []) @
    (if 0 < MaxStreams (sv_cfg v) then '' MaxStreams='' @ Itoa (int (unat (MaxStreams (sv_cfg v)))) else []) @
    client_words L (sv_cfg v) @ port_words m"

definition addOnion :: "casemap \<Rightarrow> 't ctl \<Rightarrow> bool \<Rightarrow> mappings \<Rightarrow> 't world \<Rightarrow> reply res \<times> 't world" where
  "addOnion L ctl generated m w = sv_command ctl (addOnion_command L generated m (w_sv w)) w"

definition applyAddReply :: "reply \<Rightarrow> bool \<Rightarrow> string \<Rightarrow> service \<Rightarrow> goerr option \<times> service" where
  "applyAddReply r generated expected v =
    (case Value r ''ServiceID'' of
       None \<Rightarrow> (Some (Msg ''tor-driver: invalid onion service response''), v)
     | Some i \<Rightarrow>
         if \<not> validServiceID i \<or> expected \<noteq> [] \<and> i \<noteq> expected
         then (Some (Msg ''tor-driver: invalid onion service response''), v)
         else if \<not> generated then (None, v\<lparr>sv_id := i\<rparr>)
         else (case Value r ''PrivateKey'' of
             None \<Rightarrow> (Some (Msg ''tor-driver: Tor did not return the generated onion service key''), v)
           | Some encoded \<Rightarrow>
               (case ParseOnionServiceKey encoded of
                  Inl e \<Rightarrow> (Some e, v)
                | Inr key \<Rightarrow> (None, v\<lparr>sv_key := key, sv_id := i\<rparr>))))"

definition del_command :: "service \<Rightarrow> string" where
  "del_command v = ''DEL_ONION '' @ sv_id v"

definition service_Address :: "service \<Rightarrow> string" where
  "service_Address v = sv_id v @ ''.onion''"

section \<open>Publication\<close>

fun pub_state :: "service_event \<Rightarrow> publication_state" where
  "pub_state (PublicationEvent state _) = state"

definition handlePublication :: "service_event \<Rightarrow> service \<Rightarrow> service" where
  "handlePublication event v =
    (if pub_state (sv_publication v) = PublicationPublished \<and> pub_state event \<noteq> PublicationPublished then v
     else v\<lparr>sv_publication := event,
        sv_events := (case publish event (sv_events v) of None \<Rightarrow> sv_events v | Some b \<Rightarrow> b)\<rparr>)"

definition resetPublication :: "'t world \<Rightarrow> 't world" where
  "resetPublication w =
    on_service (handlePublication (PublicationEvent PublicationPending []))
      (on_sys (on_driver (\<lambda>d. d\<lparr>d_descriptors := AList.delete (sv_id (w_sv w)) (d_descriptors d)\<rparr>)) w)"

definition service_SubscribeEvents :: "int \<Rightarrow> service \<Rightarrow> u64 res \<times> service" where
  "service_SubscribeEvents buffer v =
    (if sv_closing v then (Inl (Sentinel ErrClosed), v)
     else case subscribeInitial buffer [sv_publication v] (sv_events v) of
         (r, b) \<Rightarrow> (r, v\<lparr>sv_events := b\<rparr>))"

text \<open>
  \<^verbatim>\<open>WaitPublished\<close>: a turn of the loop sees a state of the service and, when it has to wait,
  is woken by the context, by the close of the service or of its scope, or by a change of
  the publication. The result \<^const>\<open>None\<close> means that it is still waiting.
\<close>

datatype wake = WakeContext goerr | WakeClosing | WakeScope | WakeChanged

fun WaitPublished :: "(service \<times> wake) list \<Rightarrow> goerr option option" where
  "WaitPublished [] = None"
| "WaitPublished ((v, why) # turns) =
    (if sv_closing v then Some (Some (Sentinel ErrClosed))
     else if pub_state (sv_publication v) = PublicationPublished then Some None
     else case why of
         WakeContext e \<Rightarrow> Some (Some e)
       | WakeClosing \<Rightarrow> Some (Some (Sentinel ErrClosed))
       | WakeScope \<Rightarrow> Some (Some (Sentinel ErrClosed))
       | WakeChanged \<Rightarrow> WaitPublished turns)"

section \<open>Replacing the mapping\<close>

definition fail_closed :: "'t ctl \<Rightarrow> service_env \<Rightarrow> goerr option \<Rightarrow> 't world \<Rightarrow> (goerr option \<times> 't world) option" where
  "fail_closed ctl env err w = map_option (Pair err) (close_driver_locked ctl env w)"

text \<open>\<^verbatim>\<open>addOnion\<close> with the key of the service, \<^verbatim>\<open>applyAddReply\<close>, and the record of success: what
  both the replacement and the rollback do.\<close>

definition add_mappings :: "casemap \<Rightarrow> 't ctl \<Rightarrow> mappings \<Rightarrow> 't world \<Rightarrow> goerr option \<times> 't world" where
  "add_mappings L ctl m w =
    (case addOnion L ctl False m w of
       (Inl e, w1) \<Rightarrow> (Some e, w1)
     | (Inr r, w1) \<Rightarrow>
         (case applyAddReply r False (sv_id (w_sv w1)) (w_sv w1) of
            (Some e, v) \<Rightarrow> (Some e, w1\<lparr>w_sv := v\<rparr>)
          | (None, v) \<Rightarrow> (None, w1\<lparr>w_sv := v\<lparr>sv_active := True\<rparr>\<rparr>)))"

definition install_mappings ::
  "casemap \<Rightarrow> 't ctl \<Rightarrow> service_env \<Rightarrow> bool \<Rightarrow> mappings \<Rightarrow> mappings \<Rightarrow> 't world \<Rightarrow>
    (goerr option \<times> 't world) option" where
  "install_mappings L ctl env wasActive old desired w =
    (case add_mappings L ctl desired w of
       (None, w1) \<Rightarrow> Some (None, w1)
     | (Some e, w1) \<Rightarrow>
         if errors_as_control e = None then fail_closed ctl env (Some e) w1
         else if \<not> wasActive then Some (Some e, w1)
         else (case add_mappings L ctl old w1 of
             (None, w2) \<Rightarrow> Some (errors_join [Some e, None], w2)
           | (Some e2, w2) \<Rightarrow> fail_closed ctl env (errors_join [Some e, Some e2]) w2))"

definition remap ::
  "casemap \<Rightarrow> 't ctl \<Rightarrow> service_env \<Rightarrow> bool \<Rightarrow> mappings \<Rightarrow> mappings \<Rightarrow> 't world \<Rightarrow>
    (goerr option \<times> 't world) option" where
  "remap L ctl env wasActive old desired w =
    (if desired = [] then Some (None, resetPublication w)
     else install_mappings L ctl env wasActive old desired (resetPublication w))"

definition replaceMappingsLocked ::
  "casemap \<Rightarrow> 't ctl \<Rightarrow> service_env \<Rightarrow> mappings \<Rightarrow> 't world \<Rightarrow> (goerr option \<times> 't world) option" where
  "replaceMappingsLocked L ctl env desired w =
    (let old = currentMappingsLocked (w_sv w)
     in if \<not> sv_active (w_sv w) then remap L ctl env False old desired w
        else case sv_command ctl (del_command (w_sv w)) w of
            (Inl e, w1) \<Rightarrow> fail_closed ctl env (Some e) w1
          | (Inr _, w1) \<Rightarrow> remap L ctl env True old desired (on_service (\<lambda>v. v\<lparr>sv_active := False\<rparr>) w1))"

section \<open>Listening\<close>

text \<open>The sandbox's listener as the backing of a port.\<close>

definition newBacking :: "service_env \<Rightarrow> 't world \<Rightarrow> service_port res \<times> 't world" where
  "newBacking env w =
    (case ve_listen env of
       (_, Inl e) \<Rightarrow> (Inl e, w)
     | (r, Inr address) \<Rightarrow>
         (case numericEndpoint address True of
            Inl e \<Rightarrow> (Inl e, on_sys (effect ListenerClose) w)
          | Inr _ \<Rightarrow>
              (case scope_add (ve_close env) r (sv_scope (w_sv w)) of
                 (Some e, sc) \<Rightarrow> (Inl e, on_service (\<lambda>v. v\<lparr>sv_scope := sc\<rparr>) w)
               | (None, sc) \<Rightarrow>
                   (Inr \<lparr>sp_listener = Some address, sp_resource = Some r, sp_claimed = False, sp_generation = 1\<rparr>,
                    on_service (\<lambda>v. v\<lparr>sv_scope := sc\<rparr>) w))))"

definition virtualPort :: "string \<Rightarrow> service \<Rightarrow> u16 res" where
  "virtualPort address v =
    (case SplitHostPort address of
       None \<Rightarrow> Inl (Msg ''SplitHostPort'')
     | Some (host, port) \<Rightarrow>
         if host \<noteq> [] \<and> host \<noteq> service_Address v
         then Inl (Msg ''tor-driver: service may only listen on its own onion address'')
         else (case ParseUint 16 port of
             None \<Rightarrow> Inl (Msg ''tor-driver: invalid virtual port'')
           | Some value \<Rightarrow>
               if value = 0 then Inl (Msg ''tor-driver: invalid virtual port'')
               else if map_of (sv_ports v) (of_nat value) = None
               then Inl (Msg ''tor-driver: port was not reserved at service creation'')
               else Inr (of_nat value)))"

record service_listener =
  ln_port :: u16
  ln_generation :: u64
  ln_listener :: "string option"
  ln_address :: string
  ln_closed :: bool

definition JoinHostPort :: "string \<Rightarrow> string \<Rightarrow> string" where
  "JoinHostPort host port =
    (if CHR '':'' \<in> set host then ''['' @ host @ '']:'' @ port else host @ '':'' @ port)"

definition set_port :: "u16 \<Rightarrow> service_port \<Rightarrow> service \<Rightarrow> service" where
  "set_port port b v = v\<lparr>sv_ports := AList.update port b (sv_ports v)\<rparr>"

definition close_resource :: "service_env \<Rightarrow> nat \<Rightarrow> service \<Rightarrow> goerr option \<times> service" where
  "close_resource env r v =
    (case resource_close (ve_close env) r (sv_scope v) of (e, sc) \<Rightarrow> (e, v\<lparr>sv_scope := sc\<rparr>))"

text \<open>The end of \<^verbatim>\<open>Listen\<close>: the port is claimed.\<close>

definition claim :: "u16 \<Rightarrow> service_port \<Rightarrow> 't world \<Rightarrow> service_listener res \<times> 't world" where
  "claim port b w =
    (Inr \<lparr>ln_port = port, ln_generation = sp_generation b, ln_listener = sp_listener b,
       ln_address = JoinHostPort (service_Address (w_sv w)) (Itoa (int (unat port))), ln_closed = False\<rparr>,
     on_service (set_port port (b\<lparr>sp_claimed := True\<rparr>)) w)"

text \<open>Reopening a port that was removed.\<close>

definition reopen ::
  "casemap \<Rightarrow> 't ctl \<Rightarrow> service_env \<Rightarrow> u16 \<Rightarrow> service_port \<Rightarrow> 't world \<Rightarrow>
    (service_listener res \<times> 't world) option" where
  "reopen L ctl env port binding w =
    (case newBacking env w of
       (Inl e, w1) \<Rightarrow> Some (Inl e, w1)
     | (Inr candidate, w1) \<Rightarrow>
         (case replaceMappingsLocked L ctl env
             (AList.update port (the (sp_listener candidate)) (currentMappingsLocked (w_sv w1))) w1 of
            None \<Rightarrow> None
          | Some (Some e, w2) \<Rightarrow>
              Some (Inl e, on_service (\<lambda>v. snd (close_resource env (the (sp_resource candidate)) v)) w2)
          | Some (None, w2) \<Rightarrow> Some (claim port (candidate\<lparr>sp_generation := sp_generation binding + 1\<rparr>) w2)))"

definition Listen ::
  "casemap \<Rightarrow> 't ctl \<Rightarrow> service_env \<Rightarrow> string \<Rightarrow> string \<Rightarrow> 't world \<Rightarrow>
    (service_listener res \<times> 't world) option" where
  "Listen L ctl env nt address w =
    (if \<not> tcpNetwork nt then Some (Inl (Sentinel ErrUnsupported), w)
     else case ve_ctx env of
         Some e \<Rightarrow> Some (Inl e, w)
       | None \<Rightarrow>
           (case virtualPort address (w_sv w) of
              Inl e \<Rightarrow> Some (Inl e, w)
            | Inr port \<Rightarrow>
                if sv_closing (w_sv w) \<or> scope_ctx_err (sv_scope (w_sv w)) \<noteq> None
                then Some (Inl (Sentinel ErrClosed), w)
                else (case map_of (sv_ports (w_sv w)) port of
                    None \<Rightarrow> Some (Inl (Msg ''panic: nil pointer dereference''), w)
                  | Some binding \<Rightarrow>
                      if sp_claimed binding then Some (Inl (Msg ''tor-driver: port already claimed''), w)
                      else if sp_listener binding = None then reopen L ctl env port binding w
                      else Some (claim port binding w))))"

definition ListenTCP ::
  "casemap \<Rightarrow> 't ctl \<Rightarrow> service_env \<Rightarrow> string \<Rightarrow> string \<Rightarrow> 't world \<Rightarrow>
    (service_listener res \<times> 't world) option" where
  "ListenTCP L ctl env nt address w =
    (case Listen L ctl env nt address w of
       None \<Rightarrow> None
     | Some (Inl e, w1) \<Rightarrow> Some (Inl e, w1)
     | Some (Inr listener, w1) \<Rightarrow> Some (Inr listener, w1))"

section \<open>Removing a port\<close>

definition release_port :: "service_env \<Rightarrow> u16 \<Rightarrow> service_port \<Rightarrow> service \<Rightarrow> goerr option \<times> service" where
  "release_port env port b v =
    (case sp_resource b of
       None \<Rightarrow> (None, v)
     | Some r \<Rightarrow>
         (case close_resource env r v of
            (e, v1) \<Rightarrow>
              (e, set_port port \<lparr>sp_listener = None, sp_resource = None, sp_claimed = False,
                    sp_generation = sp_generation b + 1\<rparr> v1)))"

definition removePort ::
  "casemap \<Rightarrow> 't ctl \<Rightarrow> service_env \<Rightarrow> u16 \<Rightarrow> u64 \<Rightarrow> 't world \<Rightarrow> (goerr option \<times> 't world) option" where
  "removePort L ctl env port generation w =
    (case ve_ctx env of
       Some e \<Rightarrow> Some (Some e, w)
     | None \<Rightarrow>
         if sv_closing (w_sv w) \<or> scope_ctx_err (sv_scope (w_sv w)) \<noteq> None
         then Some (Some (Sentinel ErrClosed), w)
         else (case map_of (sv_ports (w_sv w)) port of
             None \<Rightarrow> Some (Some (Msg ''tor-driver: port was not reserved at service creation''), w)
           | Some binding \<Rightarrow>
               if sp_listener binding = None \<or> generation \<noteq> 0 \<and> sp_generation binding \<noteq> generation
               then Some (None, w)
               else (case replaceMappingsLocked L ctl env
                   (AList.delete port (currentMappingsLocked (w_sv w))) w of
                   None \<Rightarrow> None
                 | Some (Some e, w1) \<Rightarrow> Some (Some e, w1)
                 | Some (None, w1) \<Rightarrow>
                     (case release_port env port binding (w_sv w1) of
                        (e, v) \<Rightarrow> Some (e, w1\<lparr>w_sv := v\<rparr>)))))"

definition RemovePort ::
  "casemap \<Rightarrow> 't ctl \<Rightarrow> service_env \<Rightarrow> u16 \<Rightarrow> 't world \<Rightarrow> (goerr option \<times> 't world) option" where
  "RemovePort L ctl env port w = removePort L ctl env port 0 w"

definition listener_Close ::
  "casemap \<Rightarrow> 't ctl \<Rightarrow> service_env \<Rightarrow> service_listener \<Rightarrow> 't world \<Rightarrow>
    (goerr option \<times> service_listener \<times> 't world) option" where
  "listener_Close L ctl env l w =
    (if ln_closed l then Some (None, l, w)
     else case removePort L ctl (env\<lparr>ve_ctx := None\<rparr>) (ln_port l) (ln_generation l) w of
         None \<Rightarrow> None
       | Some (e, w1) \<Rightarrow> Some (e, if e = None then l\<lparr>ln_closed := True\<rparr> else l, w1))"

section \<open>Accepted connections\<close>

definition accept_enter :: "service \<Rightarrow> goerr option \<times> service" where
  "accept_enter v =
    (if sv_stopping v then (Some (Sentinel ErrClosed), v)
     else (None, v\<lparr>sv_accepting := sv_accepting v + 1\<rparr>))"

definition accept_leave :: "service \<Rightarrow> service" where
  "accept_leave v = v\<lparr>sv_accepting := sv_accepting v - 1\<rparr>"

text \<open>\<^verbatim>\<open>trackAccepted\<close> in its two atomic parts: the connection is counted, or closed when the
  service is stopping; then it is registered with the scope.\<close>

definition track_count :: "nat \<Rightarrow> service \<Rightarrow> goerr option \<times> service" where
  "track_count c v =
    (if sv_stopping v then (Some (Sentinel ErrClosed), v\<lparr>sv_dropped := sv_dropped v @ [c]\<rparr>)
     else (None, v\<lparr>sv_accepted := List.insert c (sv_accepted v)\<rparr>))"

text \<open>A closed scope calls \<^verbatim>\<open>closeRaw\<close> when it refuses the registration, and \<^verbatim>\<open>trackAccepted\<close> calls
  it again; the second call closes a closed connection and has no other effect.\<close>

definition track_register :: "close_results \<Rightarrow> nat \<Rightarrow> service \<Rightarrow> nat res \<times> service" where
  "track_register cr c v =
    (case scope_add cr c (sv_scope v) of
       (Some e, sc) \<Rightarrow> (Inl e, closeRaw c (closeRaw c (v\<lparr>sv_scope := sc\<rparr>)))
     | (None, sc) \<Rightarrow> (Inr c, v\<lparr>sv_scope := sc\<rparr>))"

definition trackAccepted :: "close_results \<Rightarrow> nat \<Rightarrow> service \<Rightarrow> nat res \<times> service" where
  "trackAccepted cr c v =
    (case track_count c v of (Some e, v1) \<Rightarrow> (Inl e, v1) | (None, v1) \<Rightarrow> track_register cr c v1)"

text \<open>\<^verbatim>\<open>Accept\<close> when nothing else happens to the service meanwhile; \<open>conn\<close> is what the backing
  listener returns.\<close>

definition Accept :: "close_results \<Rightarrow> nat res \<Rightarrow> service \<Rightarrow> nat res \<times> service" where
  "Accept cr conn v =
    (case accept_enter v of
       (Some e, v1) \<Rightarrow> (Inl e, v1)
     | (None, v1) \<Rightarrow>
         (case conn of
            Inl e \<Rightarrow> (Inl e, accept_leave v1)
          | Inr c \<Rightarrow> trackAccepted cr c (accept_leave v1)))"

definition serviceConn_Close :: "close_results \<Rightarrow> nat \<Rightarrow> service \<Rightarrow> goerr option \<times> service" where
  "serviceConn_Close cr c v =
    (case resource_close cr c (sv_scope v) of
       (e, sc) \<Rightarrow>
         (e, if sc_phase (sv_scope v) c = ROpen then closeRaw c (v\<lparr>sv_scope := sc\<rparr>) else v))"

definition service_SubscribeCloser :: "close_results \<Rightarrow> nat \<Rightarrow> service \<Rightarrow> nat res \<times> service" where
  "service_SubscribeCloser cr r v =
    (case scope_add cr r (sv_scope v) of
       (Some e, sc) \<Rightarrow> (Inl e, v\<lparr>sv_scope := sc\<rparr>)
     | (None, sc) \<Rightarrow> (Inr r, v\<lparr>sv_scope := sc\<rparr>))"

section \<open>Closing and draining\<close>

text \<open>
  What happens while \<^verbatim>\<open>waitAccepted\<close> waits: the application closes a connection, a call of
  \<^verbatim>\<open>Accept\<close> fails because its listener was closed, the driver is closed, or the context ends.
\<close>

datatype drain_event = AppCloses nat | AcceptFails | DriverCloses | DrainContext goerr

definition drain_effect :: "'t ctl \<Rightarrow> service_env \<Rightarrow> drain_event \<Rightarrow> 't world \<Rightarrow> 't world" where
  "drain_effect ctl env ev w =
    (case ev of
       AppCloses c \<Rightarrow> on_service (\<lambda>v. snd (serviceConn_Close (ve_close env) c v)) w
     | AcceptFails \<Rightarrow> on_service accept_leave w
     | DriverCloses \<Rightarrow> close_driver ctl env w
     | DrainContext _ \<Rightarrow> w)"

text \<open>The result \<^const>\<open>None\<close> means that it is still waiting after these events.\<close>

fun waitAccepted ::
  "'t ctl \<Rightarrow> service_env \<Rightarrow> drain_event list \<Rightarrow> 't world \<Rightarrow> (goerr option \<times> 't world) option" where
  "waitAccepted ctl env evs w =
    (if sv_accepted (w_sv w) = [] \<and> sv_accepting (w_sv w) = 0 then Some (None, w)
     else case evs of
         [] \<Rightarrow> None
       | DrainContext e # _ \<Rightarrow> Some (Some e, w)
       | ev # evs' \<Rightarrow> waitAccepted ctl env evs' (drain_effect ctl env ev w))"

declare waitAccepted.simps [simp del]

fun release_ports ::
  "service_env \<Rightarrow> (u16 \<times> service_port) list \<Rightarrow> goerr option \<Rightarrow> service \<Rightarrow> goerr option \<times> service" where
  "release_ports env [] err v = (err, v)"
| "release_ports env ((port, b) # bs) err v =
    (if sp_resource b = None then release_ports env bs err v
     else case release_port env port b v of (e, v1) \<Rightarrow> release_ports env bs (errors_join [err, e]) v1)"

text \<open>The part of \<^verbatim>\<open>close\<close> under the mutex of the service.\<close>

definition close_withdraw :: "'t ctl \<Rightarrow> service_env \<Rightarrow> 't world \<Rightarrow> (goerr option \<times> 't world) option" where
  "close_withdraw ctl env w =
    (if sv_active (w_sv w) \<and> \<not> d_closed (sy_d (w_sys w)) then
       (case sv_command ctl (del_command (w_sv w)) w of
          (Inl e, w1) \<Rightarrow> fail_closed ctl env (Some e) w1
        | (Inr _, w1) \<Rightarrow> Some (None, w1))
     else Some (None, w))"

definition close_begin :: "'t ctl \<Rightarrow> service_env \<Rightarrow> 't world \<Rightarrow> (goerr option \<times> 't world) option" where
  "close_begin ctl env w =
    (case close_withdraw ctl env (on_service (\<lambda>v. v\<lparr>sv_closing := True, sv_stopping := True\<rparr>) w) of
       None \<Rightarrow> None
     | Some (err, w1) \<Rightarrow>
         (case release_ports env (sv_ports (w_sv w1)) err ((w_sv w1)\<lparr>sv_active := False\<rparr>) of
            (err', v) \<Rightarrow> Some (err', w1\<lparr>w_sv := v\<rparr>)))"

definition forget_service :: "service \<Rightarrow> driver \<Rightarrow> driver" where
  "forget_service v d =
    d\<lparr>d_services := filter (\<lambda>(s, _). s \<noteq> sv_registration v) (d_services d),
      d_descriptors := AList.delete (sv_id v) (d_descriptors d),
      d_keyNames := removeAll (sv_keyName v) (d_keyNames d)\<rparr>"

definition close_end :: "service_env \<Rightarrow> goerr option \<Rightarrow> 't world \<Rightarrow> goerr option \<times> 't world" where
  "close_end env err w =
    (case registration_close env w of
       (e, w1) \<Rightarrow> (errors_join [err, e], on_sys (on_driver (forget_service (w_sv w1))) w1))"

text \<open>\<open>evs\<close> is what happens while the service drains.\<close>

definition service_close ::
  "'t ctl \<Rightarrow> service_env \<Rightarrow> bool \<Rightarrow> drain_event list \<Rightarrow> 't world \<Rightarrow> (goerr option \<times> 't world) option" where
  "service_close ctl env drain evs w =
    (case close_begin ctl env w of
       None \<Rightarrow> None
     | Some (err, w1) \<Rightarrow>
         if drain \<and> err = None then
           (case waitAccepted ctl env evs w1 of
              None \<Rightarrow> None
            | Some (None, w2) \<Rightarrow> Some (close_end env err w2)
            | Some (Some e, w2) \<Rightarrow> Some (close_end env (errors_join [err, Some e]) w2))
         else Some (close_end env err w1))"

definition close_once ::
  "('t world \<Rightarrow> (goerr option \<times> 't world) option) \<Rightarrow> 't world \<Rightarrow> (goerr option \<times> 't world) option" where
  "close_once f w =
    (if sv_done (w_sv w) then Some (sv_err (w_sv w), w)
     else case f w of
         None \<Rightarrow> None
       | Some (err, w1) \<Rightarrow> Some (err, on_service (\<lambda>v. v\<lparr>sv_err := err, sv_done := True\<rparr>) w1))"

definition service_Drain ::
  "'t ctl \<Rightarrow> service_env \<Rightarrow> drain_event list \<Rightarrow> 't world \<Rightarrow> (goerr option \<times> 't world) option" where
  "service_Drain ctl env evs w = close_once (service_close ctl env True evs) w"

definition service_Close :: "'t ctl \<Rightarrow> service_env \<Rightarrow> 't world \<Rightarrow> (goerr option \<times> 't world) option" where
  "service_Close ctl env w = close_once (service_close ctl env False []) w"

section \<open>Creating a service\<close>

text \<open>
  What the environment answers while a service is created: the number of its registration,
  whether there is a key store and its answers, the sandbox's listener for each port,
  and whether another goroutine closes the driver before or after the closer of the key is
  registered.
\<close>

record new_env =
  nv_env :: service_env
  nv_reg :: nat
  nv_hasStore :: bool
  nv_load :: "onion_key res"
  nv_store :: "goerr option"
  nv_listen :: "u16 \<Rightarrow> nat \<times> string res"
  nv_closes_before :: bool
  nv_closes_after :: bool

fun clients_error :: "casemap \<Rightarrow> int \<Rightarrow> string list \<Rightarrow> u8 list list \<Rightarrow> goerr option" where
  "clients_error L i seen [] = None"
| "clients_error L i seen (client # clients) =
    (case public_MarshalText L client of
       Inl e \<Rightarrow> Some (Wrap (''tor-driver: authorized client '' @ Itoa i @ '': '') e)
     | Inr encoded \<Rightarrow>
         if encoded \<in> set seen then Some (Msg ''tor-driver: duplicate authorized client'')
         else clients_error L (i + 1) (encoded # seen) clients)"

definition service_config_error :: "casemap \<Rightarrow> bool \<Rightarrow> config \<Rightarrow> service_config \<Rightarrow> goerr option" where
  "service_config_error L hasStore dcfg cfg =
    (if Sandbox dcfg = LinuxSandbox
     then Some (Msg ''tor-driver: dynamic onion services unavailable in LinuxSandbox mode'')
     else if length (Ports cfg) = 0 \<or> 128 < length (Ports cfg)
     then Some (Msg ''tor-driver: supply 1 to 128 virtual ports'')
     else if CloseRendezvousCircuit < MaxStreamsPolicy cfg \<or>
       MaxStreamsPolicy cfg = CloseRendezvousCircuit \<and> MaxStreams cfg = 0
     then Some (Msg ''tor-driver: invalid maximum stream policy'')
     else if KeyName cfg \<noteq> [] \<and> \<not> validKeyName (KeyName cfg)
     then Some (Msg ''tor-driver: invalid onion key name'')
     else if KeyName cfg \<noteq> [] \<and> \<not> hasStore
     then Some (Msg ''tor-driver: a named service requires OnionKeys'')
     else clients_error L 0 [] (AuthorizedClients cfg))"

fun reserve_ports ::
  "u16 list \<Rightarrow> (u16 \<times> service_port) list \<Rightarrow> goerr option \<times> (u16 \<times> service_port) list" where
  "reserve_ports [] ps = (None, ps)"
| "reserve_ports (port # ports) ps =
    (if port = 0 then (Some (Msg ''tor-driver: zero virtual port''), ps)
     else if map_of ps port \<noteq> None then (Some (Msg ''tor-driver: duplicate virtual port''), ps)
     else reserve_ports ports (AList.update port empty_port ps))"

text \<open>Whether Tor has to generate the key, and otherwise the key.\<close>

definition load_key :: "new_env \<Rightarrow> service_config \<Rightarrow> (bool \<times> onion_key) res" where
  "load_key env cfg =
    (if KeyName cfg = [] then Inr (True, zero_key)
     else case nv_load env of
         Inr key \<Rightarrow>
           if \<not> onion_valid key then Inl (Msg ''tor-driver: key store returned an invalid onion service key'')
           else Inr (False, key)
       | Inl e \<Rightarrow> if errors_is e FsErrNotExist then Inr (True, zero_key) else Inl e)"

fun new_backings ::
  "service_env \<Rightarrow> (u16 \<times> nat \<times> string res) list \<Rightarrow> 't world \<Rightarrow> goerr option \<times> 't world" where
  "new_backings env [] w = (None, w)"
| "new_backings env ((port, l) # ls) w =
    (case newBacking (env\<lparr>ve_listen := l\<rparr>) w of
       (Inl e, w1) \<Rightarrow> (Some e, w1)
     | (Inr b, w1) \<Rightarrow> new_backings env ls (on_service (set_port port b) w1))"

text \<open>\<^verbatim>\<open>ADD_ONION\<close> for the new service.\<close>

definition create_onion :: "casemap \<Rightarrow> 't ctl \<Rightarrow> service_env \<Rightarrow> bool \<Rightarrow> 't world \<Rightarrow> goerr option \<times> 't world" where
  "create_onion L ctl env generated w =
    (case addOnion L ctl generated (currentMappingsLocked (w_sv w)) w of
       (Inl e, w1) \<Rightarrow> (Some e, if errors_as_control e = None then close_driver ctl env w1 else w1)
     | (Inr r, w1) \<Rightarrow>
         (case applyAddReply r generated [] (w_sv w1) of
            (Some e, v) \<Rightarrow> (Some e, close_driver ctl env (w1\<lparr>w_sv := v\<rparr>))
          | (None, v) \<Rightarrow> (None, w1\<lparr>w_sv := v\<lparr>sv_active := True\<rparr>\<rparr>)))"

definition store_key :: "'t ctl \<Rightarrow> new_env \<Rightarrow> bool \<Rightarrow> 't world \<Rightarrow> goerr option \<times> 't world" where
  "store_key ctl env generated w =
    (if generated \<and> sv_keyName (w_sv w) \<noteq> [] then
       (case nv_store env of
          None \<Rightarrow> (None, w)
        | Some e \<Rightarrow>
            (case sv_command ctl (del_command (w_sv w)) w of
               (r, w1) \<Rightarrow>
                 (joinDeleteError (Some e) (err_of r),
                  if err_of r \<noteq> None then close_driver ctl (nv_env env) w1 else w1)))
     else (None, w))"

definition publish_service :: "'t ctl \<Rightarrow> new_env \<Rightarrow> 't world \<Rightarrow> goerr option \<times> 't world" where
  "publish_service ctl env w =
    (let w0 = (if nv_closes_before env then close_driver ctl (nv_env env) w else w)
     in case scope_add (\<lambda>_. None) key_closer (sv_scope (w_sv w0)) of
         (Some e, sc) \<Rightarrow> (Some e, on_service (\<lambda>v. clearKey (v\<lparr>sv_scope := sc\<rparr>)) w0)
       | (None, sc) \<Rightarrow>
           let w1 = on_service (\<lambda>v. v\<lparr>sv_scope := sc\<rparr>) w0;
               w2 = (if nv_closes_after env then close_driver ctl (nv_env env) w1 else w1);
               d = sy_d (w_sys w2)
           in if d_closed d then (Some (Sentinel ErrClosed), w2)
              else (None, on_service (\<lambda>v. case map_of (d_descriptors d) (sv_id v) of
                    None \<Rightarrow> v | Some cached \<Rightarrow> handlePublication cached v)
                  (on_sys (on_driver (\<lambda>d. d\<lparr>d_services :=
                     (sv_registration (w_sv w2), sv_id (w_sv w2)) # d_services d\<rparr>)) w2)))"

text \<open>\<^verbatim>\<open>NewService\<close> from the moment the service is registered with the driver.\<close>

definition create_service ::
  "casemap \<Rightarrow> 't ctl \<Rightarrow> new_env \<Rightarrow> service_config \<Rightarrow> 't world \<Rightarrow> goerr option \<times> 't world" where
  "create_service L ctl env cfg w =
    (case load_key env cfg of
       Inl e \<Rightarrow> (Some e, w)
     | Inr (generated, key) \<Rightarrow>
         (case new_backings (nv_env env) (map (\<lambda>port. (port, nv_listen env port)) (Ports cfg))
             (on_service (\<lambda>v. v\<lparr>sv_key := key\<rparr>) w) of
            (Some e, w1) \<Rightarrow> (Some e, w1)
          | (None, w1) \<Rightarrow>
              (case create_onion L ctl (nv_env env) generated w1 of
                 (Some e, w2) \<Rightarrow> (Some e, w2)
               | (None, w2) \<Rightarrow>
                   (case store_key ctl env generated w2 of
                      (Some e, w3) \<Rightarrow> (Some e, w3)
                    | (None, w3) \<Rightarrow> publish_service ctl env w3))))"

text \<open>The deferred functions, with the error they see.\<close>

definition create_deferred ::
  "service_env \<Rightarrow> goerr option \<Rightarrow> 't world \<Rightarrow> goerr option \<times> 't world" where
  "create_deferred env err w =
    (let w1 = on_service (\<lambda>v. snd (close_resource (env\<lparr>ve_close := \<lambda>_. None\<rparr>) operation_closer v)) w
     in case err of
         None \<Rightarrow> (None, w1)
       | Some e \<Rightarrow>
           (case registration_close env w1 of
              (e2, w2) \<Rightarrow>
                (errors_join [Some e, e2],
                 on_service clearKey
                   (on_sys (on_driver (\<lambda>d. d\<lparr>d_keyNames := removeAll (sv_keyName (w_sv w2)) (d_keyNames d)\<rparr>)) w2))))"

text \<open>The service before it is registered; a new scope accepts the closer of the events.\<close>

definition fresh_service :: "new_env \<Rightarrow> service_config \<Rightarrow> service" where
  "fresh_service env cfg =
    (let v = new_service (nv_reg env) cfg
     in v\<lparr>sv_scope := snd (scope_add (\<lambda>_. None) events_closer (sv_scope v)),
          sv_ports := snd (reserve_ports (Ports cfg) [])\<rparr>)"

definition refused_service :: "service_env \<Rightarrow> service \<Rightarrow> service" where
  "refused_service env v = clearKey (snd (scope_shut (ve_close env) v))"

text \<open>\<^verbatim>\<open>NewService\<close>: the error, the system, and the service if one was made; it is handed out when
  there is no error.\<close>

definition NewService ::
  "casemap \<Rightarrow> 't ctl \<Rightarrow> new_env \<Rightarrow> service_config \<Rightarrow> 't sys \<Rightarrow> goerr option \<times> 't sys \<times> service option" where
  "NewService L ctl env cfg s =
    (let d = sy_d s; v = fresh_service env cfg; shut = scope_shut (ve_close (nv_env env)) v
     in case service_config_error L (nv_hasStore env) (d_cfg d) cfg of
         Some e \<Rightarrow> (Some e, s, None)
       | None \<Rightarrow>
           (case fst (reserve_ports (Ports cfg) []) of
              Some e \<Rightarrow> (Some e, s, Some (clearKey v))
            | None \<Rightarrow>
                if d_closed d then (Some (Sentinel ErrClosed), s, Some (refused_service (nv_env env) v))
                else if KeyName cfg \<noteq> [] \<and> KeyName cfg \<in> set (d_keyNames d)
                then (Some (Msg ''tor-driver: onion key name is already active''), s,
                      Some (refused_service (nv_env env) v))
                else (case scope_add (\<lambda>_. fst shut) (nv_reg env) (d_resources d) of
                    (Some e, rs) \<Rightarrow>
                      (Some e, on_driver (\<lambda>d. d\<lparr>d_resources := rs, d_keyNames := removeAll (KeyName cfg) (d_keyNames d)\<rparr>) s,
                       Some (refused_service (nv_env env) v))
                  | (None, rs) \<Rightarrow>
                      let w = \<lparr>w_sys = on_driver (\<lambda>d. d\<lparr>d_resources := rs, d_keyNames :=
                                (if KeyName cfg \<noteq> [] then List.insert (KeyName cfg) (d_keyNames d) else d_keyNames d)\<rparr>) s,
                               w_sv = v\<lparr>sv_scope := snd (scope_operation operation_closer (sv_scope v))\<rparr>\<rparr>
                      in case create_service L ctl env cfg w of
                          (err, w1) \<Rightarrow>
                            (case create_deferred (nv_env env) err w1 of
                               (err', w2) \<Rightarrow> (err', w_sys w2, Some (w_sv w2))))))"

end
