(* ===== verification/Tor_Onion_Command.thy ===== *)
theory Tor_Onion_Command
  imports Tor_Service Tor_Network_Proofs
begin

text \<open>
  The \<^verbatim>\<open>ADD_ONION\<close> command of a service: its words, what Tor reads from them, and that nothing
  in the configuration of a service can add an argument or a line to the command.
\<close>

section \<open>The words of the command\<close>

text \<open>A mapping as the service builds it: each port once, and every target an endpoint of the
  loopback interface in digits.\<close>

definition mapping_ok :: "mappings \<Rightarrow> bool" where
  "mapping_ok m \<longleftrightarrow> distinct (map fst m) \<and> (\<forall>(port, address) \<in> set m. \<exists>a. numericEndpoint address True = Inr a)"

abbreviation by_port :: "mappings \<Rightarrow> mappings" where
  "by_port m \<equiv> sort_key (\<lambda>(port, _). unat port) m"

definition port_word :: "u16 \<times> string \<Rightarrow> string" where
  "port_word pa = (case pa of (port, address) \<Rightarrow> ''Port='' @ Itoa (int (unat port)) @ '','' @ address)"

definition client_word :: "casemap \<Rightarrow> u8 list \<Rightarrow> string" where
  "client_word L client = ''ClientAuthV3='' @ ToLower L (b32_encode client)"

text \<open>The flags that a configuration asks for: client authorization when there are authorized
  clients, and closing the circuit at the stream limit when that policy was chosen.\<close>

definition flag_words :: "service_config \<Rightarrow> string list" where
  "flag_words cfg =
    (if AuthorizedClients cfg = [] then
       if MaxStreamsPolicy cfg = CloseRendezvousCircuit then [''Flags=MaxStreamsCloseCircuit''] else []
     else if MaxStreamsPolicy cfg = CloseRendezvousCircuit then [''Flags=V3Auth,MaxStreamsCloseCircuit''] else [''Flags=V3Auth''])"

definition option_words :: "service_config \<Rightarrow> string list" where
  "option_words cfg = flag_words cfg @
    (if 0 < MaxStreams cfg then [''MaxStreams='' @ Itoa (int (unat (MaxStreams cfg)))] else [])"

lemma flag_words_eq:
  "(if onion_flags cfg \<noteq> [] then '' Flags='' @ Join '','' (onion_flags cfg) else []) = concat (map (\<lambda>w. CHR '' '' # w) (flag_words cfg))"
  by (simp add: onion_flags_def flag_words_def)

lemma insort_map: "insort (f x) (map f xs) = map f (insort_key f x xs)"
  by (induction xs) auto

lemma sort_map_key: "sort (map f xs) = map f (sort_key f xs)"
  by (induction xs) (simp_all add: insort_map)

lemma port_words_eq:
  assumes "distinct (map fst m)"
  shows "port_words m = concat (map (\<lambda>x. CHR '' '' # port_word x) (by_port m))"
proof -
  let ?f = "\<lambda>(port, _). unat port"
  have "CHR '' '' # port_word x = '' Port='' @ Itoa (int (?f x)) @ '','' @
      (case map_of m (of_nat (?f x)) of None \<Rightarrow> [] | Some address \<Rightarrow> address)" if "x \<in> set m" for x
    using map_of_is_SomeI [OF assms, of "fst x" "snd x"] that by (auto simp: port_word_def split: prod.splits)
  then have "map (\<lambda>x. CHR '' '' # port_word x) (by_port m) = map ((\<lambda>value. '' Port='' @ Itoa (int value) @ '','' @
      (case map_of m (of_nat value) of None \<Rightarrow> [] | Some address \<Rightarrow> address)) \<circ> ?f) (by_port m)"
    by (intro map_cong) auto
  then show ?thesis by (simp only: port_words_def sort_map_key map_map)
qed

lemma client_words_eq:
  assumes "\<forall>c \<in> set (AuthorizedClients cfg). \<not> allZero c"
  shows "client_words L cfg = concat (map (\<lambda>c. CHR '' '' # client_word L c) (AuthorizedClients cfg))"
  unfolding client_words_def using assms
  by (intro arg_cong [of _ _ concat] map_cong) (auto simp: public_MarshalText_def client_word_def)

lemma client_word_inject: "client_word L c = client_word L d \<longleftrightarrow> ToLower L (b32_encode c) = ToLower L (b32_encode d)"
  by (simp add: client_word_def)

lemma clients_ok:
  "clients_error L i seen cs = None \<Longrightarrow> (\<forall>c \<in> set cs. \<not> allZero c \<and> ToLower L (b32_encode c) \<notin> set seen) \<and>
    distinct (map (client_word L) cs)"
proof (induction cs arbitrary: i seen)
  case (Cons c cs)
  let ?t = "ToLower L (b32_encode c)"
  have c: "\<not> allZero c" "?t \<notin> set seen" "clients_error L (i + 1) (?t # seen) cs = None"
    using Cons.prems by (auto simp: public_MarshalText_def split: if_splits)
  have "\<forall>d \<in> set cs. client_word L d \<noteq> client_word L c"
    unfolding client_word_inject using Cons.IH [OF c(3)] by simp
  then have "client_word L c \<notin> set (map (client_word L) cs)" by auto
  with Cons.IH [OF c(3)] c(1,2) show ?case by simp
qed simp

lemma Join_space: "Join '' '' ((CHR '' '' # a) # ws) = CHR '' '' # Join '' '' (a # ws)"
  by (cases ws) auto

lemma join_words: "x @ concat (map (\<lambda>w. CHR '' '' # w) ws) = Join '' '' (x # ws)"
  by (induction ws arbitrary: x) (auto simp: Join_space)

definition add_words :: "casemap \<Rightarrow> bool \<Rightarrow> mappings \<Rightarrow> service \<Rightarrow> string list" where
  "add_words L generated m v =
    [''ADD_ONION'', if generated then ''NEW:ED25519-V3'' else ''ED25519-V3:'' @ torBlob (sv_key v)] @
    option_words (sv_cfg v) @ map (client_word L) (AuthorizedClients (sv_cfg v)) @ map port_word (by_port m)"

lemma addOnion_command_words:
  assumes "distinct (map fst m)" "\<forall>c \<in> set (AuthorizedClients (sv_cfg v)). \<not> allZero c"
  shows "addOnion_command L generated m v = Join '' '' (add_words L generated m v)"
proof -
  let ?k = "if generated then ''NEW:ED25519-V3'' else ''ED25519-V3:'' @ torBlob (sv_key v)"
  let ?sp = "\<lambda>w. CHR '' '' # w"
  have "addOnion_command L generated m v = ''ADD_ONION'' @ concat (map ?sp ([?k] @ option_words (sv_cfg v) @
      map (client_word L) (AuthorizedClients (sv_cfg v)) @ map port_word (by_port m)))"
    unfolding addOnion_command_def client_words_eq [OF assms(2)] port_words_eq [OF assms(1)] flag_words_eq
    by (simp add: option_words_def comp_def)
  then show ?thesis unfolding join_words by (simp add: add_words_def)
qed

text \<open>Every word is printable and has no space.\<close>

lemma word_append: "word a \<Longrightarrow> list_all (\<lambda>c. 33 \<le> byte c \<and> byte c < 128) b \<Longrightarrow> word (a @ b)"
  by (simp add: word_def)

lemma word_tail: "word b \<Longrightarrow> list_all (\<lambda>c. 33 \<le> byte c \<and> byte c < 128) b"
  by (simp add: word_def)

lemma word_Itoa: "0 \<le> i \<Longrightarrow> list_all (\<lambda>c. 33 \<le> byte c \<and> byte c < 128) (Itoa i)"
  using Itoa_no_byte [of _ i] unfolding list_all_iff by (fastforce simp: is_digit_def)

lemma word_endpoint: "numericEndpoint address True = Inr a \<Longrightarrow> list_all (\<lambda>c. 33 \<le> byte c \<and> byte c < 128) address"
  using numericEndpoint_chars unfolding list_all_iff by (fastforce simp: addr_char_def hex_char_range)

lemma word_add_words:
  assumes "mapping_ok m" "sv_key v \<noteq> []" "\<forall>c \<in> set (AuthorizedClients (sv_cfg v)). c \<noteq> []"
    and "w \<in> set (add_words L generated m v)"
  shows "word w"
proof -
  consider "w = ''ADD_ONION''" | "w = ''NEW:ED25519-V3''" | "w = ''ED25519-V3:'' @ torBlob (sv_key v)"
    | "w \<in> set (option_words (sv_cfg v))" | c where "w = client_word L c" "c \<in> set (AuthorizedClients (sv_cfg v))"
    | x where "w = port_word x" "x \<in> set m"
    using assms(4) by (auto simp: add_words_def split: if_splits)
  then show ?thesis
  proof cases
    case 3
    then show ?thesis using word_b64 [OF assms(2)] by (simp add: word_def torBlob_def)
  next
    case 4
    then show ?thesis using word_Itoa [of "int (unat (MaxStreams (sv_cfg v)))"]
      by (auto simp: option_words_def flag_words_def word_def split: if_splits)
  next
    case (5 c)
    with assms(3) word_lower_b32 [of c L] show ?thesis by (auto simp: client_word_def word_def)
  next
    case (6 x)
    obtain port address where x: "x = (port, address)" by fastforce
    with 6 assms(1) obtain a where "numericEndpoint address True = Inr a" by (auto simp: mapping_ok_def)
    from word_endpoint [OF this] word_Itoa [of "int (unat port)"] show ?thesis
      by (simp add: 6 x port_word_def word_def)
  qed (simp_all add: word_def)
qed

lemma addOnion_split:
  assumes "mapping_ok m" "sv_key v \<noteq> []" "\<forall>c \<in> set (AuthorizedClients (sv_cfg v)). \<not> allZero c \<and> c \<noteq> []"
  shows "Split (CHR '' '') (addOnion_command L generated m v) = add_words L generated m v"
    "\<not> injection (addOnion_command L generated m v)"
proof -
  have d: "distinct (map fst m)" using assms(1) by (simp add: mapping_ok_def)
  have cmd: "addOnion_command L generated m v = Join [CHR '' ''] (add_words L generated m v)"
    using addOnion_command_words [OF d] assms(3) by simp
  have w: "\<And>w. w \<in> set (add_words L generated m v) \<Longrightarrow> word w"
    using word_add_words [OF assms(1,2)] assms(3) by blast
  show "Split (CHR '' '') (addOnion_command L generated m v) = add_words L generated m v"
    unfolding cmd by (rule Split_Join) (use w word_no_space in \<open>auto simp: add_words_def\<close>)
  show "\<not> injection (addOnion_command L generated m v)"
    unfolding cmd by (rule clean_Join) (use w clean_word in \<open>auto simp: clean_rules\<close>)
qed

text \<open>
  C16. The command that gives a mapping to Tor says exactly what the service means, for a key that
  Tor has to generate and for a key that the service has. It is one line, whatever the
  configuration. Its words are the command; the request for a new key, or the key, which reads back
  as the key of the service; \<^verbatim>\<open>V3Auth\<close> exactly when there are authorized clients and
  \<^verbatim>\<open>MaxStreamsCloseCircuit\<close> exactly under that policy; the stream limit when there is one; one
  word for each authorized client, which are distinct; and one word for each mapped port
  with its local target, in ascending order of the ports and each port once.
\<close>

theorem add_onion_command:
  assumes "mapping_ok m" "length (sv_key v) = 64" "generated \<or> onion_valid (sv_key v)"
    and "clients_error L 0 [] (AuthorizedClients (sv_cfg v)) = None"
    and "\<forall>c \<in> set (AuthorizedClients (sv_cfg v)). length c = 32"
  shows "\<not> injection (addOnion_command L generated m v) \<and>
    (\<exists>key clients ports.
      Split (CHR '' '') (addOnion_command L generated m v) =
        [''ADD_ONION'', key] @ flag_words (sv_cfg v) @
        (if MaxStreams (sv_cfg v) = 0 then [] else [''MaxStreams='' @ Itoa (uint (MaxStreams (sv_cfg v)))]) @
        clients @ map port_word ports \<and>
      (if generated then key = ''NEW:ED25519-V3'' else ParseOnionServiceKey key = Inr (sv_key v)) \<and>
      clients = map (client_word L) (AuthorizedClients (sv_cfg v)) \<and> distinct clients \<and>
      set ports = set m \<and> sorted_wrt (<) (map (unat \<circ> fst) ports))"
proof -
  let ?key = "if generated then ''NEW:ED25519-V3'' else ''ED25519-V3:'' @ torBlob (sv_key v)"
  let ?ms = "if MaxStreams (sv_cfg v) = 0 then [] else [''MaxStreams='' @ Itoa (uint (MaxStreams (sv_cfg v)))]"
  have c: "\<forall>c \<in> set (AuthorizedClients (sv_cfg v)). \<not> allZero c \<and> c \<noteq> []"
    "distinct (map (client_word L) (AuthorizedClients (sv_cfg v)))"
    using clients_ok [OF assms(4)] assms(5) by auto
  have "sv_key v \<noteq> []" using assms(2) by auto
  note split = addOnion_split [OF assms(1) this c(1), of L generated]
  have "sorted (map (unat \<circ> fst) (by_port m))" using sorted_sort_key [of "\<lambda>(port, _). unat port" m]
    by (simp add: comp_def case_prod_unfold)
  moreover have "distinct (map (unat \<circ> fst) (by_port m))"
    using assms(1) by (fastforce simp: mapping_ok_def distinct_map inj_on_def word_unat_eq_iff [symmetric])
  ultimately have "sorted_wrt (<) (map (unat \<circ> fst) (by_port m))" by (simp add: strict_sorted_iff)
  moreover have "if generated then ?key = ''NEW:ED25519-V3'' else ParseOnionServiceKey ?key = Inr (sv_key v)"
    using ParseOnionServiceKey_text [OF assms(2)] assms(3) by (auto simp: torBlob_def)
  moreover have "option_words (sv_cfg v) = flag_words (sv_cfg v) @ ?ms" by (simp add: option_words_def word_neq_0_conv)
  then have "add_words L generated m v = [''ADD_ONION'', ?key] @ flag_words (sv_cfg v) @ ?ms @
      map (client_word L) (AuthorizedClients (sv_cfg v)) @ map port_word (by_port m)"
    by (simp add: add_words_def)
  then have "Split (CHR '' '') (addOnion_command L generated m v) = [''ADD_ONION'', ?key] @ flag_words (sv_cfg v) @ ?ms @
      map (client_word L) (AuthorizedClients (sv_cfg v)) @ map port_word (by_port m)"
    using split(1) by (rule trans [rotated])
  ultimately show ?thesis using split(2) c(2) set_sort [of "\<lambda>(port, _). unat port" m]
    by (intro conjI exI [of _ ?key] exI [of _ "map (client_word L) (AuthorizedClients (sv_cfg v))"] exI [of _ "by_port m"]) (rule refl | assumption)+
qed

definition sample_protected :: service where
  "sample_protected = (new_service 7 \<lparr>Ports = [443, 80], MaxStreams = 5, MaxStreamsPolicy = CloseRendezvousCircuit,
     KeyName = [], AuthorizedClients = [replicate 31 0 @ [1]]\<rparr>)\<lparr>sv_key := sample_key\<rparr>"

theorem add_onion_command_witness:
  "\<exists>key clients ports.
     Split (CHR '' '') (addOnion_command (\<lambda>n. n) False [(443, ''127.0.0.1:9''), (80, ''127.0.0.1:8'')] sample_protected) =
       [''ADD_ONION'', key, ''Flags=V3Auth,MaxStreamsCloseCircuit'', ''MaxStreams=5''] @ clients @ map port_word ports \<and>
     ParseOnionServiceKey key = Inr sample_key \<and> length clients = 1 \<and>
     set ports = {(443, ''127.0.0.1:9''), (80, ''127.0.0.1:8'')} \<and> sorted_wrt (<) (map (unat \<circ> fst) ports)"
proof -
  let ?m = "[(443, ''127.0.0.1:9''), (80, ''127.0.0.1:8'')]"
  have "\<not> allZero (replicate 31 0 @ [1])" by (simp add: allZero_iff numeral_eq_Suc)
  then have cl: "clients_error (\<lambda>n. n) 0 [] (AuthorizedClients (sv_cfg sample_protected)) = None"
    by (simp add: sample_protected_def new_service_def public_MarshalText_def)
  have m: "mapping_ok ?m" by (simp add: mapping_ok_def sample_ports)
  have k: "length (sv_key sample_protected) = 64" "False \<or> onion_valid (sv_key sample_protected)"
    "\<forall>c \<in> set (AuthorizedClients (sv_cfg sample_protected)). length c = 32"
    by (simp_all add: sample_protected_def sample_key_def onion_valid_def nth_append new_service_def)
  have w: "flag_words (sv_cfg sample_protected) = [''Flags=V3Auth,MaxStreamsCloseCircuit'']"
    "MaxStreams (sv_cfg sample_protected) = 5" "sv_key sample_protected = sample_key"
    "length (AuthorizedClients (sv_cfg sample_protected)) = 1"
    by (simp_all add: flag_words_def sample_protected_def new_service_def)
  have i: "Itoa (uint (5 :: u16)) = ''5''" by code_simp
  from add_onion_command [OF m k(1,2) cl k(3)] obtain key clients ports where
    "Split (CHR '' '') (addOnion_command (\<lambda>n. n) False ?m sample_protected) =
      [''ADD_ONION'', key] @ [''Flags=V3Auth,MaxStreamsCloseCircuit''] @ [''MaxStreams='' @ ''5''] @ clients @ map port_word ports"
    "ParseOnionServiceKey key = Inr sample_key" "length clients = 1" "set ports = set ?m"
    "sorted_wrt (<) (map (unat \<circ> fst) ports)"
    unfolding w i using w(4) by (auto split: if_splits)
  then show ?thesis by (intro exI [of _ key] exI [of _ clients] exI [of _ ports]) simp
qed

end
