(* ===== verification/Tor_Service_Proofs.thy ===== *)
theory Tor_Service_Proofs
  imports Tor_Onion_Command Tor_Network_Proofs
begin

text \<open>
  Onion services: the invariant of a service, the agreement of the service with the mapping
  that Tor holds, what a failed command does, and what \<^verbatim>\<open>Listen\<close> and \<^verbatim>\<open>RemovePort\<close> change.
\<close>

section \<open>The mapping as a function\<close>

lemma map_of_current:
  "distinct (map fst (sv_ports v)) \<Longrightarrow>
    map_of (currentMappingsLocked v) p = Option.bind (map_of (sv_ports v) p) sp_listener"
proof -
  have "distinct (map fst ps) \<Longrightarrow> map_of (cat_options (map (\<lambda>(port, b). map_option (Pair port) (sp_listener b)) ps)) p =
      Option.bind (map_of ps p) sp_listener" for ps
  proof (induction ps)
    case (Cons x ps)
    obtain q b where x: "x = (q, b)" by fastforce
    with Cons.prems have "q \<notin> fst ` set ps" by simp
    then have "map_of ps q = None" by (simp add: map_of_eq_None_iff)
    with Cons show ?case by (cases "sp_listener b") (auto simp: x)
  qed simp
  then show "distinct (map fst (sv_ports v)) \<Longrightarrow> ?thesis" by (simp add: currentMappingsLocked_def)
qed

lemma current_sublist:
  "set (map fst (cat_options (map (\<lambda>(port, b). map_option (Pair port) (sp_listener b)) ps))) \<subseteq> set (map fst ps)"
  by (force simp: image_iff map_option_case split: option.splits)

lemma distinct_current: "distinct (map fst (sv_ports v)) \<Longrightarrow> distinct (map fst (currentMappingsLocked v))"
proof -
  have "distinct (map fst ps) \<Longrightarrow>
      distinct (map fst (cat_options (map (\<lambda>(port, b). map_option (Pair port) (sp_listener b)) ps)))" for ps
  proof (induction ps)
    case (Cons x ps)
    obtain q b where x: "x = (q, b)" by fastforce
    with Cons.prems have q: "q \<notin> set (map fst ps)" by simp
    show ?case using Cons current_sublist [of ps] q by (cases "sp_listener b") (auto simp: x)
  qed simp
  then show "distinct (map fst (sv_ports v)) \<Longrightarrow> ?thesis" by (simp add: currentMappingsLocked_def)
qed

text \<open>The command depends on the mapping only as a function.\<close>

lemma port_words_cong:
  assumes "distinct (map fst m)" "distinct (map fst n)" "map_of m = map_of n"
  shows "port_words m = port_words n"
proof -
  let ?f = "\<lambda>(port, _). unat port"
  have inj: "distinct (map fst x) \<Longrightarrow> distinct (map ?f x)" for x :: mappings
    by (fastforce simp: distinct_map inj_on_def word_unat_eq_iff [symmetric])
  have "set m = set n" using assms by (simp add: map_of_inject_set)
  then have "set (map ?f m) = set (map ?f n)" by simp
  then have "sort (map ?f m) = sort (map ?f n)"
    using inj [OF assms(1)] inj [OF assms(2)] by (intro sorted_distinct_set_unique) simp_all
  then show ?thesis unfolding port_words_def assms(3) by simp
qed

lemma current_Nil_iff:
  "distinct (map fst (sv_ports v)) \<Longrightarrow> currentMappingsLocked v = [] \<longleftrightarrow> map_of (currentMappingsLocked v) = Map.empty"
  by simp

section \<open>The invariant of a service\<close>

definition port_ok :: "service_port \<Rightarrow> bool" where
  "port_ok b \<longleftrightarrow> (sp_listener b = None \<longleftrightarrow> sp_resource b = None) \<and> (sp_claimed b \<longrightarrow> sp_listener b \<noteq> None) \<and>
    (\<forall>address. sp_listener b = Some address \<longrightarrow> (\<exists>a. numericEndpoint address True = Inr a))"

definition port_resource :: "service \<Rightarrow> u16 \<Rightarrow> nat option" where
  "port_resource v p = Option.bind (map_of (sv_ports v) p) sp_resource"

text \<open>
  Ports are reserved once and are not zero; a port has a backing listener or has not; the
  listeners and the accepted connections are different resources that an open scope holds;
  the subscribers can be told; the key has its length.
\<close>

definition service_ok :: "service \<Rightarrow> bool" where
  "service_ok v \<longleftrightarrow> scope_ok (sv_scope v) \<and> distinct (map fst (sv_ports v)) \<and> map_of (sv_ports v) 0 = None \<and>
    (\<forall>p b. map_of (sv_ports v) p = Some b \<longrightarrow> port_ok b) \<and>
    (\<forall>p r. port_resource v p = Some r \<longrightarrow>
      key_closer < r \<and> r \<notin> set (sv_accepted v) \<and> (\<not> sc_closed (sv_scope v) \<longrightarrow> r \<in> sc_items (sv_scope v)) \<and>
      sc_phase (sv_scope v) r \<noteq> RNone \<and> (\<forall>q. port_resource v q = Some r \<longrightarrow> q = p)) \<and>
    (\<forall>c \<in> set (sv_accepted v). key_closer < c \<and> c \<in> sc_items (sv_scope v)) \<and> distinct (sv_accepted v) \<and>
    broker_inv (sv_events v) \<and> length (sv_key v) = onionServiceKeySize"

text \<open>A service in use, in an open driver.\<close>

definition live_world :: "'t world \<Rightarrow> bool" where
  "live_world w \<longleftrightarrow> service_ok (w_sv w) \<and> \<not> d_closed (sy_d (w_sys w)) \<and> \<not> d_done (sy_d (w_sys w)) \<and>
    registered w \<and> {events_closer, key_closer} \<subseteq> sc_items (sv_scope (w_sv w)) \<and> \<not> sv_closing (w_sv w) \<and>
    validServiceID (sv_id (w_sv w))"

lemma service_okD:
  assumes "service_ok v"
  shows "scope_ok (sv_scope v)" "distinct (map fst (sv_ports v))" "map_of (sv_ports v) p = Some b \<Longrightarrow> port_ok b"
    "broker_inv (sv_events v)"
  using assms by (auto simp: service_ok_def)

lemma live_world_open:
  assumes "live_world w"
  shows "\<not> sc_closed (sv_scope (w_sv w))" "scope_ctx_err (sv_scope (w_sv w)) = None" "sv_id (w_sv w) \<noteq> []"
  using assms by (auto simp: live_world_def service_ok_def scope_ok_def scope_ctx_err_def validServiceID_def)

lemma mapping_ok_current: "service_ok v \<Longrightarrow> mapping_ok (currentMappingsLocked v)"
proof -
  assume ok: "service_ok v"
  have d: "distinct (map fst (currentMappingsLocked v))" by (rule distinct_current [OF service_okD(2) [OF ok]])
  have "\<exists>x. numericEndpoint a True = Inr x" if "(p, a) \<in> set (currentMappingsLocked v)" for p a
  proof -
    have "Option.bind (map_of (sv_ports v) p) sp_listener = Some a"
      using map_of_current [OF service_okD(2) [OF ok], of p] map_of_is_SomeI [OF d that] by simp
    then obtain b where "map_of (sv_ports v) p = Some b" "sp_listener b = Some a" by (auto simp: bind_eq_Some_conv)
    with service_okD(3) [OF ok] show ?thesis by (auto simp: port_ok_def)
  qed
  with d show ?thesis by (auto simp: mapping_ok_def)
qed

text \<open>Changes that do not touch the invariant.\<close>

lemma service_ok_flags [simp]:
  "service_ok (v\<lparr>sv_active := a\<rparr>) = service_ok v" "service_ok (v\<lparr>sv_closing := a\<rparr>) = service_ok v"
  "service_ok (v\<lparr>sv_stopping := a\<rparr>) = service_ok v" "service_ok (v\<lparr>sv_publication := p\<rparr>) = service_ok v"
  "service_ok (v\<lparr>sv_accepting := n\<rparr>) = service_ok v" "service_ok (v\<lparr>sv_dropped := l\<rparr>) = service_ok v"
  "service_ok (v\<lparr>sv_id := i\<rparr>) = service_ok v" "service_ok (v\<lparr>sv_err := err, sv_done := a\<rparr>) = service_ok v"
  by (simp_all add: service_ok_def port_resource_def)

lemma service_ok_events:
  "service_ok v \<Longrightarrow> broker_inv b \<Longrightarrow> service_ok (v\<lparr>sv_events := b\<rparr>)"
  "service_ok v \<Longrightarrow> broker_inv b \<Longrightarrow> service_ok (v\<lparr>sv_publication := ev, sv_events := b\<rparr>)"
  by (simp_all add: service_ok_def port_resource_def)

lemma handlePublication_ok [inv_intros]: "service_ok v \<Longrightarrow> service_ok (handlePublication ev v)"
proof -
  assume ok: "service_ok v"
  obtain b where b: "publish ev (sv_events v) = Some b" "broker_inv b"
    using publish_not_None [OF service_okD(4) [OF ok]] broker_inv_publish [OF service_okD(4) [OF ok]] by blast
  show ?thesis using service_ok_events(2) [OF ok b(2)] ok by (simp add: handlePublication_def b)
qed

lemma handlePublication_frame [simp]:
  "sv_id (handlePublication ev v) = sv_id v" "sv_key (handlePublication ev v) = sv_key v"
  "sv_cfg (handlePublication ev v) = sv_cfg v" "sv_scope (handlePublication ev v) = sv_scope v"
  "sv_ports (handlePublication ev v) = sv_ports v" "sv_registration (handlePublication ev v) = sv_registration v"
  "sv_closing (handlePublication ev v) = sv_closing v" "sv_active (handlePublication ev v) = sv_active v"
  "sv_accepted (handlePublication ev v) = sv_accepted v"
  by (simp_all add: handlePublication_def)

section \<open>Commands and the driver\<close>

text \<open>In an open driver a command is answered by Tor, and changes nothing else.\<close>

lemma sv_command_open:
  assumes "\<not> d_closed (sy_d (w_sys w))" "ctl cmd (sy_tor (w_sys w)) = (r, t)"
  shows "sv_command ctl cmd w =
    (r, w\<lparr>w_sys := (w_sys w)\<lparr>sy_tor := t, sy_effects := sy_effects (w_sys w) @ [Command cmd]\<rparr>\<rparr>)"
  using assms by (simp add: sv_command_def command_def control_Do_def effect_def)

text \<open>Closing the driver from a call that holds the mutex does not return.\<close>

lemma live_self_wait: "live_world w \<Longrightarrow> self_wait w"
  by (simp add: live_world_def self_wait_def)

lemma self_wait_hangs: "self_wait w \<Longrightarrow> fail_closed ctl env err w = None"
  by (simp add: fail_closed_def close_driver_locked_def)

text \<open>What commands and publication change: the state of Tor, the effects, the descriptors of
  the driver, and the events and the activity of the service.\<close>

definition alike :: "'t world \<Rightarrow> 't world \<Rightarrow> bool" where
  "alike w w' \<longleftrightarrow> (\<exists>ds. sy_d (w_sys w') = (sy_d (w_sys w))\<lparr>d_descriptors := ds\<rparr>) \<and>
    (\<exists>a p ev. w_sv w' = (w_sv w)\<lparr>sv_active := a, sv_publication := p, sv_events := ev\<rparr> \<and>
      (broker_inv (sv_events (w_sv w)) \<longrightarrow> broker_inv ev))"

lemma alike_sel:
  assumes "alike w w'"
  shows "sv_id (w_sv w') = sv_id (w_sv w)" "sv_key (w_sv w') = sv_key (w_sv w)" "sv_cfg (w_sv w') = sv_cfg (w_sv w)"
    "sv_scope (w_sv w') = sv_scope (w_sv w)" "sv_ports (w_sv w') = sv_ports (w_sv w)"
    "sv_closing (w_sv w') = sv_closing (w_sv w)" "sv_accepted (w_sv w') = sv_accepted (w_sv w)"
    "sv_registration (w_sv w') = sv_registration (w_sv w)" "d_closed (sy_d (w_sys w')) = d_closed (sy_d (w_sys w))"
    "d_done (sy_d (w_sys w')) = d_done (sy_d (w_sys w))" "d_resources (sy_d (w_sys w')) = d_resources (sy_d (w_sys w))"
    "currentMappingsLocked (w_sv w') = currentMappingsLocked (w_sv w)" "del_command (w_sv w') = del_command (w_sv w)"
    "addOnion_command L g m (w_sv w') = addOnion_command L g m (w_sv w)" "self_wait w' = self_wait w"
  using assms by (auto simp: alike_def currentMappingsLocked_def del_command_def addOnion_command_def self_wait_def registered_def)

lemma alikeI:
  assumes "sy_d (w_sys w') = (sy_d (w_sys w))\<lparr>d_descriptors := ds\<rparr>"
    "w_sv w' = (w_sv w)\<lparr>sv_active := a, sv_publication := p, sv_events := ev\<rparr>"
    "broker_inv (sv_events (w_sv w)) \<Longrightarrow> broker_inv ev"
  shows "alike w w'"
  unfolding alike_def using assms by blast

lemma alike_refl: "alike w w"
  by (rule alikeI [where ds = "d_descriptors (sy_d (w_sys w))" and a = "sv_active (w_sv w)" and
        p = "sv_publication (w_sv w)" and ev = "sv_events (w_sv w)"]) simp_all

lemma alike_trans: "alike w w1 \<Longrightarrow> alike w1 w2 \<Longrightarrow> alike w w2"
  by (fastforce simp: alike_def)

lemma alike_ok: "alike w w' \<Longrightarrow> service_ok (w_sv w) \<Longrightarrow> service_ok (w_sv w')"
  by (auto simp: alike_def service_ok_def port_resource_def)

lemma alike_live: "alike w w' \<Longrightarrow> live_world w \<Longrightarrow> live_world w'"
  using alike_ok [of w w'] by (simp add: live_world_def registered_def alike_sel [of w w'])

lemma alike_command: "\<lbrakk>w' = w\<lparr>w_sys := (w_sys w)\<lparr>sy_tor := t, sy_effects := es\<rparr>\<rparr>\<rbrakk> \<Longrightarrow> alike w w'"
  using alike_refl [of w] by (simp add: alike_def)

lemma alike_active: "alike w (on_service (\<lambda>v. v\<lparr>sv_active := a\<rparr>) w)"
  by (rule alikeI [where ds = "d_descriptors (sy_d (w_sys w))" and a = a and
        p = "sv_publication (w_sv w)" and ev = "sv_events (w_sv w)"]) (simp_all add: on_service_def)

lemma alike_reset: "alike w (resetPublication w)"
proof -
  let ?pending = "PublicationEvent PublicationPending []"
  let ?keep = "pub_state (sv_publication (w_sv w)) = PublicationPublished"
  let ?b = "case publish ?pending (sv_events (w_sv w)) of None \<Rightarrow> sv_events (w_sv w) | Some b \<Rightarrow> b"
  have "broker_inv (sv_events (w_sv w)) \<Longrightarrow> broker_inv ?b"
    using broker_inv_publish by (auto split: option.splits)
  then show ?thesis
    by (intro alikeI [where ds = "AList.delete (sv_id (w_sv w)) (d_descriptors (sy_d (w_sys w)))" and
          a = "sv_active (w_sv w)" and p = "if ?keep then sv_publication (w_sv w) else ?pending" and
          ev = "if ?keep then sv_events (w_sv w) else ?b"])
       (simp_all add: resetPublication_def on_service_def on_sys_def on_driver_def handlePublication_def)
qed

lemma reset_tor [simp]: "sy_tor (w_sys (resetPublication w)) = sy_tor (w_sys w)"
  by (simp add: resetPublication_def on_service_def on_sys_def on_driver_def)

lemma reset_active [simp]: "sv_active (w_sv (resetPublication w)) = sv_active (w_sv w)"
  by (simp add: resetPublication_def on_service_def on_sys_def)

text \<open>Giving a mapping to Tor.\<close>

lemma applyAddReply_same:
  assumes "applyAddReply r False i v = (err, v')" "i = sv_id v" "i \<noteq> []"
  shows "v' = v" "err = Some e \<Longrightarrow> errors_as_control e = None"
  using assms by (auto simp: applyAddReply_def split: option.splits if_splits)

lemma add_mappings_spec:
  assumes "add_mappings L ctl m w = (err, w')" "\<not> d_closed (sy_d (w_sys w))" "sv_id (w_sv w) \<noteq> []"
  obtains r t where "ctl (addOnion_command L False m (w_sv w)) (sy_tor (w_sys w)) = (r, t)"
    "sy_tor (w_sys w') = t" "alike w w'" "sv_active (w_sv w') = (sv_active (w_sv w) \<or> err = None)"
    "err = None \<longrightarrow> (\<exists>reply. r = Inr reply)" "\<forall>e. err = Some e \<longrightarrow> r = Inl e \<or> errors_as_control e = None"
proof -
  let ?cmd = "addOnion_command L False m (w_sv w)"
  obtain r t where c: "ctl ?cmd (sy_tor (w_sys w)) = (r, t)" by fastforce
  let ?w1 = "w\<lparr>w_sys := (w_sys w)\<lparr>sy_tor := t, sy_effects := sy_effects (w_sys w) @ [Command ?cmd]\<rparr>\<rparr>"
  have a: "addOnion L ctl False m w = (r, ?w1)" using sv_command_open [where ctl = ctl, OF assms(2) c] by (simp add: addOnion_def)
  have k: "alike w ?w1" by (rule alike_command) simp
  show ?thesis
  proof (cases r)
    case (Inl e)
    then have "err = Some e" "w' = ?w1" using assms(1) a by (simp_all add: add_mappings_def)
    with c k Inl show ?thesis by (intro that) auto
  next
    case (Inr reply)
    obtain e v where v: "applyAddReply reply False (sv_id (w_sv w)) (w_sv w) = (e, v)" by fastforce
    note same = applyAddReply_same [OF v refl assms(3)]
    have w': "err = e" "w' = (if e = None then ?w1\<lparr>w_sv := (w_sv w)\<lparr>sv_active := True\<rparr>\<rparr> else ?w1)"
      using assms(1) a Inr v same(1) by (auto simp: add_mappings_def split: option.splits)
    have "alike w (?w1\<lparr>w_sv := (w_sv w)\<lparr>sv_active := True\<rparr>\<rparr>)"
      using alike_trans [OF k alike_active [of ?w1 True]] by (simp add: on_service_def)
    with c k Inr w' same(2) show ?thesis by (intro that) auto
  qed
qed

section \<open>Agreement with Tor\<close>

text \<open>
  What is used of Tor, for one service: \<open>view\<close> reads the ports that Tor serves under the key of
  the service from the state of Tor. An accepted \<^verbatim>\<open>ADD_ONION\<close> serves exactly the ports it names,
  a rejected one changes nothing, and an accepted \<^verbatim>\<open>DEL_ONION\<close> ends the service.
\<close>

definition onion_daemon :: "casemap \<Rightarrow> 't ctl \<Rightarrow> service \<Rightarrow> ('t \<Rightarrow> string option) \<Rightarrow> bool" where
  "onion_daemon L ctl v view \<longleftrightarrow>
    (\<forall>m t r t'. mapping_ok m \<longrightarrow> m \<noteq> [] \<longrightarrow> ctl (addOnion_command L False m v) t = (Inr r, t') \<longrightarrow>
       view t' = Some (port_words m)) \<and>
    (\<forall>m t e t'. mapping_ok m \<longrightarrow> ctl (addOnion_command L False m v) t = (Inl e, t') \<longrightarrow>
       errors_as_control e \<noteq> None \<longrightarrow> view t' = view t) \<and>
    (\<forall>t r t'. ctl (del_command v) t = (Inr r, t') \<longrightarrow> view t' = None)"

lemma daemonD:
  assumes "onion_daemon L ctl v view"
  shows "ctl (addOnion_command L False m v) t = (Inr r, t') \<Longrightarrow> mapping_ok m \<Longrightarrow> m \<noteq> [] \<Longrightarrow> view t' = Some (port_words m)"
    "ctl (addOnion_command L False m v) t = (Inl e, t') \<Longrightarrow> mapping_ok m \<Longrightarrow> errors_as_control e \<noteq> None \<Longrightarrow> view t' = view t"
    "ctl (del_command v) t = (Inr r, t') \<Longrightarrow> view t' = None"
  using assms unfolding onion_daemon_def by blast+

definition served :: "mappings \<Rightarrow> string option" where
  "served m = (if m = [] then None else Some (port_words m))"

text \<open>Tor serves what the service has, and the service knows whether Tor serves it.\<close>

definition agrees :: "('t \<Rightarrow> string option) \<Rightarrow> 't world \<Rightarrow> bool" where
  "agrees view w \<longleftrightarrow> view (sy_tor (w_sys w)) = served (currentMappingsLocked (w_sv w)) \<and>
    (sv_active (w_sv w) \<longleftrightarrow> currentMappingsLocked (w_sv w) \<noteq> [])"

lemma daemon_alike: "alike w w' \<Longrightarrow> onion_daemon L ctl (w_sv w') view = onion_daemon L ctl (w_sv w) view"
  unfolding onion_daemon_def using alike_sel [of w w'] by simp

lemma fail_closed_live: "alike w w' \<Longrightarrow> live_world w \<Longrightarrow> fail_closed ctl env err w' = None"
  using self_wait_hangs live_self_wait alike_live by blast

lemma install_spec:
  assumes "live_world w" "onion_daemon L ctl (w_sv w) view" "\<not> sv_active (w_sv w)" "view (sy_tor (w_sys w)) = None"
    and "mapping_ok desired" "desired \<noteq> []" "mapping_ok old" "wasActive \<longleftrightarrow> old \<noteq> []"
    and "install_mappings L ctl env wasActive old desired w = Some (err, w')"
  shows "alike w w' \<and> view (sy_tor (w_sys w')) = served (if err = None then desired else old) \<and>
    (sv_active (w_sv w') \<longleftrightarrow> (if err = None then desired else old) \<noteq> [])"
proof -
  note dm = daemonD [OF assms(2)]
  have o: "\<not> d_closed (sy_d (w_sys w))" "sv_id (w_sv w) \<noteq> []"
    using assms(1) live_world_open(3) [OF assms(1)] by (simp_all add: live_world_def)
  obtain e1 w1 where a1: "add_mappings L ctl desired w = (e1, w1)" by fastforce
  obtain r t where add: "ctl (addOnion_command L False desired (w_sv w)) (sy_tor (w_sys w)) = (r, t)"
      "sy_tor (w_sys w1) = t" "alike w w1" "sv_active (w_sv w1) = (sv_active (w_sv w) \<or> e1 = None)"
      "e1 = None \<longrightarrow> (\<exists>reply. r = Inr reply)" "\<forall>e. e1 = Some e \<longrightarrow> r = Inl e \<or> errors_as_control e = None"
    by (rule add_mappings_spec [OF a1 o])
  have act1: "sv_active (w_sv w1) = (e1 = None)" using add(4) assms(3) by simp
  show ?thesis
  proof (cases e1)
    case None
    then have "err = None" "w' = w1" using assms(9) a1 by (simp_all add: install_mappings_def)
    moreover obtain reply where "r = Inr reply" using add(5) None by blast
    ultimately show ?thesis using dm(1) [OF add(1) [unfolded \<open>r = Inr reply\<close>] assms(5,6)] add(2,3) act1 None assms(6) by (simp add: served_def)
  next
    case (Some e)
    have ctl_err: "errors_as_control e \<noteq> None"
    proof
      assume "errors_as_control e = None"
      then show False using assms(9) a1 Some fail_closed_live [OF add(3) assms(1), of ctl env "Some e"]
        by (simp add: install_mappings_def)
    qed
    have r: "r = Inl e" using add(6) Some ctl_err by simp
    have v1: "view (sy_tor (w_sys w1)) = None" using dm(2) [OF add(1) [unfolded r] assms(5) ctl_err] assms(4) add(2) by simp
    show ?thesis
    proof (cases wasActive)
      case False
      then have "err = Some e" "w' = w1" using assms(9) a1 Some ctl_err by (auto simp: install_mappings_def)
      with v1 add(3) act1 False assms(8) Some show ?thesis by (simp add: served_def)
    next
      case True
      have o1: "\<not> d_closed (sy_d (w_sys w1))" "sv_id (w_sv w1) \<noteq> []" using o alike_sel [OF add(3)] by simp_all
      obtain e2 w2 where a2: "add_mappings L ctl old w1 = (e2, w2)" by fastforce
      obtain r2 t2 where add2: "ctl (addOnion_command L False old (w_sv w1)) (sy_tor (w_sys w1)) = (r2, t2)"
          "sy_tor (w_sys w2) = t2" "alike w1 w2" "sv_active (w_sv w2) = (sv_active (w_sv w1) \<or> e2 = None)"
          "e2 = None \<longrightarrow> (\<exists>reply. r2 = Inr reply)" "\<forall>e. e2 = Some e \<longrightarrow> r2 = Inl e \<or> errors_as_control e = None"
        by (rule add_mappings_spec [OF a2 o1])
      have k: "alike w w2" by (rule alike_trans [OF add(3) add2(3)])
      have i2: "(case e2 of None \<Rightarrow> Some (errors_join [Some e, None], w2)
          | Some e2 \<Rightarrow> fail_closed ctl env (errors_join [Some e, Some e2]) w2) = Some (err, w')"
        using assms(9) ctl_err True by (simp only: install_mappings_def a1 a2 Some prod.case option.case if_False if_True not_True_eq_False)
      then have ok2: "e2 = None" "err = errors_join [Some e, None]" "w' = w2"
        using fail_closed_live [OF k assms(1)] by (cases e2; simp)+
      obtain reply where "r2 = Inr reply" using add2(5) ok2(1) by blast
      then have c2: "ctl (addOnion_command L False old (w_sv w)) (sy_tor (w_sys w1)) = (Inr reply, t2)"
        using add2(1) alike_sel(14) [OF add(3)] by simp
      have "view (sy_tor (w_sys w2)) = Some (port_words old)"
        using dm(1) [OF c2 assms(7)] assms(8) True add2(2) by simp
      with k ok2 add2(4) True assms(8) show ?thesis by (simp add: served_def)
    qed
  qed
qed

lemma remap_spec:
  assumes "live_world w" "onion_daemon L ctl (w_sv w) view" "\<not> sv_active (w_sv w)" "view (sy_tor (w_sys w)) = None"
    and "mapping_ok desired" "mapping_ok old" "wasActive \<longleftrightarrow> old \<noteq> []"
    and "remap L ctl env wasActive old desired w = Some (err, w')"
  shows "alike w w' \<and> view (sy_tor (w_sys w')) = served (if err = None then desired else old) \<and>
    (sv_active (w_sv w') \<longleftrightarrow> (if err = None then desired else old) \<noteq> [])"
proof (cases "desired = []")
  case True
  then have "err = None" "w' = resetPublication w" using assms(8) by (simp_all add: remap_def)
  with True alike_reset [of w] assms(3,4) show ?thesis by (simp add: served_def)
next
  case False
  have i: "install_mappings L ctl env wasActive old desired (resetPublication w) = Some (err, w')"
    using assms(8) False by (simp add: remap_def)
  have d: "onion_daemon L ctl (w_sv (resetPublication w)) view" using daemon_alike [OF alike_reset] assms(2) by blast
  from install_spec [OF alike_live [OF alike_reset assms(1)] d _ _ assms(5) False assms(6,7) i] assms(3,4)
  show ?thesis by (auto intro: alike_trans [OF alike_reset])
qed

lemma replaceMappings_spec:
  assumes "live_world w" "onion_daemon L ctl (w_sv w) view" "agrees view w" "mapping_ok desired"
    and "replaceMappingsLocked L ctl env desired w = Some (err, w')"
  shows "alike w w' \<and> view (sy_tor (w_sys w')) = served (if err = None then desired else currentMappingsLocked (w_sv w)) \<and>
    (sv_active (w_sv w') \<longleftrightarrow> (if err = None then desired else currentMappingsLocked (w_sv w)) \<noteq> [])"
proof -
  let ?old = "currentMappingsLocked (w_sv w)"
  have ok: "mapping_ok ?old" using assms(1) by (simp add: mapping_ok_current live_world_def)
  show ?thesis
  proof (cases "sv_active (w_sv w)")
    case False
    then have old: "?old = []" "view (sy_tor (w_sys w)) = None" using assms(3) by (simp_all add: agrees_def served_def)
    have "remap L ctl env False ?old desired w = Some (err, w')"
      using assms(5) False by (simp add: replaceMappingsLocked_def)
    from remap_spec [OF assms(1,2) False old(2) assms(4) ok _ this] old(1) show ?thesis by simp
  next
    case True
    then have old: "True \<longleftrightarrow> ?old \<noteq> []" using assms(3) by (simp add: agrees_def)
    obtain r t where c: "ctl (del_command (w_sv w)) (sy_tor (w_sys w)) = (r, t)" by fastforce
    let ?w1 = "w\<lparr>w_sys := (w_sys w)\<lparr>sy_tor := t, sy_effects := sy_effects (w_sys w) @ [Command (del_command (w_sv w))]\<rparr>\<rparr>"
    let ?w2 = "on_service (\<lambda>v. v\<lparr>sv_active := False\<rparr>) ?w1"
    have cmd: "sv_command ctl (del_command (w_sv w)) w = (r, ?w1)"
      using assms(1) c by (intro sv_command_open) (simp_all add: live_world_def)
    have k1: "alike w ?w1" by (rule alike_command) simp
    have k2: "alike w ?w2" by (rule alike_trans [OF k1 alike_active])
    have r: "\<exists>reply. r = Inr reply"
      using assms(5) True cmd fail_closed_live [OF k1 assms(1)] by (cases r) (simp_all add: replaceMappingsLocked_def)
    then have v: "view (sy_tor (w_sys ?w2)) = None"
      using daemonD(3) [OF assms(2)] c by (auto simp: on_service_def)
    have "remap L ctl env True ?old desired ?w2 = Some (err, w')"
      using assms(5) True cmd r by (auto simp: replaceMappingsLocked_def)
    moreover have "onion_daemon L ctl (w_sv ?w2) view" using daemon_alike [OF k2] assms(2) by blast
    moreover have "\<not> sv_active (w_sv ?w2)" by (simp add: on_service_def)
    ultimately show ?thesis
      using remap_spec [where view = view, OF alike_live [OF k2 assms(1)] _ _ v assms(4) ok old] alike_trans [OF k2] by blast
  qed
qed

section \<open>Ports\<close>

lemma served_cong:
  assumes "distinct (map fst m)" "distinct (map fst n)" "map_of m = map_of n"
  shows "served m = served n" "m = [] \<longleftrightarrow> n = []"
proof -
  show e: "m = [] \<longleftrightarrow> n = []" using assms(3) by (metis map_of_eq_empty_iff)
  show "served m = served n" using port_words_cong [OF assms] e by (simp add: served_def)
qed

lemma set_port_sel [simp]:
  "sv_scope (set_port p b v) = sv_scope v" "sv_accepted (set_port p b v) = sv_accepted v"
  "sv_events (set_port p b v) = sv_events v" "sv_key (set_port p b v) = sv_key v" "sv_cfg (set_port p b v) = sv_cfg v"
  "sv_id (set_port p b v) = sv_id v" "sv_closing (set_port p b v) = sv_closing v"
  "sv_registration (set_port p b v) = sv_registration v" "sv_active (set_port p b v) = sv_active v"
  "map_of (sv_ports (set_port p b v)) = (map_of (sv_ports v))(p \<mapsto> b)"
  by (simp_all add: set_port_def update_conv')

lemma set_port_distinct: "distinct (map fst (sv_ports v)) \<Longrightarrow> distinct (map fst (sv_ports (set_port p b v)))"
  by (simp add: set_port_def distinct_update)

lemma current_set_port:
  "distinct (map fst (sv_ports v)) \<Longrightarrow>
    map_of (currentMappingsLocked (set_port p b v)) = (map_of (currentMappingsLocked v))(p := sp_listener b)"
  using map_of_current [of v] map_of_current [OF set_port_distinct, of v p b] by (auto simp: fun_eq_iff)

lemma commands_scope [simp]:
  "currentMappingsLocked (v\<lparr>sv_scope := sc\<rparr>) = currentMappingsLocked v"
  "addOnion_command L g m (v\<lparr>sv_scope := sc\<rparr>) = addOnion_command L g m v" "del_command (v\<lparr>sv_scope := sc\<rparr>) = del_command v"
  by (simp_all add: currentMappingsLocked_def addOnion_command_def del_command_def)

text \<open>A resource that a port can take.\<close>

definition free_for :: "service \<Rightarrow> u16 \<Rightarrow> nat \<Rightarrow> bool" where
  "free_for v p r \<longleftrightarrow> key_closer < r \<and> r \<notin> set (sv_accepted v) \<and> r \<in> sc_items (sv_scope v) \<and>
    (\<forall>q. port_resource v q = Some r \<longrightarrow> q = p)"

lemma service_ok_set_port [inv_intros]:
  assumes "service_ok v" "p \<noteq> 0" "port_ok b" "\<forall>r. sp_resource b = Some r \<longrightarrow> free_for v p r"
  shows "service_ok (set_port p b v)"
proof -
  have pr: "port_resource (set_port p b v) q = (if q = p then sp_resource b else port_resource v q)" for q
    by (simp add: port_resource_def)
  have "scope_ok (sv_scope v)" by (rule service_okD(1) [OF assms(1)])
  then have "r \<in> sc_items (sv_scope v) \<Longrightarrow> sc_phase (sv_scope v) r \<noteq> RNone" for r
    unfolding scope_ok_def by (metis rphase.distinct(1))
  with assms show ?thesis unfolding service_ok_def pr
    by (auto simp: free_for_def set_port_distinct)
qed

text \<open>Registering and releasing a resource of the scope.\<close>

lemma service_ok_add [inv_intros]:
  assumes "service_ok v" "sc_phase (sv_scope v) r = RNone" "\<not> sc_closed (sv_scope v)"
    and "sc = (sv_scope v)\<lparr>sc_items := insert r (sc_items (sv_scope v)), sc_phase := (sc_phase (sv_scope v))(r := ROpen)\<rparr>"
  shows "service_ok (v\<lparr>sv_scope := sc\<rparr>)"
proof -
  have "scope_add (\<lambda>_. None) r (sv_scope v) = (None, sc)" using assms by (simp add: scope_add_def)
  from scope_ok_add [OF service_okD(1) [OF assms(1)] assms(2) this] assms(1,4) show ?thesis
    by (auto simp: service_ok_def port_resource_def)
qed

lemma free_after_add:
  assumes "service_ok v" "sc_phase (sv_scope v) r = RNone" "key_closer < r" "sc_items sc = insert r (sc_items (sv_scope v))"
  shows "free_for (v\<lparr>sv_scope := sc\<rparr>) p r"
proof -
  have "sc_phase (sv_scope v) r \<noteq> ROpen" using assms(2) by simp
  then have "r \<notin> sc_items (sv_scope v)" using service_okD(1) [OF assms(1)] by (simp add: scope_ok_def)
  with assms show ?thesis by (auto simp: free_for_def service_ok_def port_resource_def)
qed

lemma service_ok_release [inv_intros]:
  assumes "service_ok v" "r \<notin> set (sv_accepted v)" "\<forall>q. port_resource v q \<noteq> Some r"
  shows "service_ok (snd (close_resource env r v))"
proof -
  let ?s = "sv_scope v"
  note so = service_okD(1) [OF assms(1)]
  obtain e sc where c: "resource_close (ve_close env) r ?s = (e, sc)" by fastforce
  have p: "\<forall>r. sc_phase ?s r = ROpen \<longleftrightarrow> r \<in> sc_items ?s" using so by (simp add: scope_ok_def)
  have sc: "sc_phase sc q = sc_phase ?s q" if "q \<noteq> r" for q
    using resource_close_shape [OF c p] that by (auto simp: call_close_def)
  note rel = release_spec [OF so, where cr = "ve_close env" and r = r, unfolded c snd_conv]
  have pr: "port_resource (v\<lparr>sv_scope := sc\<rparr>) = port_resource v" by (simp add: port_resource_def fun_eq_iff)
  have ph: "port_resource v q = Some x \<Longrightarrow> x \<noteq> r \<and> sc_phase sc x = sc_phase ?s x" for q x
    using sc [of x] assms(3) by auto
  have acc: "\<forall>c \<in> set (sv_accepted v). key_closer < c \<and> c \<in> sc_items sc"
    using assms(1,2) rel(2) by (auto simp: service_ok_def)
  have "service_ok (v\<lparr>sv_scope := sc\<rparr>)"
    using assms(1) rel(1-3) ph acc unfolding service_ok_def pr by (auto dest: ph)
  then show ?thesis by (simp add: close_resource_def c)
qed

lemma close_resource_sel [simp]:
  "sv_ports (snd (close_resource env r v)) = sv_ports v" "sv_accepted (snd (close_resource env r v)) = sv_accepted v"
  "sv_id (snd (close_resource env r v)) = sv_id v" "sv_closing (snd (close_resource env r v)) = sv_closing v"
  "sv_registration (snd (close_resource env r v)) = sv_registration v" "sv_active (snd (close_resource env r v)) = sv_active v"
  "currentMappingsLocked (snd (close_resource env r v)) = currentMappingsLocked v"
  by (simp_all add: close_resource_def currentMappingsLocked_def split: prod.split)

lemma close_resource_items:
  "service_ok v \<Longrightarrow> sc_items (sv_scope (snd (close_resource env r v))) = sc_items (sv_scope v) - {r}"
  using release_spec(2) [OF service_okD(1), of v "ve_close env" r] by (simp add: close_resource_def case_prod_beta)

section \<open>Listening\<close>

text \<open>The sandbox numbers its listeners with resources that were not used.\<close>

definition fresh_backing :: "service_env \<Rightarrow> service \<Rightarrow> bool" where
  "fresh_backing env v \<longleftrightarrow> key_closer < fst (ve_listen env) \<and> sc_phase (sv_scope v) (fst (ve_listen env)) = RNone"

lemma newBacking_fails:
  assumes "newBacking env w = (Inl e, w')" "\<not> sc_closed (sv_scope (w_sv w))"
  shows "alike w w'" "sy_tor (w_sys w') = sy_tor (w_sys w)" "w_sv w' = w_sv w"
proof -
  have w': "w' = w \<or> w' = on_sys (effect ListenerClose) w"
    using assms by (auto simp: newBacking_def scope_add_def split: prod.splits sum.splits)
  then show "sy_tor (w_sys w') = sy_tor (w_sys w)" "w_sv w' = w_sv w" by (auto simp: on_sys_def effect_def)
  show "alike w w'"
    using w' by (auto simp: on_sys_def effect_def intro!: alike_refl alikeI [where ds = "d_descriptors (sy_d (w_sys w))"
      and a = "sv_active (w_sv w)" and p = "sv_publication (w_sv w)" and ev = "sv_events (w_sv w)"])
qed

definition held_scope :: "nat \<Rightarrow> scope \<Rightarrow> scope" where
  "held_scope r sc = sc\<lparr>sc_items := insert r (sc_items sc), sc_phase := (sc_phase sc)(r := ROpen)\<rparr>"

lemma newBacking_works:
  assumes "newBacking env w = (Inr b, w')" "service_ok (w_sv w)" "\<not> sc_closed (sv_scope (w_sv w))"
    and "fresh_backing env (w_sv w)"
  obtains r address where "b = \<lparr>sp_listener = Some address, sp_resource = Some r, sp_claimed = False, sp_generation = 1\<rparr>"
    "port_ok b" "r = fst (ve_listen env)" "w' = on_service (\<lambda>v. v\<lparr>sv_scope := held_scope r (sv_scope v)\<rparr>) w"
    "service_ok (w_sv w')" "free_for (w_sv w') p r" "\<forall>q. port_resource (w_sv w') q \<noteq> Some r" "r \<notin> set (sv_accepted (w_sv w'))"
    "r \<notin> sc_items (sv_scope (w_sv w))"
proof -
  note ok = assms(2) and op = assms(3)
  obtain r address where l: "ve_listen env = (r, Inr address)" "\<exists>a. numericEndpoint address True = Inr a"
      "b = \<lparr>sp_listener = Some address, sp_resource = Some r, sp_claimed = False, sp_generation = 1\<rparr>"
      "w' = on_service (\<lambda>v. v\<lparr>sv_scope := held_scope r (sv_scope v)\<rparr>) w"
    using assms(1) op by (auto simp: newBacking_def scope_add_def held_scope_def on_service_def split: prod.splits sum.splits)
  have r: "sc_phase (sv_scope (w_sv w)) r = RNone" "key_closer < r" using assms(4) l(1) by (simp_all add: fresh_backing_def)
  have nr: "\<forall>q. port_resource (w_sv w) q \<noteq> Some r" using ok r(1) by (auto simp: service_ok_def)
  have ok': "service_ok (w_sv w')" using service_ok_add [OF ok r(1) op] l(4) by (simp add: on_service_def held_scope_def)
  have f: "free_for (w_sv w') p r"
    using free_after_add [OF ok r, where sc = "held_scope r (sv_scope (w_sv w))" and p = p] l(4)
    by (simp add: on_service_def held_scope_def)
  have "sc_phase (sv_scope (w_sv w)) r \<noteq> ROpen" using r(1) by simp
  then have "r \<notin> sc_items (sv_scope (w_sv w))" using service_okD(1) [OF ok] by (simp add: scope_ok_def)
  moreover have "port_ok b" using l(2,3) by (auto simp: port_ok_def)
  moreover have "\<forall>q. port_resource (w_sv w') q \<noteq> Some r" using nr l(4) by (simp add: port_resource_def on_service_def)
  moreover have "r \<notin> set (sv_accepted (w_sv w'))" using f by (simp add: free_for_def)
  ultimately show ?thesis using l ok' f by (intro that) auto
qed

lemma live_held:
  assumes "live_world w" "w' = on_service (\<lambda>v. v\<lparr>sv_scope := held_scope r (sv_scope v)\<rparr>) w" "service_ok (w_sv w')"
  shows "live_world w'"
  using assms by (simp add: live_world_def on_service_def held_scope_def registered_def)

lemma alike_ports:
  "alike w w' \<Longrightarrow> port_resource (w_sv w') = port_resource (w_sv w) \<and> free_for (w_sv w') = free_for (w_sv w)"
  by (simp add: alike_sel port_resource_def free_for_def fun_eq_iff)

text \<open>The record of a port, after Tor was given the mapping with that port.\<close>

lemma set_port_agrees:
  assumes "live_world w" "p \<noteq> 0" "port_ok b" "\<forall>r. sp_resource b = Some r \<longrightarrow> free_for (w_sv w) p r"
    and "distinct (map fst m)" "map_of m = (map_of (currentMappingsLocked (w_sv w)))(p := sp_listener b)"
    and "view (sy_tor (w_sys w)) = served m" "sv_active (w_sv w) \<longleftrightarrow> m \<noteq> []"
  shows "live_world (on_service (set_port p b) w) \<and> agrees view (on_service (set_port p b) w)"
proof -
  let ?v = "set_port p b (w_sv w)"
  have ok: "service_ok (w_sv w)" using assms(1) by (simp add: live_world_def)
  have ok': "service_ok ?v" by (rule service_ok_set_port [OF ok assms(2-4)])
  have "distinct (map fst (currentMappingsLocked ?v))" by (rule distinct_current [OF service_okD(2) [OF ok']])
  from served_cong [OF assms(5) this] current_set_port [OF service_okD(2) [OF ok]] assms(6)
  have "served m = served (currentMappingsLocked ?v)" "m = [] \<longleftrightarrow> currentMappingsLocked ?v = []" by simp_all
  with assms ok' show ?thesis by (simp add: live_world_def agrees_def on_service_def registered_def)
qed

lemma port_binding:
  assumes "live_world w" "map_of (sv_ports (w_sv w)) p = Some b"
  shows "p \<noteq> 0" "port_ok b" "\<forall>r. sp_resource b = Some r \<longrightarrow> free_for (w_sv w) p r"
    "map_of (currentMappingsLocked (w_sv w)) p = sp_listener b"
proof -
  have ok: "service_ok (w_sv w)" using assms(1) by (simp add: live_world_def)
  show "p \<noteq> 0" "port_ok b" using ok assms(2) by (auto simp: service_ok_def)
  have "port_resource (w_sv w) p = sp_resource b" using assms(2) by (simp add: port_resource_def)
  with ok live_world_open(1) [OF assms(1)] show "\<forall>r. sp_resource b = Some r \<longrightarrow> free_for (w_sv w) p r"
    by (auto simp: service_ok_def free_for_def)
  show "map_of (currentMappingsLocked (w_sv w)) p = sp_listener b"
    using map_of_current [OF service_okD(2) [OF ok]] assms(2) by simp
qed

lemma claim_agrees:
  assumes "live_world w" "agrees view w" "map_of (sv_ports (w_sv w)) p = Some b" "sp_listener b \<noteq> None"
  shows "live_world (on_service (set_port p (b\<lparr>sp_claimed := True\<rparr>)) w) \<and>
    agrees view (on_service (set_port p (b\<lparr>sp_claimed := True\<rparr>)) w)"
proof (rule set_port_agrees [where m = "currentMappingsLocked (w_sv w)"])
  note pb = port_binding [OF assms(1,3)]
  show "port_ok (b\<lparr>sp_claimed := True\<rparr>)" using pb(2) assms(4) by (auto simp: port_ok_def)
  show "\<forall>r. sp_resource (b\<lparr>sp_claimed := True\<rparr>) = Some r \<longrightarrow> free_for (w_sv w) p r" using pb(3) by simp
  show "distinct (map fst (currentMappingsLocked (w_sv w)))"
    using assms(1) by (intro distinct_current service_okD(2)) (simp add: live_world_def)
  show "map_of (currentMappingsLocked (w_sv w)) = (map_of (currentMappingsLocked (w_sv w)))(p := sp_listener (b\<lparr>sp_claimed := True\<rparr>))"
    using pb(4) by (simp add: fun_eq_iff)
qed (use assms port_binding(1) [OF assms(1,3)] in \<open>simp_all add: agrees_def\<close>)

text \<open>What a call that failed leaves: the ports, what Tor serves, and the resources.\<close>

definition unchanged :: "'t world \<Rightarrow> 't world \<Rightarrow> bool" where
  "unchanged w w' \<longleftrightarrow> sv_ports (w_sv w') = sv_ports (w_sv w) \<and>
    sc_items (sv_scope (w_sv w')) = sc_items (sv_scope (w_sv w))"

lemma drop_candidate:
  assumes "live_world w" "agrees view w" "\<forall>q. port_resource (w_sv w) q \<noteq> Some r" "r \<notin> set (sv_accepted (w_sv w))"
    and "key_closer < r" "w' = on_service (\<lambda>v. snd (close_resource env r v)) w"
  shows "live_world w' \<and> agrees view w' \<and> sv_ports (w_sv w') = sv_ports (w_sv w) \<and>
    sc_items (sv_scope (w_sv w')) = sc_items (sv_scope (w_sv w)) - {r}"
proof -
  have ok: "service_ok (w_sv w)" using assms(1) by (simp add: live_world_def)
  have "service_ok (w_sv w')" using service_ok_release [OF ok assms(4,3)] assms(6) by (simp add: on_service_def)
  moreover have "sc_items (sv_scope (w_sv w')) = sc_items (sv_scope (w_sv w)) - {r}"
    using close_resource_items [OF ok] assms(6) by (simp add: on_service_def)
  moreover have "r \<noteq> events_closer" using assms(5) by (auto simp: key_closer_def events_closer_def)
  ultimately show ?thesis using assms by (simp add: live_world_def agrees_def on_service_def registered_def)
qed

lemma mapping_ok_update:
  "mapping_ok m \<Longrightarrow> numericEndpoint a True = Inr x \<Longrightarrow> mapping_ok (AList.update p a m)"
proof -
  assume m: "mapping_ok m" and a: "numericEndpoint a True = Inr x"
  have d: "distinct (map fst (AList.update p a m))" using m by (simp add: mapping_ok_def distinct_update)
  have "\<exists>x. numericEndpoint b True = Inr x" if "(q, b) \<in> set (AList.update p a m)" for q b
  proof -
    have "map_of (AList.update p a m) q = Some b" using map_of_is_SomeI [OF d that] .
    then have "b = a \<or> (q, b) \<in> set m" by (auto simp: update_conv' split: if_splits dest: map_of_SomeD)
    then show ?thesis using m a by (auto simp: mapping_ok_def)
  qed
  with d show ?thesis by (auto simp: mapping_ok_def)
qed

lemma mapping_ok_delete: "mapping_ok m \<Longrightarrow> mapping_ok (AList.delete p m)"
  by (auto simp: mapping_ok_def AList.delete_eq intro: distinct_map_filter)

lemma reopen_spec:
  assumes "live_world w" "onion_daemon L ctl (w_sv w) view" "agrees view w" "fresh_backing env (w_sv w)"
    and "map_of (sv_ports (w_sv w)) p = Some b0" "sp_listener b0 = None"
    and "reopen L ctl env p b0 w = Some (res, w')"
  shows "live_world w' \<and> agrees view w' \<and> (case res of
      Inl _ \<Rightarrow> unchanged w w'
    | Inr l \<Rightarrow> \<exists>b. ln_port l = p \<and> ln_listener l = sp_listener b \<and> ln_generation l = sp_generation b \<and>
        sp_claimed b \<and> sp_listener b \<noteq> None \<and> map_of (sv_ports (w_sv w')) = (map_of (sv_ports (w_sv w)))(p \<mapsto> b))"
proof -
  have p: "p \<noteq> 0" by (rule port_binding(1) [OF assms(1,5)])
  have ok0: "service_ok (w_sv w)" using assms(1) by (simp add: live_world_def)
  obtain nb w1 where nb: "newBacking env w = (nb, w1)" by fastforce
  show ?thesis
  proof (cases nb)
    case (Inl e)
    then have "res = Inl e" "w' = w1" using assms(7) nb by (simp_all add: reopen_def)
    with newBacking_fails [OF nb [unfolded Inl] live_world_open(1) [OF assms(1)]] assms(1,3) show ?thesis
      by (auto simp: agrees_def unchanged_def intro: alike_live)
  next
    case (Inr c)
    obtain r a where c: "c = \<lparr>sp_listener = Some a, sp_resource = Some r, sp_claimed = False, sp_generation = 1\<rparr>"
      "port_ok c" "r = fst (ve_listen env)" "w1 = on_service (\<lambda>v. v\<lparr>sv_scope := held_scope r (sv_scope v)\<rparr>) w"
      "service_ok (w_sv w1)" "free_for (w_sv w1) p r" "\<forall>q. port_resource (w_sv w1) q \<noteq> Some r"
      "r \<notin> set (sv_accepted (w_sv w1))" "r \<notin> sc_items (sv_scope (w_sv w))"
      by (rule newBacking_works [OF nb [unfolded Inr] ok0 live_world_open(1) [OF assms(1)] assms(4)])
    have live1: "live_world w1" by (rule live_held [OF assms(1) c(4,5)])
    let ?m = "AList.update p a (currentMappingsLocked (w_sv w1))"
    have d1: "onion_daemon L ctl (w_sv w1) view" "agrees view w1"
      using assms(2,3) c(4) by (simp_all add: onion_daemon_def agrees_def on_service_def)
    have key: "key_closer < r" using c(6) by (simp add: free_for_def)
    have "mapping_ok (currentMappingsLocked (w_sv w1))" using c(5) by (rule mapping_ok_current)
    then have m: "mapping_ok ?m" using c(1,2) by (auto simp: port_ok_def intro: mapping_ok_update)
    obtain err w2 where rep: "replaceMappingsLocked L ctl env ?m w1 = Some (err, w2)"
      using assms(7) nb Inr c(1) by (auto simp: reopen_def split: option.splits)
    note rs = replaceMappings_spec [OF live1 d1 m rep]
    then have k: "alike w1 w2" by blast
    note sel = alike_sel [OF k]
    have live2: "live_world w2" by (rule alike_live [OF k live1])
    show ?thesis
    proof (cases err)
      case (Some e)
      then have w': "res = Inl e" "w' = on_service (\<lambda>v. snd (close_resource env r v)) w2"
        using assms(7) nb Inr c(1) rep by (simp_all add: reopen_def)
      have "agrees view w2" using rs Some sel by (simp add: agrees_def)
      from drop_candidate [OF live2 this _ _ key w'(2)] alike_ports [OF k] c(4,7,8,9) sel w'(1)
      show ?thesis by (simp add: unchanged_def on_service_def held_scope_def)
    next
      case None
      let ?b = "c\<lparr>sp_generation := sp_generation b0 + 1, sp_claimed := True\<rparr>"
      have w': "res = fst (claim p (c\<lparr>sp_generation := sp_generation b0 + 1\<rparr>) w2)" "w' = on_service (set_port p ?b) w2"
        using assms(7) nb Inr c(1) rep None by (simp_all add: reopen_def claim_def)
      have "live_world w' \<and> agrees view w'" unfolding w'(2)
      proof (rule set_port_agrees [OF live2 p])
        show "port_ok ?b" using c(1,2) by (simp add: port_ok_def)
        show "\<forall>r. sp_resource ?b = Some r \<longrightarrow> free_for (w_sv w2) p r" using c(1,6) alike_ports [OF k] by simp
        show "distinct (map fst ?m)" using m by (simp add: mapping_ok_def)
        show "map_of ?m = (map_of (currentMappingsLocked (w_sv w2)))(p := sp_listener ?b)"
          using sel c(1) by (simp add: update_conv')
      qed (use rs None in simp_all)
      moreover have "map_of (sv_ports (w_sv w')) = (map_of (sv_ports (w_sv w)))(p \<mapsto> ?b)"
        using w'(2) sel c(4) by (simp add: on_service_def)
      moreover have "res = Inr l \<Longrightarrow> ln_port l = p \<and> ln_listener l = sp_listener ?b \<and> ln_generation l = sp_generation ?b" for l
        using w'(1) c(1) by (auto simp: claim_def)
      moreover have "\<exists>l. res = Inr l" "sp_claimed ?b" "sp_listener ?b \<noteq> None" using w'(1) c(1) by (simp_all add: claim_def)
      ultimately show ?thesis by (auto simp del: fun_upd_apply intro!: exI [of _ ?b])
    qed
  qed
qed

lemma Listen_spec:
  assumes "live_world w" "onion_daemon L ctl (w_sv w) view" "agrees view w" "fresh_backing env (w_sv w)"
    and "Listen L ctl env nt address w = Some (res, w')"
  shows "live_world w' \<and> agrees view w' \<and> (case res of
      Inl _ \<Rightarrow> unchanged w w'
    | Inr l \<Rightarrow> \<exists>b. ln_listener l = sp_listener b \<and> ln_generation l = sp_generation b \<and> sp_claimed b \<and> sp_listener b \<noteq> None \<and>
        map_of (sv_ports (w_sv w')) = (map_of (sv_ports (w_sv w)))(ln_port l \<mapsto> b))"
proof -
  have same: ?thesis if "res = Inl e" "w' = w" for e using that assms(1,3) by (simp add: unchanged_def)
  show ?thesis
  proof (cases "tcpNetwork nt \<and> ve_ctx env = None")
    case False
    then have "\<exists>e. res = Inl e \<and> w' = w" using assms(5) by (auto simp: Listen_def split: option.splits if_splits)
    then show ?thesis using same by blast
  next
    case True
    note lo = live_world_open(2) [OF assms(1)]
    have nc: "\<not> sv_closing (w_sv w)" using assms(1) by (simp add: live_world_def)
    show ?thesis
    proof (cases "virtualPort address (w_sv w)")
      case (Inl e)
      then show ?thesis using assms(5) True same by (auto simp: Listen_def)
    next
      case (Inr p)
      then obtain b where b: "map_of (sv_ports (w_sv w)) p = Some b"
        by (auto simp: virtualPort_def split: option.splits if_splits)
      have L: "Some (res, w') = (if sp_claimed b then Some (Inl (Msg ''tor-driver: port already claimed''), w)
          else if sp_listener b = None then reopen L ctl env p b w else Some (claim p b w))"
        using assms(5) True Inr b lo nc by (simp add: Listen_def)
      consider "sp_claimed b" | "\<not> sp_claimed b" "sp_listener b = None" | "\<not> sp_claimed b" "sp_listener b \<noteq> None" by blast
      then show ?thesis
      proof cases
        case 1
        then show ?thesis using L same by simp
      next
        case 2
        then have "reopen L ctl env p b w = Some (res, w')" using L by simp
        from reopen_spec [OF assms(1-4) b 2(2) this] show ?thesis by (auto split: sum.splits simp del: fun_upd_apply)
      next
        case 3
        let ?b = "b\<lparr>sp_claimed := True\<rparr>"
        have "(res, w') = claim p b w" using L 3 by simp
        then have c: "res = fst (claim p b w)" "w' = on_service (set_port p ?b) w" by (simp_all add: claim_def)
        have "map_of (sv_ports (w_sv w')) = (map_of (sv_ports (w_sv w)))(p \<mapsto> ?b)"
          using c(2) by (simp add: on_service_def)
        with claim_agrees [OF assms(1,3) b 3(2)] c 3(2) show ?thesis
          by (auto simp: claim_def simp del: fun_upd_apply intro!: exI [of _ ?b])
      qed
    qed
  qed
qed

section \<open>Removing a port\<close>

definition removed :: "u16 \<Rightarrow> 't world \<Rightarrow> 't world \<Rightarrow> bool" where
  "removed p w w' \<longleftrightarrow> (\<exists>b0 b r. map_of (sv_ports (w_sv w)) p = Some b0 \<and> sp_resource b0 = Some r \<and>
    map_of (sv_ports (w_sv w')) = (map_of (sv_ports (w_sv w)))(p \<mapsto> b) \<and> sp_listener b = None \<and> \<not> sp_claimed b \<and>
    sp_generation b = sp_generation b0 + 1 \<and> sc_items (sv_scope (w_sv w')) = sc_items (sv_scope (w_sv w)) - {r})"

lemma free_released:
  "free_for v p r \<Longrightarrow> \<forall>q. port_resource (set_port p \<lparr>sp_listener = None, sp_resource = None, sp_claimed = c, sp_generation = g\<rparr> v) q \<noteq> Some r"
  by (auto simp: free_for_def port_resource_def)

lemma release_port_spec:
  assumes "live_world w" "map_of (sv_ports (w_sv w)) p = Some b0" "sp_listener b0 \<noteq> None"
    and "release_port env p b0 (w_sv w) = (e, v)"
    and "distinct (map fst m)" "map_of m = (map_of (currentMappingsLocked (w_sv w)))(p := None)"
    and "view (sy_tor (w_sys w)) = served m" "sv_active (w_sv w) \<longleftrightarrow> m \<noteq> []"
  shows "live_world (w\<lparr>w_sv := v\<rparr>) \<and> agrees view (w\<lparr>w_sv := v\<rparr>) \<and> removed p w (w\<lparr>w_sv := v\<rparr>)"
proof -
  note pb = port_binding [OF assms(1,2)]
  obtain r where r: "sp_resource b0 = Some r" using pb(2) assms(3) by (auto simp: port_ok_def)
  then have fr: "free_for (w_sv w) p r" using pb(3) by simp
  then have key: "key_closer < r" "r \<notin> set (sv_accepted (w_sv w))" by (simp_all add: free_for_def)
  let ?b = "\<lparr>sp_listener = None, sp_resource = None, sp_claimed = False, sp_generation = sp_generation b0 + 1\<rparr>"
  let ?w1 = "on_service (set_port p ?b) w"
  have la: "live_world ?w1 \<and> agrees view ?w1"
    by (rule set_port_agrees [where view = view and m = m, OF assms(1) pb(1) _ _ assms(5) _ assms(7,8)]) (use assms(6) in \<open>simp_all add: port_ok_def\<close>)
  have v: "v = snd (close_resource env r (set_port p ?b (w_sv w)))"
    using assms(4) r by (auto simp: release_port_def close_resource_def set_port_def split: prod.splits)
  have "\<forall>q. port_resource (w_sv ?w1) q \<noteq> Some r" "r \<notin> set (sv_accepted (w_sv ?w1))"
    using free_released [OF fr] key(2) by (simp_all add: on_service_def)
  from drop_candidate [OF _ _ this key(1), of view "w\<lparr>w_sv := v\<rparr>" env] la v
  have d: "live_world (w\<lparr>w_sv := v\<rparr>)" "agrees view (w\<lparr>w_sv := v\<rparr>)" "sv_ports v = sv_ports (w_sv ?w1)"
    "sc_items (sv_scope v) = sc_items (sv_scope (w_sv ?w1)) - {r}" by (simp_all add: on_service_def)
  then have "map_of (sv_ports v) = (map_of (sv_ports (w_sv w)))(p \<mapsto> ?b)"
    "sc_items (sv_scope v) = sc_items (sv_scope (w_sv w)) - {r}" by (simp_all add: on_service_def)
  then have "removed p w (w\<lparr>w_sv := v\<rparr>)" unfolding removed_def using assms(2) r
    by (intro exI [of _ b0] exI [of _ ?b] exI [of _ r]) simp
  with d show ?thesis by blast
qed

lemma removePort_spec:
  assumes "live_world w" "onion_daemon L ctl (w_sv w) view" "agrees view w"
    and "removePort L ctl env p g w = Some (e, w')"
  shows "live_world w' \<and> agrees view w' \<and> (unchanged w w' \<or> removed p w w') \<and>
    (e = None \<and> g = 0 \<longrightarrow> map_of (currentMappingsLocked (w_sv w')) p = None)"
proof (cases "ve_ctx env")
  case (Some x)
  then show ?thesis using assms(1,3,4) by (auto simp: removePort_def unchanged_def)
next
  case ctx: None
  note lo = live_world_open(2) [OF assms(1)]
  have nc: "\<not> sv_closing (w_sv w)" and ok: "service_ok (w_sv w)" using assms(1) by (simp_all add: live_world_def)
  show ?thesis
  proof (cases "map_of (sv_ports (w_sv w)) p")
    case None
    then show ?thesis using assms(1,3,4) ctx lo nc by (auto simp: removePort_def unchanged_def)
  next
    case (Some b)
    note pb = port_binding [OF assms(1) Some]
    let ?m = "AList.delete p (currentMappingsLocked (w_sv w))"
    show ?thesis
    proof (cases "sp_listener b = None \<or> g \<noteq> 0 \<and> sp_generation b \<noteq> g")
      case True
      then show ?thesis using assms(1,3,4) ctx lo nc Some pb(4) by (auto simp: removePort_def unchanged_def)
    next
      case False
      have m: "mapping_ok ?m" by (rule mapping_ok_delete [OF mapping_ok_current [OF ok]])
      obtain err w1 where rep: "replaceMappingsLocked L ctl env ?m w = Some (err, w1)"
        and end': "Some (e, w') = (case err of Some x \<Rightarrow> Some (Some x, w1)
          | None \<Rightarrow> (case release_port env p b (w_sv w1) of (e, v) \<Rightarrow> Some (e, w1\<lparr>w_sv := v\<rparr>)))"
        using assms(4) ctx lo nc Some False by (auto simp: removePort_def split: option.splits prod.splits)
      note rs = replaceMappings_spec [OF assms(1-3) m rep]
      then have k: "alike w w1" by blast
      note sel = alike_sel [OF k]
      have live1: "live_world w1" by (rule alike_live [OF k assms(1)])
      show ?thesis
      proof (cases err)
        case (Some x)
        then have "e = Some x" "w' = w1" using end' by simp_all
        with live1 rs Some sel show ?thesis by (simp add: agrees_def unchanged_def)
      next
        case None
        obtain e1 v where rel: "release_port env p b (w_sv w1) = (e1, v)" by fastforce
        have w': "e = e1" "w' = w1\<lparr>w_sv := v\<rparr>" using end' None rel by simp_all
        have b1: "map_of (sv_ports (w_sv w1)) p = Some b" "sp_listener b \<noteq> None" using Some sel False by simp_all
        have md: "distinct (map fst ?m)" "map_of ?m = (map_of (currentMappingsLocked (w_sv w1)))(p := None)"
          using m sel by (simp_all add: mapping_ok_def delete_conv')
        have fin: "live_world w' \<and> agrees view w' \<and> removed p w1 w'" unfolding w'(2)
          by (rule release_port_spec [OF live1 b1 rel md]) (use rs None in simp_all)
        then have "removed p w w'" using sel by (simp add: removed_def)
        moreover from fin have "map_of (currentMappingsLocked (w_sv w')) p = None"
          using map_of_current [of "w_sv w'" p] by (auto simp: removed_def live_world_def service_ok_def)
        ultimately show ?thesis using fin by blast
      qed
    qed
  qed
qed

end
