(* ===== verification/Tor_Service_Calls.thy ===== *)
theory Tor_Service_Calls
  imports Tor_Service_Proofs
begin

text \<open>
  The calls of a service in use: they keep the service and Tor in agreement, they return when
  Tor behaves as documented, except that some hang when Tor fails a withdrawal. Publication, and what
  waiting for it means after a change of the mapping.
\<close>

section \<open>An example of a Tor\<close>

text \<open>
  A Tor that knows one service; its state is what it serves. It answers as the control protocol
  says: 552 to the withdrawal of a service that it does not serve, 550 to a second service
  with the same key, 512 to a command without ports or with more than it takes, 510 to what it does not know.
\<close>

definition onion_tor :: "casemap \<Rightarrow> service \<Rightarrow> string option ctl" where
  "onion_tor L v cmd t =
    (let start = addOnion_command L False [] v; ports = drop (length start) cmd
     in if cmd = del_command v
        then (if t = None then (Inl (ControlError 552), t) else (Inr \<lparr>Code = 250, Lines = [''OK'']\<rparr>, None))
        else if \<not> HasPrefix cmd start then (Inl (ControlError 510), t)
        else if t \<noteq> None then (Inl (ControlError 550), t)
        else if ports = [] \<or> 100 < length ports then (Inl (ControlError 512), t)
        else (Inr \<lparr>Code = 250, Lines = [''ServiceID='' @ sv_id v]\<rparr>, Some ports))"

lemma command_parts: "addOnion_command L g m v = addOnion_command L g [] v @ port_words m"
  by (simp add: addOnion_command_def port_words_def)

lemma del_not_add: "addOnion_command L g m v \<noteq> del_command v'"
  by (simp add: addOnion_command_def del_command_def)

lemma port_words_empty: "port_words m = [] \<longleftrightarrow> m = []"
proof (cases m)
  case (Cons x xs)
  then have "sort (map (\<lambda>(port, _). unat port) m) \<noteq> []" by (metis length_0_conv length_map length_sort list.discI)
  then show ?thesis using Cons by (auto simp: port_words_def neq_Nil_conv)
qed (simp add: port_words_def)

lemma onion_tor_add:
  "onion_tor L v (addOnion_command L False m v) t =
    (if t \<noteq> None then (Inl (ControlError 550), t)
     else if m = [] \<or> 100 < length (port_words m) then (Inl (ControlError 512), t)
     else (Inr \<lparr>Code = 250, Lines = [''ServiceID='' @ sv_id v]\<rparr>, Some (port_words m)))"
proof -
  have "HasPrefix (addOnion_command L False m v) (addOnion_command L False [] v)"
    "drop (length (addOnion_command L False [] v)) (addOnion_command L False m v) = port_words m"
    unfolding command_parts [of L False m v] by (simp_all add: HasPrefix_def)
  then show ?thesis by (simp add: onion_tor_def del_not_add port_words_empty)
qed

lemma onion_tor_del:
  "onion_tor L v (del_command v) t =
    (if t = None then (Inl (ControlError 552), t) else (Inr \<lparr>Code = 250, Lines = [''OK'']\<rparr>, None))"
  by (simp add: onion_tor_def)

lemma onion_tor_daemon: "onion_daemon L (onion_tor L v) v (\<lambda>t. t)"
  unfolding onion_daemon_def by (simp add: onion_tor_add onion_tor_del split: if_splits)

section \<open>Calls that return\<close>

text \<open>
  What the control protocol promises of a service that only this driver manages: Tor withdraws a
  service that it serves; while it does not serve it, it takes every mapping that it accepts
  and rejects the others with an error. \<open>fine\<close> are the mappings that it accepts. Nothing is
  promised of a withdrawal of a service that is not served, of a second \<^verbatim>\<open>ADD_ONION\<close> of one that is,
  or of a command without ports.
\<close>

definition accepts :: "casemap \<Rightarrow> 't ctl \<Rightarrow> service \<Rightarrow> mappings \<Rightarrow> 't \<Rightarrow> bool" where
  "accepts L ctl v m t \<longleftrightarrow> (\<exists>r t'. ctl (addOnion_command L False m v) t = (Inr r, t') \<and> Value r ''ServiceID'' = Some (sv_id v))"

definition documented_tor ::
  "casemap \<Rightarrow> 't ctl \<Rightarrow> service \<Rightarrow> ('t \<Rightarrow> string option) \<Rightarrow> (mappings \<Rightarrow> bool) \<Rightarrow> bool" where
  "documented_tor L ctl v view fine \<longleftrightarrow> onion_daemon L ctl v view \<and>
    (\<forall>t. view t \<noteq> None \<longrightarrow> (\<exists>r t'. ctl (del_command v) t = (Inr r, t'))) \<and>
    (\<forall>m t. mapping_ok m \<and> m \<noteq> [] \<and> view t = None \<longrightarrow>
      (if fine m then accepts L ctl v m t
       else (\<exists>e t'. ctl (addOnion_command L False m v) t = (Inl e, t') \<and> errors_as_control e \<noteq> None)))"

lemma documentedD:
  assumes "documented_tor L ctl v view fine"
  shows "onion_daemon L ctl v view" "view t \<noteq> None \<Longrightarrow> \<exists>r t'. ctl (del_command v) t = (Inr r, t')"
    "\<lbrakk>mapping_ok m; m \<noteq> []; view t = None; fine m\<rbrakk> \<Longrightarrow> accepts L ctl v m t"
    "\<lbrakk>mapping_ok m; m \<noteq> []; view t = None; \<not> fine m\<rbrakk> \<Longrightarrow>
      \<exists>e t'. ctl (addOnion_command L False m v) t = (Inl e, t') \<and> errors_as_control e \<noteq> None"
  using assms unfolding documented_tor_def by (blast, blast, metis, metis)

lemma add_accepted:
  assumes "\<not> d_closed (sy_d (w_sys w))" "validServiceID (sv_id (w_sv w))" "accepts L ctl (w_sv w) m (sy_tor (w_sys w))"
  shows "\<exists>w'. add_mappings L ctl m w = (None, w')"
proof -
  obtain r t where r: "ctl (addOnion_command L False m (w_sv w)) (sy_tor (w_sys w)) = (Inr r, t)"
      "Value r ''ServiceID'' = Some (sv_id (w_sv w))" using assms(3) by (auto simp: accepts_def)
  show ?thesis using sv_command_open [where ctl = ctl, OF assms(1) r(1)] r(2) assms(2)
    by (simp add: add_mappings_def addOnion_def applyAddReply_def)
qed

lemma add_rejected:
  assumes "\<not> d_closed (sy_d (w_sys w))" "ctl (addOnion_command L False m (w_sv w)) (sy_tor (w_sys w)) = (Inl e, t)"
  shows "\<exists>w'. add_mappings L ctl m w = (Some e, w') \<and> alike w w' \<and> sy_tor (w_sys w') = t"
  using sv_command_open [where ctl = ctl, OF assms] by (auto simp: add_mappings_def addOnion_def intro: alike_command)

lemma accepts_alike: "alike w w' \<Longrightarrow> accepts L ctl (w_sv w') = accepts L ctl (w_sv w)"
  by (simp add: accepts_def alike_sel fun_eq_iff)

lemma documented_same:
  assumes "sv_id v' = sv_id v" "sv_key v' = sv_key v" "sv_cfg v' = sv_cfg v"
  shows "documented_tor L ctl v' view fine = documented_tor L ctl v view fine"
proof -
  have "addOnion_command L g m v' = addOnion_command L g m v" "del_command v' = del_command v" for g m
    using assms by (simp_all add: addOnion_command_def del_command_def)
  then show ?thesis using assms(1) by (simp add: documented_tor_def onion_daemon_def accepts_def)
qed

lemma documented_alike:
  "alike w w' \<Longrightarrow> documented_tor L ctl (w_sv w') view fine = documented_tor L ctl (w_sv w) view fine"
  by (intro documented_same) (simp_all add: alike_sel)

text \<open>A Tor that does not serve the service now, and accepts the mapping that was in force.\<close>

definition ready_tor ::
  "casemap \<Rightarrow> 't ctl \<Rightarrow> ('t \<Rightarrow> string option) \<Rightarrow> (mappings \<Rightarrow> bool) \<Rightarrow> 't world \<Rightarrow> bool" where
  "ready_tor L ctl view fine w \<longleftrightarrow> documented_tor L ctl (w_sv w) view fine \<and> view (sy_tor (w_sys w)) = None \<and>
    (currentMappingsLocked (w_sv w) \<noteq> [] \<longrightarrow> fine (currentMappingsLocked (w_sv w)))"

lemma ready_alike: "\<lbrakk>alike w w'; sy_tor (w_sys w') = sy_tor (w_sys w)\<rbrakk> \<Longrightarrow> ready_tor L ctl view fine w' = ready_tor L ctl view fine w"
  by (simp add: ready_tor_def documented_alike alike_sel)

lemma install_returns:
  assumes "live_world w" "ready_tor L ctl view fine w" "mapping_ok desired" "desired \<noteq> []"
    and "old = currentMappingsLocked (w_sv w)" "wasActive \<longrightarrow> old \<noteq> []"
  shows "install_mappings L ctl env wasActive old desired w \<noteq> None"
proof -
  have o: "\<not> d_closed (sy_d (w_sys w))" "validServiceID (sv_id (w_sv w))" and sok: "service_ok (w_sv w)"
    using assms(1) by (simp_all add: live_world_def)
  have doc: "documented_tor L ctl (w_sv w) view fine" "view (sy_tor (w_sys w)) = None"
    using assms(2) by (simp_all add: ready_tor_def)
  show ?thesis
  proof (cases "fine desired")
    case True
    obtain w1 where "add_mappings L ctl desired w = (None, w1)"
      using add_accepted [OF o documentedD(3) [OF doc(1) assms(3,4) doc(2) True]] by blast
    then show ?thesis by (simp add: install_mappings_def)
  next
    case False
    obtain e t where r: "ctl (addOnion_command L False desired (w_sv w)) (sy_tor (w_sys w)) = (Inl e, t)"
        "errors_as_control e \<noteq> None" using documentedD(4) [OF doc(1) assms(3,4) doc(2) False] by blast
    obtain w1 where a: "add_mappings L ctl desired w = (Some e, w1)" "alike w w1" "sy_tor (w_sys w1) = t"
      using add_rejected [where ctl = ctl, OF o(1) r(1)] by blast
    show ?thesis
    proof (cases wasActive)
      case True
      have m: "mapping_ok old" "old \<noteq> []" "fine old" using mapping_ok_current [OF sok] assms(2,5,6) True by (simp_all add: ready_tor_def)
      have "view t = None" using daemonD(2) [OF documentedD(1) [OF doc(1)] r(1) assms(3) r(2)] doc(2) by simp
      then have "accepts L ctl (w_sv w) old t" using documentedD(3) [OF doc(1) m(1,2) _ m(3)] by blast
      then have "accepts L ctl (w_sv w1) old (sy_tor (w_sys w1))" using accepts_alike [OF a(2), of L ctl] a(3) by simp
      then obtain w2 where "add_mappings L ctl old w1 = (None, w2)"
        using add_accepted [of w1 L ctl old] o alike_sel [OF a(2)] by auto
      with a r(2) show ?thesis by (auto simp: install_mappings_def)
    qed (use a r(2) in \<open>auto simp: install_mappings_def\<close>)
  qed
qed

lemma remap_returns:
  assumes "live_world w" "ready_tor L ctl view fine w" "mapping_ok desired"
    and "old = currentMappingsLocked (w_sv w)" "wasActive \<longrightarrow> old \<noteq> []"
  shows "remap L ctl env wasActive old desired w \<noteq> None"
proof -
  have t: "sy_tor (w_sys (resetPublication w)) = sy_tor (w_sys w)"
    by (simp add: resetPublication_def on_service_def on_sys_def on_driver_def)
  have "ready_tor L ctl view fine (resetPublication w)" using ready_alike [OF alike_reset t] assms(2) by blast
  moreover have "old = currentMappingsLocked (w_sv (resetPublication w))" using alike_sel(12) [OF alike_reset] assms(4) by metis
  ultimately show ?thesis
    using install_returns [OF alike_live [OF alike_reset assms(1)] _ assms(3)] assms(5) unfolding remap_def by (cases "desired = []") auto
qed

text \<open>What the calls need of Tor: it serves the ports of the service and accepts them again.\<close>

definition tor_works ::
  "casemap \<Rightarrow> 't ctl \<Rightarrow> ('t \<Rightarrow> string option) \<Rightarrow> (mappings \<Rightarrow> bool) \<Rightarrow> 't world \<Rightarrow> bool" where
  "tor_works L ctl view fine w \<longleftrightarrow> documented_tor L ctl (w_sv w) view fine \<and> agrees view w \<and>
    (currentMappingsLocked (w_sv w) \<noteq> [] \<longrightarrow> fine (currentMappingsLocked (w_sv w)))"

lemma replace_returns:
  assumes "live_world w" "tor_works L ctl view fine w" "mapping_ok desired"
  shows "replaceMappingsLocked L ctl env desired w \<noteq> None"
proof -
  let ?cur = "currentMappingsLocked (w_sv w)"
  have doc: "documented_tor L ctl (w_sv w) view fine" "?cur \<noteq> [] \<longrightarrow> fine ?cur"
    and ag: "view (sy_tor (w_sys w)) = served ?cur" "sv_active (w_sv w) \<longleftrightarrow> ?cur \<noteq> []"
    using assms(2) by (auto simp: tor_works_def agrees_def)
  show ?thesis
  proof (cases "sv_active (w_sv w)")
    case False
    then have "ready_tor L ctl view fine w" using doc ag by (simp add: ready_tor_def served_def)
    from remap_returns [OF assms(1) this assms(3) refl] False show ?thesis by (simp add: replaceMappingsLocked_def)
  next
    case True
    then have "view (sy_tor (w_sys w)) \<noteq> None" using ag by (simp add: served_def)
    then obtain r t where c: "ctl (del_command (w_sv w)) (sy_tor (w_sys w)) = (Inr r, t)"
      using documentedD(2) [OF doc(1)] by blast
    define w1 where "w1 = w\<lparr>w_sys := (w_sys w)\<lparr>sy_tor := t, sy_effects := sy_effects (w_sys w) @ [Command (del_command (w_sv w))]\<rparr>\<rparr>"
    let ?w2 = "on_service (\<lambda>v. v\<lparr>sv_active := False\<rparr>) w1"
    have k: "alike w ?w2" by (rule alike_trans [OF alike_command alike_active]) (simp add: w1_def)
    have "view t = None" by (rule daemonD(3) [OF documentedD(1) [OF doc(1)] c])
    moreover have "documented_tor L ctl (w_sv ?w2) view fine" using doc(1) documented_alike [OF k, of L ctl view fine] by blast
    moreover have "sy_tor (w_sys ?w2) = t" by (simp add: w1_def on_service_def)
    ultimately have "ready_tor L ctl view fine ?w2" unfolding ready_tor_def alike_sel(12) [OF k] using doc(2) by blast
    then have "remap L ctl env True ?cur desired ?w2 \<noteq> None"
      by (rule remap_returns [OF alike_live [OF k assms(1)] _ assms(3)]) (use alike_sel(12) [OF k] ag(2) True in simp_all)
    moreover have "sv_command ctl (del_command (w_sv w)) w = (Inr r, w1)"
      unfolding w1_def using assms(1) c by (intro sv_command_open) (simp_all add: live_world_def)
    ultimately show ?thesis using True by (simp add: replaceMappingsLocked_def)
  qed
qed

lemma Listen_returns:
  assumes "live_world w" "tor_works L ctl view fine w" "fresh_backing env (w_sv w)"
  shows "Listen L ctl env nt address w \<noteq> None"
proof -
  have ok0: "service_ok (w_sv w)" using assms(1) by (simp add: live_world_def)
  have "reopen L ctl env p b w \<noteq> None" for p b
  proof (cases "newBacking env w")
    case (Pair nb w1)
    show ?thesis
    proof (cases nb)
      case (Inr c)
      obtain r a where c: "c = \<lparr>sp_listener = Some a, sp_resource = Some r, sp_claimed = False, sp_generation = 1\<rparr>"
        "port_ok c" "r = fst (ve_listen env)" "w1 = on_service (\<lambda>v. v\<lparr>sv_scope := held_scope r (sv_scope v)\<rparr>) w"
        "service_ok (w_sv w1)" "free_for (w_sv w1) p r" "\<forall>q. port_resource (w_sv w1) q \<noteq> Some r"
        "r \<notin> set (sv_accepted (w_sv w1))" "r \<notin> sc_items (sv_scope (w_sv w))"
        by (rule newBacking_works [OF Pair [unfolded Inr] ok0 live_world_open(1) [OF assms(1)] assms(3)])
      have "documented_tor L ctl (w_sv w1) view fine = documented_tor L ctl (w_sv w) view fine"
        by (rule documented_same) (simp_all add: c(4) on_service_def)
      then have "tor_works L ctl view fine w1" using assms(2) c(4)
        by (simp add: tor_works_def agrees_def on_service_def currentMappingsLocked_def)
      moreover have "mapping_ok (AList.update p a (currentMappingsLocked (w_sv w1)))"
        using c(1,2,5) by (auto simp: port_ok_def intro: mapping_ok_update mapping_ok_current)
      ultimately have "replaceMappingsLocked L ctl env (AList.update p a (currentMappingsLocked (w_sv w1))) w1 \<noteq> None"
        by (rule replace_returns [OF live_held [OF assms(1) c(4,5)]])
      with Pair Inr c(1) show ?thesis by (auto simp: reopen_def split: option.splits)
    qed (simp add: reopen_def Pair)
  qed
  then show ?thesis by (auto simp: Listen_def split: option.splits sum.splits)
qed

lemma removePort_returns:
  assumes "live_world w" "tor_works L ctl view fine w"
  shows "removePort L ctl env p g w \<noteq> None"
proof -
  have "mapping_ok (AList.delete p (currentMappingsLocked (w_sv w)))"
    using assms(1) by (auto simp: live_world_def intro: mapping_ok_delete mapping_ok_current)
  from replace_returns [OF assms this, of env] show ?thesis
    by (auto simp: removePort_def split: option.splits prod.splits)
qed

lemma waitAccepted_ends: "waitAccepted ctl env (evs @ [DrainContext e]) w \<noteq> None"
proof (induction evs arbitrary: w)
  case Nil
  show ?case by (subst waitAccepted.simps) simp
next
  case (Cons ev evs)
  from Cons.IH [of "drain_effect ctl env ev w"] show ?case
    by (subst waitAccepted.simps) (auto split: drain_event.splits)
qed

lemma close_begin_returns:
  assumes "sv_active (w_sv w) \<Longrightarrow> \<exists>r t'. ctl (del_command (w_sv w)) (sy_tor (w_sys w)) = (Inr r, t')"
  shows "close_begin ctl env w \<noteq> None"
proof -
  let ?w = "on_service (\<lambda>v. v\<lparr>sv_closing := True, sv_stopping := True\<rparr>) w"
  have d: "del_command (w_sv ?w) = del_command (w_sv w)" "sv_active (w_sv ?w) = sv_active (w_sv w)" "w_sys ?w = w_sys w"
    by (simp_all add: on_service_def del_command_def)
  have "close_withdraw ctl env ?w \<noteq> None"
  proof (cases "sv_active (w_sv w) \<and> \<not> d_closed (sy_d (w_sys ?w))")
    case True
    then obtain r t where "ctl (del_command (w_sv ?w)) (sy_tor (w_sys ?w)) = (Inr r, t)" using assms d by metis
    from sv_command_open [where ctl = ctl, OF conjunct2 [OF True] this] show ?thesis by (simp add: close_withdraw_def)
  qed (use d in \<open>auto simp: close_withdraw_def\<close>)
  then show ?thesis by (auto simp: close_begin_def split: prod.splits)
qed

lemma closing_stuck:
  assumes "live_world w" "sv_active (w_sv w)" "ctl (del_command (w_sv w)) (sy_tor (w_sys w)) = (Inl e, t)"
  shows "close_begin ctl env w = None"
proof -
  let ?w = "on_service (\<lambda>v. v\<lparr>sv_closing := True, sv_stopping := True\<rparr>) w"
  let ?w1 = "?w\<lparr>w_sys := (w_sys ?w)\<lparr>sy_tor := t, sy_effects := sy_effects (w_sys ?w) @ [Command (del_command (w_sv ?w))]\<rparr>\<rparr>"
  have o: "\<not> d_closed (sy_d (w_sys ?w))" using assms(1) by (simp add: live_world_def on_service_def)
  have c: "ctl (del_command (w_sv ?w)) (sy_tor (w_sys ?w)) = (Inl e, t)"
    using assms(3) by (simp add: on_service_def del_command_def)
  have "self_wait ?w1" using live_self_wait [OF assms(1)] by (simp add: self_wait_def registered_def on_service_def)
  then have "close_withdraw ctl env ?w = None"
    using sv_command_open [where ctl = ctl, OF o c] o assms(2) self_wait_hangs
    by (simp add: close_withdraw_def on_service_def)
  then show ?thesis by (simp add: close_begin_def)
qed

lemma close_begin_iff:
  assumes "live_world w"
  shows "close_begin ctl env w \<noteq> None \<longleftrightarrow>
    (sv_active (w_sv w) \<longrightarrow> (\<exists>r t'. ctl (del_command (w_sv w)) (sy_tor (w_sys w)) = (Inr r, t')))"
proof (cases "sv_active (w_sv w)")
  case True
  obtain x t where x: "ctl (del_command (w_sv w)) (sy_tor (w_sys w)) = (x, t)" by fastforce
  show ?thesis
  proof (cases x)
    case (Inl e)
    then show ?thesis using closing_stuck [where ctl = ctl, OF assms True x [unfolded Inl]] x True by simp
  next
    case (Inr r)
    then show ?thesis using close_begin_returns [of w ctl env] x by blast
  qed
qed (use close_begin_returns [of w ctl env] in simp)

lemma service_close_returns:
  "service_close ctl env False [] w \<noteq> None \<longleftrightarrow> close_begin ctl env w \<noteq> None"
  "service_close ctl env True (evs @ [DrainContext e]) w \<noteq> None \<longleftrightarrow> close_begin ctl env w \<noteq> None"
proof -
  show "service_close ctl env False [] w \<noteq> None \<longleftrightarrow> close_begin ctl env w \<noteq> None"
    by (auto simp: service_close_def split: option.splits prod.splits)
  have "service_close ctl env True (evs @ [DrainContext e]) w \<noteq> None" if b: "close_begin ctl env w = Some (err, w1)" for err w1
  proof -
    obtain err2 w2 where "waitAccepted ctl env (evs @ [DrainContext e]) w1 = Some (err2, w2)"
      using waitAccepted_ends [of ctl env evs e w1] by auto
    then show ?thesis using b by (simp add: service_close_def split: option.splits)
  qed
  then show "service_close ctl env True (evs @ [DrainContext e]) w \<noteq> None \<longleftrightarrow> close_begin ctl env w \<noteq> None"
    by (cases "close_begin ctl env w") (auto simp: service_close_def)
qed

lemma close_once_returns: "close_once f w \<noteq> None \<longleftrightarrow> sv_done (w_sv w) \<or> f w \<noteq> None"
  by (auto simp: close_once_def split: option.splits)

text \<open>
  C14. When the calls of a service return. If Tor answers as the control protocol documents (it withdraws
  a service that it serves; while it does not serve it, it accepts or rejects a mapping), serves
  the ports of the service, and accepts again the mapping that is in force, then \<^verbatim>\<open>Listen\<close>, \<^verbatim>\<open>RemovePort\<close>
  and the close of a listener return, also when the new mapping is rejected. And whatever Tor
  is and does: \<^verbatim>\<open>Close\<close> of a service in use returns exactly when the service is not active or Tor
  answers the withdrawal with success, and so does \<^verbatim>\<open>Drain\<close>, whatever the
  application, the accept calls and the driver do meanwhile, at the latest when its context ends.
\<close>

theorem service_calls_return:
  assumes "live_world w"
  shows "(documented_tor L ctl (w_sv w) view fine \<and> agrees view w \<and>
      (currentMappingsLocked (w_sv w) \<noteq> [] \<longrightarrow> fine (currentMappingsLocked (w_sv w))) \<and> fresh_backing env (w_sv w) \<longrightarrow>
        Listen L ctl env nt address w \<noteq> None \<and> RemovePort L ctl env port w \<noteq> None \<and> listener_Close L ctl env l w \<noteq> None) \<and>
    (service_Close ctl env w \<noteq> None \<longleftrightarrow> sv_done (w_sv w) \<or> \<not> sv_active (w_sv w) \<or>
      (\<exists>r t'. ctl (''DEL_ONION '' @ sv_id (w_sv w)) (sy_tor (w_sys w)) = (Inr r, t'))) \<and>
    (service_Drain ctl env (evs @ [DrainContext e]) w \<noteq> None \<longleftrightarrow> sv_done (w_sv w) \<or> \<not> sv_active (w_sv w) \<or>
      (\<exists>r t'. ctl (''DEL_ONION '' @ sv_id (w_sv w)) (sy_tor (w_sys w)) = (Inr r, t')))"
proof -
  have "Listen L ctl env nt address w \<noteq> None \<and> RemovePort L ctl env port w \<noteq> None \<and> listener_Close L ctl env l w \<noteq> None"
    if "tor_works L ctl view fine w" "fresh_backing env (w_sv w)"
  proof -
    have "removePort L ctl (env\<lparr>ve_ctx := None\<rparr>) (ln_port l) (ln_generation l) w \<noteq> None"
      by (rule removePort_returns [OF assms that(1)])
    then have "listener_Close L ctl env l w \<noteq> None" by (auto simp: listener_Close_def)
    then show ?thesis using Listen_returns [OF assms that] removePort_returns [OF assms that(1)] by (simp add: RemovePort_def)
  qed
  moreover have "close_begin ctl env w \<noteq> None \<longleftrightarrow> \<not> sv_active (w_sv w) \<or>
      (\<exists>r t'. ctl (''DEL_ONION '' @ sv_id (w_sv w)) (sy_tor (w_sys w)) = (Inr r, t'))"
    using close_begin_iff [OF assms, of ctl env] unfolding del_command_def by blast
  ultimately show ?thesis
    unfolding service_Close_def service_Drain_def close_once_returns service_close_returns tor_works_def by blast
qed

section \<open>An example of a service\<close>

text \<open>A service with one open port and one that was removed.\<close>

definition sample_service :: service where
  "sample_service = (new_service 7 \<lparr>Ports = [80, 443], MaxStreams = 0, MaxStreamsPolicy = KeepRendezvousCircuit,
       KeyName = [], AuthorizedClients = []\<rparr>)
     \<lparr>sv_id := sample_onion, sv_key := sample_key,
      sv_scope := held_scope 3 (held_scope key_closer (held_scope events_closer newScope)),
      sv_ports := [(80, \<lparr>sp_listener = Some ''127.0.0.1:9'', sp_resource = Some 3, sp_claimed = False, sp_generation = 1\<rparr>),
                   (443, empty_port)],
      sv_active := True\<rparr>"

definition sample_world :: "'t \<Rightarrow> 't world" where
  "sample_world t = \<lparr>w_sys = \<lparr>sy_d = sample_driver\<lparr>d_resources := held_scope 7 newScope\<rparr>, sy_tor = t, sy_effects = []\<rparr>,
     w_sv = sample_service\<rparr>"

definition sample_senv :: service_env where
  "sample_senv = \<lparr>ve_driver = sample_close, ve_close = (\<lambda>_. None), ve_ctx = None, ve_listen = (4, Inr ''127.0.0.1:8'')\<rparr>"

lemma sample_world_sel [simp]: "w_sv (sample_world t) = sample_service" "sy_tor (w_sys (sample_world t)) = t"
  by (simp_all add: sample_world_def)

lemma sample_service_ok: "service_ok sample_service"
proof -
  have r: "port_resource sample_service p = (if p = 80 then Some 3 else None)" for p
    by (simp add: port_resource_def sample_service_def empty_port_def)
  have "scope_ok (sv_scope sample_service)"
    by (auto simp: scope_ok_def sample_service_def held_scope_def newScope_def)
  then show ?thesis unfolding service_ok_def r
    by (auto simp: sample_service_def port_ok_def empty_port_def held_scope_def key_closer_def new_service_def
        broker_inv_new sample_key_def onionServiceKeySize_def sample_ports split: if_splits)
qed

lemma sample_live: "live_world (sample_world t)"
proof -
  have "{events_closer, key_closer} \<subseteq> sc_items (sv_scope sample_service)" "\<not> sv_closing sample_service" "sv_id sample_service = sample_onion"
    "sv_registration sample_service = 7"
    by (simp_all add: sample_service_def held_scope_def new_service_def)
  then show ?thesis using sample_service_ok sample_onion_valid
    by (simp add: live_world_def sample_world_def registered_def held_scope_def sample_driver_def)
qed

lemma sample_current: "currentMappingsLocked sample_service = [(80, ''127.0.0.1:9'')]"
  by (simp add: currentMappingsLocked_def sample_service_def empty_port_def)

lemma sample_fresh: "fresh_backing sample_senv sample_service"
  by (simp add: fresh_backing_def sample_senv_def sample_service_def held_scope_def key_closer_def newScope_def events_closer_def)

lemma service_line: "Value \<lparr>Code = 250, Lines = [''ServiceID='' @ i]\<rparr> ''ServiceID'' = Some i"
  by (simp add: Value_def HasPrefix_def CutPrefix_def)

abbreviation sample_ports_served :: "string option" where
  "sample_ports_served \<equiv> Some (port_words [(80, ''127.0.0.1:9'')])"

lemma onion_tor_documented:
  "documented_tor L (onion_tor L v) v (\<lambda>t. t) (\<lambda>m. length (port_words m) \<le> 100)"
  by (simp add: documented_tor_def accepts_def onion_tor_daemon onion_tor_add onion_tor_del service_line [simplified])

lemma sample_agrees: "agrees (\<lambda>t. t) (sample_world sample_ports_served)"
  by (simp add: agrees_def sample_current served_def) (simp add: sample_service_def)

lemma sample_port_words: "port_words [(80, ''127.0.0.1:9'')] = '' Port=80,127.0.0.1:9''"
  by code_simp

lemma sample_works:
  "tor_works L (onion_tor L sample_service) (\<lambda>t. t) (\<lambda>m. length (port_words m) \<le> 100) (sample_world sample_ports_served)"
  using sample_agrees by (simp add: tor_works_def onion_tor_documented sample_current sample_port_words)

theorem service_calls_return_witness:
  "Listen (\<lambda>n. n) (onion_tor (\<lambda>n. n) sample_service) sample_senv ''tcp'' '':443'' (sample_world sample_ports_served) \<noteq> None \<and>
   RemovePort (\<lambda>n. n) (onion_tor (\<lambda>n. n) sample_service) sample_senv 80 (sample_world sample_ports_served) \<noteq> None \<and>
   service_Drain (onion_tor (\<lambda>n. n) sample_service) sample_senv [AppCloses 5, DrainContext (Sentinel ContextCanceled)]
     (sample_world sample_ports_served) \<noteq> None \<and>
   service_Close (onion_tor (\<lambda>n. n) sample_service) sample_senv (sample_world None) = None"
proof -
  let ?ctl = "onion_tor (\<lambda>n. n) sample_service"
  have del: "\<exists>r t'. ?ctl (''DEL_ONION '' @ sv_id sample_service) sample_ports_served = (Inr r, t')"
    "\<nexists>r t'. ?ctl (''DEL_ONION '' @ sv_id sample_service) None = (Inr r, t')"
    using onion_tor_del [of "\<lambda>n. n" sample_service] by (simp_all add: del_command_def)
  have s: "sv_active sample_service" "\<not> sv_done sample_service" by (simp_all add: sample_service_def new_service_def)
  have w: "documented_tor (\<lambda>n. n) ?ctl (w_sv (sample_world sample_ports_served)) (\<lambda>t. t) (\<lambda>m. length (port_words m) \<le> 100) \<and>
      agrees (\<lambda>t. t) (sample_world sample_ports_served) \<and>
      (currentMappingsLocked (w_sv (sample_world sample_ports_served)) \<noteq> [] \<longrightarrow>
        length (port_words (currentMappingsLocked (w_sv (sample_world sample_ports_served)))) \<le> 100) \<and>
      fresh_backing sample_senv (w_sv (sample_world sample_ports_served))"
    using sample_works [of "\<lambda>n. n"] sample_fresh by (simp add: tor_works_def)
  note ret = service_calls_return [OF sample_live [of sample_ports_served], where ctl = ?ctl and env = sample_senv and L = "\<lambda>n. n"
      and evs = "[AppCloses 5]" and e = "Sentinel ContextCanceled"]
  have "Listen (\<lambda>n. n) ?ctl sample_senv ''tcp'' '':443'' (sample_world sample_ports_served) \<noteq> None \<and>
      RemovePort (\<lambda>n. n) ?ctl sample_senv 80 (sample_world sample_ports_served) \<noteq> None"
    using ret w by blast
  moreover have "service_Drain ?ctl sample_senv [AppCloses 5, DrainContext (Sentinel ContextCanceled)]
      (sample_world sample_ports_served) \<noteq> None"
    using ret del(1) by simp
  moreover have "service_Close ?ctl sample_senv (sample_world None) = None"
    using service_calls_return [OF sample_live [of None], where ctl = ?ctl and env = sample_senv] del(2) s
    unfolding sample_world_sel by blast
  ultimately show ?thesis by blast
qed

section \<open>Agreement\<close>

text \<open>
  C4. A service and Tor agree on the mapping after every call that returns, whatever Tor
  answers. If Tor serves exactly the ports of the service before \<^verbatim>\<open>Listen\<close> or \<^verbatim>\<open>RemovePort\<close>, then it
  does so afterwards. \<^verbatim>\<open>Listen\<close> fails and leaves the ports and the resources as they were, also
  when the new mapping was rejected and the old one restored, or it claims the port, whose
  listener is then the target that Tor has. \<^verbatim>\<open>RemovePort\<close> leaves everything or withdraws the port
  and closes exactly its listener, and after success Tor does not serve the port.
\<close>

theorem mapping_agreement:
  assumes "live_world w" "onion_daemon L ctl (w_sv w) view" "agrees view w" "fresh_backing env (w_sv w)"
  shows "(\<forall>res w'. Listen L ctl env nt address w = Some (res, w') \<longrightarrow> live_world w' \<and> agrees view w' \<and>
      (case res of
         Inl _ \<Rightarrow> unchanged w w'
       | Inr l \<Rightarrow> \<exists>b. ln_listener l = sp_listener b \<and> ln_generation l = sp_generation b \<and> sp_claimed b \<and>
           sp_listener b \<noteq> None \<and> map_of (sv_ports (w_sv w')) = (map_of (sv_ports (w_sv w)))(ln_port l \<mapsto> b))) \<and>
    (\<forall>e w'. RemovePort L ctl env port w = Some (e, w') \<longrightarrow> live_world w' \<and> agrees view w' \<and>
      (unchanged w w' \<or> removed port w w') \<and>
      (e = None \<longrightarrow> map_of (currentMappingsLocked (w_sv w')) port = None))"
  using Listen_spec [OF assms] removePort_spec [OF assms(1-3)] unfolding RemovePort_def by blast

theorem mapping_agreement_witness:
  "\<exists>e w'. RemovePort (\<lambda>n. n) (onion_tor (\<lambda>n. n) sample_service) sample_senv 80
       (sample_world sample_ports_served) = Some (e, w') \<and>
     agrees (\<lambda>t. t) w' \<and> (unchanged (sample_world sample_ports_served) w' \<or> removed 80 (sample_world sample_ports_served) w')"
proof -
  let ?w = "sample_world sample_ports_served"
  let ?ctl = "onion_tor (\<lambda>n. n) sample_service"
  have sv: "w_sv ?w = sample_service" by simp
  have d: "onion_daemon (\<lambda>n. n) ?ctl (w_sv ?w) (\<lambda>t. t)" unfolding sv by (rule onion_tor_daemon)
  have f: "fresh_backing sample_senv (w_sv ?w)" unfolding sv by (rule sample_fresh)
  have "RemovePort (\<lambda>n. n) ?ctl sample_senv 80 ?w \<noteq> None"
    unfolding RemovePort_def by (rule removePort_returns [OF sample_live sample_works])
  then obtain e w' where r: "RemovePort (\<lambda>n. n) ?ctl sample_senv 80 ?w = Some (e, w')" by auto
  from mapping_agreement [OF sample_live d sample_agrees f] r show ?thesis by blast
qed

section \<open>Calls that do not return\<close>

lemma del_fails_live:
  assumes "live_world w" "ctl (del_command (w_sv w)) (sy_tor (w_sys w)) = (Inl e, t)"
  shows "\<exists>w1. sv_command ctl (del_command (w_sv w)) w = (Inl e, w1) \<and> fail_closed ctl env err w1 = None"
proof -
  have "\<not> d_closed (sy_d (w_sys w))" using assms(1) by (simp add: live_world_def)
  from sv_command_open [where ctl = ctl, OF this assms(2)] show ?thesis
    using fail_closed_live [OF alike_command assms(1)] by blast
qed

text \<open>
  C27. A failed withdrawal stops the service for good. When Tor answers \<^verbatim>\<open>DEL_ONION\<close> with an error,
  the service closes the driver while it holds its own mutex, and the driver waits for the
  closer that clears the key, which waits for that mutex. So \<^verbatim>\<open>Close\<close> and \<^verbatim>\<open>Drain\<close> of an active
  service, and \<^verbatim>\<open>RemovePort\<close> of an open port, never return, instead of failing closed.
\<close>

theorem failed_withdrawal_hangs:
  assumes "live_world w" "sv_active (w_sv w)" "\<not> sv_done (w_sv w)" "ve_ctx env = None"
    and "ctl (del_command (w_sv w)) (sy_tor (w_sys w)) = (Inl e, t)"
    and "map_of (sv_ports (w_sv w)) port = Some b" "sp_listener b \<noteq> None"
  shows "service_Close ctl env w = None \<and> service_Drain ctl env evs w = None \<and> RemovePort L ctl env port w = None"
proof -
  have "close_begin ctl env w = None" by (rule closing_stuck [where ctl = ctl, OF assms(1,2,5)])
  then have c: "service_close ctl env drain evs w = None" for drain evs by (simp add: service_close_def)
  obtain w1 where "sv_command ctl (del_command (w_sv w)) w = (Inl e, w1)" "fail_closed ctl env (Some e) w1 = None"
    using del_fails_live [where ctl = ctl, OF assms(1,5)] by blast
  then have "replaceMappingsLocked L ctl env m w = None" for m
    using assms(2) by (simp add: replaceMappingsLocked_def)
  then have "RemovePort L ctl env port w = None"
    using assms(1,4,6,7) live_world_open(2) [OF assms(1)] by (auto simp: RemovePort_def removePort_def live_world_def)
  with c assms(3) show ?thesis by (simp add: service_Close_def service_Drain_def close_once_def)
qed

theorem failed_withdrawal_hangs_witness:
  "service_Close (\<lambda>cmd t. (Inl (ControlError 552), t)) sample_senv (sample_world ()) = None"
proof -
  have s: "sv_active sample_service" "\<not> sv_done sample_service" "ve_ctx sample_senv = None"
    "map_of (sv_ports sample_service) 80 =
      Some \<lparr>sp_listener = Some ''127.0.0.1:9'', sp_resource = Some 3, sp_claimed = False, sp_generation = 1\<rparr>"
    by (simp_all add: sample_service_def new_service_def sample_senv_def)
  show ?thesis
    by (rule failed_withdrawal_hangs [where ctl = "\<lambda>cmd t. (Inl (ControlError 552), t)" and env = sample_senv and port = 80
          and b = "\<lparr>sp_listener = Some ''127.0.0.1:9'', sp_resource = Some 3, sp_claimed = False, sp_generation = 1\<rparr>", OF sample_live, THEN conjunct1]) (use s in simp_all)
qed

section \<open>Publication\<close>

lemma add_mappings_publication:
  assumes "add_mappings L ctl m w = (err, w')"
  shows "sv_publication (w_sv w') = sv_publication (w_sv w)"
proof -
  obtain r s where c: "command ctl (addOnion_command L False m (w_sv w)) (w_sys w) = (r, s)" by fastforce
  have "applyAddReply x g i v = (err, v') \<Longrightarrow> sv_publication v' = sv_publication v" for x g i v err v'
    by (auto simp: applyAddReply_def split: option.splits if_splits sum.splits)
  with assms c show ?thesis
    by (fastforce simp: add_mappings_def addOnion_def sv_command_def split: sum.splits prod.splits option.splits)
qed

lemma published_kept:
  "pub_state (sv_publication (w_sv w)) = PublicationPublished \<Longrightarrow>
    sv_publication (w_sv (resetPublication w)) = sv_publication (w_sv w)"
  by (simp add: resetPublication_def on_service_def on_sys_def handlePublication_def)

lemma install_publication:
  assumes "install_mappings L ctl env wasActive old desired w = Some (err, w')" "live_world w"
  shows "alike w w' \<and> sv_publication (w_sv w') = sv_publication (w_sv w)"
proof -
  have o: "\<not> d_closed (sy_d (w_sys w))" using assms(2) by (simp add: live_world_def)
  obtain e1 w1 where a1: "add_mappings L ctl desired w = (e1, w1)" by fastforce
  have k1: "alike w w1" by (rule add_mappings_spec [OF a1 o live_world_open(3) [OF assms(2)]])
  have o1: "\<not> d_closed (sy_d (w_sys w1))" "sv_id (w_sv w1) \<noteq> []" using o live_world_open(3) [OF assms(2)] alike_sel [OF k1] by simp_all
  obtain e2 w2 where a2: "add_mappings L ctl old w1 = (e2, w2)" by fastforce
  have k2: "alike w w2" by (rule alike_trans [OF k1]) (rule add_mappings_spec [OF a2 o1])
  have "w' = w1 \<or> w' = w2"
    using assms(1) a1 a2 fail_closed_live [OF k1 assms(2)] fail_closed_live [OF k2 assms(2)]
    by (auto simp: install_mappings_def split: option.splits if_splits)
  then show ?thesis using add_mappings_publication [OF a1] add_mappings_publication [OF a2] k1 k2 by auto
qed

lemma replace_publication:
  assumes "replaceMappingsLocked L ctl env desired w = Some (err, w')" "live_world w"
    and "pub_state (sv_publication (w_sv w)) = PublicationPublished"
  shows "alike w w' \<and> sv_publication (w_sv w') = sv_publication (w_sv w)"
proof -
  have remap: "alike x y \<and> sv_publication (w_sv y) = sv_publication (w_sv x)"
    if "remap L ctl env a old desired x = Some (err, y)" "live_world x"
      "pub_state (sv_publication (w_sv x)) = PublicationPublished" for a old x y
    using that install_publication [OF _ alike_live [OF alike_reset that(2)]] published_kept [OF that(3)]
    by (auto simp: remap_def split: if_splits intro: alike_trans [OF alike_reset] alike_reset)
  show ?thesis
  proof (cases "sv_active (w_sv w)")
    case False
    then show ?thesis using remap [OF _ assms(2,3)] assms(1) by (simp add: replaceMappingsLocked_def)
  next
    case True
    obtain r t where rt: "ctl (del_command (w_sv w)) (sy_tor (w_sys w)) = (r, t)" by fastforce
    define w1 where "w1 = w\<lparr>w_sys := (w_sys w)\<lparr>sy_tor := t, sy_effects := sy_effects (w_sys w) @ [Command (del_command (w_sv w))]\<rparr>\<rparr>"
    have c: "sv_command ctl (del_command (w_sv w)) w = (r, w1)"
      unfolding w1_def using assms(2) by (intro sv_command_open [where ctl = ctl, OF _ rt]) (simp add: live_world_def)
    have k: "alike w w1" "sv_publication (w_sv w1) = sv_publication (w_sv w)"
      unfolding w1_def by (rule alike_command, simp, simp)
    let ?w2 = "on_service (\<lambda>v. v\<lparr>sv_active := False\<rparr>) w1"
    have live: "live_world ?w2" by (rule alike_live [OF alike_trans [OF k(1) alike_active] assms(2)])
    have p: "sv_publication (w_sv ?w2) = sv_publication (w_sv w)" using k(2) by (simp add: on_service_def)
    show ?thesis
    proof (cases r)
      case (Inl e)
      then show ?thesis using assms(1) True c fail_closed_live [OF k(1) assms(2)] by (simp add: replaceMappingsLocked_def)
    next
      case (Inr x)
      then have "remap L ctl env True (currentMappingsLocked (w_sv w)) desired ?w2 = Some (err, w')"
        using assms(1) True c by (simp add: replaceMappingsLocked_def)
      from remap [OF this live] p assms(3) show ?thesis
        by (auto intro: alike_trans [OF alike_trans [OF k(1) alike_active]])
    qed
  qed
qed

text \<open>
  C28. A change of the mapping does not start the wait for its publication anew. When the old
  mapping had been published, replacing it leaves the service published, because the reset
  to pending is ignored like every event after an upload. So \<^verbatim>\<open>WaitPublished\<close>, which is to wait for
  an upload of the current mapping, returns at once, before Tor uploaded anything for it.
\<close>

theorem republication_not_awaited:
  assumes "replaceMappingsLocked L ctl env desired w = Some (err, w')" "live_world w"
    and "pub_state (sv_publication (w_sv w)) = PublicationPublished"
  shows "pub_state (sv_publication (w_sv w')) = PublicationPublished \<and> WaitPublished ((w_sv w', why) # turns) = Some None"
proof -
  have "\<not> sv_closing (w_sv w')"
    using replace_publication [OF assms] alike_sel(6) [of w w'] assms(2) by (simp add: live_world_def)
  then show ?thesis using replace_publication [OF assms] assms(3) by simp
qed

theorem republication_not_awaited_witness:
  "\<exists>err w'. replaceMappingsLocked (\<lambda>n. n) (onion_tor (\<lambda>n. n) sample_service) sample_senv [(443, ''127.0.0.1:8'')]
       (on_service (\<lambda>v. v\<lparr>sv_publication := PublicationEvent PublicationPublished []\<rparr>) (sample_world sample_ports_served)) = Some (err, w') \<and>
     WaitPublished [(w_sv w', WakeChanged)] = Some None"
proof -
  let ?w = "on_service (\<lambda>v. v\<lparr>sv_publication := PublicationEvent PublicationPublished []\<rparr>) (sample_world sample_ports_served)"
  let ?ctl = "onion_tor (\<lambda>n. n) sample_service"
  have k: "alike (sample_world sample_ports_served) ?w"
    by (rule alikeI [where ds = "d_descriptors sample_driver" and a = "sv_active sample_service" and
          p = "PublicationEvent PublicationPublished []" and ev = "sv_events sample_service"])
       (simp_all add: on_service_def sample_world_def)
  have live: "live_world ?w" by (rule alike_live [OF k sample_live])
  have co: "tor_works (\<lambda>n. n) ?ctl (\<lambda>t. t) (\<lambda>m. length (port_words m) \<le> 100) ?w"
    using sample_works [of "\<lambda>n. n"] documented_alike [OF k, where L = "\<lambda>n. n" and ctl = ?ctl] alike_sel(12) [OF k]
    by (simp add: tor_works_def agrees_def on_service_def)
  have "mapping_ok [(443, ''127.0.0.1:8'')]" by (simp add: mapping_ok_def sample_ports)
  from replace_returns [OF live co this, of sample_senv] obtain err w'
    where r: "replaceMappingsLocked (\<lambda>n. n) ?ctl sample_senv [(443, ''127.0.0.1:8'')] ?w = Some (err, w')" by auto
  have p: "pub_state (sv_publication (w_sv ?w)) = PublicationPublished" by (simp add: on_service_def)
  from republication_not_awaited [OF r live p] r show ?thesis by blast
qed

end
