(* ===== verification/Tor_Service_End.thy ===== *)
theory Tor_Service_End
  imports Tor_Service_Calls
begin

text \<open>
  The end of a service: closing and draining release everything the service holds, in the
  service and in the driver, also when the driver closes first.
\<close>

section \<open>Closing the scope\<close>

text \<open>The service without what the closers change.\<close>

definition rest_of :: "service \<Rightarrow> service" where
  "rest_of v = v\<lparr>sv_scope := newScope, sv_key := [], sv_events := newEventBroker, sv_accepted := []\<rparr>"

lemma rest_sel:
  assumes "rest_of v' = rest_of v"
  shows "sv_ports v' = sv_ports v" "sv_id v' = sv_id v" "sv_registration v' = sv_registration v"
    "sv_keyName v' = sv_keyName v" "sv_active v' = sv_active v" "sv_closing v' = sv_closing v"
    "sv_accepting v' = sv_accepting v" "sv_stopping v' = sv_stopping v" "sv_done v' = sv_done v" "sv_cfg v' = sv_cfg v"
  using assms by (cases v; cases v'; simp add: rest_of_def)+

lemma rest_scope [simp]: "rest_of (v\<lparr>sv_scope := sc\<rparr>) = rest_of v"
  by (simp add: rest_of_def)

text \<open>What the closers of a list of resources do to the service.\<close>

lemma closers_effect:
  assumes "v' = fold closer_effect rs v"
  shows "sv_accepted v' = filter (\<lambda>c. c \<notin> set rs - {events_closer, key_closer}) (sv_accepted v) \<and>
    sv_key v' = (if key_closer \<in> set rs then replicate (length (sv_key v)) 0 else sv_key v) \<and>
    (broker_inv (sv_events v) \<longrightarrow> broker_inv (sv_events v') \<and>
      (br_closed (sv_events v) \<or> events_closer \<in> set rs \<longrightarrow> br_closed (sv_events v'))) \<and>
    sv_scope v' = sv_scope v \<and> rest_of v' = rest_of v"
  using assms
proof (induction rs arbitrary: v)
  case (Cons r rs)
  let ?u = "closer_effect r v"
  have u: "v' = fold closer_effect rs ?u" using Cons.prems by simp
  have ek: "events_closer \<noteq> key_closer" by (simp add: events_closer_def key_closer_def)
  have acc: "sv_accepted ?u = (if r \<in> {events_closer, key_closer} then sv_accepted v else filter (\<lambda>c. c \<noteq> r) (sv_accepted v))"
    and key: "sv_key ?u = (if r = key_closer then replicate (length (sv_key v)) 0 else sv_key v)"
    using ek by (auto simp: closer_effect_def closeRaw_def clearKey_def removeAll_filter_not_eq neq_commute)
  have frame: "sv_scope ?u = sv_scope v \<and> rest_of ?u = rest_of v"
    by (simp add: closer_effect_def closeRaw_def clearKey_def rest_of_def)
  have ev: "broker_inv (sv_events v) \<Longrightarrow> broker_inv (sv_events ?u) \<and>
      (br_closed (sv_events v) \<or> r = events_closer \<longrightarrow> br_closed (sv_events ?u))"
    using broker_closes [of "sv_events v"] by (auto simp: closer_effect_def closeRaw_def clearKey_def)
  note IH = Cons.IH [OF u]
  have "sv_accepted v' = filter (\<lambda>c. c \<notin> set (r # rs) - {events_closer, key_closer}) (sv_accepted v)"
    unfolding conjunct1 [OF IH] acc by (auto intro!: filter_cong)
  then show ?case using IH key ev frame by auto
qed simp

text \<open>What has to be released: the key is registered or cleared, the events are registered or
  closed.\<close>

definition wiped :: "service \<Rightarrow> bool" where
  "wiped v \<longleftrightarrow> set (sv_key v) \<subseteq> {0} \<and> br_closed (sv_events v)"

definition wipeable :: "service \<Rightarrow> bool" where
  "wipeable v \<longleftrightarrow> (key_closer \<in> sc_items (sv_scope v) \<or> set (sv_key v) \<subseteq> {0}) \<and>
    (events_closer \<in> sc_items (sv_scope v) \<or> br_closed (sv_events v))"

lemma scope_shut_spec:
  assumes "scope_shut cr v = (err, v')" "service_ok v"
  shows "service_ok v' \<and> sc_closed (sv_scope v') \<and> sc_items (sv_scope v') = {} \<and> sv_accepted v' = [] \<and>
    (wipeable v \<longrightarrow> wiped v') \<and>
    sc_items (sv_scope v) \<subseteq> set (sc_log (sv_scope v')) \<and>
    rest_of v' = rest_of v"
proof -
  let ?s = "sv_scope v" and ?rs = "items_list (sv_scope v)"
  note so = service_okD(1) [OF assms(2)]
  obtain e sc where c: "scope_close cr ?rs ?s = (e, sc)" by fastforce
  note rs = items_list [OF so]
  note cs = scope_close_spec [OF so conjunct1 [OF rs] conjunct2 [OF rs] c]
  let ?u = "v\<lparr>sv_scope := sc\<rparr>"
  have v': "v' = fold closer_effect ?rs ?u" using assms(1) c by (simp add: scope_shut_def)
  note ce = closers_effect [OF v']
  have acc: "\<forall>c \<in> set (sv_accepted v). key_closer < c \<and> c \<in> sc_items ?s" using assms(2) by (simp add: service_ok_def)
  have "sv_accepted v' = filter (\<lambda>c. c \<notin> sc_items ?s - {events_closer, key_closer}) (sv_accepted v)"
    using ce rs by simp
  also have "\<dots> = []" using acc by (auto simp: filter_empty_conv events_closer_def key_closer_def)
  finally have a': "sv_accepted v' = []" .
  have rest: "rest_of v' = rest_of v" using ce by simp
  have scope': "sv_scope v' = sc" "sv_ports v' = sv_ports v" using ce rest_sel(1) [OF rest] by simp_all
  have phase: "sc_phase ?s r \<noteq> RNone \<Longrightarrow> sc_phase sc r \<noteq> RNone" for r
  proof -
    assume "sc_phase ?s r \<noteq> RNone"
    then have "r \<in> sc_items ?s \<or> r \<in> set (sc_log ?s)"
      using so by (cases "sc_phase ?s r") (auto simp: scope_ok_def)
    then have "r \<in> set (sc_log sc)" using cs rs by auto
    moreover have "set (sc_log sc) = {r. \<exists>e. sc_phase sc r = RClosed e}"
      using conjunct1 [OF cs] unfolding scope_ok_def by blast
    ultimately show ?thesis by auto
  qed
  have w: "wipeable v \<longrightarrow> wiped v'"
    using ce rs service_okD(4) [OF assms(2)] by (auto simp: wiped_def wipeable_def set_replicate_conv_if)
  have len: "length (sv_key v') = length (sv_key v)" using ce by simp
  have "broker_inv (sv_events v')" using ce service_okD(4) [OF assms(2)] by simp
  then have "service_ok v'"
    using assms(2) cs a' scope' phase len by (auto simp: service_ok_def port_resource_def)
  then show ?thesis using rest cs a' w scope'(1) rs by auto
qed

section \<open>The service and its owner\<close>

text \<open>A driver whose scope still holds the service leaves its scope open; otherwise the scope
  was closed and holds no connection.\<close>

definition owned :: "'t world \<Rightarrow> bool" where
  "owned w \<longleftrightarrow> driver_inv (sy_d (w_sys w)) \<and> service_ok (w_sv w) \<and>
    (registered w \<longleftrightarrow> \<not> sc_closed (sv_scope (w_sv w))) \<and> (\<not> registered w \<longrightarrow> sv_accepted (w_sv w) = [])"

text \<open>A service that is ending: what has to be wiped is registered, or was wiped.\<close>

definition ending :: "'t world \<Rightarrow> bool" where
  "ending w \<longleftrightarrow> owned w \<and> wipeable (w_sv w) \<and> (\<not> registered w \<longrightarrow> wiped (w_sv w))"

lemma wiped_wipeable: "wiped v \<Longrightarrow> wipeable v"
  by (simp add: wiped_def wipeable_def)

lemma live_ending:
  assumes "live_world w" "driver_inv (sy_d (w_sys w))"
  shows "ending w"
  using assms live_world_open(1) [OF assms(1)] by (auto simp: ending_def owned_def live_world_def wipeable_def)

text \<open>The fields of the service that only its own operations change.\<close>

definition own_part :: "service \<Rightarrow> service" where
  "own_part v = rest_of (v\<lparr>sv_accepting := 0\<rparr>)"

lemma own_sel:
  assumes "own_part v' = own_part v"
  shows "sv_ports v' = sv_ports v" "sv_id v' = sv_id v" "sv_registration v' = sv_registration v"
    "sv_keyName v' = sv_keyName v" "sv_active v' = sv_active v" "sv_closing v' = sv_closing v"
    "sv_stopping v' = sv_stopping v" "sv_done v' = sv_done v"
  using assms by (cases v; cases v'; simp add: own_part_def rest_of_def)+

lemma rest_own: "rest_of v' = rest_of v \<Longrightarrow> own_part v' = own_part v"
  by (cases v; cases v'; simp add: own_part_def rest_of_def)

text \<open>The end of the registration: the scope of the service was closed.\<close>

definition let_go :: "close_results \<Rightarrow> 't world \<Rightarrow> 't world \<Rightarrow> bool" where
  "let_go cr w w' \<longleftrightarrow> registered w \<and> (\<exists>err. scope_shut cr (w_sv w) = (err, w_sv w')) \<and> driver_inv (sy_d (w_sys w')) \<and>
    sv_registration (w_sv w) \<notin> sc_items (d_resources (sy_d (w_sys w')))"

lemma let_go_owned:
  assumes "let_go cr w w'" "owned w"
  shows "owned w' \<and> \<not> registered w' \<and> own_part (w_sv w') = own_part (w_sv w) \<and> (wipeable (w_sv w) \<longrightarrow> wiped (w_sv w'))"
proof -
  obtain err where sh: "scope_shut cr (w_sv w) = (err, w_sv w')" using assms(1) by (auto simp: let_go_def)
  have "service_ok (w_sv w)" using assms(2) by (simp add: owned_def)
  note sp = scope_shut_spec [OF sh this]
  then have own: "own_part (w_sv w') = own_part (w_sv w)" using rest_own by blast
  have "scope_ok (d_resources (sy_d (w_sys w')))" using assms(1) by (simp add: let_go_def driver_inv_def)
  then have "\<not> registered w'" using assms(1) own_sel(3) [OF own] by (simp add: let_go_def registered_def scope_ok_def)
  then show ?thesis using sp own assms(1) by (simp add: owned_def let_go_def)
qed

lemma let_go_ending:
  assumes "let_go cr w w'" "ending w"
  shows "ending w' \<and> \<not> registered w' \<and> own_part (w_sv w') = own_part (w_sv w)"
  using let_go_owned [OF assms(1)] assms(2) wiped_wipeable by (auto simp: ending_def)

lemma driver_closed:
  assumes "driver_inv (sy_d s)" "\<not> d_done (sy_d s)" "s' = snd (driver_Close ctl cenv s)"
  shows "driver_inv (sy_d s')" "sc_items (d_resources (sy_d s')) = {}"
proof -
  have "s' = close_run ctl cenv s" using assms(2,3) by (simp add: driver_Close_def Let_def)
  from close_run_spec(1,2) [OF assms(1) this] show "driver_inv (sy_d s')" "sc_items (d_resources (sy_d s')) = {}"
    by (simp_all add: shut_down_def)
qed

lemma close_driver_cases:
  assumes "owned w" "w' = close_driver ctl env w"
  obtains "let_go (ve_close env) w w'"
    | "w_sv w' = w_sv w" "registered w' = registered w" "driver_inv (sy_d (w_sys w'))"
proof (cases "d_done (sy_d (w_sys w))")
  case True
  then show thesis using assms that(2) by (simp add: close_driver_def owned_def)
next
  case nd: False
  have dinv: "driver_inv (sy_d (w_sys w))" using assms(1) by (simp add: owned_def)
  show thesis
  proof (cases "registered w")
    case False
    let ?s = "snd (driver_Close ctl (ve_driver env) (w_sys w))"
    note dc = driver_closed [OF dinv nd refl, of ctl "ve_driver env"]
    have w': "w' = w\<lparr>w_sys := ?s\<rparr>" using nd False assms(2) by (simp add: close_driver_def on_sys_def)
    have "scope_ok (d_resources (sy_d ?s))" using dc(1) by (simp add: driver_inv_def)
    then have "\<not> registered w'" using dc(2) w' by (simp add: registered_def scope_ok_def)
    then show thesis using that(2) False dc(1) w' by simp
  next
    case True
    obtain err v where sh: "scope_shut (ve_close env) (w_sv w) = (err, v)" by fastforce
    let ?c = "(ve_driver env)\<lparr>ce_resources := (ce_resources (ve_driver env))(sv_registration v := err)\<rparr>"
    have w': "w' = \<lparr>w_sys = snd (driver_Close ctl ?c (w_sys w)), w_sv = v\<rparr>"
      using nd True sh assms(2) by (simp add: close_driver_def Let_def)
    note dc = driver_closed [OF dinv nd refl, of ctl ?c]
    have "let_go (ve_close env) w w'" using True sh dc w' by (simp add: let_go_def)
    then show thesis by (rule that(1))
  qed
qed

lemma close_driver_owned:
  assumes "owned w"
  shows "owned (close_driver ctl env w) \<and> own_part (w_sv (close_driver ctl env w)) = own_part (w_sv w)"
proof (rule close_driver_cases [OF assms refl, where ctl = ctl and env = env])
  assume "let_go (ve_close env) w (close_driver ctl env w)"
  from let_go_owned [OF this assms] show ?thesis by blast
qed (use assms in \<open>simp add: owned_def\<close>)

lemma close_driver_ending:
  assumes "ending w"
  shows "ending (close_driver ctl env w) \<and> own_part (w_sv (close_driver ctl env w)) = own_part (w_sv w)"
proof -
  have "owned w" using assms by (simp add: ending_def)
  then show ?thesis
  proof (rule close_driver_cases [OF _ refl, where ctl = ctl and env = env])
    assume "let_go (ve_close env) w (close_driver ctl env w)"
    from let_go_ending [OF this assms] show ?thesis by blast
  qed (use assms in \<open>simp add: ending_def owned_def\<close>)
qed

lemma conn_close_ending:
  assumes "ending w" "c \<in> set (sv_accepted (w_sv w)) \<or> c \<notin> sc_items (sv_scope (w_sv w))"
  shows "ending (on_service (\<lambda>v. snd (serviceConn_Close cr c v)) w) \<and>
    own_part (snd (serviceConn_Close cr c (w_sv w))) = own_part (w_sv w)"
proof -
  let ?v = "w_sv w" and ?v' = "snd (serviceConn_Close cr c (w_sv w))"
  have ok: "service_ok ?v" using assms(1) by (simp add: ending_def owned_def)
  note so = service_okD(1) [OF ok]
  show ?thesis
  proof (cases "c \<in> sc_items (sv_scope ?v)")
    case False
    then have "sc_phase (sv_scope ?v) c \<noteq> ROpen" using so by (simp add: scope_ok_def)
    then have "?v' = ?v" by (simp add: serviceConn_Close_def split: prod.split)
    then show ?thesis using assms(1) by (simp add: on_service_def)
  next
    case True
    then have acc: "c \<in> set (sv_accepted ?v)" using assms(2) by blast
    then have key: "key_closer < c" "\<forall>q. port_resource ?v q \<noteq> Some c" using ok by (auto simp: service_ok_def)
    have ph: "sc_phase (sv_scope ?v) c = ROpen" using True so by (simp add: scope_ok_def)
    obtain e sc where rc: "resource_close cr c (sv_scope ?v) = (e, sc)" by fastforce
    let ?u = "?v\<lparr>sv_accepted := removeAll c (sv_accepted ?v)\<rparr>"
    have v': "?v' = snd (close_resource \<lparr>ve_driver = undefined, ve_close = cr, ve_ctx = None, ve_listen = undefined\<rparr> c ?u)"
      using rc ph by (simp add: serviceConn_Close_def close_resource_def closeRaw_def)
    have "service_ok ?u" using ok by (auto simp: service_ok_def port_resource_def distinct_removeAll)
    from service_ok_release [OF this] key(2) v' have ok': "service_ok ?v'" by (simp add: port_resource_def)
    note rel = release_spec [OF so, where cr = cr and r = c, unfolded rc snd_conv]
    have eq: "?v' = ?u\<lparr>sv_scope := sc\<rparr>" using rc ph by (simp add: serviceConn_Close_def closeRaw_def)
    have ne: "c \<noteq> key_closer" "c \<noteq> events_closer" using key(1) by (auto simp: key_closer_def events_closer_def)
    have "wipeable ?v'" using assms(1) rel(2) ne unfolding eq by (auto simp: ending_def wipeable_def)
    moreover have "registered w" using assms(1) acc by (auto simp: ending_def owned_def)
    ultimately have "ending (on_service (\<lambda>v. snd (serviceConn_Close cr c v)) w)"
      using assms(1) ok' rel(3) unfolding on_service_def eq by (auto simp: ending_def owned_def registered_def)
    moreover have "own_part ?v' = own_part ?v" unfolding eq by (simp add: own_part_def rest_of_def)
    ultimately show ?thesis by blast
  qed
qed

section \<open>Draining\<close>

text \<open>The connections that the application may close are accepted or were closed.\<close>

definition known_conns :: "nat set \<Rightarrow> service \<Rightarrow> bool" where
  "known_conns C v \<longleftrightarrow> (\<forall>c \<in> C. c \<in> set (sv_accepted v) \<or> c \<notin> sc_items (sv_scope v))"

lemma conn_close_items:
  assumes "service_ok v" "v' = snd (serviceConn_Close cr c v)"
  shows "sc_items (sv_scope v') = sc_items (sv_scope v) - {c}" "set (sv_accepted v) - {c} \<subseteq> set (sv_accepted v')"
proof -
  obtain e sc where rc: "resource_close cr c (sv_scope v) = (e, sc)" by fastforce
  note rel = release_spec(2) [OF service_okD(1) [OF assms(1)], of cr c]
  have "c \<in> sc_items (sv_scope v) \<longleftrightarrow> sc_phase (sv_scope v) c = ROpen"
    using service_okD(1) [OF assms(1)] by (simp add: scope_ok_def)
  then show "sc_items (sv_scope v') = sc_items (sv_scope v) - {c}" "set (sv_accepted v) - {c} \<subseteq> set (sv_accepted v')"
    using assms(2) rel rc by (auto simp: serviceConn_Close_def closeRaw_def)
qed

lemma close_driver_conns:
  assumes "ending w" "known_conns C (w_sv w)"
  shows "known_conns C (w_sv (close_driver ctl env w))"
proof -
  have o: "owned w" using assms(1) by (simp add: ending_def)
  then show ?thesis
  proof (rule close_driver_cases [OF _ refl, where ctl = ctl and env = env])
    assume l: "let_go (ve_close env) w (close_driver ctl env w)"
    then obtain err where "scope_shut (ve_close env) (w_sv w) = (err, w_sv (close_driver ctl env w))"
      by (auto simp: let_go_def)
    from scope_shut_spec [OF this] o show ?thesis by (simp add: owned_def known_conns_def)
  qed (use assms in simp)
qed

lemma drain_effect_ending:
  assumes "ending w" "known_conns C (w_sv w)" "\<forall>c. ev = AppCloses c \<longrightarrow> c \<in> C" "w' = drain_effect ctl env ev w"
  shows "ending w' \<and> known_conns C (w_sv w') \<and> own_part (w_sv w') = own_part (w_sv w)"
proof (cases ev)
  case (AppCloses c)
  let ?v' = "snd (serviceConn_Close (ve_close env) c (w_sv w))"
  have ok: "service_ok (w_sv w)" using assms(1) by (simp add: ending_def owned_def)
  have c: "c \<in> set (sv_accepted (w_sv w)) \<or> c \<notin> sc_items (sv_scope (w_sv w))"
    using assms(2,3) AppCloses by (simp add: known_conns_def)
  have w': "w' = on_service (\<lambda>v. snd (serviceConn_Close (ve_close env) c v)) w" "w_sv w' = ?v'"
    using assms(4) AppCloses by (simp_all add: drain_effect_def on_service_def)
  have "known_conns C ?v'" using assms(2) conn_close_items [OF ok refl, where cr = "ve_close env" and c = c] by (auto simp: known_conns_def)
  then show ?thesis using conn_close_ending [OF assms(1) c, of "ve_close env"] w' by simp
next
  case AcceptFails
  then have "w_sv w' = (w_sv w)\<lparr>sv_accepting := sv_accepting (w_sv w) - 1\<rparr>" "w_sys w' = w_sys w"
    using assms(4) by (simp_all add: drain_effect_def on_service_def accept_leave_def)
  then show ?thesis using assms(1,2)
    by (auto simp: ending_def owned_def registered_def wipeable_def wiped_def known_conns_def own_part_def)
next
  case DriverCloses
  then show ?thesis
    using assms(4) close_driver_ending [OF assms(1), of ctl env] close_driver_conns [OF assms(1,2), of ctl env]
    by (simp add: drain_effect_def)
qed (use assms in \<open>simp add: drain_effect_def\<close>)

text \<open>What Tor was sent meanwhile: nothing, unless the driver was closed.\<close>

definition sent_later :: "bool \<Rightarrow> 't world \<Rightarrow> 't world \<Rightarrow> bool" where
  "sent_later closes w w' \<longleftrightarrow> (\<exists>extra. sy_effects (w_sys w') = sy_effects (w_sys w) @ extra) \<and>
    (\<not> closes \<longrightarrow> sy_effects (w_sys w') = sy_effects (w_sys w) \<and> sy_tor (w_sys w') = sy_tor (w_sys w))"

lemma sent_later_refl: "sent_later c w w"
  by (simp add: sent_later_def)

lemma sent_later_trans: "sent_later c w w1 \<Longrightarrow> sent_later d w1 w2 \<Longrightarrow> sent_later (c \<or> d) w w2"
  by (auto simp: sent_later_def)

lemma driver_Close_effects:
  assumes "driver_inv (sy_d s)"
  shows "\<exists>extra. sy_effects (snd (driver_Close ctl cenv s)) = sy_effects s @ extra"
  using close_run_spec(3) [OF assms refl] by (auto simp: driver_Close_def Let_def)

lemma drain_effect_sent:
  assumes "driver_inv (sy_d (w_sys w))"
  shows "sent_later (DriverCloses = ev) w (drain_effect ctl env ev w)"
proof (cases "DriverCloses = ev")
  case True
  have "\<exists>extra. sy_effects (w_sys (close_driver ctl env w)) = sy_effects (w_sys w) @ extra"
    using driver_Close_effects [OF assms] by (auto simp: close_driver_def Let_def on_sys_def split: prod.splits)
  then show ?thesis by (simp add: sent_later_def drain_effect_def flip: True)
next
  case False
  then have "w_sys (drain_effect ctl env ev w) = w_sys w"
    by (cases ev) (simp_all add: drain_effect_def on_service_def)
  then show ?thesis by (simp add: sent_later_def)
qed

lemma waitAccepted_ending:
  assumes "waitAccepted ctl env evs w = Some (err, w')" "ending w" "known_conns C (w_sv w)"
    and "\<forall>c. AppCloses c \<in> set evs \<longrightarrow> c \<in> C"
  shows "ending w' \<and> own_part (w_sv w') = own_part (w_sv w) \<and>
    (err = None \<longrightarrow> sv_accepted (w_sv w') = [] \<and> sv_accepting (w_sv w') = 0) \<and> sent_later (DriverCloses \<in> set evs) w w'"
  using assms
proof (induction evs arbitrary: w)
  case Nil
  then show ?case by (subst (asm) waitAccepted.simps) (auto simp: sent_later_refl split: if_splits)
next
  case (Cons ev evs)
  show ?case
  proof (cases "sv_accepted (w_sv w) = [] \<and> sv_accepting (w_sv w) = 0")
    case True
    then show ?thesis using Cons.prems(1,2) by (subst (asm) waitAccepted.simps) (auto simp: sent_later_refl)
  next
    case False
    show ?thesis
    proof (cases "\<exists>e. ev = DrainContext e")
      case True
      then show ?thesis using Cons.prems(1,2) False by (subst (asm) waitAccepted.simps) (auto simp: sent_later_refl)
    next
      case nctx: False
      let ?w = "drain_effect ctl env ev w"
      have r: "waitAccepted ctl env evs ?w = Some (err, w')"
        using Cons.prems(1) False nctx by (subst (asm) waitAccepted.simps) (auto split: drain_event.splits)
      have "\<forall>c. ev = AppCloses c \<longrightarrow> c \<in> C" using Cons.prems(4) by simp
      note de = drain_effect_ending [OF Cons.prems(2,3) this refl, of ctl env]
      have "driver_inv (sy_d (w_sys w))" using Cons.prems(2) by (simp add: ending_def owned_def)
      from sent_later_trans [OF drain_effect_sent [OF this]] Cons.IH [OF r] de Cons.prems(4) show ?thesis by auto
    qed
  qed
qed

lemma drain_keeps_conns:
  assumes "waitAccepted ctl env evs w = Some (None, w')" "ending w" "known_conns C (w_sv w)"
    and "\<forall>c. AppCloses c \<in> set evs \<longrightarrow> c \<in> C" "DriverCloses \<notin> set evs"
  shows "set (sv_accepted (w_sv w)) \<subseteq> {c. AppCloses c \<in> set evs}"
  using assms
proof (induction evs arbitrary: w)
  case Nil
  then show ?case by (subst (asm) waitAccepted.simps) (auto split: if_splits)
next
  case (Cons ev evs)
  show ?case
  proof (cases "sv_accepted (w_sv w) = [] \<and> sv_accepting (w_sv w) = 0")
    case False
    let ?w = "drain_effect ctl env ev w"
    have nctx: "\<nexists>e. ev = DrainContext e" using Cons.prems(1) False by (subst (asm) waitAccepted.simps) auto
    then have r: "waitAccepted ctl env evs ?w = Some (None, w')"
      using Cons.prems(1) False by (subst (asm) waitAccepted.simps) (auto split: drain_event.splits)
    have "\<forall>c. ev = AppCloses c \<longrightarrow> c \<in> C" using Cons.prems(4) by simp
    note de = drain_effect_ending [OF Cons.prems(2,3) this refl, of ctl env]
    have IH: "set (sv_accepted (w_sv ?w)) \<subseteq> {c. AppCloses c \<in> set evs}"
      using Cons.IH [OF r] de Cons.prems(4,5) by simp
    have "service_ok (w_sv w)" using Cons.prems(2) by (simp add: ending_def owned_def)
    note cc = conn_close_items(2) [OF this refl]
    have "set (sv_accepted (w_sv w)) - {c. ev = AppCloses c} \<subseteq> set (sv_accepted (w_sv ?w))"
      using cc Cons.prems(5) by (cases ev) (auto simp: drain_effect_def on_service_def accept_leave_def)
    then show ?thesis using IH by auto
  qed simp
qed

section \<open>Releasing the ports\<close>

abbreviation released_port :: "service_port \<Rightarrow> service_port" where
  "released_port b \<equiv> \<lparr>sp_listener = None, sp_resource = None, sp_claimed = False, sp_generation = sp_generation b + 1\<rparr>"

text \<open>What releasing ports leaves alone.\<close>

definition port_frame :: "service \<Rightarrow> service" where
  "port_frame v = v\<lparr>sv_scope := newScope, sv_ports := []\<rparr>"

lemma port_frame_sel:
  assumes "port_frame v' = port_frame v"
  shows "sv_id v' = sv_id v" "sv_registration v' = sv_registration v" "sv_keyName v' = sv_keyName v" "sv_key v' = sv_key v"
    "sv_active v' = sv_active v" "sv_closing v' = sv_closing v" "sv_stopping v' = sv_stopping v" "sv_done v' = sv_done v"
    "sv_accepted v' = sv_accepted v" "sv_events v' = sv_events v"
  using assms by (cases v; cases v'; simp add: port_frame_def)+

lemma release_port_ok:
  assumes "service_ok v" "map_of (sv_ports v) p = Some b" "sp_resource b = Some r" "release_port env p b v = (e, v')"
  shows "service_ok v' \<and> map_of (sv_ports v') = (map_of (sv_ports v))(p \<mapsto> released_port b) \<and>
    sc_items (sv_scope v') = sc_items (sv_scope v) - {r} \<and> sc_closed (sv_scope v') = sc_closed (sv_scope v) \<and>
    port_frame v' = port_frame v \<and> key_closer < r"
proof -
  let ?u = "set_port p (released_port b) v"
  have pr: "port_resource v p = Some r" using assms(2,3) by (simp add: port_resource_def)
  then have r: "key_closer < r" "r \<notin> set (sv_accepted v)" "\<And>q. port_resource v q = Some r \<Longrightarrow> q = p"
    using assms(1) unfolding service_ok_def by blast+
  have "p \<noteq> 0" using assms(1,2) by (auto simp: service_ok_def)
  then have u: "service_ok ?u" by (rule service_ok_set_port [OF assms(1)]) (simp_all add: port_ok_def)
  have free: "\<forall>q. port_resource ?u q \<noteq> Some r" using r(3) by (auto simp: port_resource_def)
  have v': "v' = snd (close_resource env r ?u)"
    using assms(3,4) by (auto simp: release_port_def close_resource_def set_port_def split: prod.splits)
  have "service_ok v'" unfolding v' by (rule service_ok_release [OF u]) (use r(2) free in simp_all)
  moreover have "sc_items (sv_scope v') = sc_items (sv_scope v) - {r}" using close_resource_items [OF u] v' by simp
  moreover have "sc_closed (sv_scope v') = sc_closed (sv_scope v)"
    using release_spec(3) [OF service_okD(1) [OF assms(1)]] v' by (simp add: close_resource_def case_prod_beta)
  moreover have "port_frame v' = port_frame v"
    unfolding v' by (simp add: close_resource_def set_port_def port_frame_def split: prod.split)
  ultimately show ?thesis using r(1) v' by simp
qed

definition open_ports :: "(u16 \<times> service_port) list \<Rightarrow> u16 set" where
  "open_ports bs = {p. \<exists>b. (p, b) \<in> set bs \<and> sp_resource b \<noteq> None}"

lemma open_ports_Cons: "open_ports ((p, b) # bs) = (if sp_resource b = None then open_ports bs else insert p (open_ports bs))"
  by (auto simp: open_ports_def)

lemma release_ports_ok:
  assumes "release_ports env bs err v = (e, v')" "service_ok v" "distinct (map fst bs)"
    and "\<forall>(p, b) \<in> set bs. map_of (sv_ports v) p = Some b" "wipeable v"
  shows "service_ok v' \<and> wipeable v' \<and> sc_closed (sv_scope v') = sc_closed (sv_scope v) \<and> port_frame v' = port_frame v \<and>
    sc_items (sv_scope v') \<subseteq> sc_items (sv_scope v) \<and> dom (map_of (sv_ports v')) = dom (map_of (sv_ports v)) \<and>
    (\<forall>q. map_of (sv_ports v') q = map_of (sv_ports v) q \<and> q \<notin> open_ports bs \<or>
      (\<exists>b. map_of (sv_ports v') q = Some (released_port b)))"
  using assms
proof (induction env bs err v rule: release_ports.induct)
  case (2 env p b bs err v)
  show ?case
  proof (cases "sp_resource b")
    case None
    then show ?thesis using 2(1) "2.prems" by (simp add: open_ports_Cons)
  next
    case (Some r)
    obtain e1 v1 where rp: "release_port env p b v = (e1, v1)" by fastforce
    have pb: "map_of (sv_ports v) p = Some b" using "2.prems"(4) by simp
    note ro = release_port_ok [OF "2.prems"(2) pb Some rp]
    have fr: "port_frame v1 = port_frame v" using ro by blast
    have "r \<noteq> key_closer" "r \<noteq> events_closer" using ro by (auto simp: key_closer_def events_closer_def)
    then have "wipeable v1" using "2.prems"(5) ro port_frame_sel [OF fr] by (auto simp: wipeable_def)
    moreover have "\<forall>(q, c) \<in> set bs. map_of (sv_ports v1) q = Some c"
      using "2.prems"(3,4) ro by (force simp: image_iff)
    moreover have "release_ports env bs (errors_join [err, e1]) v1 = (e, v')" using "2.prems"(1) Some rp by simp
    ultimately have IH: "service_ok v' \<and> wipeable v' \<and> sc_closed (sv_scope v') = sc_closed (sv_scope v1) \<and> port_frame v' = port_frame v1 \<and>
      sc_items (sv_scope v') \<subseteq> sc_items (sv_scope v1) \<and> dom (map_of (sv_ports v')) = dom (map_of (sv_ports v1)) \<and>
      (\<forall>q. map_of (sv_ports v') q = map_of (sv_ports v1) q \<and> q \<notin> open_ports bs \<or>
        (\<exists>b. map_of (sv_ports v') q = Some (released_port b)))"
      using 2(2) [OF _ rp [symmetric]] Some ro "2.prems"(3) by (simp del: fun_upd_apply)
    moreover have "(map_of (sv_ports v') q = map_of (sv_ports v) q \<and> q \<notin> open_ports ((p, b) # bs)) \<or>
        (\<exists>b. map_of (sv_ports v') q = Some (released_port b))" for q
    proof -
      have "map_of (sv_ports v1) q = (if q = p then Some (released_port b) else map_of (sv_ports v) q)" using ro by simp
      moreover have "map_of (sv_ports v') q = map_of (sv_ports v1) q \<and> q \<notin> open_ports bs \<or>
          (\<exists>b. map_of (sv_ports v') q = Some (released_port b))" using IH by blast
      ultimately show ?thesis using Some by (auto simp: open_ports_Cons split: if_splits)
    qed
    moreover have "dom (map_of (sv_ports v1)) = dom (map_of (sv_ports v))" using ro pb by auto
    ultimately show ?thesis using ro fr by auto
  qed
qed (simp add: open_ports_def)

section \<open>Closing\<close>

text \<open>Tor was told to withdraw the service, and did.\<close>

definition delisted :: "'t ctl \<Rightarrow> 't world \<Rightarrow> 't world \<Rightarrow> bool" where
  "delisted ctl w w' \<longleftrightarrow>
    (\<exists>r. ctl (''DEL_ONION '' @ sv_id (w_sv w)) (sy_tor (w_sys w)) = (Inr r, sy_tor (w_sys w'))) \<and>
    sy_effects (w_sys w') = sy_effects (w_sys w) @ [Command (''DEL_ONION '' @ sv_id (w_sv w))]"

lemma close_withdraw_live:
  assumes "close_withdraw ctl env w = Some (err, w')" "self_wait w"
  shows "err = None \<and> w_sv w' = w_sv w \<and> sy_d (w_sys w') = sy_d (w_sys w) \<and>
    (if sv_active (w_sv w) \<and> \<not> d_closed (sy_d (w_sys w)) then delisted ctl w w' else w_sys w' = w_sys w)"
proof (cases "sv_active (w_sv w) \<and> \<not> d_closed (sy_d (w_sys w))")
  case False
  then show ?thesis using assms(1) by (auto simp: close_withdraw_def)
next
  case True
  obtain r t where c: "ctl (del_command (w_sv w)) (sy_tor (w_sys w)) = (r, t)" by fastforce
  let ?w1 = "w\<lparr>w_sys := (w_sys w)\<lparr>sy_tor := t, sy_effects := sy_effects (w_sys w) @ [Command (del_command (w_sv w))]\<rparr>\<rparr>"
  have "sv_command ctl (del_command (w_sv w)) w = (r, ?w1)" using True c by (intro sv_command_open) simp_all
  moreover have "self_wait ?w1" using assms(2) by (simp add: self_wait_def registered_def)
  ultimately show ?thesis using assms(1) True c self_wait_hangs [of ?w1 ctl env]
    by (cases r) (auto simp: close_withdraw_def delisted_def del_command_def)
qed

text \<open>A service whose ports were all released.\<close>

definition withdrawn :: "service \<Rightarrow> bool" where
  "withdrawn v \<longleftrightarrow> \<not> sv_active v \<and> sv_closing v \<and> sv_stopping v \<and>
    (\<forall>p b. map_of (sv_ports v) p = Some b \<longrightarrow> sp_listener b = None \<and> sp_resource b = None \<and> \<not> sp_claimed b)"

definition same_names :: "service \<Rightarrow> service \<Rightarrow> bool" where
  "same_names v v' \<longleftrightarrow> sv_id v' = sv_id v \<and> sv_registration v' = sv_registration v \<and> sv_keyName v' = sv_keyName v \<and>
    sv_done v' = sv_done v \<and> dom (map_of (sv_ports v')) = dom (map_of (sv_ports v))"

lemma close_begin_ending:
  assumes "close_begin ctl env w = Some (err, w1)" "live_world w" "driver_inv (sy_d (w_sys w))"
  shows "ending w1 \<and> withdrawn (w_sv w1) \<and> same_names (w_sv w) (w_sv w1) \<and> sv_accepted (w_sv w1) = sv_accepted (w_sv w) \<and>
    sy_d (w_sys w1) = sy_d (w_sys w) \<and> (if sv_active (w_sv w) then delisted ctl w w1 else w_sys w1 = w_sys w)"
proof -
  let ?w = "on_service (\<lambda>v. v\<lparr>sv_closing := True, sv_stopping := True\<rparr>) w"
  let ?v = "(w_sv w)\<lparr>sv_closing := True, sv_stopping := True, sv_active := False\<rparr>"
  have sw: "self_wait ?w" using live_self_wait [OF assms(2)] by (simp add: self_wait_def registered_def on_service_def)
  obtain e w0 where cw: "close_withdraw ctl env ?w = Some (e, w0)"
    using assms(1) by (auto simp: close_begin_def split: option.splits)
  note w0 = close_withdraw_live [OF cw sw]
  then have sv0: "(w_sv w0)\<lparr>sv_active := False\<rparr> = ?v" "sv_ports (w_sv w0) = sv_ports (w_sv w)" by (simp_all add: on_service_def)
  obtain v where rp: "release_ports env (sv_ports (w_sv w)) None ?v = (err, v)" "w1 = w0\<lparr>w_sv := v\<rparr>"
    using assms(1) cw w0 sv0 by (auto simp: close_begin_def split: prod.splits)
  have ok: "service_ok ?v" using assms(2) by (simp add: live_world_def service_ok_def port_resource_def)
  have dist: "distinct (map fst (sv_ports (w_sv w)))" using service_okD(2) [OF ok] by simp
  have wp: "wipeable ?v" using assms(2) by (simp add: live_world_def wipeable_def)
  have "\<forall>(p, b) \<in> set (sv_ports (w_sv w)). map_of (sv_ports ?v) p = Some b" using dist by auto
  note ro = release_ports_ok [OF rp(1) ok dist this wp]
  have fr: "port_frame v = port_frame ?v" using ro by blast
  note pf = port_frame_sel [OF fr]
  have "sp_listener b = None \<and> sp_resource b = None \<and> \<not> sp_claimed b" if "map_of (sv_ports v) p = Some b" for p b
  proof (cases "\<exists>b0. map_of (sv_ports v) p = Some (released_port b0)")
    case False
    moreover have "map_of (sv_ports v) p = map_of (sv_ports ?v) p \<and> p \<notin> open_ports (sv_ports (w_sv w)) \<or>
        (\<exists>b. map_of (sv_ports v) p = Some (released_port b))" using ro by blast
    ultimately have pb: "map_of (sv_ports (w_sv w)) p = Some b" "p \<notin> open_ports (sv_ports (w_sv w))"
      using that by auto
    then have "sp_resource b = None" using map_of_SomeD [OF pb(1)] by (auto simp: open_ports_def)
    moreover have "port_ok b" using service_okD(3) [OF ok] pb(1) by simp
    ultimately show ?thesis by (auto simp: port_ok_def)
  qed (use that in auto)
  moreover have "registered w" "\<not> sc_closed (sv_scope (w_sv w))"
    using assms(2) live_world_open(1) [OF assms(2)] by (simp_all add: live_world_def)
  then have "ending w1" using ro assms(3) w0 rp(2) pf by (simp add: ending_def owned_def registered_def on_service_def)
  moreover have "\<not> d_closed (sy_d (w_sys w))" using assms(2) by (simp add: live_world_def)
  then have "if sv_active (w_sv w) then delisted ctl w w1 else w_sys w1 = w_sys w"
    using w0 rp(2) by (simp add: delisted_def on_service_def split: if_splits)
  ultimately show ?thesis using ro rp(2) w0 pf by (simp add: withdrawn_def same_names_def on_service_def)
qed

lemma registration_close_cases:
  assumes "registration_close env w = (e, w')" "owned w"
  obtains "let_go (ve_close env) w w'" | "w' = w" "\<not> registered w"
proof (cases "registered w")
  case False
  then have p: "sc_phase (d_resources (sy_d (w_sys w))) (sv_registration (w_sv w)) \<noteq> ROpen" by (simp add: registered_def)
  obtain e1 rs where rc: "resource_close (\<lambda>_. None) (sv_registration (w_sv w)) (d_resources (sy_d (w_sys w))) = (e1, rs)"
    by fastforce
  have "rs = d_resources (sy_d (w_sys w))" using rc p by (auto simp: resource_close_def split: rphase.splits)
  then have "w' = w" using assms(1) False rc by (auto simp: registration_close_def on_driver_def)
  then show thesis using that(2) False by simp
next
  case True
  obtain err v where sh: "scope_shut (ve_close env) (w_sv w) = (err, v)" by fastforce
  have dinv: "driver_inv (sy_d (w_sys w))" "service_ok (w_sv w)" using assms(2) by (simp_all add: owned_def)
  have "rest_of v = rest_of (w_sv w)" using scope_shut_spec [OF sh dinv(2)] by blast
  then have reg: "sv_registration v = sv_registration (w_sv w)" by (rule rest_sel)
  obtain e1 rs where rc: "resource_close (\<lambda>_. err) (sv_registration (w_sv w)) (d_resources (sy_d (w_sys w))) = (e1, rs)"
    by fastforce
  let ?s = "on_driver (\<lambda>d. d\<lparr>d_resources := rs\<rparr>) (w_sys w)"
  have w': "w' = \<lparr>w_sys = ?s, w_sv = v\<rparr>" using assms(1) True sh rc reg by (simp add: registration_close_def)
  have so: "scope_ok (d_resources (sy_d (w_sys w)))" using dinv(1) by (simp add: driver_inv_def)
  note rel = release_spec [OF so, where cr = "\<lambda>_. err" and r = "sv_registration (w_sv w)", unfolded rc snd_conv]
  have "driver_inv (sy_d ?s)" using dinv(1) rel(1) by (simp add: driver_inv_def on_driver_def)
  moreover have "sv_registration (w_sv w) \<notin> sc_items (d_resources (sy_d ?s))" using rel(2) by (simp add: on_driver_def)
  ultimately have "let_go (ve_close env) w w'" using True sh w' by (simp add: let_go_def)
  then show thesis by (rule that(1))
qed

lemma registration_close_owned:
  assumes "registration_close env w = (e, w')" "owned w"
  shows "owned w' \<and> \<not> registered w' \<and> own_part (w_sv w') = own_part (w_sv w)"
  by (rule registration_close_cases [OF assms]) (use let_go_owned assms(2) in auto)

lemma registration_close_ending:
  assumes "registration_close env w = (e, w')" "ending w"
  shows "ending w' \<and> \<not> registered w' \<and> own_part (w_sv w') = own_part (w_sv w)"
proof -
  have "owned w" using assms(2) by (simp add: ending_def)
  then show ?thesis
    by (rule registration_close_cases [OF assms(1)]) (use let_go_ending [OF _ assms(2)] assms(2) in auto)
qed

text \<open>Nothing is left of the service.\<close>

definition gone :: "'t world \<Rightarrow> bool" where
  "gone w \<longleftrightarrow> withdrawn (w_sv w) \<and> sc_closed (sv_scope (w_sv w)) \<and> sc_items (sv_scope (w_sv w)) = {} \<and>
    sv_accepted (w_sv w) = [] \<and> wiped (w_sv w) \<and> \<not> registered w \<and>
    sv_registration (w_sv w) \<notin> fst ` set (d_services (sy_d (w_sys w))) \<and>
    sv_id (w_sv w) \<notin> fst ` set (d_descriptors (sy_d (w_sys w))) \<and>
    sv_keyName (w_sv w) \<notin> set (d_keyNames (sy_d (w_sys w)))"

lemma own_withdrawn: "own_part v' = own_part v \<Longrightarrow> withdrawn v' = withdrawn v \<and> same_names v v'"
  using own_sel [of v' v] by (simp add: withdrawn_def same_names_def)

lemma same_names_trans: "same_names v v1 \<Longrightarrow> same_names v1 v2 \<Longrightarrow> same_names v v2"
  by (simp add: same_names_def)

lemma close_end_gone:
  assumes "close_end env err w = (e, w')" "ending w" "withdrawn (w_sv w)"
  shows "gone w' \<and> same_names (w_sv w) (w_sv w')"
proof -
  obtain e1 w1 where rc: "registration_close env w = (e1, w1)" by fastforce
  note re = registration_close_ending [OF rc assms(2)]
  have w': "w' = on_sys (on_driver (forget_service (w_sv w1))) w1" using assms(1) rc by (simp add: close_end_def)
  have ok: "scope_ok (sv_scope (w_sv w1))" using re service_okD(1) by (auto simp: ending_def owned_def)
  have "sc_closed (sv_scope (w_sv w1))" "sv_accepted (w_sv w1) = []" "wiped (w_sv w1)" using re by (auto simp: ending_def owned_def)
  moreover from this(1) ok have "sc_items (sv_scope (w_sv w1)) = {}" by (simp add: scope_ok_def)
  moreover have "withdrawn (w_sv w1)" "same_names (w_sv w) (w_sv w1)" using re own_withdrawn assms(3) by blast+
  ultimately show ?thesis using re w'
    by (auto simp: gone_def registered_def on_sys_def on_driver_def forget_service_def AList.delete_eq)
qed

lemma close_end_sent: "close_end env err w = (e, w') \<Longrightarrow> sent_later c w w'"
  by (auto simp: close_end_def registration_close_def on_sys_def on_driver_def sent_later_def Let_def split: prod.splits if_splits)

text \<open>The withdrawal comes first; afterwards Tor is sent nothing, unless the driver closes.\<close>

definition withdrawn_from :: "'t ctl \<Rightarrow> bool \<Rightarrow> 't world \<Rightarrow> 't world \<Rightarrow> bool" where
  "withdrawn_from ctl closes w w' \<longleftrightarrow>
    (\<exists>w1. (if sv_active (w_sv w) then delisted ctl w w1 else w_sys w1 = w_sys w) \<and> sent_later closes w1 w')"

lemma withdrawn_fromD:
  assumes "withdrawn_from ctl closes w w'" "sv_active (w_sv w)"
  shows "\<exists>r t extra. ctl (''DEL_ONION '' @ sv_id (w_sv w)) (sy_tor (w_sys w)) = (Inr r, t) \<and>
    sy_effects (w_sys w') = sy_effects (w_sys w) @ Command (''DEL_ONION '' @ sv_id (w_sv w)) # extra \<and>
    (\<not> closes \<longrightarrow> extra = [] \<and> sy_tor (w_sys w') = t)"
  using assms by (fastforce simp: withdrawn_from_def delisted_def sent_later_def)

lemma service_close_gone:
  assumes "service_close ctl env drain evs w = Some (err, w')" "live_world w" "driver_inv (sy_d (w_sys w))"
    and "\<forall>c. AppCloses c \<in> set evs \<longrightarrow> c \<in> set (sv_accepted (w_sv w))"
  shows "gone w' \<and> same_names (w_sv w) (w_sv w') \<and> withdrawn_from ctl (DriverCloses \<in> set evs) w w' \<and>
    (drain \<and> err = None \<and> DriverCloses \<notin> set evs \<longrightarrow> set (sv_accepted (w_sv w)) \<subseteq> {c. AppCloses c \<in> set evs})"
proof -
  obtain err1 w1 where b: "close_begin ctl env w = Some (err1, w1)"
    using assms(1) by (auto simp: service_close_def split: option.splits)
  note cb = close_begin_ending [OF b assms(2,3)]
  show ?thesis
  proof (cases "drain \<and> err1 = None")
    case False
    then have ce: "close_end env err1 w1 = (err, w')" using assms(1) b by (auto simp: service_close_def)
    have "\<not> (drain \<and> err = None)"
      using False ce by (auto simp: close_end_def errors_join_None_iff split: prod.splits)
    moreover have "withdrawn_from ctl (DriverCloses \<in> set evs) w w'"
      unfolding withdrawn_from_def using cb close_end_sent [OF ce] by blast
    ultimately show ?thesis using close_end_gone [OF ce] cb same_names_trans by blast
  next
    case True
    obtain e2 w2 where wa: "waitAccepted ctl env evs w1 = Some (e2, w2)"
        and ce: "close_end env (errors_join [None, e2]) w2 = (err, w') \<or> e2 = None \<and> close_end env None w2 = (err, w')"
      using assms(1) b True by (auto simp: service_close_def split: option.splits)
    let ?C = "set (sv_accepted (w_sv w))"
    have kc: "known_conns ?C (w_sv w1)" using cb by (simp add: known_conns_def)
    have e1: "ending w1" using cb by blast
    note we = waitAccepted_ending [OF wa e1 kc assms(4)]
    have "withdrawn (w_sv w2) \<and> same_names (w_sv w1) (w_sv w2)" using we own_withdrawn cb by blast
    then have "gone w' \<and> same_names (w_sv w) (w_sv w')" using ce close_end_gone we cb same_names_trans by blast
    moreover have "sent_later False w2 w'" using ce close_end_sent by blast
    then have "sent_later (DriverCloses \<in> set evs) w1 w'" using sent_later_trans we by fastforce
    then have "withdrawn_from ctl (DriverCloses \<in> set evs) w w'" unfolding withdrawn_from_def using cb by blast
    moreover have "?C \<subseteq> {c. AppCloses c \<in> set evs}" if "err = None" "DriverCloses \<notin> set evs"
    proof -
      have "e2 = None" using ce that(1) by (auto simp: close_end_def errors_join_None_iff split: prod.splits)
      from drain_keeps_conns [OF wa [unfolded this] e1 kc assms(4) that(2)] cb show ?thesis by simp
    qed
    ultimately show ?thesis by blast
  qed
qed

text \<open>
  C6. The end of a service is complete. When \<^verbatim>\<open>Close\<close> or \<^verbatim>\<open>Drain\<close> of a service returns, with an
  error or without, whatever happened while it drained, the driver's closing included: an active
  service was withdrawn at Tor, that is, \<^verbatim>\<open>DEL_ONION\<close> with its name is the first thing that Tor was
  sent, Tor answered it with success, and Tor was sent nothing else unless the driver
  closed meanwhile; the
  service has no listener, its scope is closed and holds nothing, no
  accepted connection is left, its private key is overwritten with zeros and its
  subscribers' channels are closed; the driver does not hold it among its resources,
  services, descriptors and key names; and another \<^verbatim>\<open>Close\<close> or \<^verbatim>\<open>Drain\<close> returns the same. A \<^verbatim>\<open>Drain\<close>
  without an error, in a driver that stays open, cut no connection: the application closed
  all that were accepted.
\<close>

theorem service_end_complete:
  assumes "live_world w" "driver_inv (sy_d (w_sys w))" "\<not> sv_done (w_sv w)"
    and "\<forall>c. AppCloses c \<in> set evs \<longrightarrow> c \<in> set (sv_accepted (w_sv w))"
    and "service_Drain ctl env evs w = Some (err, w') \<or> service_Close ctl env w = Some (err, w')"
  shows "gone w' \<and> same_names (w_sv w) ((w_sv w')\<lparr>sv_done := False\<rparr>) \<and>
    (sv_active (w_sv w) \<longrightarrow>
      (\<exists>r t extra. ctl (''DEL_ONION '' @ sv_id (w_sv w)) (sy_tor (w_sys w)) = (Inr r, t) \<and>
        sy_effects (w_sys w') = sy_effects (w_sys w) @ Command (''DEL_ONION '' @ sv_id (w_sv w)) # extra \<and>
        (DriverCloses \<notin> set evs \<longrightarrow> extra = [] \<and> sy_tor (w_sys w') = t))) \<and>
    service_Close ctl2 env2 w' = Some (err, w') \<and> service_Drain ctl2 env2 evs2 w' = Some (err, w') \<and>
    (service_Drain ctl env evs w = Some (None, w') \<and> DriverCloses \<notin> set evs \<longrightarrow>
      set (sv_accepted (w_sv w)) \<subseteq> {c. AppCloses c \<in> set evs})"
proof -
  have once: "\<exists>w1. f w = Some (e, w1) \<and> w' = on_service (\<lambda>v. v\<lparr>sv_err := e, sv_done := True\<rparr>) w1"
    if "close_once f w = Some (e, w')" for f e
    using that assms(3) by (auto simp: close_once_def split: option.splits)
  have fin: "gone w' \<and> same_names (w_sv w) ((w_sv w')\<lparr>sv_done := False\<rparr>) \<and> sv_done (w_sv w') \<and> sv_err (w_sv w') = e \<and>
      withdrawn_from ctl (DriverCloses \<in> set es) w w' \<and>
      (drain \<and> e = None \<and> DriverCloses \<notin> set es \<longrightarrow> set (sv_accepted (w_sv w)) \<subseteq> {c. AppCloses c \<in> set es})"
    if c: "close_once (service_close ctl env drain es) w = Some (e, w')"
      and a: "\<forall>c. AppCloses c \<in> set es \<longrightarrow> c \<in> set (sv_accepted (w_sv w))" for drain es e
  proof -
    obtain w1 where w1: "service_close ctl env drain es w = Some (e, w1)"
        "w' = on_service (\<lambda>v. v\<lparr>sv_err := e, sv_done := True\<rparr>) w1" using once [OF c] by blast
    have "gone w' = gone w1" by (simp add: w1(2) gone_def withdrawn_def wiped_def registered_def on_service_def)
    moreover have "same_names (w_sv w) (w_sv w1) \<Longrightarrow> same_names (w_sv w) ((w_sv w')\<lparr>sv_done := False\<rparr>)"
      using assms(3) by (simp add: w1(2) same_names_def on_service_def)
    moreover have "sv_done (w_sv w')" "sv_err (w_sv w') = e" "w_sys w' = w_sys w1" by (simp_all add: w1(2) on_service_def)
    ultimately show ?thesis using service_close_gone [OF w1(1) assms(1,2) a]
      by (simp add: withdrawn_from_def sent_later_def)
  qed
  have ends: "gone w' \<and> same_names (w_sv w) ((w_sv w')\<lparr>sv_done := False\<rparr>) \<and> sv_done (w_sv w') \<and> sv_err (w_sv w') = err"
    and wf: "withdrawn_from ctl (DriverCloses \<in> set evs) w w' \<or> withdrawn_from ctl False w w'"
    using assms(5) fin [of True evs err] fin [of False "[]" err] assms(4) unfolding service_Drain_def service_Close_def by auto
  from wf have "withdrawn_from ctl (DriverCloses \<in> set evs) w w'" by (auto simp: withdrawn_from_def sent_later_def)
  note del = withdrawn_fromD [OF this]
  have "service_Close ctl2 env2 w' = Some (err, w') \<and> service_Drain ctl2 env2 evs2 w' = Some (err, w')"
    using ends by (simp add: service_Close_def service_Drain_def close_once_def)
  moreover have "set (sv_accepted (w_sv w)) \<subseteq> {c. AppCloses c \<in> set evs}"
    if "service_Drain ctl env evs w = Some (None, w')" "DriverCloses \<notin> set evs"
    using fin [of True evs None] that assms(4) unfolding service_Drain_def by blast
  ultimately show ?thesis using ends del by blast
qed

theorem service_end_complete_witness:
  "\<exists>err w'. service_Close (onion_tor (\<lambda>n. n) sample_service) sample_senv (sample_world sample_ports_served) = Some (err, w') \<and>
     gone w' \<and> sy_effects (w_sys w') = [Command (''DEL_ONION '' @ sample_onion)] \<and> sy_tor (w_sys w') = None"
proof -
  let ?w = "sample_world sample_ports_served"
  let ?ctl = "onion_tor (\<lambda>n. n) sample_service"
  have sv: "sv_active (w_sv ?w)" "\<not> sv_done (w_sv ?w)" "sv_id (w_sv ?w) = sample_onion" "sy_effects (w_sys ?w) = []"
    by (simp_all add: sample_service_def new_service_def sample_world_def)
  have del: "?ctl (''DEL_ONION '' @ sample_onion) (sy_tor (w_sys ?w)) = (Inr \<lparr>Code = 250, Lines = [''OK'']\<rparr>, None)"
    using onion_tor_del [of "\<lambda>n. n" sample_service sample_ports_served] sv(3) by (simp add: del_command_def)
  have "close_begin ?ctl sample_senv ?w \<noteq> None"
    unfolding close_begin_iff [OF sample_live] using onion_tor_del [of "\<lambda>n. n" sample_service] by simp
  then have "service_Close ?ctl sample_senv ?w \<noteq> None"
    unfolding service_Close_def close_once_returns service_close_returns by blast
  then obtain err w' where r: "service_Close ?ctl sample_senv ?w = Some (err, w')" by auto
  have "scope_ok (held_scope 7 newScope)" by (auto simp: scope_ok_def held_scope_def newScope_def)
  then have d: "driver_inv (sy_d (w_sys ?w))"
    using sample_driver_inv by (simp add: sample_world_def driver_inv_def)
  have "gone w'" "\<exists>r t extra. ?ctl (''DEL_ONION '' @ sample_onion) (sy_tor (w_sys ?w)) = (Inr r, t) \<and>
      sy_effects (w_sys w') = sy_effects (w_sys ?w) @ Command (''DEL_ONION '' @ sample_onion) # extra \<and> (extra = [] \<and> sy_tor (w_sys w') = t)"
    using service_end_complete [OF sample_live d sv(2), of "[]" ?ctl sample_senv err w' ?ctl sample_senv "[]"] r sv(1)
    unfolding sv(3) by simp_all
  then show ?thesis using r del sv(4) by (intro exI [of _ err] exI [of _ w']) auto
qed

end
