(* ===== verification/Tor_Service_New.thy ===== *)
theory Tor_Service_New
  imports Tor_Service_End
begin

text \<open>
  The beginning of a service: \<^verbatim>\<open>NewService\<close> hands out a service in use, or leaves nothing behind
  in the driver, in Tor and in the service that it gave up.
\<close>

section \<open>The driver while a service is created\<close>

text \<open>As long as the driver holds the service it is the driver \<open>d\<close>; otherwise it was closed.\<close>

definition kept_by :: "driver \<Rightarrow> 't world \<Rightarrow> bool" where
  "kept_by d w \<longleftrightarrow> owned w \<and>
    (if registered w then sy_d (w_sys w) = d
     else shut_down (sy_d (w_sys w)) \<and> d_services (sy_d (w_sys w)) = [] \<and> d_keyNames (sy_d (w_sys w)) = [])"

lemma driver_Close_lists:
  assumes "\<not> d_done (sy_d s)" "s' = snd (driver_Close ctl cenv s)"
  shows "d_services (sy_d s') = []" "d_keyNames (sy_d s') = []"
  using assms by (simp_all add: driver_Close_def close_run_def close_final_def on_driver_def Let_def split: prod.splits)

lemma scope_shut_fresh:
  assumes "scope_shut cr v = (err, v')" "service_ok v" "sc_phase (sv_scope v) r = RNone"
  shows "sc_phase (sv_scope v') r = RNone"
proof -
  note so = service_okD(1) [OF assms(2)]
  obtain e sc where c: "scope_close cr (items_list (sv_scope v)) (sv_scope v) = (e, sc)" by fastforce
  have "v' = fold closer_effect (items_list (sv_scope v)) (v\<lparr>sv_scope := sc\<rparr>)" using assms(1) c by (simp add: scope_shut_def)
  then have "sv_scope v' = sc" using closers_effect by fastforce
  then show ?thesis
    using scope_close_spec [OF so conjunct1 [OF items_list [OF so]] conjunct2 [OF items_list [OF so]] c] assms(3) by simp
qed

lemma close_driver_kept:
  assumes "kept_by d w" "\<not> d_done d" "w' = close_driver ctl env w"
  shows "kept_by d w' \<and> \<not> registered w' \<and> own_part (w_sv w') = own_part (w_sv w) \<and>
    (\<forall>r. sc_phase (sv_scope (w_sv w)) r = RNone \<longrightarrow> sc_phase (sv_scope (w_sv w')) r = RNone)"
proof (cases "registered w")
  case False
  then have "w' = w" using assms(1,3) by (simp add: kept_by_def close_driver_def shut_down_def)
  then show ?thesis using assms(1) False by simp
next
  case True
  have o: "owned w" "sy_d (w_sys w) = d" using assms(1) True by (simp_all add: kept_by_def)
  have nd: "\<not> d_done (sy_d (w_sys w))" using o(2) assms(2) by simp
  have inv: "driver_inv (sy_d (w_sys w))" "service_ok (w_sv w)" using o(1) by (simp_all add: owned_def)
  obtain err v where sh: "scope_shut (ve_close env) (w_sv w) = (err, v)" by fastforce
  let ?c = "(ve_driver env)\<lparr>ce_resources := (ce_resources (ve_driver env))(sv_registration v := err)\<rparr>"
  have w': "w' = \<lparr>w_sys = snd (driver_Close ctl ?c (w_sys w)), w_sv = v\<rparr>"
    using nd True sh assms(3) by (simp add: close_driver_def Let_def)
  have cr: "w_sys w' = close_run ctl ?c (w_sys w)" using w' nd by (simp add: driver_Close_def Let_def)
  note dc = close_run_spec(1,2) [OF inv(1) cr] driver_Close_lists [OF nd, of "w_sys w'" ctl ?c]
  have "let_go (ve_close env) w w'" using True sh dc(1,2) w' by (simp add: let_go_def shut_down_def)
  from let_go_owned [OF this o(1)] dc w' scope_shut_fresh [OF sh inv(2)] show ?thesis by (simp add: kept_by_def)
qed

section \<open>Reserving the ports and opening their listeners\<close>

lemma reserve_ports_spec:
  assumes "reserve_ports ports ps = (None, ps')" "distinct (map fst ps)"
  shows "distinct (map fst ps') \<and> distinct ports \<and> 0 \<notin> set ports \<and> (\<forall>p \<in> set ports. map_of ps p = None) \<and>
    map_of ps' = (\<lambda>p. if p \<in> set ports then Some empty_port else map_of ps p)"
  using assms
proof (induction ports ps rule: reserve_ports.induct)
  case (2 port ports ps)
  have g: "port \<noteq> 0" "map_of ps port = None" "reserve_ports ports (AList.update port empty_port ps) = (None, ps')"
    using "2.prems"(1) by (auto split: if_splits)
  have "distinct (map fst (AList.update port empty_port ps))" using "2.prems"(2) by (rule distinct_update)
  from "2.IH" [OF g(1) _ g(3) this] g(1,2) show ?case by (auto simp: update_conv' fun_eq_iff split: if_splits)
qed simp

definition opened_port :: "nat \<times> string res \<Rightarrow> service_port" where
  "opened_port l = (case l of
      (r, Inl _) \<Rightarrow> empty_port
    | (r, Inr address) \<Rightarrow> \<lparr>sp_listener = Some address, sp_resource = Some r, sp_claimed = False, sp_generation = 1\<rparr>)"

text \<open>The listeners of different ports are different resources that were not used.\<close>

definition listed :: "(u16 \<times> nat \<times> string res) list \<Rightarrow> service \<Rightarrow> bool" where
  "listed ls v \<longleftrightarrow> distinct (map fst ls) \<and> distinct (map (fst \<circ> snd) ls) \<and>
    (\<forall>(p, r, _) \<in> set ls. p \<noteq> 0 \<and> key_closer < r \<and> sc_phase (sv_scope v) r = RNone)"

lemma newBacking_port:
  "newBacking env w = (Inr b, w') \<Longrightarrow> b = opened_port (ve_listen env) \<and> \<not> isl (snd (ve_listen env))"
  by (auto simp: newBacking_def opened_port_def split: prod.splits sum.splits option.splits)

lemma newBacking_fails_quietly:
  "newBacking env w = (Inl e, w') \<Longrightarrow> \<not> sc_closed (sv_scope (w_sv w)) \<Longrightarrow>
    w_sv w' = w_sv w \<and> sy_d (w_sys w') = sy_d (w_sys w) \<and> sy_tor (w_sys w') = sy_tor (w_sys w)"
  by (auto simp: newBacking_def scope_add_def on_sys_def effect_def split: prod.splits sum.splits)

lemma new_backings_spec:
  assumes "new_backings env ls w = (err, w')" "service_ok (w_sv w)" "\<not> sc_closed (sv_scope (w_sv w))" "listed ls (w_sv w)"
  shows "service_ok (w_sv w') \<and> \<not> sc_closed (sv_scope (w_sv w')) \<and> port_frame (w_sv w') = port_frame (w_sv w) \<and>
    sy_d (w_sys w') = sy_d (w_sys w) \<and> sy_tor (w_sys w') = sy_tor (w_sys w) \<and>
    (\<forall>r \<le> key_closer. sc_phase (sv_scope (w_sv w')) r = sc_phase (sv_scope (w_sv w)) r) \<and>
    (err = None \<longrightarrow> (\<forall>(_, _, a) \<in> set ls. \<not> isl a) \<and>
      map_of (sv_ports (w_sv w')) = map_of (sv_ports (w_sv w)) ++ map_of (map (\<lambda>(p, l). (p, opened_port l)) ls))"
  using assms
proof (induction ls arbitrary: w)
  case (Cons x ls)
  obtain p l where x: "x = (p, l)" by (cases x)
  let ?env = "env\<lparr>ve_listen := l\<rparr>"
  have l: "fresh_backing ?env (w_sv w)" "p \<noteq> 0"
    using Cons.prems(4) x by (auto simp: listed_def fresh_backing_def)
  obtain nb w1 where nb: "newBacking ?env w = (nb, w1)" by fastforce
  show ?case
  proof (cases nb)
    case (Inl e)
    then have "err = Some e" "w' = w1" using Cons.prems(1) nb x by simp_all
    with newBacking_fails_quietly [OF nb [unfolded Inl] Cons.prems(3)] Cons.prems(2,3) show ?thesis by simp
  next
    case (Inr b)
    obtain r a where b: "b = \<lparr>sp_listener = Some a, sp_resource = Some r, sp_claimed = False, sp_generation = 1\<rparr>" "port_ok b"
      "r = fst (ve_listen ?env)" "w1 = on_service (\<lambda>v. v\<lparr>sv_scope := held_scope r (sv_scope v)\<rparr>) w"
      "service_ok (w_sv w1)" "free_for (w_sv w1) p r" "\<forall>q. port_resource (w_sv w1) q \<noteq> Some r"
      "r \<notin> set (sv_accepted (w_sv w1))" "r \<notin> sc_items (sv_scope (w_sv w))"
      by (rule newBacking_works [OF nb [unfolded Inr] Cons.prems(2,3) l(1)])
    have o: "b = opened_port l" "\<not> isl (snd l)" using newBacking_port [OF nb [unfolded Inr]] by simp_all
    let ?w = "on_service (set_port p b) w1"
    have rec: "new_backings env ls ?w = (err, w')" using Cons.prems(1) nb Inr x by simp
    have r: "r = fst l" "key_closer < r" using b(3,6) by (simp_all add: free_for_def)
    have sv: "w_sv ?w = set_port p b ((w_sv w)\<lparr>sv_scope := held_scope r (sv_scope (w_sv w))\<rparr>)" "w_sys ?w = w_sys w"
      by (simp_all add: b(4) on_service_def)
    have ok: "service_ok (w_sv ?w)"
      using service_ok_set_port [OF b(5) l(2) b(2)] b(1,6) by (simp add: on_service_def)
    have op: "\<not> sc_closed (sv_scope (w_sv ?w))" using Cons.prems(3) by (simp add: sv held_scope_def)
    have "listed ls (w_sv ?w)" using Cons.prems(4) x r(1) unfolding listed_def sv
      by (force simp: held_scope_def image_iff)
    note IH = Cons.IH [OF rec ok op this]
    have "port_frame (w_sv ?w) = port_frame (w_sv w)" by (simp add: sv set_port_def port_frame_def)
    moreover have "\<forall>q \<le> key_closer. sc_phase (sv_scope (w_sv ?w)) q = sc_phase (sv_scope (w_sv w)) q"
      using r(2) by (simp add: sv held_scope_def)
    moreover have "p \<notin> dom (map_of (map (\<lambda>(p, l). (p, opened_port l)) ls))"
      using Cons.prems(4) x by (auto simp: listed_def dom_map_of_conv_image_fst image_iff)
    then have "map_of (sv_ports (w_sv ?w)) ++ map_of (map (\<lambda>(p, l). (p, opened_port l)) ls) =
        map_of (sv_ports (w_sv w)) ++ map_of (map (\<lambda>(p, l). (p, opened_port l)) (x # ls))"
      unfolding sv x by (simp add: o(1) map_add_upd_left)
    moreover have "case x of (_, _, a) \<Rightarrow> \<not> isl a" using o(2) by (simp add: x case_prod_beta)
    ultimately show ?thesis using IH sv(2) by (simp del: map_of.simps list.map map_add_upd)
  qed
qed simp

section \<open>The commands\<close>

text \<open>
  What is used of Tor: \<open>view\<close> reads the identifiers of the services of the control connection from the
  state of Tor. An accepted \<^verbatim>\<open>ADD_ONION\<close> adds the service it names, which was not there, a
  rejected one changes nothing, and an accepted \<^verbatim>\<open>DEL_ONION\<close> removes the service.
\<close>

definition onion_ids :: "casemap \<Rightarrow> 't ctl \<Rightarrow> ('t \<Rightarrow> string set) \<Rightarrow> bool" where
  "onion_ids L ctl view \<longleftrightarrow>
    (\<forall>g m v t r t' i. ctl (addOnion_command L g m v) t = (Inr r, t') \<longrightarrow> Value r ''ServiceID'' = Some i \<longrightarrow>
       i \<notin> view t \<and> view t' = insert i (view t)) \<and>
    (\<forall>g m v t e t'. ctl (addOnion_command L g m v) t = (Inl e, t') \<longrightarrow> errors_as_control e \<noteq> None \<longrightarrow> view t' = view t) \<and>
    (\<forall>v t r t'. ctl (del_command v) t = (Inr r, t') \<longrightarrow> view t' = view t - {sv_id v})"

lemma onion_idsD:
  assumes "onion_ids L ctl view"
  shows "ctl (addOnion_command L g m v) t = (Inr r, t') \<Longrightarrow> Value r ''ServiceID'' = Some i \<Longrightarrow> i \<notin> view t \<and> view t' = insert i (view t)"
    "ctl (addOnion_command L g m v) t = (Inl e, t') \<Longrightarrow> errors_as_control e \<noteq> None \<Longrightarrow> view t' = view t"
    "ctl (del_command v) t = (Inr r, t') \<Longrightarrow> view t' = view t - {sv_id v}"
  using conjunct1 [OF assms [unfolded onion_ids_def], rule_format]
    conjunct1 [OF conjunct2 [OF assms [unfolded onion_ids_def]], rule_format]
    conjunct2 [OF conjunct2 [OF assms [unfolded onion_ids_def]], rule_format] by auto

lemma applyAddReply_new:
  assumes "applyAddReply r g [] v = (err, v')"
  shows "err \<noteq> None \<longrightarrow> v' = v"
    "err = None \<longrightarrow> (\<exists>i key. Value r ''ServiceID'' = Some i \<and> validServiceID i \<and> v' = v\<lparr>sv_key := key, sv_id := i\<rparr> \<and>
      (if g then length key = 64 \<and> onion_valid key else key = sv_key v))"
  using assms ParseOnionServiceKey_valid
  by (auto simp: applyAddReply_def split: option.splits if_splits sum.splits)

text \<open>The names of a service, which its creation does not change.\<close>

abbreviation same_owner :: "service \<Rightarrow> service \<Rightarrow> bool" where
  "same_owner v v' \<equiv> sv_registration v' = sv_registration v \<and> sv_keyName v' = sv_keyName v"

lemma kept_command:
  assumes "kept_by d w" "w' = w\<lparr>w_sys := (w_sys w)\<lparr>sy_tor := t, sy_effects := es\<rparr>\<rparr>"
  shows "kept_by d w'" "registered w' = registered w"
  using assms by (auto simp: kept_by_def owned_def registered_def)

lemma own_owner: "own_part v' = own_part v \<Longrightarrow> same_owner v v'"
  using own_sel [of v' v] by simp

lemma create_onion_spec:
  assumes "create_onion L ctl env g w = (err, w')" "kept_by d w" "registered w" "\<not> d_closed d" "\<not> d_done d" "onion_ids L ctl view"
  shows "kept_by d w' \<and> same_owner (w_sv w) (w_sv w') \<and>
    (case err of
       Some _ \<Rightarrow> registered w' \<longrightarrow> view (sy_tor (w_sys w')) = view (sy_tor (w_sys w))
     | None \<Rightarrow> registered w' \<and> (\<exists>i key. w_sv w' = (w_sv w)\<lparr>sv_key := key, sv_id := i, sv_active := True\<rparr> \<and>
         (if g then length key = 64 \<and> onion_valid key else key = sv_key (w_sv w)) \<and> validServiceID i \<and>
         i \<notin> view (sy_tor (w_sys w)) \<and> view (sy_tor (w_sys w')) = insert i (view (sy_tor (w_sys w)))) \<and>
         Command (addOnion_command L g (currentMappingsLocked (w_sv w)) (w_sv w)) \<in> set (sy_effects (w_sys w')))"
proof -
  let ?cmd = "addOnion_command L g (currentMappingsLocked (w_sv w)) (w_sv w)"
  obtain r t where c: "ctl ?cmd (sy_tor (w_sys w)) = (r, t)" by fastforce
  let ?w1 = "w\<lparr>w_sys := (w_sys w)\<lparr>sy_tor := t, sy_effects := sy_effects (w_sys w) @ [Command ?cmd]\<rparr>\<rparr>"
  have "\<not> d_closed (sy_d (w_sys w))" using assms(2-4) by (simp add: kept_by_def)
  then have a: "addOnion L ctl g (currentMappingsLocked (w_sv w)) w = (r, ?w1)"
    using sv_command_open [where ctl = ctl, OF _ c] by (simp add: addOnion_def)
  have u1: "kept_by d ?w1" "registered ?w1 = registered w" by (rule kept_command [OF assms(2) refl])+
  note cl = close_driver_kept [OF u1(1) assms(5) refl, of ctl env]
  have so: "same_owner (w_sv w) (w_sv (close_driver ctl env ?w1))" using own_owner [of "w_sv (close_driver ctl env ?w1)" "w_sv ?w1"] cl by simp
  show ?thesis
  proof (cases r)
    case (Inl e)
    then have w': "err = Some e" "w' = (if errors_as_control e = None then close_driver ctl env ?w1 else ?w1)"
      using assms(1) a by (simp_all add: create_onion_def)
    show ?thesis
    proof (cases "errors_as_control e = None")
      case True
      then show ?thesis using cl w' so by simp
    next
      case False
      then have "w' = ?w1" using w'(2) by auto
      then show ?thesis using onion_idsD(2) [OF assms(6) c [unfolded Inl] False] u1(1) w'(1) by simp
    qed
  next
    case (Inr reply)
    obtain e v where v: "applyAddReply reply g [] (w_sv w) = (e, v)" by fastforce
    note ap = applyAddReply_new [OF v]
    show ?thesis
    proof (cases e)
      case (Some e1)
      then have "v = w_sv w" using ap(1) by simp
      then have "err = Some e1" "w' = close_driver ctl env ?w1" using assms(1) a Inr v Some by (simp_all add: create_onion_def)
      then show ?thesis using cl so by simp
    next
      case None
      then obtain i key where k: "Value reply ''ServiceID'' = Some i" "validServiceID i" "v = (w_sv w)\<lparr>sv_key := key, sv_id := i\<rparr>"
          "if g then length key = 64 \<and> onion_valid key else key = sv_key (w_sv w)" using ap(2) by blast
      have w': "err = None" "w' = ?w1\<lparr>w_sv := v\<lparr>sv_active := True\<rparr>\<rparr>" using assms(1) a Inr v None by (simp_all add: create_onion_def)
      have reg: "registered w'" using assms(3) w'(2) k(3) by (simp add: registered_def)
      have "service_ok (w_sv w)" using assms(2) by (simp add: kept_by_def owned_def)
      moreover from this have "length key = 64" using k(4) by (auto simp: service_ok_def onionServiceKeySize_def split: if_splits)
      ultimately have "service_ok (w_sv w')" using w'(2) k(3) by (simp add: service_ok_def port_resource_def onionServiceKeySize_def)
      moreover have "driver_inv (sy_d (w_sys w'))" "sy_d (w_sys w') = d" "\<not> sc_closed (sv_scope (w_sv w'))"
        using assms(2,3) w'(2) k(3) by (auto simp: kept_by_def owned_def)
      ultimately have "kept_by d w'" using reg by (simp add: kept_by_def owned_def)
      moreover have sv: "w_sv w' = (w_sv w)\<lparr>sv_key := key, sv_id := i, sv_active := True\<rparr>" using w'(2) k(3) by simp
      moreover have "i \<notin> view (sy_tor (w_sys w)) \<and> view (sy_tor (w_sys w')) = insert i (view (sy_tor (w_sys w)))"
        using onion_idsD(1) [OF assms(6) c [unfolded Inr] k(1)] w'(2) by simp
      then have "\<exists>i key. w_sv w' = (w_sv w)\<lparr>sv_key := key, sv_id := i, sv_active := True\<rparr> \<and>
         (if g then length key = 64 \<and> onion_valid key else key = sv_key (w_sv w)) \<and> validServiceID i \<and>
         i \<notin> view (sy_tor (w_sys w)) \<and> view (sy_tor (w_sys w')) = insert i (view (sy_tor (w_sys w)))"
        using sv k(2,4) by (intro exI [of _ i] exI [of _ key]) simp
      moreover have "Command ?cmd \<in> set (sy_effects (w_sys w'))" using w'(2) by simp
      moreover have "sv_registration (w_sv w') = sv_registration (w_sv w)" "sv_keyName (w_sv w') = sv_keyName (w_sv w)"
        by (simp_all add: sv)
      ultimately show ?thesis unfolding w'(1) option.case using reg by (intro conjI)
    qed
  qed
qed

lemma joinDelete_not_None: "joinDeleteError (Some e) x \<noteq> None"
  by (cases x) (simp_all add: joinDeleteError_def errors_join_None_iff)

lemma store_key_spec:
  assumes "store_key ctl env g w = (err, w')" "kept_by d w" "registered w" "\<not> d_closed d" "\<not> d_done d" "onion_ids L ctl view"
  shows "err = None \<longrightarrow> w' = w" "kept_by d w' \<and> same_owner (w_sv w) (w_sv w')"
    "err \<noteq> None \<longrightarrow> registered w' \<longrightarrow> view (sy_tor (w_sys w')) = view (sy_tor (w_sys w)) - {sv_id (w_sv w)}"
proof -
  obtain r t where c: "ctl (del_command (w_sv w)) (sy_tor (w_sys w)) = (r, t)" by fastforce
  let ?w1 = "w\<lparr>w_sys := (w_sys w)\<lparr>sy_tor := t, sy_effects := sy_effects (w_sys w) @ [Command (del_command (w_sv w))]\<rparr>\<rparr>"
  have "\<not> d_closed (sy_d (w_sys w))" using assms(2-4) by (simp add: kept_by_def)
  then have a: "sv_command ctl (del_command (w_sv w)) w = (r, ?w1)" by (rule sv_command_open [where ctl = ctl, OF _ c])
  have u1: "kept_by d ?w1" by (rule kept_command [OF assms(2) refl])
  note cl = close_driver_kept [OF u1 assms(5) refl, of ctl "nv_env env"]
  have so: "same_owner (w_sv w) (w_sv (close_driver ctl (nv_env env) ?w1))"
    using own_owner [of "w_sv (close_driver ctl (nv_env env) ?w1)" "w_sv ?w1"] cl by simp
  consider (ok) "err = None" "w' = w"
    | (del) reply where "err \<noteq> None" "r = Inr reply" "w' = ?w1"
    | (shut) "err \<noteq> None" "w' = close_driver ctl (nv_env env) ?w1"
    using assms(1) a joinDelete_not_None
    by (cases r) (auto simp: store_key_def err_of_def split: if_splits option.splits)
  note cases = this
  show "err = None \<longrightarrow> w' = w" by (cases rule: cases) auto
  show "kept_by d w' \<and> same_owner (w_sv w) (w_sv w')" by (cases rule: cases) (use assms(2) u1 cl so in simp_all)
  show "err \<noteq> None \<longrightarrow> registered w' \<longrightarrow> view (sy_tor (w_sys w')) = view (sy_tor (w_sys w)) - {sv_id (w_sv w)}"
    by (cases rule: cases) (use cl onion_idsD(3) [OF assms(6)] c in auto)
qed

section \<open>Publishing the service\<close>

lemma service_ok_wipe: "service_ok v \<Longrightarrow> service_ok (clearKey v)"
  by (simp add: service_ok_def clearKey_def port_resource_def)

text \<open>A closed scope closes what comes late.\<close>

lemma service_ok_late:
  assumes "service_ok v" "sc_phase (sv_scope v) r = RNone" "sc_closed (sv_scope v)" "scope_add cr r (sv_scope v) = (e, sc)"
  shows "service_ok (v\<lparr>sv_scope := sc\<rparr>)" "sc_closed sc"
proof -
  have sc: "sc = call_close cr r (sv_scope v)" using assms(3,4) by (simp add: scope_add_def)
  then show "sc_closed sc" using assms(3) by (simp add: call_close_def)
  have "scope_ok sc" by (rule scope_ok_add [OF service_okD(1) [OF assms(1)] assms(2,4)])
  then show "service_ok (v\<lparr>sv_scope := sc\<rparr>)"
    using assms(1,3) unfolding sc by (auto simp: service_ok_def port_resource_def call_close_def)
qed

text \<open>The service is in the hands of the driver and has all that it needs.\<close>

definition ready :: "driver \<Rightarrow> 't world \<Rightarrow> bool" where
  "ready d w \<longleftrightarrow> kept_by d w \<and> registered w \<and> events_closer \<in> sc_items (sv_scope (w_sv w)) \<and>
    sc_phase (sv_scope (w_sv w)) key_closer = RNone \<and> \<not> sv_closing (w_sv w) \<and> validServiceID (sv_id (w_sv w))"

definition listed_driver :: "service \<Rightarrow> driver \<Rightarrow> driver" where
  "listed_driver v d = d\<lparr>d_services := (sv_registration v, sv_id v) # d_services d\<rparr>"

text \<open>Another goroutine may close the driver at some point.\<close>

lemma maybe_closed:
  assumes "kept_by d w" "\<not> d_done d" "w' = (if b then close_driver ctl env w else w)"
  shows "kept_by d w'" "own_part (w_sv w') = own_part (w_sv w)" "registered w' \<longrightarrow> w' = w"
    "sc_phase (sv_scope (w_sv w)) r = RNone \<Longrightarrow> sc_phase (sv_scope (w_sv w')) r = RNone"
  using assms close_driver_kept [OF assms(1,2) refl, of ctl env] by auto

lemma handlePublication_parts: "\<exists>p ev. handlePublication e v = v\<lparr>sv_publication := p, sv_events := ev\<rparr>"
proof (cases "handlePublication e v = v")
  case True
  then show ?thesis by (intro exI [of _ "sv_publication v"] exI [of _ "sv_events v"]) simp
qed (auto simp: handlePublication_def split: if_splits)

lemma kept_late:
  assumes "kept_by d w" "\<not> registered w" "sc_phase (sv_scope (w_sv w)) key_closer = RNone"
    and "scope_add (\<lambda>_. None) key_closer (sv_scope (w_sv w)) = (e, sc)"
    and "w' = on_service (\<lambda>v. clearKey (v\<lparr>sv_scope := sc\<rparr>)) w"
  shows "e \<noteq> None" "kept_by d w'" "\<not> registered w'" "same_owner (w_sv w) (w_sv w')"
proof -
  have cl: "sc_closed (sv_scope (w_sv w))" "sv_accepted (w_sv w) = []" "service_ok (w_sv w)"
    using assms(1,2) by (simp_all add: kept_by_def owned_def)
  show "e \<noteq> None" using assms(4) cl(1) by (auto simp: scope_add_def errors_join_None_iff)
  note late = service_ok_late [OF cl(3) assms(3) cl(1) assms(4)]
  show "kept_by d w'" using assms(1,2) cl late service_ok_wipe [OF late(1)]
    by (simp add: kept_by_def owned_def assms(5) on_service_def registered_def clearKey_def)
  show "\<not> registered w'" "same_owner (w_sv w) (w_sv w')"
    using assms(2) by (simp_all add: assms(5) on_service_def registered_def clearKey_def)
qed

text \<open>The end of \<^verbatim>\<open>NewService\<close>, when the closer of the key is registered.\<close>

definition list_service :: "'t world \<Rightarrow> goerr option \<times> 't world" where
  "list_service w =
    (if d_closed (sy_d (w_sys w)) then (Some (Sentinel ErrClosed), w)
     else (None, on_service (\<lambda>v. case map_of (d_descriptors (sy_d (w_sys w))) (sv_id v) of
             None \<Rightarrow> v | Some cached \<Rightarrow> handlePublication cached v)
           (on_sys (on_driver (\<lambda>d. d\<lparr>d_services := (sv_registration (w_sv w), sv_id (w_sv w)) # d_services d\<rparr>)) w)))"

lemma list_service_spec:
  assumes "list_service w = (err, w')" "kept_by d w" "\<not> d_closed d"
  shows "registered w \<Longrightarrow> err = None \<and> sy_d (w_sys w') = listed_driver (w_sv w) d \<and> sy_tor (w_sys w') = sy_tor (w_sys w) \<and>
      sy_effects (w_sys w') = sy_effects (w_sys w) \<and> (\<exists>p ev. w_sv w' = (w_sv w)\<lparr>sv_publication := p, sv_events := ev\<rparr>) \<and>
      service_ok (w_sv w')"
    "\<not> registered w \<Longrightarrow> err \<noteq> None \<and> w' = w"
proof -
  assume "registered w"
  then have d: "sy_d (w_sys w) = d" and ok: "service_ok (w_sv w)" using assms(2) by (simp_all add: kept_by_def owned_def)
  let ?v = "case map_of (d_descriptors d) (sv_id (w_sv w)) of None \<Rightarrow> w_sv w | Some cached \<Rightarrow> handlePublication cached (w_sv w)"
  have w': "err = None" "w' = w\<lparr>w_sys := (w_sys w)\<lparr>sy_d := listed_driver (w_sv w) d\<rparr>, w_sv := ?v\<rparr>"
    using assms(1,3) d by (auto simp: list_service_def on_service_def on_sys_def on_driver_def listed_driver_def split: option.splits)
  have "\<exists>p ev. ?v = (w_sv w)\<lparr>sv_publication := p, sv_events := ev\<rparr>"
  proof (cases "map_of (d_descriptors d) (sv_id (w_sv w))")
    case None
    then show ?thesis by (intro exI [of _ "sv_publication (w_sv w)"] exI [of _ "sv_events (w_sv w)"]) simp
  qed (simp add: handlePublication_parts)
  moreover have "service_ok ?v" using handlePublication_ok [OF ok] ok by (auto split: option.split)
  ultimately show "err = None \<and> sy_d (w_sys w') = listed_driver (w_sv w) d \<and> sy_tor (w_sys w') = sy_tor (w_sys w) \<and>
      sy_effects (w_sys w') = sy_effects (w_sys w) \<and> (\<exists>p ev. w_sv w' = (w_sv w)\<lparr>sv_publication := p, sv_events := ev\<rparr>) \<and>
      service_ok (w_sv w')" unfolding w' by simp
next
  assume "\<not> registered w"
  then have "d_closed (sy_d (w_sys w))" using assms(2) by (simp add: kept_by_def shut_down_def)
  then show "err \<noteq> None \<and> w' = w" using assms(1) by (auto simp: list_service_def)
qed

lemma publish_service_cases:
  assumes "publish_service ctl env w = (err, w')" "w0 = (if nv_closes_before env then close_driver ctl (nv_env env) w else w)"
    and "scope_add (\<lambda>_. None) key_closer (sv_scope (w_sv w0)) = (e, sc)" "w1 = on_service (\<lambda>v. v\<lparr>sv_scope := sc\<rparr>) w0"
    and "w2 = (if nv_closes_after env then close_driver ctl (nv_env env) w1 else w1)"
  shows "e \<noteq> None \<Longrightarrow> err = e \<and> w' = on_service (\<lambda>v. clearKey (v\<lparr>sv_scope := sc\<rparr>)) w0"
    "e = None \<Longrightarrow> list_service w2 = (err, w')"
  using assms(1,3) unfolding publish_service_def Let_def assms(2) [symmetric]
  by (auto simp: list_service_def assms(4,5))

lemma publish_service_spec:
  assumes "publish_service ctl env w = (err, w')" "ready d w" "\<not> d_closed d" "\<not> d_done d"
  shows "err \<noteq> None \<longrightarrow> kept_by d w' \<and> \<not> registered w' \<and> same_owner (w_sv w) (w_sv w')"
    "err = None \<longrightarrow> live_world w' \<and> sy_d (w_sys w') = listed_driver (w_sv w) d \<and> sy_tor (w_sys w') = sy_tor (w_sys w) \<and>
      sy_effects (w_sys w') = sy_effects (w_sys w) \<and> (\<exists>p ev. w_sv w' = (w_sv w)\<lparr>sv_scope := held_scope key_closer (sv_scope (w_sv w)), sv_publication := p, sv_events := ev\<rparr>)"
proof -
  let ?v = "w_sv w"
  have u: "kept_by d w" "registered w" "sc_phase (sv_scope ?v) key_closer = RNone" using assms(2) by (simp_all add: ready_def)
  obtain w0 where w0: "w0 = (if nv_closes_before env then close_driver ctl (nv_env env) w else w)" by blast
  note u0 = maybe_closed(1,2,3) [OF u(1) assms(4) w0] maybe_closed(4) [OF u(1) assms(4) w0 u(3)]
  obtain e sc where ad: "scope_add (\<lambda>_. None) key_closer (sv_scope (w_sv w0)) = (e, sc)" by fastforce
  obtain w1 where w1: "w1 = on_service (\<lambda>v. v\<lparr>sv_scope := sc\<rparr>) w0" by blast
  obtain w2 where w2: "w2 = (if nv_closes_after env then close_driver ctl (nv_env env) w1 else w1)" by blast
  note pc = publish_service_cases [OF assms(1) w0 ad w1 w2]
  consider (closed) "\<not> registered w0" | (late) "registered w0" "e = None" "kept_by d w2" "\<not> registered w2" "same_owner ?v (w_sv w2)"
    | (listed) "registered w0" "e = None" "kept_by d w2" "registered w2" "w_sys w2 = w_sys w"
        "w_sv w2 = ?v\<lparr>sv_scope := held_scope key_closer (sv_scope ?v)\<rparr>"
  proof (cases "registered w0")
    case True
    then have w: "w0 = w" using u0(3) by simp
    then have cl: "\<not> sc_closed (sv_scope ?v)" "service_ok ?v" using True u(1) by (simp_all add: kept_by_def owned_def)
    have sc: "e = None" "sc = held_scope key_closer (sv_scope ?v)" using ad cl by (auto simp: scope_add_def held_scope_def w)
    have "service_ok (w_sv w1)" using service_ok_add [OF cl(2) u(3) cl(1)] by (simp add: w w1 sc(2) held_scope_def on_service_def)
    then have u1: "kept_by d w1" using u(1,2) cl(1)
      by (simp add: w w1 kept_by_def owned_def on_service_def registered_def sc(2) held_scope_def)
    note u2 = maybe_closed(1,2,3) [OF u1 assms(4) w2]
    then show thesis using that(2,3) True sc own_owner [OF u2(2)] by (cases "registered w2") (simp_all add: w w1 on_service_def)
  qed (rule that(1))
  note cases = this
  show "err \<noteq> None \<longrightarrow> kept_by d w' \<and> \<not> registered w' \<and> same_owner ?v (w_sv w')"
  proof (cases rule: cases)
    case closed
    note ul = kept_late [OF u0(1) closed u0(4) ad refl]
    then show ?thesis using pc(1) own_owner [OF u0(2)] by simp
  qed (use pc(2) list_service_spec [OF _ _ assms(3), of w2 err w'] in auto)
  show "err = None \<longrightarrow> live_world w' \<and> sy_d (w_sys w') = listed_driver ?v d \<and> sy_tor (w_sys w') = sy_tor (w_sys w) \<and>
      sy_effects (w_sys w') = sy_effects (w_sys w) \<and>
      (\<exists>p ev. w_sv w' = ?v\<lparr>sv_scope := held_scope key_closer (sv_scope ?v), sv_publication := p, sv_events := ev\<rparr>)"
  proof (cases rule: cases)
    case closed
    then have "err \<noteq> None" using kept_late(1) [OF u0(1) closed u0(4) ad refl] pc(1) by simp
    then show ?thesis by blast
  next
    case late
    then have "err \<noteq> None" using list_service_spec(2) [OF pc(2) [OF late(2)] late(3) assms(3)] by simp
    then show ?thesis by blast
  next
    case listed
    note ls = list_service_spec(1) [OF pc(2) [OF listed(2)] listed(3) assms(3) listed(4)]
    then obtain p ev where v': "w_sv w' = (w_sv w2)\<lparr>sv_publication := p, sv_events := ev\<rparr>" by blast
    have "sy_d (w_sys w') = listed_driver ?v d" using ls listed(6) by (simp add: listed_driver_def)
    moreover have "live_world w'" using ls v' assms(2-4) u(1,2) listed(6)
      by (auto simp: live_world_def ready_def listed_driver_def registered_def held_scope_def kept_by_def)
    ultimately show ?thesis using ls v' listed(5,6) by auto
  qed
qed

section \<open>The creation as a whole\<close>

text \<open>
  The numbers of the new resources are fresh, and keys have their length.
\<close>

definition fresh_numbers :: "new_env \<Rightarrow> service_config \<Rightarrow> driver \<Rightarrow> bool" where
  "fresh_numbers env cfg d \<longleftrightarrow> sc_phase (d_resources d) (nv_reg env) = RNone \<and>
    (\<forall>p \<in> set (Ports cfg). key_closer < fst (nv_listen env p)) \<and> inj_on (\<lambda>p. fst (nv_listen env p)) (set (Ports cfg)) \<and>
    (\<forall>key. nv_load env = Inr key \<longrightarrow> length key = onionServiceKeySize)"

text \<open>What was made, when it is not handed out.\<close>

definition discarded :: "service \<Rightarrow> bool" where
  "discarded v \<longleftrightarrow> set (sv_key v) \<subseteq> {0} \<and> sv_accepted v = [] \<and> sc_items (sv_scope v) \<subseteq> {events_closer}"

text \<open>The driver holds nothing of the attempt. If it is open, it is as it was, and so are the
  services of Tor.\<close>

definition undone :: "('t \<Rightarrow> string set) \<Rightarrow> new_env \<Rightarrow> 't sys \<Rightarrow> 't sys \<Rightarrow> bool" where
  "undone view env s s' \<longleftrightarrow> nv_reg env \<notin> sc_items (d_resources (sy_d s')) \<and>
    set (d_services (sy_d s')) \<subseteq> set (d_services (sy_d s)) \<and> set (d_keyNames (sy_d s')) \<subseteq> set (d_keyNames (sy_d s)) \<and>
    (\<not> d_closed (sy_d s') \<longrightarrow> d_services (sy_d s') = d_services (sy_d s) \<and>
      set (d_keyNames (sy_d s')) = set (d_keyNames (sy_d s)) \<and>
      sc_items (d_resources (sy_d s')) = sc_items (d_resources (sy_d s)) \<and> view (sy_tor s') = view (sy_tor s))"

text \<open>A service in use: each requested port is open with its listener, the key is valid, the
  driver lists the service, and Tor serves it and was given exactly its ports.\<close>

definition created ::
  "casemap \<Rightarrow> ('t \<Rightarrow> string set) \<Rightarrow> new_env \<Rightarrow> service_config \<Rightarrow> 't sys \<Rightarrow> 't sys \<Rightarrow> service \<Rightarrow> bool" where
  "created L view env cfg s s' v \<longleftrightarrow> live_world \<lparr>w_sys = s', w_sv = v\<rparr> \<and> sv_active v \<and> onion_valid (sv_key v) \<and>
    distinct (Ports cfg) \<and> (\<forall>p \<in> set (Ports cfg). \<not> isl (snd (nv_listen env p))) \<and>
    map_of (sv_ports v) = (\<lambda>p. if p \<in> set (Ports cfg) then Some (opened_port (nv_listen env p)) else None) \<and>
    d_services (sy_d s') = (nv_reg env, sv_id v) # d_services (sy_d s) \<and>
    set (d_keyNames (sy_d s')) = set (d_keyNames (sy_d s)) \<union> ({KeyName cfg} - {[]}) \<and>
    sc_items (d_resources (sy_d s')) = insert (nv_reg env) (sc_items (d_resources (sy_d s))) \<and>
    sv_id v \<notin> view (sy_tor s) \<and> view (sy_tor s') = insert (sv_id v) (view (sy_tor s)) \<and>
    (\<exists>g key. Command (addOnion_command L g (currentMappingsLocked v) (v\<lparr>sv_key := key\<rparr>)) \<in> set (sy_effects s'))"

text \<open>The world in which the service was registered.\<close>

definition born :: "new_env \<Rightarrow> service_config \<Rightarrow> 't world \<Rightarrow> bool" where
  "born env cfg w \<longleftrightarrow> kept_by (sy_d (w_sys w)) w \<and> registered w \<and> \<not> d_closed (sy_d (w_sys w)) \<and> \<not> d_done (sy_d (w_sys w)) \<and>
    sv_scope (w_sv w) = held_scope operation_closer (held_scope events_closer newScope) \<and>
    \<not> sv_closing (w_sv w) \<and> sv_registration (w_sv w) = nv_reg env \<and> sv_keyName (w_sv w) = KeyName cfg \<and>
    distinct (Ports cfg) \<and> 0 \<notin> set (Ports cfg) \<and> map_of (sv_ports (w_sv w)) = (\<lambda>p. if p \<in> set (Ports cfg) then Some empty_port else None)"

lemma load_key_length:
  assumes "load_key env cfg = Inr (g, key)" "fresh_numbers env cfg d"
  shows "length key = onionServiceKeySize" "\<not> g \<longrightarrow> onion_valid key"
  using assms by (auto simp: load_key_def fresh_numbers_def zero_key_def split: if_splits sum.splits)

lemma born_listed:
  assumes "born env cfg w" "fresh_numbers env cfg d"
  shows "listed (map (\<lambda>p. (p, nv_listen env p)) (Ports cfg)) (w_sv w)"
proof -
  have d: "distinct (Ports cfg)" "0 \<notin> set (Ports cfg)" using assms(1) by (simp_all add: born_def)
  have ph: "key_closer < r \<Longrightarrow> sc_phase (sv_scope (w_sv w)) r = RNone" for r
    using assms(1) by (simp add: born_def held_scope_def newScope_def key_closer_def operation_closer_def events_closer_def)
  have "distinct (map (\<lambda>p. fst (nv_listen env p)) (Ports cfg))"
    using d(1) assms(2) by (simp add: distinct_map fresh_numbers_def)
  then show ?thesis using d ph assms(2) by (auto simp: listed_def fresh_numbers_def comp_def split: prod.splits)
qed

text \<open>The service after its listeners were opened.\<close>

definition backed :: "new_env \<Rightarrow> service_config \<Rightarrow> driver \<Rightarrow> 't world \<Rightarrow> bool" where
  "backed env cfg d w \<longleftrightarrow> kept_by d w \<and> registered w \<and> events_closer \<in> sc_items (sv_scope (w_sv w)) \<and>
    sc_phase (sv_scope (w_sv w)) key_closer = RNone \<and> \<not> sv_closing (w_sv w) \<and>
    (\<forall>p \<in> set (Ports cfg). \<not> isl (snd (nv_listen env p))) \<and>
    map_of (sv_ports (w_sv w)) = (\<lambda>p. if p \<in> set (Ports cfg) then Some (opened_port (nv_listen env p)) else None)"

lemma map_of_ports: "map_of (map (\<lambda>(p, l). (p, opened_port l)) (map (\<lambda>p. (p, nv_listen env p)) ps)) =
    (\<lambda>p. if p \<in> set ps then Some (opened_port (nv_listen env p)) else None)"
  by (induction ps) (auto simp: fun_eq_iff)

lemma born_backed:
  assumes "new_backings senv (map (\<lambda>p. (p, nv_listen env p)) (Ports cfg)) (on_service (\<lambda>v. v\<lparr>sv_key := key\<rparr>) w) = (err, w')"
    and "born env cfg w" "fresh_numbers env cfg d0" "length key = onionServiceKeySize" "d = sy_d (w_sys w)"
  shows "kept_by d w'" "registered w'" "same_owner (w_sv w) (w_sv w')" "sv_key (w_sv w') = key" "sy_tor (w_sys w') = sy_tor (w_sys w)"
    "err = None \<Longrightarrow> backed env cfg d w'"
proof -
  let ?w = "on_service (\<lambda>v. v\<lparr>sv_key := key\<rparr>) w" and ?ls = "map (\<lambda>p. (p, nv_listen env p)) (Ports cfg)"
  have o: "owned w" "registered w" "\<not> sc_closed (sv_scope (w_sv w))" using assms(2) by (simp_all add: born_def kept_by_def held_scope_def newScope_def)
  then have ok: "service_ok (w_sv ?w)" using assms(4) by (simp add: owned_def on_service_def service_ok_def port_resource_def)
  have "listed ?ls (w_sv ?w)" using born_listed [OF assms(2,3)] by (simp add: on_service_def listed_def)
  note nb = new_backings_spec [OF assms(1) ok _ this]
  have nb': "service_ok (w_sv w') \<and> \<not> sc_closed (sv_scope (w_sv w')) \<and> port_frame (w_sv w') = port_frame (w_sv ?w) \<and>
      sy_d (w_sys w') = d \<and> sy_tor (w_sys w') = sy_tor (w_sys w) \<and>
      (\<forall>r \<le> key_closer. sc_phase (sv_scope (w_sv w')) r = sc_phase (sv_scope (w_sv w)) r)"
    using nb o(3) assms(5) by (simp add: on_service_def)
  have fr: "port_frame (w_sv w') = port_frame (w_sv ?w)" using nb' by blast
  note sel = port_frame_sel [OF fr]
  have reg: "sv_registration (w_sv w') = sv_registration (w_sv w)" "sv_keyName (w_sv w') = sv_keyName (w_sv w)" "sv_key (w_sv w') = key"
    using sel(2,3,4) by (simp_all add: on_service_def)
  show rg: "registered w'" using o(2) reg nb' assms(5) by (simp add: registered_def)
  then show u: "kept_by d w'" using o(1) nb' assms(5) by (simp add: kept_by_def owned_def)
  show "same_owner (w_sv w) (w_sv w')" "sv_key (w_sv w') = key" "sy_tor (w_sys w') = sy_tor (w_sys w)" using reg nb' by simp_all
  assume "err = None"
  then have pt: "\<forall>(_, _, a) \<in> set ?ls. \<not> isl a" "map_of (sv_ports (w_sv w')) = map_of (sv_ports (w_sv w)) ++ map_of (map (\<lambda>(p, l). (p, opened_port l)) ?ls)"
    using nb o(3) by (simp_all add: on_service_def)
  have ph: "sc_phase (sv_scope (w_sv w')) events_closer = ROpen" "sc_phase (sv_scope (w_sv w')) key_closer = RNone"
    using nb' assms(2) by (simp_all add: born_def held_scope_def newScope_def key_closer_def operation_closer_def events_closer_def)
  then have "events_closer \<in> sc_items (sv_scope (w_sv w'))" using nb' service_okD(1) [of "w_sv w'"] by (simp add: scope_ok_def)
  moreover have "map_of (sv_ports (w_sv w')) = (\<lambda>p. if p \<in> set (Ports cfg) then Some (opened_port (nv_listen env p)) else None)"
    using pt(2) assms(2) unfolding map_of_ports by (auto simp: born_def map_add_def fun_eq_iff)
  moreover have "\<forall>p \<in> set (Ports cfg). \<not> isl (snd (nv_listen env p))" using pt(1) by (auto simp: case_prod_beta)
  moreover have "\<not> sv_closing (w_sv w')" using sel(6) assms(2) by (simp add: on_service_def born_def)
  ultimately show "backed env cfg d w'" using u rg ph(2) by (simp add: backed_def)
qed

text \<open>What a successful creation gives, before the deferred functions ran.\<close>

definition open_service ::
  "casemap \<Rightarrow> ('t \<Rightarrow> string set) \<Rightarrow> new_env \<Rightarrow> service_config \<Rightarrow> 't world \<Rightarrow> 't world \<Rightarrow> bool" where
  "open_service L view env cfg w w' \<longleftrightarrow> live_world w' \<and> sv_active (w_sv w') \<and> onion_valid (sv_key (w_sv w')) \<and>
    (\<forall>p \<in> set (Ports cfg). \<not> isl (snd (nv_listen env p))) \<and>
    map_of (sv_ports (w_sv w')) = (\<lambda>p. if p \<in> set (Ports cfg) then Some (opened_port (nv_listen env p)) else None) \<and>
    sy_d (w_sys w') = listed_driver (w_sv w') (sy_d (w_sys w)) \<and> same_owner (w_sv w) (w_sv w') \<and>
    sv_id (w_sv w') \<notin> view (sy_tor (w_sys w)) \<and> view (sy_tor (w_sys w')) = insert (sv_id (w_sv w')) (view (sy_tor (w_sys w))) \<and>
    (\<exists>g key. Command (addOnion_command L g (currentMappingsLocked (w_sv w')) ((w_sv w')\<lparr>sv_key := key\<rparr>)) \<in> set (sy_effects (w_sys w')))"

text \<open>The steps after the listeners were opened; a failure withdraws what was announced.\<close>

definition announce :: "casemap \<Rightarrow> 't ctl \<Rightarrow> new_env \<Rightarrow> bool \<Rightarrow> 't world \<Rightarrow> goerr option \<times> 't world" where
  "announce L ctl env g w =
    (case create_onion L ctl (nv_env env) g w of
       (Some e, w2) \<Rightarrow> (Some e, w2)
     | (None, w2) \<Rightarrow> (case store_key ctl env g w2 of (Some e, w3) \<Rightarrow> (Some e, w3) | (None, w3) \<Rightarrow> publish_service ctl env w3))"

lemma create_service_announce:
  "create_service L ctl env cfg w =
    (case load_key env cfg of
       Inl e \<Rightarrow> (Some e, w)
     | Inr (g, key) \<Rightarrow>
         (case new_backings (nv_env env) (map (\<lambda>p. (p, nv_listen env p)) (Ports cfg)) (on_service (\<lambda>v. v\<lparr>sv_key := key\<rparr>) w) of
            (Some e, w1) \<Rightarrow> (Some e, w1) | (None, w1) \<Rightarrow> announce L ctl env g w1))"
  unfolding create_service_def announce_def by (rule refl)

lemma announce_spec:
  assumes "announce L ctl env g w = (err, w')" "backed env cfg d w" "\<not> d_closed d" "\<not> d_done d" "onion_ids L ctl view"
    and "\<not> g \<longrightarrow> onion_valid (sv_key (w_sv w))"
  shows "err \<noteq> None \<longrightarrow> kept_by d w' \<and> same_owner (w_sv w) (w_sv w') \<and>
      (registered w' \<longrightarrow> view (sy_tor (w_sys w')) = view (sy_tor (w_sys w)))"
    "err = None \<longrightarrow> open_service L view env cfg (w\<lparr>w_sys := (w_sys w)\<lparr>sy_d := d\<rparr>\<rparr>) w'"
proof -
  have u: "kept_by d w" "registered w" using assms(2) by (simp_all add: backed_def)
  obtain e2 w2 where c2: "create_onion L ctl (nv_env env) g w = (e2, w2)" by fastforce
  note co = create_onion_spec [OF c2 u assms(3,4,5)]
  have both: "(err \<noteq> None \<longrightarrow> kept_by d w' \<and> same_owner (w_sv w) (w_sv w') \<and>
      (registered w' \<longrightarrow> view (sy_tor (w_sys w')) = view (sy_tor (w_sys w)))) \<and>
    (err = None \<longrightarrow> open_service L view env cfg (w\<lparr>w_sys := (w_sys w)\<lparr>sy_d := d\<rparr>\<rparr>) w')"
  proof (cases e2)
    case (Some e)
    then have "err = Some e" "w' = w2" using assms(1) c2 by (simp_all add: announce_def)
    then show ?thesis using co Some by simp
  next
    case None
    obtain i key where v2: "w_sv w2 = (w_sv w)\<lparr>sv_key := key, sv_id := i, sv_active := True\<rparr>"
        "if g then length key = 64 \<and> onion_valid key else key = sv_key (w_sv w)" "validServiceID i"
        "i \<notin> view (sy_tor (w_sys w))" "view (sy_tor (w_sys w2)) = insert i (view (sy_tor (w_sys w)))"
      and u2: "kept_by d w2" "registered w2"
      and cmd: "Command (addOnion_command L g (currentMappingsLocked (w_sv w)) (w_sv w)) \<in> set (sy_effects (w_sys w2))"
      using co None by auto
    have rd: "ready d w2" using assms(2) u2 v2(3) by (simp add: ready_def backed_def v2(1))
    have kv: "onion_valid key" using v2(2) assms(6) by (auto split: if_splits)
    obtain e3 w3 where c3: "store_key ctl env g w2 = (e3, w3)" by fastforce
    note sk = store_key_spec [OF c3 u2 assms(3,4,5)]
    show ?thesis
    proof (cases e3)
      case (Some e)
      then have "err = Some e" "w' = w3" using assms(1) c2 None c3 by (simp_all add: announce_def)
      then show ?thesis using sk(2,3) Some v2(1,4,5) by simp
    next
      case n3: None
      then have p: "publish_service ctl env w2 = (err, w')" using assms(1) c2 None c3 sk(1) by (simp add: announce_def)
      note ps = publish_service_spec [OF p rd assms(3,4)]
      have "open_service L view env cfg (w\<lparr>w_sys := (w_sys w)\<lparr>sy_d := d\<rparr>\<rparr>) w'" if n: "err = None"
      proof -
        obtain pb ev where v': "w_sv w' = (w_sv w2)\<lparr>sv_scope := held_scope key_closer (sv_scope (w_sv w2)), sv_publication := pb, sv_events := ev\<rparr>"
          using ps(2) n by blast
        have "addOnion_command L g (currentMappingsLocked (w_sv w')) ((w_sv w')\<lparr>sv_key := sv_key (w_sv w)\<rparr>) =
            addOnion_command L g (currentMappingsLocked (w_sv w)) (w_sv w)"
          by (simp add: v' v2(1) addOnion_command_def currentMappingsLocked_def)
        then have "\<exists>g key. Command (addOnion_command L g (currentMappingsLocked (w_sv w')) ((w_sv w')\<lparr>sv_key := key\<rparr>)) \<in> set (sy_effects (w_sys w'))"
          using cmd ps(2) n by (intro exI [of _ g] exI [of _ "sv_key (w_sv w)"]) simp
        moreover have "sy_d (w_sys w') = listed_driver (w_sv w') d" using ps(2) n by (simp add: v' listed_driver_def)
        ultimately show ?thesis using ps(2) n assms(2) v2(4,5) kv by (simp add: open_service_def v' v2(1) backed_def)
      qed
      then show ?thesis using ps(1) v2(1) by simp
    qed
  qed
  then show "err \<noteq> None \<longrightarrow> kept_by d w' \<and> same_owner (w_sv w) (w_sv w') \<and>
      (registered w' \<longrightarrow> view (sy_tor (w_sys w')) = view (sy_tor (w_sys w)))"
    "err = None \<longrightarrow> open_service L view env cfg (w\<lparr>w_sys := (w_sys w)\<lparr>sy_d := d\<rparr>\<rparr>) w'" by blast+
qed

lemma create_service_spec:
  assumes "create_service L ctl env cfg w = (err, w')" "born env cfg w" "fresh_numbers env cfg d0" "onion_ids L ctl view"
    and "d = sy_d (w_sys w)"
  shows "err \<noteq> None \<longrightarrow> kept_by d w' \<and> same_owner (w_sv w) (w_sv w') \<and>
      (registered w' \<longrightarrow> view (sy_tor (w_sys w')) = view (sy_tor (w_sys w)))"
    "err = None \<longrightarrow> open_service L view env cfg w w'"
proof -
  have b: "kept_by d w" "\<not> d_closed d" "\<not> d_done d" using assms(2,5) by (simp_all add: born_def)
  have both: "(err \<noteq> None \<longrightarrow> kept_by d w' \<and> same_owner (w_sv w) (w_sv w') \<and>
      (registered w' \<longrightarrow> view (sy_tor (w_sys w')) = view (sy_tor (w_sys w)))) \<and>
    (err = None \<longrightarrow> open_service L view env cfg w w')"
  proof (cases "load_key env cfg")
    case (Inl e)
    then have "err = Some e" "w' = w" using assms(1) by (simp_all add: create_service_def)
    then show ?thesis using b(1) by simp
  next
    case (Inr x)
    obtain g key where x: "x = (g, key)" by (cases x)
    note lk = load_key_length [OF Inr [unfolded x] assms(3)]
    obtain e1 w1 where nb: "new_backings (nv_env env) (map (\<lambda>p. (p, nv_listen env p)) (Ports cfg))
        (on_service (\<lambda>v. v\<lparr>sv_key := key\<rparr>) w) = (e1, w1)" by fastforce
    note bb = born_backed [OF nb assms(2,3) lk(1) assms(5)]
    show ?thesis
    proof (cases e1)
      case (Some e)
      then have "err = Some e" "w' = w1" using assms(1) Inr x nb by (simp_all add: create_service_announce)
      then show ?thesis using bb by simp
    next
      case None
      then have an: "announce L ctl env g w1 = (err, w')" using assms(1) Inr x nb by (simp add: create_service_announce)
      have "\<not> g \<longrightarrow> onion_valid (sv_key (w_sv w1))" using lk(2) bb(4) by simp
      note as = announce_spec [OF an bb(6) [OF None] b(2,3) assms(4) this]
      have "open_service L view env cfg (w1\<lparr>w_sys := (w_sys w1)\<lparr>sy_d := d\<rparr>\<rparr>) w' = open_service L view env cfg w w'"
        using bb(3,5) assms(5) by (simp add: open_service_def)
      then show ?thesis using as bb(3,5) by simp
    qed
  qed
  then show "err \<noteq> None \<longrightarrow> kept_by d w' \<and> same_owner (w_sv w) (w_sv w') \<and>
      (registered w' \<longrightarrow> view (sy_tor (w_sys w')) = view (sy_tor (w_sys w)))"
    "err = None \<longrightarrow> open_service L view env cfg w w'" by blast+
qed

section \<open>The deferred functions\<close>

lemma operation_released:
  assumes "service_ok v" "v' = snd (close_resource env operation_closer v)"
  shows "service_ok v'" "sc_items (sv_scope v') = sc_items (sv_scope v) - {operation_closer}"
    "sc_closed (sv_scope v') = sc_closed (sv_scope v)" "\<exists>sc. v' = v\<lparr>sv_scope := sc\<rparr>"
proof -
  have "\<forall>r. key_closer < r \<longrightarrow> r \<noteq> operation_closer" by (simp add: key_closer_def operation_closer_def)
  then have "operation_closer \<notin> set (sv_accepted v)" "\<forall>q. port_resource v q \<noteq> Some operation_closer"
    using assms(1) unfolding service_ok_def by blast+
  from service_ok_release [OF assms(1) this] show "service_ok v'" unfolding assms(2) .
  show "sc_items (sv_scope v') = sc_items (sv_scope v) - {operation_closer}" unfolding assms(2) by (rule close_resource_items [OF assms(1)])
  show "sc_closed (sv_scope v') = sc_closed (sv_scope v)"
    using release_spec(3) [OF service_okD(1) [OF assms(1)]] assms(2) by (simp add: close_resource_def case_prod_beta)
  show "\<exists>sc. v' = v\<lparr>sv_scope := sc\<rparr>" using assms(2) by (auto simp: close_resource_def split: prod.split)
qed

lemma deferred_success:
  assumes "create_deferred env None w = (err, w')" "open_service L view nenv cfg w0 w"
  shows "err = None \<and> w_sys w' = w_sys w \<and> open_service L view nenv cfg w0 w'"
proof -
  have "live_world w" using assms(2) by (simp add: open_service_def)
  then have lw: "service_ok (w_sv w)" by (simp add: live_world_def)
  let ?v = "snd (close_resource (env\<lparr>ve_close := \<lambda>_. None\<rparr>) operation_closer (w_sv w))"
  have w': "err = None" "w' = w\<lparr>w_sv := ?v\<rparr>" using assms(1) by (simp_all add: create_deferred_def on_service_def)
  note op = operation_released [OF lw refl, of "env\<lparr>ve_close := \<lambda>_. None\<rparr>"]
  then obtain sc where sc: "?v = (w_sv w)\<lparr>sv_scope := sc\<rparr>" by blast
  have "{events_closer, key_closer} \<subseteq> sc_items sc"
    using op(2) \<open>live_world w\<close> sc by (auto simp: live_world_def events_closer_def key_closer_def operation_closer_def)
  then have "live_world w'" using \<open>live_world w\<close> op(1) unfolding w'(2) sc by (simp add: live_world_def registered_def)
  moreover have "addOnion_command L g (currentMappingsLocked ((w_sv w)\<lparr>sv_scope := sc\<rparr>)) ((w_sv w)\<lparr>sv_scope := sc, sv_key := key\<rparr>) =
      addOnion_command L g (currentMappingsLocked (w_sv w)) ((w_sv w)\<lparr>sv_key := key\<rparr>)" for g key
    by (simp add: addOnion_command_def currentMappingsLocked_def)
  ultimately show ?thesis using assms(2) w'(1) unfolding w'(2) sc by (simp add: open_service_def listed_driver_def)
qed

lemma registration_close_sys:
  assumes "registration_close env w = (e, w')"
  shows "sy_tor (w_sys w') = sy_tor (w_sys w)" "\<exists>rs. sy_d (w_sys w') = (sy_d (w_sys w))\<lparr>d_resources := rs\<rparr>"
  using assms by (auto simp: registration_close_def on_driver_def Let_def split: prod.splits)

lemma registration_close_items:
  assumes "registration_close env w = (e, w')" "owned w"
  shows "sc_items (d_resources (sy_d (w_sys w'))) = sc_items (d_resources (sy_d (w_sys w))) - {sv_registration (w_sv w)}"
proof -
  have so: "scope_ok (d_resources (sy_d (w_sys w)))" "service_ok (w_sv w)" using assms(2) by (simp_all add: owned_def driver_inv_def)
  obtain err v where v: "(if registered w then scope_shut (ve_close env) (w_sv w) else (None, w_sv w)) = (err, v)" by fastforce
  have "rest_of v = rest_of (w_sv w)"
  proof (cases "registered w")
    case True
    then have "scope_shut (ve_close env) (w_sv w) = (err, v)" using v by simp
    from scope_shut_spec [OF this so(2)] show ?thesis by blast
  qed (use v in simp)
  then have reg: "sv_registration v = sv_registration (w_sv w)" by (rule rest_sel)
  obtain e1 rs where r: "resource_close (\<lambda>_. err) (sv_registration (w_sv w)) (d_resources (sy_d (w_sys w))) = (e1, rs)" by fastforce
  have "sy_d (w_sys w') = (sy_d (w_sys w))\<lparr>d_resources := rs\<rparr>"
    using assms(1) unfolding registration_close_def v Let_def by (auto simp: reg r on_driver_def)
  then show ?thesis using release_spec(2) [OF so(1), of "\<lambda>_. err" "sv_registration (w_sv w)"] by (simp add: r)
qed

lemma deferred_failure:
  assumes "create_deferred env (Some e) w = (err, w')" "kept_by d w" "\<not> d_closed d"
  shows "err \<noteq> None" "driver_inv (sy_d (w_sys w'))" "discarded (w_sv w')"
    "sv_registration (w_sv w) \<notin> sc_items (d_resources (sy_d (w_sys w')))"
    "if d_closed (sy_d (w_sys w')) then d_services (sy_d (w_sys w')) = [] \<and> d_keyNames (sy_d (w_sys w')) = []
     else registered w \<and> d_services (sy_d (w_sys w')) = d_services d \<and> sy_tor (w_sys w') = sy_tor (w_sys w) \<and>
       d_keyNames (sy_d (w_sys w')) = removeAll (sv_keyName (w_sv w)) (d_keyNames d) \<and>
       sc_items (d_resources (sy_d (w_sys w'))) = sc_items (d_resources d) - {sv_registration (w_sv w)}"
proof -
  let ?v1 = "snd (close_resource (env\<lparr>ve_close := \<lambda>_. None\<rparr>) operation_closer (w_sv w))"
  let ?w1 = "w\<lparr>w_sv := ?v1\<rparr>"
  have ok: "service_ok (w_sv w)" "owned w" using assms(2) by (simp_all add: kept_by_def owned_def)
  note op = operation_released [OF ok(1) refl, of "env\<lparr>ve_close := \<lambda>_. None\<rparr>"]
  then obtain sc where sc: "?v1 = (w_sv w)\<lparr>sv_scope := sc\<rparr>" by blast
  have r1: "registered ?w1 = registered w" by (simp add: sc registered_def)
  have o1: "owned ?w1" using ok(2) op(1,3) r1 by (simp add: owned_def sc)
  obtain e2 w2 where rc: "registration_close env ?w1 = (e2, w2)" by fastforce
  note ro = registration_close_owned [OF rc o1] and rs = registration_close_sys [OF rc] and ri = registration_close_items [OF rc o1]
  obtain rr where rr: "sy_d (w_sys w2) = (sy_d (w_sys w))\<lparr>d_resources := rr\<rparr>" using rs(2) by auto
  have own: "own_part (w_sv w2) = own_part ?v1" using ro by simp
  have w': "err = errors_join [Some e, e2]"
    "w' = on_service clearKey (on_sys (on_driver (\<lambda>d. d\<lparr>d_keyNames := removeAll (sv_keyName (w_sv w2)) (d_keyNames d)\<rparr>)) w2)"
    using assms(1) rc by (simp_all add: create_deferred_def on_service_def)
  have sv': "w_sv w' = clearKey (w_sv w2)"
    "sy_d (w_sys w') = (sy_d (w_sys w2))\<lparr>d_keyNames := removeAll (sv_keyName (w_sv w2)) (d_keyNames (sy_d (w_sys w2)))\<rparr>"
    "sy_tor (w_sys w') = sy_tor (w_sys w)" using rs(1) by (simp_all add: w'(2) on_service_def on_sys_def on_driver_def)
  show "err \<noteq> None" using w'(1) by (simp add: errors_join_None_iff)
  show "driver_inv (sy_d (w_sys w'))" using ro sv'(2) by (simp add: owned_def driver_inv_def)
  have "sc_closed (sv_scope (w_sv w2))" "sv_accepted (w_sv w2) = []" "scope_ok (sv_scope (w_sv w2))"
    using ro service_okD(1) [of "w_sv w2"] by (auto simp: owned_def)
  then show "discarded (w_sv w')" unfolding sv'(1) by (auto simp: discarded_def clearKey_def scope_ok_def)
  show "sv_registration (w_sv w) \<notin> sc_items (d_resources (sy_d (w_sys w')))" using ri by (simp add: sv'(2) sc)
  have kn: "sv_keyName (w_sv w2) = sv_keyName (w_sv w)" using own_sel(4) [OF own] by (simp add: sc)
  show "if d_closed (sy_d (w_sys w')) then d_services (sy_d (w_sys w')) = [] \<and> d_keyNames (sy_d (w_sys w')) = []
     else registered w \<and> d_services (sy_d (w_sys w')) = d_services d \<and> sy_tor (w_sys w') = sy_tor (w_sys w) \<and>
       d_keyNames (sy_d (w_sys w')) = removeAll (sv_keyName (w_sv w)) (d_keyNames d) \<and>
       sc_items (d_resources (sy_d (w_sys w'))) = sc_items (d_resources d) - {sv_registration (w_sv w)}"
  proof (cases "registered w")
    case True
    then have "sy_d (w_sys w) = d" using assms(2) by (simp add: kept_by_def)
    then show ?thesis using True rr ri assms(3) sv'(2,3) kn by (simp add: sc)
  next
    case False
    then have "d_closed (sy_d (w_sys w))" "d_services (sy_d (w_sys w)) = []" "d_keyNames (sy_d (w_sys w)) = []"
      using assms(2) by (simp_all add: kept_by_def shut_down_def)
    then show ?thesis using rr sv'(2) by simp
  qed
qed

section \<open>All or nothing\<close>

lemma fresh_service_ok:
  assumes "reserve_ports (Ports cfg) [] = (None, ps)" "v = fresh_service env cfg"
  shows "service_ok v" "sv_scope v = held_scope events_closer newScope" "sv_ports v = ps"
    "v = (new_service (nv_reg env) cfg)\<lparr>sv_scope := held_scope events_closer newScope, sv_ports := ps\<rparr>"
proof -
  show v: "v = (new_service (nv_reg env) cfg)\<lparr>sv_scope := held_scope events_closer newScope, sv_ports := ps\<rparr>"
    using assms by (simp add: fresh_service_def new_service_def scope_add_def newScope_def held_scope_def)
  then show "sv_scope v = held_scope events_closer newScope" "sv_ports v = ps" by simp_all
  have "scope_ok (held_scope events_closer newScope)" by (auto simp: scope_ok_def held_scope_def newScope_def)
  moreover note rp = reserve_ports_spec [OF assms(1)]
  then have "port_resource v p = None" for p by (simp add: v port_resource_def empty_port_def)
  moreover have "map_of ps 0 = None" "distinct (map fst ps)" using rp by simp_all
  moreover have "port_ok b" if "map_of ps p = Some b" for p b using that rp by (auto simp: port_ok_def empty_port_def split: if_splits)
  ultimately show "service_ok v"
    by (simp add: service_ok_def) (simp add: v new_service_def zero_key_def broker_inv_new onionServiceKeySize_def)
qed

lemma refused_discarded:
  assumes "service_ok v"
  shows "discarded (refused_service env v)"
proof -
  obtain err v' where sh: "scope_shut (ve_close env) v = (err, v')" by fastforce
  from scope_shut_spec [OF sh assms] show ?thesis by (auto simp: refused_service_def sh discarded_def clearKey_def)
qed

lemma fresh_not_held: "scope_ok sc \<Longrightarrow> sc_phase sc r = RNone \<Longrightarrow> r \<notin> sc_items sc"
  unfolding scope_ok_def by (metis rphase.distinct(1))

lemma undone_refl:
  "scope_ok (d_resources (sy_d s)) \<Longrightarrow> sc_phase (d_resources (sy_d s)) (nv_reg env) = RNone \<Longrightarrow> undone view env s s"
  by (simp add: undone_def fresh_not_held)

abbreviation registered_driver :: "new_env \<Rightarrow> service_config \<Rightarrow> driver \<Rightarrow> driver" where
  "registered_driver env cfg d \<equiv> d\<lparr>d_resources := held_scope (nv_reg env) (d_resources d),
     d_keyNames := (if KeyName cfg \<noteq> [] then List.insert (KeyName cfg) (d_keyNames d) else d_keyNames d)\<rparr>"

lemma born_registered:
  assumes "driver_inv (sy_d s)" "\<not> d_closed (sy_d s)" "\<not> d_done (sy_d s)" "sc_phase (d_resources (sy_d s)) (nv_reg env) = RNone"
    and "\<not> sc_closed (d_resources (sy_d s))" "reserve_ports (Ports cfg) [] = (None, ps)" "v = fresh_service env cfg"
    and "w = \<lparr>w_sys = on_driver (registered_driver env cfg) s, w_sv = v\<lparr>sv_scope := snd (scope_operation operation_closer (sv_scope v))\<rparr>\<rparr>"
  shows "born env cfg w"
proof -
  note fs = fresh_service_ok [OF assms(6,7)]
  have rp: "distinct (Ports cfg)" "0 \<notin> set (Ports cfg)" "map_of ps = (\<lambda>p. if p \<in> set (Ports cfg) then Some empty_port else None)"
    using reserve_ports_spec [OF assms(6)] by (auto simp: fun_eq_iff)
  let ?h = "held_scope operation_closer (held_scope events_closer newScope)"
  have sc: "snd (scope_operation operation_closer (sv_scope v)) = ?h"
    by (simp add: fs(2) scope_operation_def scope_add_def held_scope_def newScope_def)
  have "service_ok (v\<lparr>sv_scope := ?h\<rparr>)"
    by (rule service_ok_add [OF fs(1), of operation_closer])
      (simp_all add: fs(2) held_scope_def newScope_def operation_closer_def events_closer_def)
  moreover have "scope_ok (held_scope (nv_reg env) (d_resources (sy_d s)))"
    using scope_ok_add [of "d_resources (sy_d s)" "nv_reg env" "\<lambda>_. None"] assms(1,4,5) by (simp add: driver_inv_def scope_add_def held_scope_def)
  then have "driver_inv (registered_driver env cfg (sy_d s))" using assms(1) by (simp add: driver_inv_def)
  moreover have reg: "registered w" by (simp add: assms(8) registered_def on_driver_def held_scope_def fs(4) new_service_def)
  ultimately have "kept_by (sy_d (w_sys w)) w"
    using reg by (simp add: kept_by_def owned_def assms(8) on_driver_def sc) (simp add: held_scope_def newScope_def)
  then show ?thesis using reg assms(2,3) rp unfolding born_def by (simp add: assms(8) on_driver_def sc) (simp add: fs(4) new_service_def)
qed

lemma NewService_registered:
  assumes "create_service L ctl env cfg w = (e, w1)" "create_deferred (nv_env env) e w1 = (err, w2)" "born env cfg w"
    and "w_sys w = on_driver (registered_driver env cfg) s" "fresh_numbers env cfg (sy_d s)" "driver_inv (sy_d s)"
    and "KeyName cfg \<notin> set (d_keyNames (sy_d s))" "onion_ids L ctl view"
  shows "driver_inv (sy_d (w_sys w2)) \<and> (case err of
      None \<Rightarrow> created L view env cfg s (w_sys w2) (w_sv w2)
    | Some _ \<Rightarrow> undone view env s (w_sys w2) \<and> discarded (w_sv w2))"
proof -
  let ?d = "registered_driver env cfg (sy_d s)"
  have d: "?d = sy_d (w_sys w)" "sy_tor (w_sys w) = sy_tor s" by (simp_all add: assms(4) on_driver_def)
  have b: "\<not> d_closed ?d" "sv_registration (w_sv w) = nv_reg env" "sv_keyName (w_sv w) = KeyName cfg" "distinct (Ports cfg)" "driver_inv ?d"
    using assms(3) unfolding d(1) by (simp_all add: born_def kept_by_def owned_def)
  note cs = create_service_spec [OF assms(1,3,5,8) d(1)]
  have reg: "nv_reg env \<notin> sc_items (d_resources (sy_d s))" using assms(5,6) by (simp add: fresh_numbers_def driver_inv_def fresh_not_held)
  show ?thesis
  proof (cases e)
    case None
    note ds = deferred_success [OF assms(2) [unfolded None] cs(2) [rule_format, OF None]]
    then have o: "open_service L view env cfg w w2" "err = None" by simp_all
    have sd: "sy_d (w_sys w2) = listed_driver (w_sv w2) ?d" using o(1) unfolding d(1) by (simp add: open_service_def)
    then have di: "driver_inv (sy_d (w_sys w2))" using b(5) by (simp add: listed_driver_def driver_inv_def)
    have "sv_registration (w_sv w2) = nv_reg env" using o(1) b(2) by (simp add: open_service_def)
    then have "d_services (sy_d (w_sys w2)) = (nv_reg env, sv_id (w_sv w2)) # d_services (sy_d s)"
      "set (d_keyNames (sy_d (w_sys w2))) = set (d_keyNames (sy_d s)) \<union> ({KeyName cfg} - {[]})"
      "sc_items (d_resources (sy_d (w_sys w2))) = insert (nv_reg env) (sc_items (d_resources (sy_d s)))"
      unfolding sd by (auto simp: listed_driver_def held_scope_def)
    moreover have "live_world \<lparr>w_sys = w_sys w2, w_sv = w_sv w2\<rparr>" using o(1) by (cases w2) (simp add: open_service_def)
    ultimately have "created L view env cfg s (w_sys w2) (w_sv w2)"
      using o(1) b(4) d(2) unfolding created_def open_service_def by simp
    then show ?thesis using o(2) di by simp
  next
    case (Some e1)
    have u: "kept_by ?d w1" "same_owner (w_sv w) (w_sv w1)" "registered w1 \<longrightarrow> view (sy_tor (w_sys w1)) = view (sy_tor s)"
      using cs(1) Some d(2) by simp_all
    note df = deferred_failure [OF assms(2) [unfolded Some] u(1) b(1)]
    have "undone view env s (w_sys w2)"
      using df(4,5) u(2,3) b(2,3) assms(7) reg by (auto simp: undone_def held_scope_def split: if_splits)
    then show ?thesis using df(1-3) by auto
  qed
qed

lemma NewService_reserved:
  assumes "NewService L ctl env cfg s = (err, s', made)" "driver_inv (sy_d s)" "d_done (sy_d s) \<longrightarrow> d_closed (sy_d s)"
    and "fresh_numbers env cfg (sy_d s)" "[] \<notin> set (d_keyNames (sy_d s))" "onion_ids L ctl view"
    and "service_config_error L (nv_hasStore env) (d_cfg (sy_d s)) cfg = None" "reserve_ports (Ports cfg) [] = (None, ps)"
  shows "driver_inv (sy_d s') \<and> (case err of
      None \<Rightarrow> \<exists>v. made = Some v \<and> created L view env cfg s s' v
    | Some _ \<Rightarrow> undone view env s s' \<and> (\<forall>v. made = Some v \<longrightarrow> discarded v))"
proof -
  let ?d = "sy_d s" and ?v = "fresh_service env cfg"
  have ph: "sc_phase (d_resources ?d) (nv_reg env) = RNone" "scope_ok (d_resources ?d)"
    using assms(2,4) by (simp_all add: fresh_numbers_def driver_inv_def)
  note fs = fresh_service_ok [OF assms(8) refl, of env] and ur = undone_refl [OF ph(2,1), of view]
  note rd = refused_discarded [OF fs(1), of "nv_env env"]
  consider (closed) "d_closed ?d" | (active) "\<not> d_closed ?d" "KeyName cfg \<noteq> []" "KeyName cfg \<in> set (d_keyNames ?d)"
    | (shut) "\<not> d_closed ?d" "KeyName cfg \<notin> set (d_keyNames ?d)" "sc_closed (d_resources ?d)"
    | (new) "\<not> d_closed ?d" "KeyName cfg \<notin> set (d_keyNames ?d)" "\<not> sc_closed (d_resources ?d)"
    using assms(5) by (cases "KeyName cfg = []") auto
  then show ?thesis
  proof cases
    case shut
    let ?e = "fst (scope_shut (ve_close (nv_env env)) ?v)"
    obtain x where e: "errors_join [Some (Sentinel ErrClosed), ?e] = Some x" by (metis errors_join_None_iff not_Some_eq list.set_intros(1))
    let ?rs = "call_close (\<lambda>_. ?e) (nv_reg env) (d_resources ?d)"
    have add: "scope_add (\<lambda>_. ?e) (nv_reg env) (d_resources ?d) = (Some x, ?rs)" using shut(3) e by (simp add: scope_add_def)
    have r: "err = Some x" "made = Some (refused_service (nv_env env) ?v)"
      "s' = on_driver (\<lambda>d. d\<lparr>d_resources := ?rs, d_keyNames := removeAll (KeyName cfg) (d_keyNames d)\<rparr>) s"
      using assms(1,7,8) shut(1,2) add by (simp_all add: NewService_def Let_def)
    have "scope_ok ?rs" by (rule scope_ok_add [OF ph(2,1) add])
    then have "driver_inv (sy_d s')" using assms(2) by (simp add: r(3) on_driver_def driver_inv_def)
    moreover have "undone view env s s'"
      using ur shut(2) by (simp add: undone_def r(3) on_driver_def call_close_def)
    ultimately show ?thesis using r(1,2) rd by simp
  next
    case new
    have nd: "\<not> d_done ?d" using assms(3) new(1) by blast
    let ?w = "\<lparr>w_sys = on_driver (registered_driver env cfg) s, w_sv = ?v\<lparr>sv_scope := snd (scope_operation operation_closer (sv_scope ?v))\<rparr>\<rparr>"
    obtain e w1 where c: "create_service L ctl env cfg ?w = (e, w1)" by fastforce
    obtain e2 w2 where f: "create_deferred (nv_env env) e w1 = (e2, w2)" by fastforce
    have r: "err = e2" "s' = w_sys w2" "made = Some (w_sv w2)"
      using assms(1,7,8) new c f by (simp_all add: NewService_def Let_def scope_add_def held_scope_def on_driver_def)
    have b: "born env cfg ?w" by (rule born_registered [OF assms(2) new(1) nd ph(1) new(3) assms(8) refl refl])
    from NewService_registered [OF c f b _ assms(4,2) new(2) assms(6)] r show ?thesis by (auto split: option.splits)
  qed (use assms(1,2,7,8) ur rd in \<open>auto simp: NewService_def Let_def\<close>)
qed

text \<open>
  C1. Creating a service is all or nothing. \<^verbatim>\<open>NewService\<close> fails and leaves nothing behind, or
  hands out a service in use, whatever the key store, the sandbox and Tor answer and also
  when the driver is closed meanwhile. After a failure the driver holds none of the
  attempt's resources, services and key names, an open driver holds exactly what it held,
  Tor serves exactly the services it served, and the given-up service has a cleared key
  and holds no listener. After success each requested port is open, the key is
  valid, the driver lists the service, and Tor serves it with exactly its ports.
\<close>

theorem NewService_all_or_nothing:
  assumes "NewService L ctl env cfg s = (err, s', made)" "driver_inv (sy_d s)" "d_done (sy_d s) \<longrightarrow> d_closed (sy_d s)"
    and "fresh_numbers env cfg (sy_d s)" "[] \<notin> set (d_keyNames (sy_d s))" "onion_ids L ctl view"
  shows "driver_inv (sy_d s') \<and> (case err of
      None \<Rightarrow> \<exists>v. made = Some v \<and> created L view env cfg s s' v
    | Some _ \<Rightarrow> undone view env s s' \<and> (\<forall>v. made = Some v \<longrightarrow> discarded v))"
proof -
  let ?d = "sy_d s" and ?v = "fresh_service env cfg"
  have ph: "sc_phase (d_resources ?d) (nv_reg env) = RNone" "scope_ok (d_resources ?d)"
    using assms(2,4) by (simp_all add: fresh_numbers_def driver_inv_def)
  note ur = undone_refl [OF ph(2,1), of view]
  show ?thesis
  proof (cases "service_config_error L (nv_hasStore env) (d_cfg ?d) cfg")
    case (Some e)
    then have "err = Some e" "s' = s" "made = None" using assms(1) by (simp_all add: NewService_def Let_def)
    then show ?thesis using ur assms(2) by simp
  next
    case cfg: None
    obtain e ps where rp: "reserve_ports (Ports cfg) [] = (e, ps)" by fastforce
    show ?thesis
    proof (cases e)
      case (Some e1)
      then have "err = Some e1" "s' = s" "made = Some (clearKey ?v)" using assms(1) cfg rp by (simp_all add: NewService_def Let_def)
      moreover have "discarded (clearKey ?v)"
        by (auto simp: discarded_def clearKey_def fresh_service_def new_service_def scope_add_def newScope_def)
      ultimately show ?thesis using ur assms(2) by simp
    next
      case None
      then show ?thesis using NewService_reserved [OF assms cfg rp [unfolded None]] by simp
    qed
  qed
qed

text \<open>A Tor that gives one identifier to every service, and an environment in which the
  listener of each port is numbered after the port.\<close>

definition id_tor :: "string set ctl" where
  "id_tor cmd ids =
    (if HasPrefix cmd ''ADD_ONION '' then
       (if sample_onion \<in> ids then (Inl (ControlError 550), ids)
        else (Inr \<lparr>Code = 250, Lines = [''ServiceID='' @ sample_onion]\<rparr>, insert sample_onion ids))
     else if HasPrefix cmd ''DEL_ONION '' then (Inr \<lparr>Code = 250, Lines = [''OK'']\<rparr>, ids - {drop 10 cmd})
     else (Inl (ControlError 510), ids))"

lemma id_tor_ids: "onion_ids L id_tor (\<lambda>ids. ids)"
  by (auto simp: onion_ids_def id_tor_def HasPrefix_def addOnion_command_def del_command_def service_line [simplified])

definition sample_ask :: service_config where
  "sample_ask = \<lparr>Ports = [80], MaxStreams = 0, MaxStreamsPolicy = KeepRendezvousCircuit, KeyName = ''web'', AuthorizedClients = []\<rparr>"

definition sample_new :: new_env where
  "sample_new = \<lparr>nv_env = sample_senv, nv_reg = 7, nv_hasStore = True, nv_load = Inr sample_key, nv_store = None,
     nv_listen = (\<lambda>p. (unat p, Inr ''127.0.0.1:9'')), nv_closes_before = False, nv_closes_after = False\<rparr>"

definition sample_new_sys :: "string set sys" where
  "sample_new_sys = \<lparr>sy_d = sample_driver, sy_tor = {}, sy_effects = []\<rparr>"

lemma sample_new_fresh: "fresh_numbers sample_new sample_ask (sy_d sample_new_sys)"
  by (simp add: fresh_numbers_def sample_new_def sample_ask_def sample_new_sys_def sample_driver_def newScope_def key_closer_def
      sample_key_def onionServiceKeySize_def)

lemma sample_checked: "service_config_error (\<lambda>n. n) True (d_cfg sample_driver) sample_ask = None"
proof -
  have "validKeyName ''web''" unfolding validKeyName_iff by (simp add: alnum_def)
  then show ?thesis by (simp add: service_config_error_def sample_ask_def sample_driver_def sample_validated_def sample_config_def)
qed

lemma id_tor_add:
  "id_tor (addOnion_command L g m v) {} = (Inr \<lparr>Code = 250, Lines = [''ServiceID='' @ sample_onion]\<rparr>, {sample_onion})"
  by (simp add: id_tor_def HasPrefix_def addOnion_command_def)

lemma sample_key_valid: "onion_valid sample_key"
  by (simp add: sample_key_def onion_valid_def nth_append)

lemma sample_new_runs: "fst (NewService (\<lambda>n. n) id_tor sample_new sample_ask sample_new_sys) = None"
  by (simp add: NewService_def sample_checked sample_new_def sample_new_sys_def)
    (simp add: sample_ask_def sample_driver_def fresh_service_def new_service_def scope_add_def newScope_def create_service_def load_key_def
      newBacking_def sample_senv_def sample_ports scope_operation_def on_service_def sample_key_valid on_driver_def
      create_onion_def addOnion_def sv_command_def command_def control_Do_def effect_def id_tor_add applyAddReply_def service_line [simplified]
      sample_onion_valid store_key_def publish_service_def create_deferred_def)

theorem NewService_all_or_nothing_witness:
  "\<exists>s' v. NewService (\<lambda>n. n) id_tor sample_new sample_ask sample_new_sys = (None, s', Some v) \<and>
     created (\<lambda>n. n) (\<lambda>ids. ids) sample_new sample_ask sample_new_sys s' v"
proof -
  obtain s' m where r: "NewService (\<lambda>n. n) id_tor sample_new sample_ask sample_new_sys = (None, s', m)"
    using sample_new_runs by (metis prod.exhaust fst_conv)
  have d: "driver_inv (sy_d sample_new_sys)" "d_done (sy_d sample_new_sys) \<longrightarrow> d_closed (sy_d sample_new_sys)"
    "[] \<notin> set (d_keyNames (sy_d sample_new_sys))"
    using sample_driver_inv by (simp_all add: sample_new_sys_def) (simp_all add: sample_driver_def)
  from NewService_all_or_nothing [OF r d(1,2) sample_new_fresh d(3) id_tor_ids] r show ?thesis by auto
qed

end
