(* ===== verification/Tor_Service_Accept.thy ===== *)
theory Tor_Service_Accept
  imports Tor_Service_End
begin

text \<open>
  Accepting connections under concurrency: calls of \<^verbatim>\<open>Accept\<close>, the closes of the application, the
  stop of the service, the close of its scope and the end of a drain interleave at the
  granularity of the service's mutex for accepted connections.
\<close>

section \<open>Steps\<close>

text \<open>
  \<open>as_inside\<close> calls wait in the backing listener; \<open>as_raw\<close> are the connections it returned that are
  not counted yet, \<open>as_adding\<close> those that are counted and not registered yet, \<open>as_handed\<close> those
  that the application has, and \<open>as_seen\<close> all of them. \<open>as_drained\<close> tells that \<^verbatim>\<open>waitAccepted\<close> saw
  no connection.
\<close>

record asys =
  as_sv :: service
  as_inside :: nat
  as_raw :: "nat set"
  as_adding :: "nat set"
  as_handed :: "nat set"
  as_seen :: "nat set"
  as_drained :: bool

definition as_start :: "service \<Rightarrow> asys" where
  "as_start v = \<lparr>as_sv = v, as_inside = 0, as_raw = {}, as_adding = {}, as_handed = {}, as_seen = {}, as_drained = False\<rparr>"

inductive astep :: "close_results \<Rightarrow> asys \<Rightarrow> asys \<Rightarrow> bool" for cr where
  enter: "accept_enter (as_sv s) = (None, v) \<Longrightarrow> astep cr s (s\<lparr>as_sv := v, as_inside := as_inside s + 1\<rparr>)"
| fail: "0 < as_inside s \<Longrightarrow> astep cr s (s\<lparr>as_sv := accept_leave (as_sv s), as_inside := as_inside s - 1\<rparr>)"
| got: "\<lbrakk>0 < as_inside s; c \<notin> as_seen s; sc_phase (sv_scope (as_sv s)) c = RNone; key_closer < c\<rbrakk> \<Longrightarrow>
    astep cr s (s\<lparr>as_sv := accept_leave (as_sv s), as_inside := as_inside s - 1,
      as_raw := insert c (as_raw s), as_seen := insert c (as_seen s)\<rparr>)"
| counted: "\<lbrakk>c \<in> as_raw s; track_count c (as_sv s) = (None, v)\<rbrakk> \<Longrightarrow>
    astep cr s (s\<lparr>as_sv := v, as_raw := as_raw s - {c}, as_adding := insert c (as_adding s)\<rparr>)"
| refused: "\<lbrakk>c \<in> as_raw s; track_count c (as_sv s) = (Some e, v)\<rbrakk> \<Longrightarrow>
    astep cr s (s\<lparr>as_sv := v, as_raw := as_raw s - {c}\<rparr>)"
| handed: "\<lbrakk>c \<in> as_adding s; track_register cr c (as_sv s) = (Inr d, v)\<rbrakk> \<Longrightarrow>
    astep cr s (s\<lparr>as_sv := v, as_adding := as_adding s - {c}, as_handed := insert c (as_handed s)\<rparr>)"
| dropped: "\<lbrakk>c \<in> as_adding s; track_register cr c (as_sv s) = (Inl e, v)\<rbrakk> \<Longrightarrow>
    astep cr s (s\<lparr>as_sv := v, as_adding := as_adding s - {c}\<rparr>)"
| app_close: "c \<in> as_handed s \<Longrightarrow> astep cr s (s\<lparr>as_sv := snd (serviceConn_Close cr c (as_sv s))\<rparr>)"
| stop: "astep cr s (s\<lparr>as_sv := (as_sv s)\<lparr>sv_stopping := True\<rparr>\<rparr>)"
| owner_close: "astep cr s (s\<lparr>as_sv := snd (scope_shut cr (as_sv s))\<rparr>)"
| drained: "\<lbrakk>sv_stopping (as_sv s); sv_accepted (as_sv s) = []; sv_accepting (as_sv s) = 0\<rbrakk> \<Longrightarrow>
    astep cr s (s\<lparr>as_drained := True\<rparr>)"

section \<open>Invariant\<close>

text \<open>The count of the service is the number of calls in the listener; the accepted
  connections are those being registered and those handed out and open.\<close>

definition ainv :: "asys \<Rightarrow> bool" where
  "ainv s \<longleftrightarrow> (let v = as_sv s; sc = sv_scope v in scope_ok sc \<and> sv_accepting v = int (as_inside s) \<and>
    set (sv_accepted v) = as_adding s \<union> (as_handed s \<inter> sc_items sc) \<and>
    as_raw s \<inter> as_adding s = {} \<and> as_raw s \<inter> as_handed s = {} \<and> as_adding s \<inter> as_handed s = {} \<and>
    as_raw s \<union> as_adding s \<union> as_handed s \<subseteq> as_seen s \<and> (\<forall>c \<in> as_seen s. key_closer < c) \<and>
    (\<forall>c \<in> as_raw s \<union> as_adding s. sc_phase sc c = RNone) \<and> (\<forall>c \<in> as_handed s. sc_phase sc c \<noteq> RNone) \<and>
    (as_drained s \<longrightarrow> sv_stopping v \<and> sv_accepted v = []))"

lemma ainv_start:
  "scope_ok (sv_scope v) \<Longrightarrow> sv_accepted v = [] \<Longrightarrow> sv_accepting v = 0 \<Longrightarrow> ainv (as_start v)"
  by (simp add: ainv_def as_start_def)

lemma ainvD:
  assumes "ainv s"
  shows "scope_ok (sv_scope (as_sv s))" "sv_accepting (as_sv s) = int (as_inside s)"
    "set (sv_accepted (as_sv s)) = as_adding s \<union> (as_handed s \<inter> sc_items (sv_scope (as_sv s)))"
    "as_drained s \<Longrightarrow> sv_stopping (as_sv s) \<and> sv_accepted (as_sv s) = []"
  using assms by (simp_all add: ainv_def Let_def)

lemma register_cases:
  assumes "scope_ok sc" "sc_phase sc c = RNone"
  shows "scope_add cr c sc = (if sc_closed sc then (errors_join [Some (Sentinel ErrClosed), cr c], call_close cr c sc) else (None, held_scope c sc))"
    and "scope_ok (held_scope c sc) \<or> sc_closed sc" "sc_closed sc \<Longrightarrow> scope_ok (call_close cr c sc)"
    and "c \<notin> sc_items sc"
proof -
  show a: "scope_add cr c sc = (if sc_closed sc then (errors_join [Some (Sentinel ErrClosed), cr c], call_close cr c sc) else (None, held_scope c sc))"
    by (simp add: scope_add_def held_scope_def)
  show "scope_ok (held_scope c sc) \<or> sc_closed sc" "sc_closed sc \<Longrightarrow> scope_ok (call_close cr c sc)"
    using scope_ok_add [OF assms, of cr] a by (auto split: if_splits)
  have "sc_phase sc c \<noteq> ROpen" using assms(2) by simp
  then show "c \<notin> sc_items sc" using assms(1) by (simp add: scope_ok_def)
qed

lemma ainv_handed:
  assumes "ainv s" "c \<in> as_adding s" "track_register cr c (as_sv s) = (Inr d, v)"
  shows "ainv (s\<lparr>as_sv := v, as_adding := as_adding s - {c}, as_handed := insert c (as_handed s)\<rparr>)"
proof -
  have ph: "sc_phase (sv_scope (as_sv s)) c = RNone" using assms(1,2) by (simp add: ainv_def Let_def)
  note rc = register_cases [OF ainvD(1) [OF assms(1)] ph]
  have v: "\<not> sc_closed (sv_scope (as_sv s))" "v = (as_sv s)\<lparr>sv_scope := held_scope c (sv_scope (as_sv s))\<rparr>"
    using assms(3) rc(1) [of cr] by (auto simp: track_register_def split: if_splits prod.splits option.splits)
  then have so: "scope_ok (held_scope c (sv_scope (as_sv s)))" using rc(2) by blast
  have nd: "\<not> as_drained s" using assms(1,2) ainvD(3,4) [OF assms(1)] by auto
  show ?thesis using assms(1,2) v so nd rc(4) unfolding ainv_def Let_def
    by (auto simp: held_scope_def)
qed

lemma ainv_dropped:
  assumes "ainv s" "c \<in> as_adding s" "track_register cr c (as_sv s) = (Inl e, v)"
  shows "ainv (s\<lparr>as_sv := v, as_adding := as_adding s - {c}\<rparr>)"
proof -
  have ph: "sc_phase (sv_scope (as_sv s)) c = RNone" using assms(1,2) by (simp add: ainv_def Let_def)
  note rc = register_cases [OF ainvD(1) [OF assms(1)] ph]
  have v: "sc_closed (sv_scope (as_sv s))"
      "v = (as_sv s)\<lparr>sv_scope := call_close cr c (sv_scope (as_sv s)), sv_accepted := removeAll c (sv_accepted (as_sv s))\<rparr>"
    using assms(3) rc(1) [of cr] by (auto simp: track_register_def closeRaw_def split: if_splits prod.splits option.splits)
  then have so: "scope_ok (call_close cr c (sv_scope (as_sv s)))" using rc(3) by blast
  have nd: "\<not> as_drained s" using assms(1,2) ainvD(3,4) [OF assms(1)] by auto
  show ?thesis using assms(1,2) v so nd rc(4) unfolding ainv_def Let_def
    by (auto simp: call_close_def)
qed

lemma ainv_app_close:
  assumes "ainv s" "c \<in> as_handed s"
  shows "ainv (s\<lparr>as_sv := snd (serviceConn_Close cr c (as_sv s))\<rparr>)"
proof -
  let ?sc = "sv_scope (as_sv s)"
  note so = ainvD(1) [OF assms(1)]
  have iff: "\<forall>r. sc_phase ?sc r = ROpen \<longleftrightarrow> r \<in> sc_items ?sc" using so by (simp add: scope_ok_def)
  obtain e sc where rc: "resource_close cr c ?sc = (e, sc)" by fastforce
  show ?thesis
  proof (cases "sc_phase ?sc c = ROpen")
    case False
    then have "snd (serviceConn_Close cr c (as_sv s)) = as_sv s" using rc by (simp add: serviceConn_Close_def)
    then show ?thesis using assms(1) by simp
  next
    case True
    then have v: "snd (serviceConn_Close cr c (as_sv s)) =
        (as_sv s)\<lparr>sv_scope := sc, sv_accepted := removeAll c (sv_accepted (as_sv s))\<rparr>"
      using rc by (simp add: serviceConn_Close_def closeRaw_def)
    have sc: "sc = call_close cr c (?sc\<lparr>sc_items := sc_items ?sc - {c}\<rparr>)"
      using resource_close_shape [OF rc iff] True iff by auto
    have "scope_ok sc" by (rule scope_ok_resource_close [OF so rc])
    then show ?thesis using assms v sc unfolding ainv_def Let_def by (auto simp: call_close_def)
  qed
qed

lemma ainv_owner_close:
  assumes "ainv s"
  shows "ainv (s\<lparr>as_sv := snd (scope_shut cr (as_sv s))\<rparr>)"
proof -
  let ?v = "as_sv s" and ?sc = "sv_scope (as_sv s)"
  let ?rs = "items_list (sv_scope (as_sv s))"
  note so = ainvD(1) [OF assms]
  obtain e sc where c: "scope_close cr ?rs ?sc = (e, sc)" by fastforce
  note rs = items_list [OF so]
  note cs = scope_close_spec [OF so conjunct1 [OF rs] conjunct2 [OF rs] c]
  define v' where "v' = snd (scope_shut cr ?v)"
  have "v' = fold closer_effect ?rs (?v\<lparr>sv_scope := sc\<rparr>)" using c by (simp add: v'_def scope_shut_def)
  note ce = closers_effect [OF this]
  have rest: "rest_of v' = rest_of ?v" using ce by simp
  have low: "\<forall>c \<in> as_adding s \<union> as_handed s. c \<noteq> events_closer \<and> c \<noteq> key_closer \<and> (c \<in> as_adding s \<longrightarrow> c \<notin> sc_items ?sc)"
  proof
    fix c assume c: "c \<in> as_adding s \<union> as_handed s"
    then have "key_closer < c" using assms unfolding ainv_def Let_def by blast
    moreover have "c \<notin> sc_items ?sc" if "c \<in> as_adding s"
    proof -
      have "sc_phase ?sc c = RNone" using assms that by (simp add: ainv_def Let_def)
      then show ?thesis by (rule register_cases(4) [OF so])
    qed
    ultimately show "c \<noteq> events_closer \<and> c \<noteq> key_closer \<and> (c \<in> as_adding s \<longrightarrow> c \<notin> sc_items ?sc)"
      by (auto simp: events_closer_def key_closer_def)
  qed
  have "set (sv_accepted v') = {c \<in> as_adding s \<union> (as_handed s \<inter> sc_items ?sc). c \<notin> sc_items ?sc - {events_closer, key_closer}}"
    using ce rs ainvD(3) [OF assms] by auto
  then have acc: "set (sv_accepted v') = as_adding s" using low by auto
  have ph: "sc_phase sc r \<noteq> RNone" if "sc_phase ?sc r \<noteq> RNone" for r
  proof -
    have "r \<in> sc_items ?sc \<or> r \<in> set (sc_log ?sc)" using that so by (cases "sc_phase ?sc r") (auto simp: scope_ok_def)
    then have "r \<in> set (sc_log sc)" using cs rs by auto
    moreover have "set (sc_log sc) = {r. \<exists>e. sc_phase sc r = RClosed e}"
      using conjunct1 [OF cs] unfolding scope_ok_def by blast
    ultimately show ?thesis by auto
  qed
  have sc: "sv_scope v' = sc" "scope_ok sc" "sc_items sc = {}" using ce cs by simp_all
  have "as_drained s \<longrightarrow> sv_accepted v' = []" using ainvD(4) [OF assms] ce by auto
  then show ?thesis using assms acc ph cs sc rest_sel(7,8) [OF rest] unfolding ainv_def Let_def v'_def [symmetric] by auto
qed

lemma ainv_step:
  assumes "astep cr s t" "ainv s"
  shows "ainv t"
  using assms(1)
proof cases
  case (enter v)
  then have "v = (as_sv s)\<lparr>sv_accepting := sv_accepting (as_sv s) + 1\<rparr>" by (auto simp: accept_enter_def split: if_splits)
  with enter assms(2) show ?thesis by (simp add: ainv_def Let_def)
next
  case fail
  with assms(2) show ?thesis by (simp add: ainv_def Let_def accept_leave_def)
next
  case (got c)
  with assms(2) show ?thesis by (auto simp: ainv_def Let_def accept_leave_def)
next
  case (counted c v)
  then have v: "\<not> sv_stopping (as_sv s)" "v = (as_sv s)\<lparr>sv_accepted := List.insert c (sv_accepted (as_sv s))\<rparr>"
    by (auto simp: track_count_def split: if_splits)
  with counted assms(2) show ?thesis by (auto simp: ainv_def Let_def)
next
  case (refused c e v)
  then have "v = (as_sv s)\<lparr>sv_dropped := sv_dropped (as_sv s) @ [c]\<rparr>" by (auto simp: track_count_def split: if_splits)
  with refused assms(2) show ?thesis by (auto simp: ainv_def Let_def)
next
  case (handed c d v)
  then show ?thesis using ainv_handed [OF assms(2)] by blast
next
  case (dropped c e v)
  then show ?thesis using ainv_dropped [OF assms(2)] by blast
next
  case (app_close c)
  then show ?thesis using ainv_app_close [OF assms(2)] by blast
next
  case stop
  with assms(2) show ?thesis by (simp add: ainv_def Let_def)
next
  case owner_close
  then show ?thesis using ainv_owner_close [OF assms(2)] by blast
next
  case drained
  with assms(2) show ?thesis by (simp add: ainv_def Let_def)
qed

section \<open>Drained services\<close>

lemma ainv_steps: "(astep cr)\<^sup>*\<^sup>* s t \<Longrightarrow> ainv s \<Longrightarrow> ainv t"
  by (induction rule: rtranclp_induct) (blast intro: ainv_step)+

lemma drained_step:
  assumes "astep cr s t" "ainv s" "as_drained s"
  shows "as_drained t \<and> as_handed t = as_handed s"
proof -
  have "as_adding s = {}" using ainvD(3,4) [OF assms(2)] assms(3) by auto
  with assms(1,3) show ?thesis by cases auto
qed

lemma drained_steps:
  assumes "(astep cr)\<^sup>*\<^sup>* s t" "ainv s" "as_drained s"
  shows "as_drained t \<and> as_handed t = as_handed s"
  using assms
proof (induction rule: rtranclp_induct)
  case (step t u)
  then show ?case using drained_step [OF step.hyps(2)] ainv_steps [OF step.hyps(1)] by simp
qed simp

lemma drained_closed:
  assumes "ainv s" "as_drained s"
  shows "as_adding s = {} \<and> as_handed s \<subseteq> set (sc_log (sv_scope (as_sv s)))"
proof -
  let ?sc = "sv_scope (as_sv s)"
  have e: "as_adding s = {}" "as_handed s \<inter> sc_items ?sc = {}" using ainvD(3,4) [OF assms(1)] assms(2) by auto
  have "c \<in> set (sc_log ?sc)" if c: "c \<in> as_handed s" for c
  proof -
    have "sc_phase ?sc c \<noteq> RNone" "c \<notin> sc_items ?sc" using assms(1) c e(2) by (auto simp: ainv_def Let_def)
    then show ?thesis using ainvD(1) [OF assms(1)] by (cases "sc_phase ?sc c") (auto simp: scope_ok_def)
  qed
  with e(1) show ?thesis by blast
qed

text \<open>
  C13. A drained service has no connection and gets none, under every interleaving of accepting
  calls, closes of the application, the stop and the close of the owner. When the wait for the
  accepted connections has ended, every connection that was ever handed to the application is
  closed and none is on its way, although the count of accepting calls is lowered before a
  connection is counted; and from then on no connection is handed out.
\<close>

theorem drain_complete:
  assumes "scope_ok (sv_scope v)" "sv_accepted v = []" "sv_accepting v = 0"
    and "(astep cr)\<^sup>*\<^sup>* (as_start v) s" "as_drained s" "(astep cr)\<^sup>*\<^sup>* s t"
  shows "as_handed t = as_handed s \<and> as_adding t = {} \<and> as_handed t \<subseteq> set (sc_log (sv_scope (as_sv t))) \<and>
    sv_accepted (as_sv t) = [] \<and> as_handed s \<subseteq> set (sc_log (sv_scope (as_sv s)))"
proof -
  have i: "ainv s" by (rule ainv_steps [OF assms(4) ainv_start [OF assms(1-3)]])
  note d = drained_steps [OF assms(6) i assms(5)]
  have it: "ainv t" by (rule ainv_steps [OF assms(6) i])
  show ?thesis using d drained_closed [OF i assms(5)] drained_closed [OF it] ainvD(4) [OF it] by auto
qed

theorem drain_complete_witness:
  "\<exists>s. (astep (\<lambda>_. None))\<^sup>*\<^sup>* (as_start sample_service) s \<and> as_handed s = {5} \<and> as_drained s \<and>
     5 \<in> set (sc_log (sv_scope (as_sv s)))"
proof -
  let ?cr = "\<lambda>_. None :: goerr option"
  let ?s0 = "as_start sample_service"
  let ?v = "sample_service"
  have v: "\<not> sv_stopping ?v" "sv_accepted ?v = []" "sv_accepting ?v = 0" "\<not> sc_closed (sv_scope ?v)"
    "sc_phase (sv_scope ?v) 5 = RNone" "key_closer < 5"
    by (simp_all add: sample_service_def new_service_def held_scope_def newScope_def key_closer_def events_closer_def)
  have zero: "?v\<lparr>sv_accepting := 0\<rparr> = ?v" by (simp add: sample_service_def new_service_def)
  let ?s1 = "?s0\<lparr>as_sv := ?v\<lparr>sv_accepting := 1\<rparr>, as_inside := 1\<rparr>"
  let ?s2 = "?s0\<lparr>as_raw := {5}, as_seen := {5}\<rparr>"
  let ?s3 = "?s0\<lparr>as_sv := ?v\<lparr>sv_accepted := [5]\<rparr>, as_adding := {5}, as_seen := {5}\<rparr>"
  let ?sc = "held_scope 5 (sv_scope ?v)"
  let ?v4 = "?v\<lparr>sv_accepted := [5], sv_scope := ?sc\<rparr>"
  let ?s4 = "?s0\<lparr>as_sv := ?v4, as_handed := {5}, as_seen := {5}\<rparr>"
  let ?v5 = "snd (serviceConn_Close ?cr 5 ?v4)"
  let ?s5 = "?s4\<lparr>as_sv := ?v5\<rparr>"
  let ?s6 = "?s4\<lparr>as_sv := ?v5\<lparr>sv_stopping := True\<rparr>\<rparr>"
  let ?s7 = "?s6\<lparr>as_drained := True\<rparr>"
  have "astep ?cr ?s0 ?s1" using astep.enter [where cr = ?cr and s = ?s0] v by (simp add: accept_enter_def as_start_def)
  moreover have "astep ?cr ?s1 ?s2" using astep.got [where cr = ?cr and s = ?s1 and c = 5] v zero
    by (simp add: accept_leave_def as_start_def)
  moreover have "astep ?cr ?s2 ?s3" using astep.counted [where cr = ?cr and s = ?s2 and c = 5] v
    by (simp add: track_count_def as_start_def)
  moreover have "astep ?cr ?s3 ?s4" using astep.handed [where cr = ?cr and s = ?s3 and c = 5] v
    by (simp add: track_register_def scope_add_def held_scope_def as_start_def)
  moreover have "astep ?cr ?s4 ?s5" using astep.app_close [where cr = ?cr and s = ?s4 and c = 5] by simp
  moreover have "astep ?cr ?s5 ?s6" using astep.stop [where cr = ?cr and s = ?s5] by simp
  moreover have "sv_accepted ?v5 = []" "sv_accepting ?v5 = 0"
    using v by (simp_all add: serviceConn_Close_def resource_close_def held_scope_def closeRaw_def)
  then have "astep ?cr ?s6 ?s7" using astep.drained [where cr = ?cr and s = ?s6] by simp
  ultimately have r: "(astep ?cr)\<^sup>*\<^sup>* ?s0 ?s7" by (meson rtranclp.rtrancl_into_rtrancl rtranclp.rtrancl_refl)
  have ok: "scope_ok (sv_scope ?v)" by (rule service_okD(1) [OF sample_service_ok])
  have d: "as_drained ?s7" "as_handed ?s7 = {5}" by simp_all
  from drain_complete [OF ok v(2,3) r d(1) rtranclp.rtrancl_refl] r d show ?thesis by blast
qed

end
