(* ===== verification/Tor_Service_Turns.thy ===== *)
theory Tor_Service_Turns
  imports Tor_Service_New Tor_Service_Accept
begin

text \<open>
  The calls that reach a service from outside, one after the other, and the well-formedness
  that they keep: events from Tor, subscriptions, accepted connections and their closes,
  and the close of the scope by the owner.
\<close>

section \<open>The calls of a service one by one\<close>

lemma service_ok_conn_close:
  assumes "service_ok v" "c \<in> set (sv_accepted v) \<or> c \<notin> sc_items (sv_scope v)"
  shows "service_ok (snd (serviceConn_Close cr c v))"
proof (cases "c \<in> sc_items (sv_scope v)")
  case False
  then have "sc_phase (sv_scope v) c \<noteq> ROpen" using service_okD(1) [OF assms(1)] by (simp add: scope_ok_def)
  then show ?thesis using assms(1) by (simp add: serviceConn_Close_def split: prod.split)
next
  case True
  then have acc: "c \<in> set (sv_accepted v)" and ph: "sc_phase (sv_scope v) c = ROpen"
    using assms service_okD(1) [OF assms(1)] by (auto simp: scope_ok_def)
  let ?u = "v\<lparr>sv_accepted := removeAll c (sv_accepted v)\<rparr>"
  let ?env = "\<lparr>ve_driver = undefined, ve_close = cr, ve_ctx = None, ve_listen = undefined\<rparr>"
  have "\<forall>q. port_resource ?u q \<noteq> Some c" using assms(1) acc by (auto simp: service_ok_def port_resource_def)
  moreover have "service_ok ?u" using assms(1) by (auto simp: service_ok_def port_resource_def distinct_removeAll)
  ultimately have "service_ok (snd (close_resource ?env c ?u))" by (intro service_ok_release) simp_all
  moreover have "snd (serviceConn_Close cr c v) = snd (close_resource ?env c ?u)"
    using ph by (simp add: serviceConn_Close_def close_resource_def closeRaw_def split: prod.split)
  ultimately show ?thesis by simp
qed

lemma service_ok_subscribe: "service_ok v \<Longrightarrow> service_ok (snd (service_SubscribeEvents n v))"
  using broker_inv_subscribe service_okD(4)
  by (fastforce simp: service_SubscribeEvents_def split: prod.split intro: service_ok_events(1))

lemma service_ok_closer:
  assumes "service_ok v" "sc_phase (sv_scope v) r = RNone"
  shows "service_ok (snd (service_SubscribeCloser cr r v))"
proof (cases "sc_closed (sv_scope v)")
  case True
  obtain e sc where a: "scope_add cr r (sv_scope v) = (e, sc)" by fastforce
  from service_ok_late(1) [OF assms True a] a show ?thesis by (simp add: service_SubscribeCloser_def split: option.split)
next
  case False
  then show ?thesis using service_ok_add [OF assms False] by (simp add: service_SubscribeCloser_def scope_add_def)
qed

text \<open>
  A service is itself an owner: closers that are registered with it are kept while it is open and
  released when its scope is closed, or at once when they come later.
\<close>

lemma scope_shut_log:
  assumes "service_ok v"
  shows "set (sc_log (sv_scope (snd (scope_shut cr v)))) = sc_items (sv_scope v) \<union> set (sc_log (sv_scope v))"
proof -
  note so = service_okD(1) [OF assms]
  obtain e sc where c: "scope_close cr (items_list (sv_scope v)) (sv_scope v) = (e, sc)" by fastforce
  have "sv_scope (fold closer_effect (items_list (sv_scope v)) (v\<lparr>sv_scope := sc\<rparr>)) = sc"
    using closers_effect [OF refl, of "items_list (sv_scope v)" "v\<lparr>sv_scope := sc\<rparr>"] by simp
  then show ?thesis
    using scope_close_spec [OF so conjunct1 [OF items_list [OF so]] conjunct2 [OF items_list [OF so]] c] items_list [OF so] c
    by (auto simp: scope_shut_def)
qed

definition register_closer :: "close_results \<Rightarrow> nat \<Rightarrow> service \<Rightarrow> goerr option \<times> service" where
  "register_closer cr r v = (case service_SubscribeCloser cr r v of (x, v1) \<Rightarrow> (err_of x, v1))"

lemma register_closer_scope:
  "register_closer cr r v = (e, v') \<Longrightarrow> scope_add cr r (sv_scope v) = (e, sv_scope v')"
  by (auto simp: register_closer_def service_SubscribeCloser_def err_of_def split: prod.splits option.splits)

interpretation service_owner: lifecycle "register_closer cr" "\<lambda>v. snd (scope_shut cr v)" "\<lambda>v. sc_items (sv_scope v)"
  "\<lambda>v. set (sc_log (sv_scope v))" "\<lambda>v. sc_closed (sv_scope v)" service_ok "\<lambda>r v. sc_phase (sv_scope v) r = RNone"
  for cr
proof
  fix r q v e v'
  assume ok: "service_ok v"
  note so = service_okD(1) [OF ok]
  show "sc_phase (sv_scope v) r = RNone \<Longrightarrow> \<not> sc_closed (sv_scope v) \<Longrightarrow> register_closer cr r v = (e, v') \<Longrightarrow>
      e = None \<and> sc_items (sv_scope v') = insert r (sc_items (sv_scope v)) \<and>
      set (sc_log (sv_scope v')) = set (sc_log (sv_scope v)) \<and> \<not> sc_closed (sv_scope v')"
    using own.acquire_open [OF so] register_closer_scope by blast
  show "sc_phase (sv_scope v) r = RNone \<Longrightarrow> sc_closed (sv_scope v) \<Longrightarrow> register_closer cr r v = (e, v') \<Longrightarrow>
      e \<noteq> None \<and> sc_items (sv_scope v') = sc_items (sv_scope v) \<and>
      set (sc_log (sv_scope v')) = insert r (set (sc_log (sv_scope v))) \<and> sc_closed (sv_scope v')"
    using own.acquire_shut [OF so] register_closer_scope by blast
  show "sc_phase (sv_scope v) r = RNone \<Longrightarrow> register_closer cr r v = (e, v') \<Longrightarrow> service_ok v'"
    using service_ok_closer [OF ok, of r cr] by (auto simp: register_closer_def split: prod.splits)
  show "sc_phase (sv_scope v) q = RNone \<Longrightarrow> q \<noteq> r \<Longrightarrow> register_closer cr r v = (e, v') \<Longrightarrow> sc_phase (sv_scope v') q = RNone"
    using own.acquire_fresh [OF so] register_closer_scope by blast
  obtain err u where sh: "scope_shut cr v = (err, u)" by fastforce
  show "sc_closed (sv_scope (snd (scope_shut cr v))) \<and> sc_items (sv_scope (snd (scope_shut cr v))) = {} \<and>
      service_ok (snd (scope_shut cr v)) \<and>
      set (sc_log (sv_scope (snd (scope_shut cr v)))) = sc_items (sv_scope v) \<union> set (sc_log (sv_scope v))"
    using scope_shut_spec [OF sh ok] scope_shut_log [OF ok, of cr] by (simp add: sh)
  show "sc_phase (sv_scope v) q = RNone \<Longrightarrow> sc_phase (sv_scope (snd (scope_shut cr v))) q = RNone"
    using scope_shut_fresh [OF sh ok] by (simp add: sh)
qed

lemma service_ok_accept:
  assumes "service_ok v" "\<forall>c. conn = Inr c \<longrightarrow> key_closer < c \<and> sc_phase (sv_scope v) c = RNone"
  shows "service_ok (snd (Accept cr conn v))"
proof (cases conn)
  case (Inl e)
  then show ?thesis using assms(1) by (simp add: Accept_def accept_enter_def accept_leave_def)
next
  case (Inr c)
  then have c: "key_closer < c" "sc_phase (sv_scope v) c = RNone" using assms(2) by simp_all
  have fresh: "c \<notin> sc_items (sv_scope v)" "\<forall>q. port_resource v q \<noteq> Some c"
    using fresh_not_held [OF service_okD(1) [OF assms(1)] c(2)] c(2) assms(1) by (auto simp: service_ok_def)
  then have na: "c \<notin> set (sv_accepted v)" using assms(1) by (auto simp: service_ok_def)
  show ?thesis
  proof (cases "sv_stopping v")
    case True
    then show ?thesis using assms(1) Inr by (simp add: Accept_def accept_enter_def)
  next
    case ns: False
    show ?thesis
    proof (cases "sc_closed (sv_scope v)")
      case True
      obtain e sc where a: "scope_add cr c (sv_scope v) = (Some e, sc)"
        using True by (auto simp: scope_add_def errors_join_None_iff)
      have "snd (Accept cr conn v) = v\<lparr>sv_scope := sc\<rparr>"
        using Inr ns a na by (simp add: Accept_def accept_enter_def accept_leave_def trackAccepted_def track_count_def track_register_def closeRaw_def)
      then show ?thesis using service_ok_late(1) [OF assms(1) c(2) True a] by simp
    next
      case False
      let ?u = "v\<lparr>sv_scope := held_scope c (sv_scope v)\<rparr>"
      have "service_ok ?u" using service_ok_add [OF assms(1) c(2) False] by (simp add: held_scope_def)
      then have "service_ok (?u\<lparr>sv_accepted := List.insert c (sv_accepted v)\<rparr>)"
        using c(1) fresh(2) by (auto simp: service_ok_def port_resource_def held_scope_def)
      moreover have "snd (Accept cr conn v) = ?u\<lparr>sv_accepted := List.insert c (sv_accepted v)\<rparr>"
        using Inr ns False by (simp add: Accept_def accept_enter_def accept_leave_def trackAccepted_def track_count_def track_register_def scope_add_def held_scope_def)
      ultimately show ?thesis by simp
    qed
  qed
qed

datatype service_call =
    GotPublication service_event | CallSubscribe int | CallAccept "nat res" | CallCloseConn nat
  | CallOnClose nat | OwnerCloses

fun service_turn :: "close_results \<Rightarrow> service_call \<Rightarrow> service \<Rightarrow> service" where
  "service_turn cr (GotPublication ev) v = handlePublication ev v"
| "service_turn cr (CallSubscribe n) v = snd (service_SubscribeEvents n v)"
| "service_turn cr (CallAccept conn) v = snd (Accept cr conn v)"
| "service_turn cr (CallCloseConn c) v = snd (serviceConn_Close cr c v)"
| "service_turn cr (CallOnClose r) v = snd (service_SubscribeCloser cr r v)"
| "service_turn cr OwnerCloses v = snd (scope_shut cr v)"

text \<open>New connections and closers have new numbers, and a connection that is closed was handed out.\<close>

fun possible :: "service_call \<Rightarrow> service \<Rightarrow> bool" where
  "possible (CallAccept (Inr c)) v \<longleftrightarrow> key_closer < c \<and> sc_phase (sv_scope v) c = RNone"
| "possible (CallCloseConn c) v \<longleftrightarrow> c \<in> set (sv_accepted v) \<or> c \<notin> sc_items (sv_scope v)"
| "possible (CallOnClose r) v \<longleftrightarrow> sc_phase (sv_scope v) r = RNone"
| "possible _ v \<longleftrightarrow> True"

fun service_turns :: "close_results \<Rightarrow> service_call list \<Rightarrow> service \<Rightarrow> service option" where
  "service_turns cr [] v = Some v"
| "service_turns cr (call # calls) v = (if possible call v then service_turns cr calls (service_turn cr call v) else None)"

lemma service_ok_turn [inv_intros]:
  assumes "service_ok v" "possible call v"
  shows "service_ok (service_turn cr call v)"
proof (cases call)
  case (CallAccept conn)
  then show ?thesis using service_ok_accept [OF assms(1), of conn cr] assms(2) by (cases conn) simp_all
next
  case OwnerCloses
  obtain err v' where sh: "scope_shut cr v = (err, v')" by fastforce
  from scope_shut_spec [OF sh assms(1)] sh OwnerCloses show ?thesis by simp
qed (use assms in \<open>simp_all add: handlePublication_ok service_ok_subscribe service_ok_conn_close service_ok_closer\<close>)

lemma service_ok_turns: "service_turns cr calls v = Some v' \<Longrightarrow> service_ok v \<Longrightarrow> service_ok v'"
  by (induction calls arbitrary: v) (auto split: if_splits intro: service_ok_turn)

text \<open>What every turn keeps: the ports and the identity, and whether the scope was closed.\<close>

lemma scope_add_closed: "sc_closed s \<Longrightarrow> sc_closed (snd (scope_add cr r s))"
  by (simp add: scope_add_def call_close_def)

lemma register_frame:
  "sv_ports (snd (track_register cr c v)) = sv_ports v \<and> sv_id (snd (track_register cr c v)) = sv_id v \<and>
    (sc_closed (sv_scope v) \<longrightarrow> sc_closed (sv_scope (snd (track_register cr c v))))"
  using scope_add_closed [of "sv_scope v" cr c]
  by (auto simp: track_register_def closeRaw_def split: prod.split option.split)

lemma accept_frame:
  "sv_ports (snd (Accept cr conn v)) = sv_ports v \<and> sv_id (snd (Accept cr conn v)) = sv_id v \<and>
    (sc_closed (sv_scope v) \<longrightarrow> sc_closed (sv_scope (snd (Accept cr conn v))))"
  using register_frame
  by (auto simp: Accept_def accept_enter_def accept_leave_def trackAccepted_def track_count_def split: sum.split)

lemma conn_close_frame:
  assumes "service_ok v"
  shows "sv_ports (snd (serviceConn_Close cr c v)) = sv_ports v \<and> sv_id (snd (serviceConn_Close cr c v)) = sv_id v \<and>
    (sc_closed (sv_scope v) \<longrightarrow> sc_closed (sv_scope (snd (serviceConn_Close cr c v))))"
  using release_spec(3) [OF service_okD(1) [OF assms], of cr c]
  by (auto simp: serviceConn_Close_def closeRaw_def split: prod.split)

lemma service_turn_frame:
  assumes "service_ok v"
  shows "sv_ports (service_turn cr call v) = sv_ports v \<and> sv_id (service_turn cr call v) = sv_id v \<and>
    (sc_closed (sv_scope v) \<or> call = OwnerCloses \<longrightarrow> sc_closed (sv_scope (service_turn cr call v)))"
proof (cases call)
  case (CallOnClose r)
  then show ?thesis using scope_add_closed [of "sv_scope v" cr r]
    by (auto simp: service_SubscribeCloser_def split: prod.split option.split)
next
  case OwnerCloses
  obtain err v' where sh: "scope_shut cr v = (err, v')" by fastforce
  have r: "rest_of v' = rest_of v" "sc_closed (sv_scope v')" using scope_shut_spec [OF sh assms] by blast+
  then show ?thesis using rest_sel(1,2) [OF r(1)] by (simp add: OwnerCloses sh)
next
  case (CallAccept conn)
  then show ?thesis using accept_frame [of cr conn v] by simp
next
  case (CallCloseConn c)
  then show ?thesis using conn_close_frame [OF assms, of cr c] by simp
qed (simp_all add: service_SubscribeEvents_def split: prod.split)

lemma service_turns_frame:
  "service_turns cr calls v = Some v' \<Longrightarrow> service_ok v \<Longrightarrow> sv_ports v' = sv_ports v \<and> sv_id v' = sv_id v \<and>
    (sc_closed (sv_scope v) \<or> OwnerCloses \<in> set calls \<longrightarrow> sc_closed (sv_scope v'))"
proof (induction calls arbitrary: v)
  case (Cons call calls)
  have p: "possible call v" "service_turns cr calls (service_turn cr call v) = Some v'"
    using Cons.prems(1) by (auto split: if_splits)
  from Cons.IH [OF p(2) service_ok_turn [OF Cons.prems(2) p(1)]] service_turn_frame [OF Cons.prems(2), of cr call]
  show ?case by auto
qed simp

text \<open>
  C25. A service stays well formed. Whatever sequence of publication events, subscriptions, accepted
  connections, closes of connections, registered closers and closes by the owner reaches it, its
  reserved ports stay the same, distinct and not zero, the accepted connections are distinct,
  are held by its scope and are never a listener of a port, the key has 64 bytes, and
  the channels of the subscribers are consistent. Once its owner closed it, its scope holds nothing and no
  connection is left, also when a connection was accepted later.
\<close>

theorem service_well_formed:
  assumes "service_ok v" "service_turns cr calls v = Some v'"
  shows "sv_ports v' = sv_ports v \<and> distinct (map fst (sv_ports v')) \<and> map_of (sv_ports v') 0 = None \<and>
    distinct (sv_accepted v') \<and> set (sv_accepted v') \<subseteq> sc_items (sv_scope v') \<and>
    (\<forall>p b r. map_of (sv_ports v') p = Some b \<longrightarrow> sp_resource b = Some r \<longrightarrow> r \<notin> set (sv_accepted v')) \<and>
    length (sv_key v') = 64 \<and> broker_inv (sv_events v') \<and>
    (OwnerCloses \<in> set calls \<longrightarrow> sc_closed (sv_scope v') \<and> sc_items (sv_scope v') = {} \<and> sv_accepted v' = [])"
proof -
  have ok: "service_ok v'" by (rule service_ok_turns [OF assms(2,1)])
  have "r \<notin> set (sv_accepted v')" if "map_of (sv_ports v') p = Some b" "sp_resource b = Some r" for p b r
    using ok that unfolding service_ok_def port_resource_def by (metis bind.bind_lunit)
  moreover have acc: "set (sv_accepted v') \<subseteq> sc_items (sv_scope v')" using ok by (auto simp: service_ok_def)
  moreover have "sc_items (sv_scope v') = {} \<and> sv_accepted v' = []" if "sc_closed (sv_scope v')"
    using that acc service_okD(1) [OF ok] by (simp add: scope_ok_def)
  ultimately show ?thesis using ok service_turns_frame [OF assms(2,1)]
    by (simp add: service_ok_def onionServiceKeySize_def)
qed

lemma sample_accepts: "possible (CallAccept (Inr 9)) sample_service" "sv_accepted (snd (Accept (\<lambda>_. None) (Inr 9) sample_service)) = [9]"
  by (simp_all add: sample_service_def new_service_def held_scope_def newScope_def key_closer_def events_closer_def Accept_def
      accept_enter_def accept_leave_def trackAccepted_def track_count_def track_register_def scope_add_def)

theorem service_well_formed_witness:
  "\<exists>v'. service_turns (\<lambda>_. None) [CallAccept (Inr 9), GotPublication (PublicationEvent PublicationPublished []), CallCloseConn 9, OwnerCloses]
       sample_service = Some v' \<and> map fst (sv_ports v') = [80, 443] \<and> sv_accepted v' = [] \<and> sc_items (sv_scope v') = {}"
proof -
  let ?calls = "[CallAccept (Inr 9), GotPublication (PublicationEvent PublicationPublished []), CallCloseConn 9, OwnerCloses]"
  obtain v' where r: "service_turns (\<lambda>_. None) ?calls sample_service = Some v'" using sample_accepts by simp
  from service_well_formed [OF sample_service_ok r] have "sv_ports v' = sv_ports sample_service" "sv_accepted v' = []" "sc_items (sv_scope v') = {}"
    by simp_all
  with r show ?thesis by (simp add: sample_service_def)
qed

end
