(* ===== verification/Tor_Views.thy ===== *)
theory Tor_Views
  imports Tor_Service
begin

text \<open>
  The wrappers around connections (scope.go, proxy.go, service.go): owned connections, the
  pairs of the proxy, accepted connections, and the TCP view that passes the TCP options
  on to the connection underneath.
\<close>

section \<open>Wrapped connections\<close>

text \<open>A connection made outside is given by its number. A wrapper has the methods of
  \<^verbatim>\<open>net.Conn\<close> only, because it embeds that interface.\<close>

datatype net_conn = Outer nat | ownedConn net_conn nat | proxyPair net_conn nat | serviceConn net_conn nat

datatype tcp_method =
  CloseReadM | CloseWriteM | SetKeepAliveM | SetKeepAliveConfigM | SetKeepAlivePeriodM | SetLingerM | SetNoDelayM

record keep_alive_config =
  ka_Enable :: bool
  ka_Idle :: int
  ka_Interval :: int
  ka_Count :: int

datatype tcp_call =
    CloseRead | CloseWrite | SetKeepAlive bool | SetKeepAliveConfig keep_alive_config
  | SetKeepAlivePeriod int | SetLinger int | SetNoDelay bool

fun method_of :: "tcp_call \<Rightarrow> tcp_method" where
  "method_of CloseRead = CloseReadM"
| "method_of CloseWrite = CloseWriteM"
| "method_of (SetKeepAlive _) = SetKeepAliveM"
| "method_of (SetKeepAliveConfig _) = SetKeepAliveConfigM"
| "method_of (SetKeepAlivePeriod _) = SetKeepAlivePeriodM"
| "method_of (SetLinger _) = SetLingerM"
| "method_of (SetNoDelay _) = SetNoDelayM"

text \<open>The connections outside: the TCP methods that each has, and what a call returns.\<close>

record outside =
  os_methods :: "nat \<Rightarrow> tcp_method set"
  os_answer :: "nat \<Rightarrow> tcp_call \<Rightarrow> goerr option"

text \<open>The type assertion: the connection whose method is called.\<close>

fun has_method :: "outside \<Rightarrow> net_conn \<Rightarrow> tcp_method \<Rightarrow> nat option" where
  "has_method os (Outer i) m = (if m \<in> os_methods os i then Some i else None)"
| "has_method os (ownedConn _ _) m = None"
| "has_method os (proxyPair _ _) m = None"
| "has_method os (serviceConn _ _) m = None"

section \<open>The TCP view\<close>

fun view_raw :: "net_conn \<Rightarrow> net_conn" where
  "view_raw (ownedConn c _) = c"
| "view_raw c = c"

text \<open>A call on the view: its result, and the call that is made outside.\<close>

definition tcpView_call :: "outside \<Rightarrow> net_conn \<Rightarrow> tcp_call \<Rightarrow> goerr option \<times> (nat \<times> tcp_call) option" where
  "tcpView_call os c call =
    (case has_method os (view_raw c) (method_of call) of
       Some i \<Rightarrow> (os_answer os i call, Some (i, call))
     | None \<Rightarrow> (Some (Sentinel ErrUnsupported), None))"

text \<open>\<^verbatim>\<open>AcceptTCP\<close>: the view of the accepted connection.\<close>

definition AcceptTCP :: "close_results \<Rightarrow> nat res \<Rightarrow> service \<Rightarrow> net_conn res \<times> service" where
  "AcceptTCP cr conn v =
    (case Accept cr conn v of
       (Inl e, v1) \<Rightarrow> (Inl e, v1)
     | (Inr c, v1) \<Rightarrow> (Inr (serviceConn (Outer c) c), v1))"

section \<open>The half-close of the proxy\<close>

fun unwrapProxy :: "net_conn \<Rightarrow> net_conn" where
  "unwrapProxy (proxyPair c _) = unwrapProxy c"
| "unwrapProxy (ownedConn c _) = unwrapProxy c"
| "unwrapProxy c = c"

text \<open>Whether a copy to the connection ends with a half-close.\<close>

definition half_closes :: "outside \<Rightarrow> net_conn \<Rightarrow> bool" where
  "half_closes os dst \<longleftrightarrow> has_method os (unwrapProxy dst) CloseWriteM \<noteq> None"

lemma unwrapProxy_inner: "unwrapProxy c \<noteq> proxyPair d r \<and> unwrapProxy c \<noteq> ownedConn d r"
  by (induction c rule: unwrapProxy.induct) simp_all

lemma unwrapProxy_idem [simp]: "unwrapProxy (unwrapProxy c) = unwrapProxy c"
  by (induction c rule: unwrapProxy.induct) simp_all

lemma pair_half_closes:
  "half_closes os (proxyPair (ownedConn (Outer i) r) inc) \<longleftrightarrow> CloseWriteM \<in> os_methods os i"
  by (simp add: half_closes_def)

text \<open>An owned connection passes every option on to the connection that it owns.\<close>

lemma owned_passes_options:
  assumes "method_of call \<in> os_methods os i"
  shows "tcpView_call os (ownedConn (Outer i) r) call = (os_answer os i call, Some (i, call))"
  using assms by (simp add: tcpView_call_def)

text \<open>
  An accepted connection passes none on, although the connection underneath has the
  method: the view looks through owned connections only.
\<close>

lemma accepted_loses_options:
  assumes "AcceptTCP cr conn v = (Inr c, v')"
  shows "tcpView_call os c call = (Some (Sentinel ErrUnsupported), None)"
  using assms by (auto simp: AcceptTCP_def tcpView_call_def split: prod.splits sum.splits)

end
