(* ===== verification/Spec2Isabelle.thy ===== *)
theory Spec2Isabelle
  imports Tor_Config_Proofs Tor_Render_Proofs Tor_Auth Tor_Events_Proofs Tor_Scope_Proofs Tor_Scope_Locks Tor_Gate_Proofs Tor_Proxy_Proofs Tor_Identity_Proofs Tor_Log_Proofs Tor_Driver_Proofs Tor_Bridges_Proofs Tor_Driver_Events_Proofs Tor_Start_Proofs Tor_Torrc Tor_Network_Proofs Tor_Service_Turns Tor_Views
begin

text \<open>
  A verification library for tor-driver, a Go package that runs one Tor process inside a
  sandbox and offers client networks and onion services over it.

  \<^bold>\<open>The program.\<close> \<^verbatim>\<open>Start\<close> (driver.go) validates a configuration (config.go), opens a local SOCKS5
  proxy (proxy.go) through which alone Tor reaches the outside, writes a torrc that names this
  proxy, starts Tor in the sandbox, authenticates to its control port (internal/control), lets Tor
  confirm the proxy, and only then enables the network. The proxy dials through the outbound
  gate (proxy.go), which holds the network of the application and fails closed when that is replaced
  or lost. A running driver publishes events (events.go, driver_events.go), filters the log
  (driver.go), changes bridges, makes client networks (network.go) that dial through Tor's
  SOCKS listener with isolation, makes onion services (service.go), and stores credentials
  for protected services (client_auth.go, identity.go). Everything that is opened is
  registered with a scope (scope.go), and closing an owner closes what it holds.

  \<^bold>\<open>Layout.\<close> One or two theories per part, definitions first, proofs in the theory with the suffix
  \<open>_Proofs\<close> where they are long.

  \<^item> \<open>Go_Prelude\<close>, \<open>Go_Strings\<close>, \<open>Go_Strconv\<close>, \<open>Go_Encoding\<close>, \<open>Go_Base32\<close>, \<open>Go_Netip\<close>: the parts of
    the Go language and library that the sources use: machine integers as words, error values with
    \<^verbatim>\<open>errors.Is\<close>, \<^verbatim>\<open>errors.As\<close> and \<^verbatim>\<open>errors.Join\<close>, strings as bytes with their runes, printing and parsing of
    numbers, hex, base64 and base32 (instances of the locale \<open>text_codec\<close>), addresses and endpoints.
  \<^item> \<open>Tor_Api\<close>, \<open>Tor_Config\<close> (api.go, config.go): the configuration, \<^verbatim>\<open>validate\<close>,
    \<^verbatim>\<open>validateBridgeConfig\<close>, \<^verbatim>\<open>renderConfig\<close>. \<open>Tor_Config_Proofs\<close> and \<open>Tor_Render_Proofs\<close>: what a validated
    configuration satisfies, and which options of its torrc can contain a line feed.
  \<^item> \<open>Tor_Control\<close>, \<open>Tor_Client\<close>, \<open>Tor_Auth\<close> (internal/control/client.go): the framing of replies and events,
    the client as a step relation with one rule for each atomic action of the read loop and of
    the callers, the request operation, and SAFECOOKIE. Proofs: the reader recovers what was
    printed and accepts only bounded replies, a caller gets the reply to its own command
    under every interleaving, whole commands on the wire, the sequential operation as a run of
    the concurrent client, no response before the server's proof.
  \<^item> \<open>Tor_Events\<close> (events.go): event values, the broker with bounded channels, the parser of status events;
    the locale \<open>recent_feed\<close> is the contract of a bounded history, interpreted on the
    channels and on the driver's list of recent events.
  \<^item> \<open>Tor_Scope\<close>, \<open>Tor_Scope_Locks\<close>, \<open>Tor_Views\<close> (scope.go): scopes as functions and as a step relation
    whose rules are the critical sections; the locale \<open>lifecycle\<close> is the contract that owners
    rely on. \<open>Tor_Scope_Locks\<close> has the mutex, the \<^verbatim>\<open>sync.Once\<close> and the place of every caller in the
    state, so that a caller can block, and shows that all calls end. The wrappers of
    connections and the TCP options that they pass on.
  \<^item> \<open>Tor_Gate\<close>, \<open>Tor_Proxy\<close> (proxy.go): epochs, replacement, dialing and failure of the gate, its
    interleavings; the SOCKS server from the authentication to the relay and its accept loop.
  \<^item> \<open>Tor_Identity\<close> (identity.go): service keys and client authorization keys with their text forms.
  \<^item> \<open>Tor_Log\<close> (driver.go, \<^verbatim>\<open>torLogWriter\<close>): redaction line by line.
  \<^item> \<open>Tor_Driver\<close>, \<open>Tor_Bridges\<close>, \<open>Tor_Driver_Events\<close>, \<open>Tor_Start\<close> (driver.go, driver_events.go,
    client_auth.go): the state as a record of the parts above, commands, events, \<^verbatim>\<open>SetBridges\<close>
    with rollback, \<^verbatim>\<open>Close\<close>, the handlers of control events, and \<^verbatim>\<open>Start\<close> as a sequence of stages in an
    error and state monad. \<open>Tor_Torrc\<close>: the lines of the torrc that a start writes.
  \<^item> \<open>Tor_Network\<close> (network.go): isolation names, the SOCKS operation, \<^verbatim>\<open>Dial\<close> and the lookups.
  \<^item> \<open>Tor_Service\<close> (service.go): the state and every operation of an onion service. \<open>Tor_Onion_Command\<close>: the
    words of \<^verbatim>\<open>ADD_ONION\<close>. \<open>Tor_Service_Proofs\<close> and \<open>Tor_Service_Calls\<close>: the invariant,
    the agreement of the service with Tor over every call, which calls return, and two calls that
    do not do what they are meant to. \<open>Tor_Service_New\<close>: creation is all or nothing.
    \<open>Tor_Service_End\<close>: closing and draining release everything. \<open>Tor_Service_Accept\<close>: accepting
    under concurrency. \<open>Tor_Service_Turns\<close>: well-formedness over all sequences of calls, and
    \<open>lifecycle\<close> interpreted on a service as the owner of resources.

  \<^bold>\<open>How the code is rendered.\<close> A struct is a record, an enumeration that may hold any byte until it is
  validated is a word, and an error is a value of \<open>goerr\<close>; a fallible function returns a sum with the error on the
  left. A mutable object is passed and returned. Connections, listeners and closers are
  numbers; what closing them returns is an argument (\<open>close_results\<close>). What the code does to the outside is
  recorded in order as \<open>effect\<close> values. Where goroutines share an object, an inductive relation
  describes their interleaving, and the theorems hold for all its runs.

  \<^bold>\<open>How fine the steps are.\<close> In \<open>Tor_Scope_Locks\<close> a step is an operation on the mutex, one access under
  it, or the call or return of a closer. In \<open>sstep\<close> (\<open>Tor_Scope\<close>) a step is a whole critical section, with the mutex
  left out of the state. The other relations are coarser in places. \<open>gstep\<close> (\<open>Tor_Gate\<close>) splits a
  replacement and a dial where they leave the gate to call the network, but retiring an epoch,
  attaching a network and the end of a dial are one step each although the code takes more
  than one lock there. \<open>astep\<close> (\<open>Tor_Service_Accept\<close>) closes the scope of a connection and
  removes it from its owner in one step. In \<open>cstep\<close> (\<open>Tor_Client\<close>) the read loop takes a whole reply, with the
  events before it, in one step. \<open>pserver\<close> (\<open>Tor_Proxy\<close>) has the running handlers in
  place of the tokens in the channel that limits them. \<^verbatim>\<open>publishDriverEvent\<close> is composed of its two critical sections,
  \<open>remember_event\<close> and \<open>broadcast_event\<close>; the operations of the driver run them one after the
  other, and \<open>Tor_Driver_Proofs\<close> shows what a subscriber that comes between them receives.

  \<^bold>\<open>Parameters.\<close> Tor is a function that answers a command with a reply or an error and a new state; what
  a theorem uses of Tor is a named predicate in its hypotheses (\<open>tor_network\<close>, \<open>onion_daemon\<close>,
  \<open>onion_ids\<close>, \<open>documented_tor\<close>), with a concrete daemon in the witness. The sandbox library gobox (names,
  paths, listeners, files), the SOCKS client library, the key store, random numbers, HMAC-SHA256, SHA-256, SHA-512,
  X25519 and the case tables of Unicode beyond ASCII are parameters too.

  \<^bold>\<open>Loops and termination.\<close> All loops are total functions: over lists, or over the remaining input, whose
  length decreases. There is no fuel. A call that waits (\<^verbatim>\<open>WaitReady\<close>, \<^verbatim>\<open>WaitPublished\<close>, \<^verbatim>\<open>waitAccepted\<close>) takes the list of
  the events that wake it, and yields \<^const>\<open>None\<close> when it still waits after them. An operation of a service that waits for
  a mutex that it holds itself yields \<^const>\<open>None\<close>; \<open>Tor_Service_Calls\<close> shows when the calls return
  and when they hang.

  \<^bold>\<open>Not modelled.\<close> \<^verbatim>\<open>NopLogger\<close> (logger.go) has empty methods. file_error_windows.go compares two error codes of the
  Windows library. e2e_support.go is built for tests only. The examples call the public
  operations. Timers are events or arguments: no property speaks of how long something takes.
  The contents of streams that the proxy and the TCP view copy are not modelled, only who
  is connected to whom and what is closed. The interface types of gonnect that reject operations
  have no code here.
\<close>

end
